(* ===== verification/Prelude.thy ===== *)
theory Prelude
  imports Main "HOL-Library.Word"
begin

text \<open>
  Shared vocabulary of the development: bytes and Go strings, the functions of Go's
  \<^verbatim>\<open>strings\<close>, \<^verbatim>\<open>bytes\<close>, \<^verbatim>\<open>strconv\<close> and \<^verbatim>\<open>encoding/binary\<close> packages that the program
  calls, and the list and option lemmas that several components use.
  A Go \<^verbatim>\<open>string\<close> is a HOL \<open>string\<close> (one \<open>char\<close> per byte); network data (\<^verbatim>\<open>[]byte\<close>)
  is a list of 8-bit words. A Go run-time panic is the value \<open>None\<close> of an option.
\<close>

type_synonym byte = "8 word"
type_synonym bytes = "byte list"

named_theorems go_simps \<open>defining equations of the Go library functions\<close>
named_theorems io_simps \<open>equations of the effectful operations\<close>

section \<open>Searching and splitting (strings, bytes)\<close>

text \<open>\<^verbatim>\<open>strings.IndexByte\<close> and \<^verbatim>\<open>strings.LastIndexByte\<close>; \<open>None\<close> is Go's -1.\<close>

fun index_byte :: "'a \<Rightarrow> 'a list \<Rightarrow> nat option" where
  "index_byte c [] = None"
| "index_byte c (x # xs) = (if x = c then Some 0 else map_option Suc (index_byte c xs))"

fun last_index_byte :: "'a \<Rightarrow> 'a list \<Rightarrow> nat option" where
  "last_index_byte c [] = None"
| "last_index_byte c (x # xs) =
     (case last_index_byte c xs of
        Some j \<Rightarrow> Some (Suc j)
      | None \<Rightarrow> if x = c then Some 0 else None)"

definition has_prefix :: "'a list \<Rightarrow> 'a list \<Rightarrow> bool" where
  "has_prefix s p \<longleftrightarrow> take (length p) s = p"

text \<open>\<^verbatim>\<open>strings.Split\<close> with a one-byte separator: never empty.\<close>

fun split_on :: "'a \<Rightarrow> 'a list \<Rightarrow> 'a list list" where
  "split_on c [] = [[]]"
| "split_on c (x # xs) =
     (if x = c then [] # split_on c xs
      else (case split_on c xs of [] \<Rightarrow> [[x]] | y # ys \<Rightarrow> (x # y) # ys))"

fun join_with :: "'a list \<Rightarrow> 'a list list \<Rightarrow> 'a list" where
  "join_with sep [] = []"
| "join_with sep [x] = x"
| "join_with sep (x # y # ys) = x @ sep @ join_with sep (y # ys)"

lemma index_byte_None [simp]: "index_byte c xs = None \<longleftrightarrow> c \<notin> set xs"
  by (induction xs) auto

lemma index_byte_SomeD:
  "index_byte c xs = Some j \<Longrightarrow> j < length xs \<and> xs ! j = c \<and> c \<notin> set (take j xs)"
  by (induction xs arbitrary: j) (auto split: if_splits)

lemma index_byte_append:
  "c \<notin> set xs \<Longrightarrow> index_byte c (xs @ c # ys) = Some (length xs)"
  by (induction xs) auto

lemma last_index_byte_None: "last_index_byte c xs = None \<longleftrightarrow> c \<notin> set xs"
  by (induction xs) (auto split: option.splits)

lemma last_index_byte_absent [simp]: "c \<notin> set xs \<Longrightarrow> last_index_byte c xs = None"
  by (simp add: last_index_byte_None)

lemma last_index_byte_present: "c \<in> set xs \<Longrightarrow> \<exists>j. last_index_byte c xs = Some j"
  using last_index_byte_None [of c xs] by (metis option.exhaust)

lemma last_index_byte_SomeD:
  "last_index_byte c xs = Some j \<Longrightarrow>
     j < length xs \<and> xs ! j = c \<and> c \<notin> set (drop (Suc j) xs)"
  by (induction xs arbitrary: j) (auto simp: last_index_byte_None split: option.splits if_splits)

lemma last_index_byte_split:
  assumes "last_index_byte c xs = Some j"
  shows "xs = take j xs @ c # drop (Suc j) xs"
proof -
  from last_index_byte_SomeD [OF assms] have j: "j < length xs" and c: "xs ! j = c" by auto
  from id_take_nth_drop [OF j] show ?thesis unfolding c .
qed

lemma last_index_byte_append:
  "c \<notin> set ys \<Longrightarrow> last_index_byte c (xs @ c # ys) = Some (length xs)"
proof (induction xs)
  case Nil
  then show ?case by simp
next
  case (Cons x xs)
  then show ?case by simp
qed

lemma has_prefix_append [simp]: "has_prefix (p @ s) p"
  by (simp add: has_prefix_def)

lemma has_prefix_appendD: "has_prefix s (p @ q) \<Longrightarrow> has_prefix s p"
  by (metis append_eq_conv_conj append_take_drop_id has_prefix_def append_assoc)

lemma has_prefixD: "has_prefix s p \<Longrightarrow> s = p @ drop (length p) s"
  by (metis append_take_drop_id has_prefix_def)

lemma has_prefix_Cons [simp]: "has_prefix (x # s) [c] \<longleftrightarrow> x = c"
  by (simp add: has_prefix_def)

lemma has_prefix_Nil [simp]: "has_prefix [] [c] \<longleftrightarrow> False"
  by (simp add: has_prefix_def)

lemma split_on_not_Nil [simp]: "split_on c xs \<noteq> []"
  by (induction xs) (auto split: list.splits)

lemma join_with_split_on: "join_with [c] (split_on c xs) = xs"
proof (induction xs)
  case Nil
  then show ?case by simp
next
  case (Cons x xs)
  obtain y ys where s: "split_on c xs = y # ys"
    by (cases "split_on c xs") auto
  then show ?case
    using Cons by (cases ys) auto
qed

lemma split_on_no_sep: "y \<in> set (split_on c xs) \<Longrightarrow> c \<notin> set y"
proof (induction xs arbitrary: y)
  case Nil
  then show ?case by simp
next
  case (Cons x xs)
  obtain z zs where s: "split_on c xs = z # zs"
    by (cases "split_on c xs") auto
  with Cons show ?case by (auto split: if_splits)
qed

lemma split_on_id: "c \<notin> set xs \<Longrightarrow> split_on c xs = [xs]"
  by (induction xs) auto

lemma split_on_append:
  "c \<notin> set xs \<Longrightarrow> split_on c (xs @ c # ys) = xs # split_on c ys"
  by (induction xs) auto

section \<open>Decimal and hexadecimal text (strconv)\<close>

definition digit_char :: "nat \<Rightarrow> char" where
  "digit_char d = char_of (48 + d)"

definition is_digit :: "char \<Rightarrow> bool" where
  "is_digit c \<longleftrightarrow> 48 \<le> (of_char c :: nat) \<and> (of_char c :: nat) \<le> 57"

definition digit_val :: "char \<Rightarrow> nat" where
  "digit_val c = of_char c - 48"

fun show_nat :: "nat \<Rightarrow> string" where
  "show_nat n = (if n < 10 then [digit_char n] else show_nat (n div 10) @ [digit_char (n mod 10)])"

declare show_nat.simps [simp del]

definition show_int :: "int \<Rightarrow> string" where
  "show_int i = (if i < 0 then ''-'' @ show_nat (nat (- i)) else show_nat (nat i))"

definition read_digits :: "string \<Rightarrow> nat" where
  "read_digits s = foldl (\<lambda>a c. a * 10 + digit_val c) 0 s"

lemma digit_char_simps [simp]:
  assumes "d < 10"
  shows "is_digit (digit_char d)" and "digit_val (digit_char d) = d"
  using assms by (simp_all add: is_digit_def digit_char_def digit_val_def)

lemma show_nat_not_Nil [simp]: "show_nat n \<noteq> []"
  by (subst show_nat.simps) simp

lemma show_nat_digits: "c \<in> set (show_nat n) \<Longrightarrow> is_digit c"
proof (induction n rule: show_nat.induct)
  case (1 n)
  then show ?case by (auto simp: show_nat.simps [of n] split: if_splits)
qed

lemma read_show_nat [simp]: "read_digits (show_nat n) = n"
proof (induction n rule: show_nat.induct)
  case (1 n)
  then show ?case
    by (cases "n < 10") (auto simp: show_nat.simps [of n] read_digits_def)
qed

lemma show_nat_inj: "show_nat m = show_nat n \<Longrightarrow> m = n"
  by (metis read_show_nat)

text \<open>The hexadecimal digits of \<^verbatim>\<open>internal/fmt\<close> and of \<^verbatim>\<open>strconv\<close>.\<close>

definition hex_digit :: "nat \<Rightarrow> char" where
  "hex_digit d = ''0123456789abcdef'' ! d"

lemma hex_digit_inj:
  assumes "d < 16" and "e < 16" and "hex_digit d = hex_digit e"
  shows "d = e"
proof -
  have dist: "distinct ''0123456789abcdef''" by simp
  have len: "length ''0123456789abcdef'' = 16" by simp
  show ?thesis
    using nth_eq_iff_index_eq [OF dist] assms unfolding hex_digit_def len by metis
qed

section \<open>Big-endian integers (encoding/binary)\<close>

definition be16 :: "byte \<Rightarrow> byte \<Rightarrow> nat" where
  "be16 hi lo = unat hi * 256 + unat lo"

definition put_be16 :: "nat \<Rightarrow> bytes" where
  "put_be16 n = [of_nat (n div 256), of_nat n]"

lemma unat_byte_less [simp]: "unat (b :: byte) < 256"
  using unsigned_less [of b, where ?'a = nat] by simp

lemma be16_bound: "be16 hi lo < 65536"
  using unat_byte_less [of hi] unat_byte_less [of lo] unfolding be16_def by linarith

lemma unat_of_nat_byte [simp]: "unat (of_nat n :: byte) = n mod 256"
  by (simp add: unat_of_nat)

lemma put_be16_length [simp]: "length (put_be16 n) = 2"
  by (simp add: put_be16_def)

lemma be16_put: "n < 65536 \<Longrightarrow> be16 (put_be16 n ! 0) (put_be16 n ! 1) = n"
  by (simp add: be16_def put_be16_def)

section \<open>Indexing that may panic\<close>

text \<open>\<open>xs[i]\<close> and \<open>xs[a:b]\<close> of Go: \<open>None\<close> where Go panics.\<close>

definition idx :: "'a list \<Rightarrow> nat \<Rightarrow> 'a option" where
  "idx xs i = (if i < length xs then Some (xs ! i) else None)"

definition slice :: "'a list \<Rightarrow> nat \<Rightarrow> nat \<Rightarrow> 'a list option" where
  "slice xs a b = (if a \<le> b \<and> b \<le> length xs then Some (take (b - a) (drop a xs)) else None)"

definition be16_at :: "bytes \<Rightarrow> nat \<Rightarrow> nat option" where
  "be16_at xs i = (if i + 2 \<le> length xs then Some (be16 (xs ! i) (xs ! Suc i)) else None)"

lemma idx_Some [go_simps]: "i < length xs \<Longrightarrow> idx xs i = Some (xs ! i)"
  by (simp add: idx_def)

lemma slice_Some [go_simps]:
  "a \<le> b \<Longrightarrow> b \<le> length xs \<Longrightarrow> slice xs a b = Some (take (b - a) (drop a xs))"
  by (simp add: slice_def)

lemma be16_at_Some [go_simps]:
  "i + 2 \<le> length xs \<Longrightarrow> be16_at xs i = Some (be16 (xs ! i) (xs ! Suc i))"
  by (simp add: be16_at_def)

lemma slice_concat:
  "a \<le> b \<Longrightarrow> b \<le> length xs \<Longrightarrow> take a xs @ the (slice xs a b) @ drop b xs = xs"
  by (simp add: slice_def) (metis append_take_drop_id drop_drop le_add_diff_inverse2)

section \<open>Computations that return\<close>

text \<open>\<open>succeeds m P\<close>: \<open>m\<close> does not panic and its value satisfies \<open>P\<close>.\<close>

definition succeeds :: "'a option \<Rightarrow> ('a \<Rightarrow> bool) \<Rightarrow> bool" where
  "succeeds m P \<longleftrightarrow> (\<exists>a. m = Some a \<and> P a)"

named_theorems succ \<open>rules for what a computation returns\<close>

lemma succeeds_Some [succ]: "succeeds (Some a) P \<longleftrightarrow> P a"
  by (simp add: succeeds_def)

lemma succeeds_if [succ]:
  "succeeds (if b then x else y) P \<longleftrightarrow> (b \<longrightarrow> succeeds x P) \<and> (\<not> b \<longrightarrow> succeeds y P)"
  by simp

lemma succeeds_bind [succ]: "succeeds (Option.bind m f) P \<longleftrightarrow> succeeds m (\<lambda>a. succeeds (f a) P)"
  by (cases m) (simp_all add: succeeds_def)

lemma succeeds_idx [succ]: "succeeds (idx xs i) P \<longleftrightarrow> i < length xs \<and> P (xs ! i)"
  by (simp add: succeeds_def idx_def)

lemma succeeds_be16_at [succ]:
  "succeeds (be16_at xs i) P \<longleftrightarrow> i + 2 \<le> length xs \<and> P (be16 (xs ! i) (xs ! Suc i))"
  by (simp add: succeeds_def be16_at_def)

lemma succeeds_slice [succ]:
  "succeeds (slice xs a b) P \<longleftrightarrow> a \<le> b \<and> b \<le> length xs \<and> P (take (b - a) (drop a xs))"
  by (auto simp: succeeds_def slice_def)

lemma succeeds_mono: "succeeds m P \<Longrightarrow> (\<And>a. P a \<Longrightarrow> Q a) \<Longrightarrow> succeeds m Q"
  by (auto simp: succeeds_def)

section \<open>The first value found\<close>

fun first_some :: "('a \<Rightarrow> 'b option) \<Rightarrow> 'a list \<Rightarrow> 'b option" where
  "first_some f [] = None"
| "first_some f (x # xs) = (case f x of Some y \<Rightarrow> Some y | None \<Rightarrow> first_some f xs)"

lemma first_some_append:
  "first_some f (xs @ ys) = (case first_some f xs of Some y \<Rightarrow> Some y | None \<Rightarrow> first_some f ys)"
  by (induction xs) (auto split: option.splits)

lemma first_some_map: "first_some f (map g xs) = first_some (f \<circ> g) xs"
  by (induction xs) (auto split: option.splits)

lemma first_some_None: "first_some f xs = None \<longleftrightarrow> (\<forall>x \<in> set xs. f x = None)"
  by (induction xs) (auto split: option.splits)

lemma first_some_SomeD: "first_some f xs = Some y \<Longrightarrow> \<exists>x \<in> set xs. f x = Some y"
  by (induction xs) (auto split: option.splits)

lemma first_some_cong: "(\<And>x. x \<in> set xs \<Longrightarrow> f x = g x) \<Longrightarrow> first_some f xs = first_some g xs"
  by (induction xs) (auto split: option.splits)

section \<open>A measure of a list\<close>

lemma sum_list_map_update:
  fixes f :: "'a \<Rightarrow> nat"
  shows "i < length xs \<Longrightarrow> sum_list (map f (xs[i := x])) + f (xs ! i) = sum_list (map f xs) + f x"
  using member_le_sum_list [of "f (xs ! i)" "map f xs"] by (simp add: map_update sum_list_update)

end
