(* ===== verification/Ring.thy ===== *)
theory Ring
  imports Prelude
begin

text \<open>
  Doubly linked rings of array positions, as \<^verbatim>\<open>internal/freelru\<close> uses them twice: for the
  order of use and for the entries of one hash bucket. \<open>f\<close> and \<open>g\<close> read the two links
  of a position. The lemmas say what the pointer updates of the cache do to the list of
  positions a ring goes through.
\<close>

fun chain :: "(nat \<Rightarrow> nat) \<Rightarrow> (nat \<Rightarrow> nat) \<Rightarrow> nat list \<Rightarrow> bool" where
  "chain f g (a # b # xs) = (f a = b \<and> g b = a \<and> chain f g (b # xs))"
| "chain f g _ = True"

definition ring :: "(nat \<Rightarrow> nat) \<Rightarrow> (nat \<Rightarrow> nat) \<Rightarrow> nat list \<Rightarrow> bool" where
  "ring f g ps \<longleftrightarrow> ps = [] \<or> chain f g (ps @ [hd ps])"

lemma ring_Nil [simp]: "ring f g []"
  by (simp add: ring_def)

lemma ring_single [simp]: "ring f g [a] \<longleftrightarrow> f a = a \<and> g a = a"
  by (simp add: ring_def)

lemma ring_Cons: "ring f g (a # xs) \<longleftrightarrow> chain f g (a # xs @ [a])"
  by (simp add: ring_def)

lemma chain_append:
  "chain f g (xs @ a # ys) \<longleftrightarrow> chain f g (xs @ [a]) \<and> chain f g (a # ys)"
proof (induction xs)
  case Nil
  then show ?case by simp
next
  case (Cons x xs)
  then show ?case by (cases xs) auto
qed

lemma chain_snoc: "chain f g (xs @ [a, b]) \<longleftrightarrow> chain f g (xs @ [a]) \<and> f a = b \<and> g b = a"
  using chain_append [of f g xs a "[b]"] by simp

lemma chain_upd:
  "u \<notin> set (butlast xs) \<Longrightarrow> chain (f(u := v)) g xs = chain f g xs"
  "u \<notin> set (tl xs) \<Longrightarrow> chain f (g(u := v)) xs = chain f g xs"
  by (induction f g xs rule: chain.induct) auto

lemma chain_cong:
  "(\<And>x. x \<in> set (butlast xs) \<Longrightarrow> f x = f' x) \<Longrightarrow> (\<And>x. x \<in> set (tl xs) \<Longrightarrow> g x = g' x) \<Longrightarrow>
     chain f g xs = chain f' g' xs"
  by (induction f g xs rule: chain.induct) auto

lemma ring_cong:
  assumes "\<And>x. x \<in> set ps \<Longrightarrow> f x = f' x" and "\<And>x. x \<in> set ps \<Longrightarrow> g x = g' x"
  shows "ring f g ps = ring f' g' ps"
proof (cases ps)
  case (Cons a xs)
  then show ?thesis
    unfolding Cons ring_Cons by (intro chain_cong) (use assms Cons in \<open>auto simp: butlast_append\<close>)
qed simp

lemma ring_rotate1: "ring f g (a # xs) \<longleftrightarrow> ring f g (xs @ [a])"
proof (cases xs)
  case (Cons b ys)
  have "chain f g (b # ys @ [a, b]) \<longleftrightarrow> chain f g (b # ys @ [a]) \<and> f a = b \<and> g b = a"
    using chain_snoc [of f g "b # ys" a b] by simp
  with Cons show ?thesis by (auto simp: ring_def)
qed simp

lemma ring_rotate: "ring f g (xs @ ys) \<longleftrightarrow> ring f g (ys @ xs)"
proof (induction xs arbitrary: ys)
  case (Cons a xs)
  from Cons.IH [of "ys @ [a]"] show ?case
    using ring_rotate1 [of f g a "xs @ ys"] by simp
qed simp

lemma ring_links:
  assumes "ring f g (a # xs)"
  shows "f a = hd (xs @ [a])" and "g a = last (a # xs)"
proof -
  show "f a = hd (xs @ [a])"
    using assms by (cases xs) (auto simp: ring_Cons)
  show "g a = last (a # xs)"
  proof (cases xs rule: rev_cases)
    case Nil
    then show ?thesis using assms by simp
  next
    case (snoc ys b)
    then show ?thesis
      using assms chain_snoc [of f g "a # ys" b a] by (simp add: ring_Cons)
  qed
qed

lemma ring_closed:
  assumes "ring f g ps" and "p \<in> set ps"
  shows "f p \<in> set ps" and "g p \<in> set ps"
proof -
  from assms(2) obtain xs ys where ps: "ps = xs @ p # ys" by (meson split_list)
  then have r: "ring f g (p # ys @ xs)"
    using assms(1) ring_rotate [of f g xs "p # ys"] by simp
  show "f p \<in> set ps"
    using ring_links(1) [OF r] hd_in_set [of "(ys @ xs) @ [p]"] ps by auto
  show "g p \<in> set ps"
    using ring_links(2) [OF r] last_in_set [of "p # ys @ xs"] ps by auto
qed

text \<open>Taking a position out.\<close>

lemma ring_unlink_hd:
  assumes "ring f g (a # qs)" and "distinct (a # qs)"
  shows "ring (f(g a := f a)) (g(f a := g a)) qs"
proof (cases qs)
  case (Cons b ys)
  obtain zs n where zs: "b # ys = zs @ [n]" by (metis append_butlast_last_id list.discI)
  have fa: "f a = b" and ga: "g a = n"
    using ring_links [OF assms(1)] Cons arg_cong [OF zs, of last] by simp_all
  have "chain f g (b # ys @ [a])"
    using assms(1) Cons by (simp add: ring_Cons)
  moreover have "b # ys @ [a] = zs @ [n, a]" using arg_cong [OF zs, of "\<lambda>l. l @ [a]"] by simp
  ultimately have c: "chain f g (zs @ [n])" by (simp only: chain_snoc)
  have "distinct (zs @ [n])" using assms(2) Cons unfolding zs [symmetric] by simp
  then have "n \<notin> set zs" by simp
  have "tl (zs @ [n]) = ys" using arg_cong [OF zs, of tl] by simp
  then have b: "b \<notin> set (tl (zs @ [n]))" using assms(2) Cons by simp
  have "chain (f(n := b)) (g(b := n)) (zs @ [n])"
    using c b \<open>n \<notin> set zs\<close> by (simp add: chain_upd)
  then have "chain (f(n := b)) (g(b := n)) (zs @ [n, b])"
    by (simp add: chain_snoc)
  moreover have "b # ys @ [b] = zs @ [n, b]" using arg_cong [OF zs, of "\<lambda>l. l @ [b]"] by simp
  ultimately show ?thesis
    by (simp only: Cons ring_Cons fa ga)
qed simp

lemma ring_unlink:
  assumes "ring f g ps" and "distinct ps" and "p \<in> set ps"
  shows "ring (f(g p := f p)) (g(f p := g p)) (remove1 p ps)"
proof -
  from assms(3) obtain xs ys where ps: "ps = xs @ p # ys" and x: "p \<notin> set xs"
    by (meson split_list_first)
  have "ring f g (p # ys @ xs)" using assms(1) ring_rotate [of f g xs "p # ys"] by (simp add: ps)
  moreover have "distinct (p # ys @ xs)" using assms(2) ps by auto
  ultimately have "ring (f(g p := f p)) (g(f p := g p)) (ys @ xs)" by (rule ring_unlink_hd)
  moreover have "remove1 p ps = xs @ ys" using ps x by (simp add: remove1_append)
  ultimately show ?thesis using ring_rotate by metis
qed

text \<open>Putting a position in front of the first one.\<close>

lemma ring_link_hd:
  assumes "ring f g (h # hs)" and "distinct (h # hs)" and "x \<notin> set (h # hs)"
  shows "ring ((f(x := h))(g h := x)) ((g(x := g h))(h := x)) (x # h # hs)"
proof -
  obtain zs t where zs: "h # hs = zs @ [t]" by (metis append_butlast_last_id list.discI)
  have gh: "g h = t" using ring_links(2) [OF assms(1)] zs by (metis last_snoc)
  have c: "chain f g (zs @ [t])"
  proof -
    have "h # hs @ [h] = zs @ [t, h]" using zs by simp
    with assms(1) show ?thesis by (simp only: ring_Cons chain_snoc)
  qed
  have d: "distinct (zs @ [t])" "x \<notin> set (zs @ [t])" using assms(2,3) unfolding zs by blast+
  have tl: "tl (zs @ [t]) = hs" using arg_cong [OF zs, of tl] by simp
  then have "h \<notin> set (tl (zs @ [t]))" using assms(2) by simp
  moreover from d have "t \<notin> set zs" "x \<noteq> t" by auto
  moreover have "x \<notin> set (tl (zs @ [t]))" using assms(3) tl by simp
  ultimately have "chain ((f(x := h))(t := x)) ((g(x := t))(h := x)) (zs @ [t]) = chain f g (zs @ [t])"
    using d by (intro chain_cong) auto
  with c have "chain ((f(x := h))(t := x)) ((g(x := t))(h := x)) (zs @ [t])" by blast
  moreover have "h \<noteq> x" using assms(3) by auto
  ultimately have "chain ((f(x := h))(t := x)) ((g(x := t))(h := x)) (zs @ [t, x])"
    by (simp add: chain_snoc)
  moreover have "h # hs @ [x] = zs @ [t, x]" using arg_cong [OF zs, of "\<lambda>l. l @ [x]"] by simp
  ultimately have "chain ((f(x := h))(t := x)) ((g(x := t))(h := x)) (h # hs @ [x])" by (simp only:)
  then show ?thesis
    using \<open>x \<noteq> t\<close> by (simp add: ring_Cons gh)
qed

text \<open>Renaming a position: the neighbours are redirected, then the links are copied.\<close>

lemma ring_rename_hd:
  assumes "ring f g (a # qs)" and "distinct (a # qs)" and "x \<notin> set (a # qs)"
    and f': "f' = f(g a := x)" and g': "g' = g(f a := x)"
  shows "ring (f'(x := f' a)) (g'(x := g' a)) (x # qs)"
proof (cases qs)
  case Nil
  then show ?thesis using assms by simp
next
  case (Cons b ys)
  obtain zs t where zs: "qs = zs @ [t]" using Cons by (metis append_butlast_last_id list.discI)
  have fa: "f a = b" and ga: "g a = t"
    using ring_links [OF assms(1)] Cons arg_cong [OF zs, of last] by simp_all
  have "chain f g (qs @ [a])" using assms(1) Cons by (simp add: ring_Cons)
  then have c: "chain f g (zs @ [t])" unfolding zs by (simp add: chain_snoc)
  have d: "distinct (zs @ [t])" "x \<notin> set (zs @ [t])" "a \<notin> set (zs @ [t])"
    using assms(2,3) unfolding zs by auto
  have tl: "tl (zs @ [t]) = ys" using arg_cong [OF zs, of tl] Cons by simp
  then have "b \<notin> set (tl (zs @ [t]))" using assms(2) Cons by simp
  with d have nb: "t \<notin> set zs" "b \<notin> set (tl (zs @ [t]))" "x \<noteq> t" "a \<noteq> t" by auto
  have xtl: "x \<notin> set (tl (zs @ [t]))" using assms(3) tl Cons by simp
  have ab: "a \<noteq> b" "x \<noteq> b" using assms(2,3) Cons by auto
  have "chain (f'(x := f' a)) (g'(x := g' a)) (zs @ [t]) = chain f g (zs @ [t])"
    using nb xtl d unfolding f' g' fa ga by (intro chain_cong) auto
  with c have "chain (f'(x := f' a)) (g'(x := g' a)) (zs @ [t])" by blast
  then have "chain (f'(x := f' a)) (g'(x := g' a)) (zs @ [t, x])"
    using nb ab by (simp add: chain_snoc f' g' fa ga)
  moreover have "b # ys @ [x] = zs @ [t, x]" using arg_cong [OF zs, of "\<lambda>l. l @ [x]"] Cons by simp
  ultimately have "chain (f'(x := f' a)) (g'(x := g' a)) (b # ys @ [x])" by (simp only:)
  then show ?thesis
    using nb ab by (simp add: ring_Cons Cons f' g' fa ga)
qed

lemma ring_rename:
  assumes "ring f g ps" and "distinct ps" and "a \<in> set ps" and "x \<notin> set ps"
    and "f' = f(g a := x)" and "g' = g(f a := x)"
  shows "ring (f'(x := f' a)) (g'(x := g' a)) (map (\<lambda>p. if p = a then x else p) ps)"
proof -
  from assms(3) obtain xs ys where ps: "ps = xs @ a # ys" by (meson split_list)
  have d: "a \<notin> set xs" "a \<notin> set ys" using assms(2) ps by auto
  have "ring f g (a # ys @ xs)" using assms(1) ring_rotate [of f g xs "a # ys"] by (simp add: ps)
  then have "ring (f'(x := f' a)) (g'(x := g' a)) (x # ys @ xs)"
    using assms ps by (intro ring_rename_hd [OF _ _ _ assms(5,6)]) auto
  moreover have "map (\<lambda>p. if p = a then x else p) ps = xs @ x # ys"
    using d ps by (auto intro!: map_idI)
  ultimately show ?thesis
    using ring_rotate [of _ _ "x # ys" xs] by simp
qed

lemma ring_upd_other:
  "u \<notin> set ps \<Longrightarrow> ring (f(u := v)) g ps = ring f g ps"
  "u \<notin> set ps \<Longrightarrow> ring f (g(u := v)) ps = ring f g ps"
  by (rule ring_cong; auto)+

end
