(* ===== verification/Errors_Format.thy ===== *)
theory Errors_Format
  imports Prelude
begin

text \<open>
  \<^verbatim>\<open>internal/errors\<close> and \<^verbatim>\<open>internal/fmt\<close>: the error values the program builds and
  wraps, and the text it makes of numbers and identifiers. A Go \<^verbatim>\<open>error\<close> that may be
  \<^verbatim>\<open>nil\<close> is an \<open>error option\<close>; a function returning a value and an error is a sum
  \<open>error + 'a\<close> with \<open>Inl\<close> for a non-nil error.
\<close>

section \<open>Errors\<close>

text \<open>\<open>LibError\<close> is an error made outside the program (the network, the standard library).\<close>

datatype error =
    NewError string
  | OpError string error
  | JoinError "error list"
  | LibError string

type_synonym 'a result = "error + 'a"

fun error_text :: "error \<Rightarrow> string" where
  "error_text (NewError s) = s"
| "error_text (OpError op e) = op @ '': '' @ error_text e"
| "error_text (JoinError es) = join_with ''; '' (map error_text es)"
| "error_text (LibError s) = s"

fun unwrap_error :: "error \<Rightarrow> error list" where
  "unwrap_error (OpError op e) = [e]"
| "unwrap_error (JoinError es) = es"
| "unwrap_error _ = []"

definition with_str :: "string \<Rightarrow> error option \<Rightarrow> error option" where
  "with_str op err = (case err of None \<Rightarrow> None | Some e \<Rightarrow> Some (OpError op e))"

text \<open>The first loop of \<^verbatim>\<open>Join\<close> counts the non-nil errors, the second collects them.\<close>

definition join_errors :: "error option list \<Rightarrow> error option" where
  "join_errors errs =
     (let n = length (filter (\<lambda>e. e \<noteq> None) errs)
      in if n = 0 then None
         else Some (JoinError (map the (filter (\<lambda>e. e \<noteq> None) errs))))"

lemma join_errors_None: "join_errors errs = None \<longleftrightarrow> (\<forall>e \<in> set errs. e = None)"
  by (auto simp: join_errors_def Let_def filter_empty_conv)

text \<open>A joined error is never empty, so its text never reads past the end.\<close>

lemma join_errors_nonempty: "join_errors errs = Some (JoinError es) \<Longrightarrow> es \<noteq> []"
  by (auto simp: join_errors_def Let_def filter_empty_conv split: if_splits)

lemma join_errors_unwrap:
  "join_errors errs = Some e \<Longrightarrow> set (unwrap_error e) = {x. Some x \<in> set errs}"
  by (force simp: join_errors_def Let_def image_iff split: if_splits)

section \<open>Text of values\<close>

text \<open>\<^verbatim>\<open>format.Byte\<close>: two hexadecimal digits.\<close>

definition format_byte :: "byte \<Rightarrow> string" where
  "format_byte b = [hex_digit (unat (drop_bit 4 b)), hex_digit (unat (and b 15))]"

text \<open>\<^verbatim>\<open>format.ConnIDToHex5\<close>: the prefix, then five digits of the identifier in brackets.\<close>

definition conn_id_to_hex5 :: "string \<Rightarrow> 32 word \<Rightarrow> string" where
  "conn_id_to_hex5 pre cid =
     pre @ ''['' @ map (\<lambda>i. hex_digit (unat (and (drop_bit (4 * (4 - i)) cid) 15))) [0..<5] @ '']''"

text \<open>
  \<^verbatim>\<open>format.Append\<close> and \<^verbatim>\<open>format.Concat\<close>: the dynamic type of each argument selects how
  it is written. \<open>AOther\<close> stands for the values left to \<^verbatim>\<open>fmt.Append\<close>, given by their text.
\<close>

datatype any =
    AAppender string
  | AStringer string
  | AError error
  | AString string
  | AInt int
  | AUint nat
  | AOther string

fun append_any :: "string \<Rightarrow> any list \<Rightarrow> string" where
  "append_any b [] = b"
| "append_any b (a # as) =
     append_any
       (case a of
          AAppender s \<Rightarrow> b @ s
        | AStringer s \<Rightarrow> b @ s
        | AError e \<Rightarrow> b @ error_text e
        | AString s \<Rightarrow> b @ s
        | AInt i \<Rightarrow> b @ show_int i
        | AUint n \<Rightarrow> b @ show_nat n
        | AOther s \<Rightarrow> b @ s) as"

definition concat_any :: "any list \<Rightarrow> string" where
  "concat_any args = append_any [] args"

text \<open>\<^verbatim>\<open>errors.NewAny\<close> and \<^verbatim>\<open>errors.WithAny\<close>.\<close>

definition new_any :: "any list \<Rightarrow> error" where
  "new_any args = NewError (concat_any args)"

definition with_any :: "error option \<Rightarrow> any list \<Rightarrow> error option" where
  "with_any err args = (case err of None \<Rightarrow> None | Some e \<Rightarrow> Some (OpError (concat_any args) e))"

lemma append_any_prefix: "append_any b as = b @ concat_any as"
proof -
  have "append_any (b @ c) as = b @ append_any c as" for c
    by (induction as arbitrary: c) (auto split: any.splits)
  from this [of "[]"] show ?thesis by (simp add: concat_any_def)
qed

section \<open>Distinct identifiers give distinct log prefixes\<close>

lemma and_15_mod: "unat (and (w :: 'a::len word) 15) = unat w mod 16"
proof -
  have "and w 15 = take_bit 4 w" by (simp add: take_bit_eq_mask mask_eq_exp_minus_1)
  then have "unat (and w 15) = take_bit 4 (unat w)" by (simp only: unsigned_take_bit_eq)
  then show ?thesis by (simp add: take_bit_eq_mod)
qed

lemma hex_digit_of_nibble:
  "hex_digit (unat (and (drop_bit k a) 15)) = hex_digit (unat (and (drop_bit k b) 15)) \<longleftrightarrow>
   (unat a div 2 ^ k) mod 16 = (unat b div 2 ^ k) mod 16"
  for a b :: "32 word"
proof -
  have "unat (drop_bit k w) = unat w div 2 ^ k" for w :: "32 word"
    by (subst unat_drop_bit_eq) (rule drop_bit_eq_div)
  then show ?thesis
    unfolding and_15_mod using hex_digit_inj [of "_ mod 16" "_ mod 16"] by fastforce
qed

lemma div_by_nibble: "(m :: nat) div k = 16 * (m div (k * 16)) + (m div k) mod 16"
  by (simp add: div_mult2_eq)

lemma nibbles_determine:
  assumes "m < 16 ^ 5" and "n < 16 ^ 5"
    and eq: "\<And>i. i < 5 \<Longrightarrow> (m div 2 ^ (4 * i)) mod 16 = (n div 2 ^ (4 * i)) mod (16 :: nat)"
  shows "m = n"
proof -
  have "m div 65536 = n div 65536"
    using assms(1,2) eq [of 4] by simp
  then have "m div 4096 = n div 4096"
    using div_by_nibble [of m 4096] div_by_nibble [of n 4096] eq [of 3] by simp
  then have "m div 256 = n div 256"
    using div_by_nibble [of m 256] div_by_nibble [of n 256] eq [of 2] by simp
  then have "m div 16 = n div 16"
    using div_by_nibble [of m 16] div_by_nibble [of n 16] eq [of 1] by simp
  then show ?thesis
    using div_by_nibble [of m 1] div_by_nibble [of n 1] eq [of 0] by simp
qed

text \<open>
  Two connection identifiers, both within the 20 bits the counter stays in, that give the
  same log prefix are equal: the five hexadecimal digits keep the whole identifier.
\<close>

lemma conn_id_to_hex5_inj:
  assumes "unat a \<le> 0xfffff" and "unat b \<le> 0xfffff"
    and "conn_id_to_hex5 pre a = conn_id_to_hex5 pre b"
  shows "a = b"
proof -
  have "(unat a div 2 ^ (4 * (4 - i))) mod 16 = (unat b div 2 ^ (4 * (4 - i))) mod 16" if "i < 5" for i
    using assms(3) that by (auto simp: conn_id_to_hex5_def hex_digit_of_nibble)
  note nib = this [of "4 - i" for i]
  have "(unat a div 2 ^ (4 * i)) mod 16 = (unat b div 2 ^ (4 * i)) mod 16" if "i < 5" for i
  proof -
    from that have "4 - (4 - i) = i" by linarith
    with nib [of i] show ?thesis by simp
  qed
  then have "unat a = unat b"
    by (rule nibbles_determine [rotated 2]) (use assms(1,2) in simp_all)
  then show ?thesis by (rule word_unat_eq_iff [THEN iffD2])
qed

end
