(* ===== verification/Free_LRU.thy ===== *)
theory Free_LRU
  imports Ring Errors_Format "HOL-Library.Monad_Syntax"
begin

text \<open>
  \<^verbatim>\<open>internal/freelru/lru.go\<close>: the fixed-size LRU hash map. Entries live in one array;
  \<^verbatim>\<open>next\<close>/\<^verbatim>\<open>prev\<close> link them in order of use and \<^verbatim>\<open>nextBucket\<close>/\<^verbatim>\<open>prevBucket\<close> link the
  entries of one hash bucket, each as a ring of array positions. Positions are natural
  numbers: the invariant keeps them below \<^verbatim>\<open>size\<close>, hence below 2^32 - 1, so no
  \<^verbatim>\<open>uint32\<close> ever wraps. Every array access is checked, \<open>None\<close> being the run-time panic;
  \<^verbatim>\<open>now()\<close> is an argument. \<^verbatim>\<open>onEvict\<close> is left out: its setter is commented out, so it is
  always nil.
\<close>

section \<open>State\<close>

record ('k, 'v) element =
  elKey :: 'k
  elValue :: 'v
  nextBucket :: nat
  prevBucket :: nat
  bucketPos :: nat
  elNext :: nat
  elPrev :: nat
  elExpire :: int

definition emptyBucket :: nat where
  "emptyBucket = 4294967295"

record ('k, 'v) lru =
  buckets :: "nat list"
  elements :: "('k, 'v) element list"
  hashFn :: "'k \<Rightarrow> 32 word"
  emptyKey :: 'k
  emptyValue :: 'v
  lruHead :: nat
  lruLen :: nat
  lruCap :: nat
  lruSize :: nat
  lruMask :: "32 word"

definition elem :: "nat \<Rightarrow> ('k, 'v) lru \<Rightarrow> ('k, 'v) element option" where
  "elem p l = idx (elements l) p"

definition put :: "nat \<Rightarrow> ('k, 'v) element \<Rightarrow> ('k, 'v) lru \<Rightarrow> ('k, 'v) lru" where
  "put p e l = l\<lparr>elements := (elements l)[p := e]\<rparr>"

definition upd_elem :: "nat \<Rightarrow> (('k, 'v) element \<Rightarrow> ('k, 'v) element) \<Rightarrow> ('k, 'v) lru \<Rightarrow> ('k, 'v) lru option" where
  "upd_elem p f l = (case elem p l of None \<Rightarrow> None | Some e \<Rightarrow> Some (put p (f e) l))"

definition get_bucket :: "nat \<Rightarrow> ('k, 'v) lru \<Rightarrow> nat option" where
  "get_bucket b l = idx (buckets l) b"

definition set_bucket :: "nat \<Rightarrow> nat \<Rightarrow> ('k, 'v) lru \<Rightarrow> ('k, 'v) lru option" where
  "set_bucket b p l =
     (if b < length (buckets l) then Some (l\<lparr>buckets := (buckets l)[b := p]\<rparr>) else None)"

section \<open>Construction\<close>

text \<open>\<^verbatim>\<open>bits.OnesCount32\<close>.\<close>

definition ones_count :: "32 word \<Rightarrow> nat" where
  "ones_count w = length (filter (bit w) [0..<32])"

definition zero_element :: "'k \<Rightarrow> 'v \<Rightarrow> ('k, 'v) element" where
  "zero_element k v = \<lparr>elKey = k, elValue = v, nextBucket = 0, prevBucket = 0, bucketPos = 0,
     elNext = 0, elPrev = 0, elExpire = 0\<rparr>"

definition init_lru ::
  "'k \<Rightarrow> 'v \<Rightarrow> nat \<Rightarrow> nat \<Rightarrow> ('k \<Rightarrow> 32 word) \<Rightarrow> ('k, 'v) lru" where
  "init_lru zk zv capacity sz hash =
     \<lparr>buckets = replicate sz emptyBucket,
      elements = replicate sz (zero_element zk zv),
      hashFn = hash, emptyKey = zk, emptyValue = zv,
      lruHead = 0, lruLen = 0, lruCap = capacity, lruSize = sz,
      lruMask = (if ones_count (of_nat sz) = 1 then of_nat sz - 1 else 0)\<rparr>"

definition new_with_size ::
  "'k \<Rightarrow> 'v \<Rightarrow> nat \<Rightarrow> nat \<Rightarrow> ('k \<Rightarrow> 32 word) option \<Rightarrow> error + ('k, 'v) lru" where
  "new_with_size zk zv capacity sz hash =
     (if capacity = 0 then Inl (NewError ''capacity must be positive'')
      else if sz = emptyBucket then Inl (LibError ''size must not be 0XFFFFFFFF'')
      else if sz < capacity
        then Inl (LibError (''size ('' @ show_nat sz @ '') is smaller than capacity ('' @ show_nat capacity @ '')''))
      else (case hash of
              None \<Rightarrow> Inl (NewError ''hash function must be set'')
            | Some h \<Rightarrow> Inr (init_lru zk zv capacity sz h)))"

definition new_lru :: "'k \<Rightarrow> 'v \<Rightarrow> nat \<Rightarrow> ('k \<Rightarrow> 32 word) option \<Rightarrow> error + ('k, 'v) lru" where
  "new_lru zk zv capacity hash = new_with_size zk zv capacity capacity hash"

section \<open>Hashing\<close>

definition fast_range :: "32 word \<Rightarrow> 32 word \<Rightarrow> 32 word" where
  "fast_range x n = ucast (drop_bit 32 ((ucast x :: 64 word) * ucast n))"

definition hash_to_bucket_pos :: "('k, 'v) lru \<Rightarrow> 32 word \<Rightarrow> nat" where
  "hash_to_bucket_pos l h =
     (if lruMask l \<noteq> 0 then unat (and h (lruMask l))
      else unat (fast_range h (of_nat (lruSize l))))"

definition hash_to_pos :: "('k, 'v) lru \<Rightarrow> 32 word \<Rightarrow> (nat \<times> nat) option" where
  "hash_to_pos l h =
     do { e \<leftarrow> get_bucket (hash_to_bucket_pos l h) l; Some (hash_to_bucket_pos l h, e) }"

section \<open>Linking and unlinking\<close>

definition set_head :: "nat \<Rightarrow> ('k, 'v) lru \<Rightarrow> ('k, 'v) lru option" where
  "set_head pos l =
     (if pos = lruHead l then None
      else do {
        l \<leftarrow> upd_elem pos (elPrev_update (\<lambda>_. lruHead l)) l;
        h \<leftarrow> elem (lruHead l) l;
        l \<leftarrow> upd_elem pos (elNext_update (\<lambda>_. elNext h)) l;
        h \<leftarrow> elem (lruHead l) l;
        l \<leftarrow> upd_elem (elNext h) (elPrev_update (\<lambda>_. pos)) l;
        l \<leftarrow> upd_elem (lruHead l) (elNext_update (\<lambda>_. pos)) l;
        Some (l\<lparr>lruHead := pos\<rparr>)
      })"

definition unlink_element :: "nat \<Rightarrow> ('k, 'v) lru \<Rightarrow> ('k, 'v) lru option" where
  "unlink_element pos l =
     do {
       e \<leftarrow> elem pos l;
       l \<leftarrow> upd_elem (elPrev e) (elNext_update (\<lambda>_. elNext e)) l;
       e \<leftarrow> elem pos l;
       upd_elem (elNext e) (elPrev_update (\<lambda>_. elPrev e)) l
     }"

definition unlink_bucket :: "nat \<Rightarrow> ('k, 'v) lru \<Rightarrow> ('k, 'v) lru option" where
  "unlink_bucket pos l =
     do {
       e \<leftarrow> elem pos l;
       if prevBucket e = nextBucket e \<and> prevBucket e = pos
       then set_bucket (bucketPos e) emptyBucket l
       else do {
         l \<leftarrow> upd_elem (prevBucket e) (nextBucket_update (\<lambda>_. nextBucket e)) l;
         l \<leftarrow> upd_elem (nextBucket e) (prevBucket_update (\<lambda>_. prevBucket e)) l;
         e' \<leftarrow> elem pos l;
         set_bucket (bucketPos e') (nextBucket e) l
       }
     }"

definition evict :: "nat \<Rightarrow> ('k, 'v) lru \<Rightarrow> ('k, 'v) lru option" where
  "evict pos l =
     do {
       e \<leftarrow> elem pos l;
       let l = (if pos = lruHead l then l\<lparr>lruHead := elPrev e\<rparr> else l);
       l \<leftarrow> unlink_element pos l;
       l \<leftarrow> unlink_bucket pos l;
       Some (l\<lparr>lruLen := lruLen l - 1\<rparr>)
     }"

definition move :: "nat \<Rightarrow> nat \<Rightarrow> ('k, 'v) lru \<Rightarrow> ('k, 'v) lru option" where
  "move to fro l =
     (if to = fro then Some l
      else do {
        let l = (if fro = lruHead l then l\<lparr>lruHead := to\<rparr> else l);
        e \<leftarrow> elem fro l;
        l \<leftarrow> upd_elem (elPrev e) (elNext_update (\<lambda>_. to)) l;
        l \<leftarrow> upd_elem (elNext e) (elPrev_update (\<lambda>_. to)) l;
        e \<leftarrow> elem fro l;
        l \<leftarrow> upd_elem (prevBucket e) (nextBucket_update (\<lambda>_. to)) l;
        l \<leftarrow> upd_elem (nextBucket e) (prevBucket_update (\<lambda>_. to)) l;
        e \<leftarrow> elem fro l;
        l \<leftarrow> upd_elem to (\<lambda>_. e) l;
        e \<leftarrow> elem to l;
        b \<leftarrow> get_bucket (bucketPos e) l;
        if b = fro then set_bucket (bucketPos e) to l else Some l
      })"

section \<open>Entries\<close>

text \<open>
  \<^verbatim>\<open>expire\<close>: lifetimes and times in milliseconds, 0 meaning forever. \<^verbatim>\<open>lifetime\<close> is in
  nanoseconds, and \<^verbatim>\<open>Milliseconds()\<close> divides towards zero.
\<close>

definition expire_at :: "int \<Rightarrow> int \<Rightarrow> int" where
  "expire_at now lifetime =
     (if lifetime = 0 then 0 else now + sgn lifetime * (\<bar>lifetime\<bar> div 1000000))"

definition insert_at :: "int \<Rightarrow> nat \<Rightarrow> 'k \<Rightarrow> 'v \<Rightarrow> int \<Rightarrow> ('k, 'v) lru \<Rightarrow> ('k, 'v) lru option" where
  "insert_at now pos k v lifetime l =
     do {
       l \<leftarrow> upd_elem pos (\<lambda>e. e\<lparr>elKey := k, elValue := v, elExpire := expire_at now lifetime\<rparr>) l;
       l \<leftarrow> (if lruLen l = 0
             then do {
               l \<leftarrow> upd_elem pos (\<lambda>e. e\<lparr>elPrev := pos, elNext := pos\<rparr>) l;
               Some (l\<lparr>lruHead := pos\<rparr>)
             }
             else if pos \<noteq> lruHead l then set_head pos l
             else Some l);
       Some (l\<lparr>lruLen := lruLen l + 1\<rparr>)
     }"

definition clear_key_and_value :: "nat \<Rightarrow> ('k, 'v) lru \<Rightarrow> ('k, 'v) lru option" where
  "clear_key_and_value pos l = upd_elem pos (\<lambda>e. e\<lparr>elKey := emptyKey l, elValue := emptyValue l\<rparr>) l"

definition remove_at :: "nat \<Rightarrow> ('k, 'v) lru \<Rightarrow> ('k, 'v) lru option" where
  "remove_at pos l =
     do {
       l \<leftarrow> evict pos l;
       l \<leftarrow> move pos (lruLen l) l;
       clear_key_and_value (lruLen l) l
     }"

text \<open>
  The walk along a bucket that \<^verbatim>\<open>findKey\<close> and \<^verbatim>\<open>addWithLifetime\<close> make, from \<^verbatim>\<open>startPos\<close>
  until the key is met (\<open>Some (Some pos)\<close>) or the ring closes (\<open>Some None\<close>). \<open>None\<close> is a
  panic or a walk that never ends.
\<close>

partial_function (option) bucket_walk ::
  "('k, 'v) lru \<Rightarrow> 'k \<Rightarrow> nat \<Rightarrow> nat \<Rightarrow> nat option option" where
  "bucket_walk l k startPos pos =
     do {
       e \<leftarrow> elem pos l;
       if elKey e = k then Some (Some pos)
       else if nextBucket e = startPos then Some None
       else bucket_walk l k startPos (nextBucket e)
     }"

declare bucket_walk.simps [code]

definition find_key :: "int \<Rightarrow> 32 word \<Rightarrow> 'k \<Rightarrow> ('k, 'v) lru \<Rightarrow> (nat option \<times> ('k, 'v) lru) option" where
  "find_key now h k l =
     do {
       (_, startPos) \<leftarrow> hash_to_pos l h;
       if startPos = emptyBucket then Some (None, l)
       else do {
         r \<leftarrow> bucket_walk l k startPos startPos;
         case r of
           None \<Rightarrow> Some (None, l)
         | Some pos \<Rightarrow> do {
             e \<leftarrow> elem pos l;
             if elExpire e \<noteq> 0 \<and> elExpire e \<le> now
             then do { l \<leftarrow> remove_at pos l; Some (None, l) }
             else Some (Some pos, l)
           }
       }
     }"

text \<open>Make a position the most recently used one.\<close>

definition touch :: "nat \<Rightarrow> ('k, 'v) lru \<Rightarrow> ('k, 'v) lru option" where
  "touch pos l =
     (if pos \<noteq> lruHead l then do { l \<leftarrow> unlink_element pos l; set_head pos l } else Some l)"

definition lru_get :: "int \<Rightarrow> 32 word \<Rightarrow> 'k \<Rightarrow> ('k, 'v) lru \<Rightarrow> ('v option \<times> ('k, 'v) lru) option" where
  "lru_get now h k l =
     do {
       (r, l) \<leftarrow> find_key now h k l;
       case r of
         None \<Rightarrow> Some (None, l)
       | Some pos \<Rightarrow> do {
           l \<leftarrow> touch pos l;
           e \<leftarrow> elem pos l;
           Some (Some (elValue e), l)
         }
     }"

text \<open>The position for a new entry: the next free one, or the one of the oldest entry.\<close>

definition claim_pos :: "('k, 'v) lru \<Rightarrow> (nat \<times> bool \<times> ('k, 'v) lru) option" where
  "claim_pos l =
     (if lruLen l = lruCap l
      then do {
        h \<leftarrow> elem (lruHead l) l;
        l \<leftarrow> evict (elNext h) l;
        Some (elNext h, True, l)
      }
      else Some (lruLen l, False, l))"

definition add_with_lifetime ::
  "int \<Rightarrow> 32 word \<Rightarrow> 'k \<Rightarrow> 'v \<Rightarrow> int \<Rightarrow> ('k, 'v) lru \<Rightarrow> (bool \<times> ('k, 'v) lru) option" where
  "add_with_lifetime now h k v lifetime l =
     do {
       (bpos, startPos) \<leftarrow> hash_to_pos l h;
       if startPos = emptyBucket
       then do {
         (pos, evicted, l) \<leftarrow> claim_pos l;
         l \<leftarrow> set_bucket bpos pos l;
         l \<leftarrow> upd_elem pos (\<lambda>e. e\<lparr>bucketPos := bpos, nextBucket := pos, prevBucket := pos\<rparr>) l;
         l \<leftarrow> insert_at now pos k v lifetime l;
         Some (evicted, l)
       }
       else do {
         r \<leftarrow> bucket_walk l k startPos startPos;
         case r of
           Some pos \<Rightarrow> do {
             l \<leftarrow> upd_elem pos (\<lambda>e. e\<lparr>elValue := v, elExpire := expire_at now lifetime\<rparr>) l;
             l \<leftarrow> touch pos l;
             Some (False, l)
           }
         | None \<Rightarrow> do {
             (pos, evicted, l) \<leftarrow> claim_pos l;
             startPos \<leftarrow> (if evicted
                          then do { b \<leftarrow> get_bucket bpos l; Some (if b = emptyBucket then pos else b) }
                          else Some startPos);
             l \<leftarrow> set_bucket bpos pos l;
             l \<leftarrow> upd_elem pos (\<lambda>e. e\<lparr>bucketPos := bpos, nextBucket := startPos\<rparr>) l;
             s \<leftarrow> elem startPos l;
             l \<leftarrow> upd_elem pos (prevBucket_update (\<lambda>_. prevBucket s)) l;
             s \<leftarrow> elem startPos l;
             l \<leftarrow> upd_elem (prevBucket s) (nextBucket_update (\<lambda>_. pos)) l;
             l \<leftarrow> upd_elem startPos (prevBucket_update (\<lambda>_. pos)) l;
             l \<leftarrow> insert_at now pos k v lifetime l;
             Some (evicted, l)
           }
       }
     }"

definition LRU_Get :: "int \<Rightarrow> 'k \<Rightarrow> ('k, 'v) lru \<Rightarrow> ('v option \<times> ('k, 'v) lru) option" where
  "LRU_Get now k l = lru_get now (hashFn l k) k l"

definition LRU_AddWithLifetime ::
  "int \<Rightarrow> 'k \<Rightarrow> 'v \<Rightarrow> int \<Rightarrow> ('k, 'v) lru \<Rightarrow> (bool \<times> ('k, 'v) lru) option" where
  "LRU_AddWithLifetime now k v lifetime l = add_with_lifetime now (hashFn l k) k v lifetime l"

end
