(* ===== verification/Free_LRU_Inv.thy ===== *)
theory Free_LRU_Inv
  imports Free_LRU
begin

text \<open>
  The invariant of the LRU map and what its pointer operations do to it. A ghost list
  \<open>ps\<close> holds the occupied positions from the newest entry to the oldest, and \<open>B b\<close> those
  of bucket \<open>b\<close> from the bucket's first entry on.
\<close>

section \<open>Reading the links of a position\<close>

definition els :: "('k, 'v) lru \<Rightarrow> nat \<Rightarrow> ('k, 'v) element" where "els l p = elements l ! p"

definition nxv :: "('k, 'v) lru \<Rightarrow> nat \<Rightarrow> nat" where "nxv l p = elNext (els l p)"
definition pvv :: "('k, 'v) lru \<Rightarrow> nat \<Rightarrow> nat" where "pvv l p = elPrev (els l p)"
definition nbv :: "('k, 'v) lru \<Rightarrow> nat \<Rightarrow> nat" where "nbv l p = nextBucket (els l p)"
definition pbv :: "('k, 'v) lru \<Rightarrow> nat \<Rightarrow> nat" where "pbv l p = prevBucket (els l p)"
definition bpv :: "('k, 'v) lru \<Rightarrow> nat \<Rightarrow> nat" where "bpv l p = bucketPos (els l p)"
definition kyv :: "('k, 'v) lru \<Rightarrow> nat \<Rightarrow> 'k" where "kyv l p = elKey (els l p)"
definition vlv :: "('k, 'v) lru \<Rightarrow> nat \<Rightarrow> 'v" where "vlv l p = elValue (els l p)"
definition exv :: "('k, 'v) lru \<Rightarrow> nat \<Rightarrow> int" where "exv l p = elExpire (els l p)"

named_theorems lru_views \<open>how the views read an updated map\<close>

lemma fold_views [lru_views]:
  "elNext (els l p) = nxv l p" "elPrev (els l p) = pvv l p"
  "nextBucket (els l p) = nbv l p" "prevBucket (els l p) = pbv l p"
  "bucketPos (els l p) = bpv l p" "elKey (els l p) = kyv l p"
  "elValue (els l p) = vlv l p" "elExpire (els l p) = exv l p"
  by (simp_all add: nxv_def pvv_def nbv_def pbv_def bpv_def kyv_def vlv_def exv_def)

lemma elem_Some [lru_views]: "p < length (elements l) \<Longrightarrow> elem p l = Some (els l p)"
  by (simp add: elem_def els_def idx_Some)

lemma upd_elem_Some [lru_views]:
  "p < length (elements l) \<Longrightarrow> upd_elem p f l = Some (put p (f (els l p)) l)"
  by (simp add: upd_elem_def elem_Some)

lemma put_views [lru_views]:
  assumes "p < length (elements l)"
  shows "nxv (put p e l) = (nxv l)(p := elNext e)" "pvv (put p e l) = (pvv l)(p := elPrev e)"
    "nbv (put p e l) = (nbv l)(p := nextBucket e)" "pbv (put p e l) = (pbv l)(p := prevBucket e)"
    "bpv (put p e l) = (bpv l)(p := bucketPos e)" "kyv (put p e l) = (kyv l)(p := elKey e)"
    "vlv (put p e l) = (vlv l)(p := elValue e)" "exv (put p e l) = (exv l)(p := elExpire e)"
  using assms
  by (auto simp: put_def els_def nxv_def pvv_def nbv_def pbv_def bpv_def kyv_def vlv_def exv_def
      fun_eq_iff nth_list_update)

lemma put_fields [lru_views]:
  "buckets (put p e l) = buckets l" "length (elements (put p e l)) = length (elements l)"
  "hashFn (put p e l) = hashFn l" "emptyKey (put p e l) = emptyKey l"
  "emptyValue (put p e l) = emptyValue l" "lruHead (put p e l) = lruHead l"
  "lruLen (put p e l) = lruLen l" "lruCap (put p e l) = lruCap l"
  "lruSize (put p e l) = lruSize l" "lruMask (put p e l) = lruMask l"
  by (simp_all add: put_def)

lemma view_fields [lru_views]:
  "nxv (l\<lparr>lruHead := h\<rparr>) = nxv l" "pvv (l\<lparr>lruHead := h\<rparr>) = pvv l"
  "nbv (l\<lparr>lruHead := h\<rparr>) = nbv l" "pbv (l\<lparr>lruHead := h\<rparr>) = pbv l"
  "bpv (l\<lparr>lruHead := h\<rparr>) = bpv l" "kyv (l\<lparr>lruHead := h\<rparr>) = kyv l"
  "vlv (l\<lparr>lruHead := h\<rparr>) = vlv l" "exv (l\<lparr>lruHead := h\<rparr>) = exv l"
  "nxv (l\<lparr>lruLen := n\<rparr>) = nxv l" "pvv (l\<lparr>lruLen := n\<rparr>) = pvv l"
  "nbv (l\<lparr>lruLen := n\<rparr>) = nbv l" "pbv (l\<lparr>lruLen := n\<rparr>) = pbv l"
  "bpv (l\<lparr>lruLen := n\<rparr>) = bpv l" "kyv (l\<lparr>lruLen := n\<rparr>) = kyv l"
  "vlv (l\<lparr>lruLen := n\<rparr>) = vlv l" "exv (l\<lparr>lruLen := n\<rparr>) = exv l"
  "nxv (l\<lparr>buckets := b\<rparr>) = nxv l" "pvv (l\<lparr>buckets := b\<rparr>) = pvv l"
  "nbv (l\<lparr>buckets := b\<rparr>) = nbv l" "pbv (l\<lparr>buckets := b\<rparr>) = pbv l"
  "bpv (l\<lparr>buckets := b\<rparr>) = bpv l" "kyv (l\<lparr>buckets := b\<rparr>) = kyv l"
  "vlv (l\<lparr>buckets := b\<rparr>) = vlv l" "exv (l\<lparr>buckets := b\<rparr>) = exv l"
  by (simp_all add: els_def nxv_def pvv_def nbv_def pbv_def bpv_def kyv_def vlv_def exv_def fun_eq_iff)

text \<open>What an operation leaves alone.\<close>

definition same_conf :: "('k, 'v) lru \<Rightarrow> ('k, 'v) lru \<Rightarrow> bool" where
  "same_conf l l' \<longleftrightarrow> hashFn l' = hashFn l \<and> emptyKey l' = emptyKey l \<and> emptyValue l' = emptyValue l
     \<and> lruCap l' = lruCap l \<and> lruSize l' = lruSize l \<and> lruMask l' = lruMask l
     \<and> length (elements l') = length (elements l) \<and> length (buckets l') = length (buckets l)"

definition same_data :: "('k, 'v) lru \<Rightarrow> ('k, 'v) lru \<Rightarrow> bool" where
  "same_data l l' \<longleftrightarrow> kyv l' = kyv l \<and> vlv l' = vlv l \<and> exv l' = exv l"

definition same_buckets :: "('k, 'v) lru \<Rightarrow> ('k, 'v) lru \<Rightarrow> bool" where
  "same_buckets l l' \<longleftrightarrow> nbv l' = nbv l \<and> pbv l' = pbv l \<and> bpv l' = bpv l \<and> buckets l' = buckets l"

definition same_order :: "('k, 'v) lru \<Rightarrow> ('k, 'v) lru \<Rightarrow> bool" where
  "same_order l l' \<longleftrightarrow> nxv l' = nxv l \<and> pvv l' = pvv l \<and> lruHead l' = lruHead l"

lemmas same_defs = same_conf_def same_data_def same_buckets_def same_order_def

section \<open>The invariant\<close>

definition lru_shape :: "('k, 'v) lru \<Rightarrow> bool" where
  "lru_shape l \<longleftrightarrow> 0 < lruCap l \<and> lruCap l \<le> lruSize l \<and> lruSize l < emptyBucket
     \<and> length (buckets l) = lruSize l \<and> length (elements l) = lruSize l
     \<and> lruMask l = (if ones_count (of_nat (lruSize l)) = 1 then of_nat (lruSize l) - 1 else 0)"

definition order_ok :: "('k, 'v) lru \<Rightarrow> nat list \<Rightarrow> bool" where
  "order_ok l ps \<longleftrightarrow> distinct ps \<and> ring (pvv l) (nxv l) ps \<and> (ps \<noteq> [] \<longrightarrow> lruHead l = hd ps)"

definition bucket_ok :: "('k, 'v) lru \<Rightarrow> nat set \<Rightarrow> nat \<Rightarrow> nat list \<Rightarrow> bool" where
  "bucket_ok l S b qs \<longleftrightarrow> distinct qs \<and> set qs = {p \<in> S. bpv l p = b} \<and> ring (nbv l) (pbv l) qs
     \<and> buckets l ! b = (if qs = [] then emptyBucket else hd qs)"

definition hashed_ok :: "('k, 'v) lru \<Rightarrow> nat set \<Rightarrow> bool" where
  "hashed_ok l S \<longleftrightarrow> (\<forall>p \<in> S. bpv l p = hash_to_bucket_pos l (hashFn l (kyv l p))) \<and> inj_on (kyv l) S"

definition lru_on :: "('k, 'v) lru \<Rightarrow> nat set \<Rightarrow> nat list \<Rightarrow> (nat \<Rightarrow> nat list) \<Rightarrow> bool" where
  "lru_on l S ps B \<longleftrightarrow> lru_shape l \<and> S \<subseteq> {..<lruSize l} \<and> lruLen l = card S \<and> set ps = S
     \<and> order_ok l ps \<and> (\<forall>b < lruSize l. bucket_ok l S b (B b)) \<and> hashed_ok l S"

definition lru_inv :: "('k, 'v) lru \<Rightarrow> nat list \<Rightarrow> (nat \<Rightarrow> nat list) \<Rightarrow> bool" where
  "lru_inv l ps B \<longleftrightarrow> lru_on l {..<lruLen l} ps B \<and> lruLen l \<le> lruCap l"

section \<open>Bucket positions are in range\<close>

lemma fast_range_less:
  assumes "0 < n" shows "fast_range x n < n"
proof -
  have x: "unat x < 2 ^ 32" and n: "unat n < 2 ^ 32"
    using unsigned_less [of x, where ?'a = nat] unsigned_less [of n, where ?'a = nat] by simp_all
  have n0: "0 < unat n" using assms by (simp add: word_less_nat_alt)
  have "unat x * unat n < 2 ^ 32 * unat n" using x n0 by simp
  also have "\<dots> \<le> 2 ^ 32 * 2 ^ 32" using n by simp
  finally have small: "unat x * unat n < 2 ^ 64" by simp
  have "unat ((ucast x :: 64 word) * ucast n) = unat x * unat n"
    using small x n by (simp add: unat_word_ariths unsigned_ucast_eq take_bit_nat_eq_self)
  then have "unat (drop_bit 32 ((ucast x :: 64 word) * ucast n)) = unat x * unat n div 2 ^ 32"
    by (subst unat_drop_bit_eq) (simp add: drop_bit_eq_div)
  moreover have q: "unat x * unat n div 2 ^ 32 < unat n"
    using \<open>unat x * unat n < 2 ^ 32 * unat n\<close> by (simp add: less_mult_imp_div_less mult.commute)
  ultimately have "unat (fast_range x n) = unat x * unat n div 2 ^ 32"
    using n unfolding fast_range_def
    by (simp add: unsigned_ucast_eq take_bit_nat_eq_self)
  with q show ?thesis by (simp add: word_less_nat_alt)
qed

lemma hash_to_bucket_pos_less:
  assumes "lru_shape l" shows "hash_to_bucket_pos l h < lruSize l"
proof -
  have sz: "0 < lruSize l" "lruSize l < 2 ^ 32"
    using assms by (auto simp: lru_shape_def emptyBucket_def)
  then have u: "unat (of_nat (lruSize l) :: 32 word) = lruSize l"
    by (simp add: unat_of_nat take_bit_nat_eq_self)
  show ?thesis
  proof (cases "lruMask l = 0")
    case True
    have "(0 :: 32 word) < of_nat (lruSize l)" using sz u by (simp add: word_less_nat_alt)
    from fast_range_less [OF this, of h] True u show ?thesis
      by (simp add: hash_to_bucket_pos_def word_less_nat_alt)
  next
    case False
    then have m: "lruMask l = of_nat (lruSize l) - 1" using assms by (auto simp: lru_shape_def split: if_splits)
    have "unat (and h (lruMask l)) \<le> unat (lruMask l)"
      by (rule word_and_le1 [THEN word_le_nat_alt [THEN iffD1]])
    also have "\<dots> = lruSize l - 1"
      using sz u by (simp add: m unat_minus_one word_unat_eq_iff)
    finally show ?thesis using sz False by (simp add: hash_to_bucket_pos_def)
  qed
qed

lemma shape_cong: "same_conf l l' \<Longrightarrow> lru_shape l' = lru_shape l"
  by (simp add: lru_shape_def same_conf_def)

lemma hash_pos_cong: "same_conf l l' \<Longrightarrow> hash_to_bucket_pos l' = hash_to_bucket_pos l"
  by (simp add: hash_to_bucket_pos_def same_conf_def fun_eq_iff)

section \<open>Pointer operations\<close>

lemma unlink_element_ok:
  assumes "p < length (elements l)" "nxv l p < length (elements l)" "pvv l p < length (elements l)"
  obtains l' where "unlink_element p l = Some l'"
    "nxv l' = (nxv l)(pvv l p := nxv l p)" "pvv l' = (pvv l)(nxv l p := pvv l p)"
    "same_conf l l'" "same_data l l'" "same_buckets l l'" "lruHead l' = lruHead l" "lruLen l' = lruLen l"
proof -
  define l1 where "l1 = put (pvv l p) ((els l (pvv l p))\<lparr>elNext := nxv l p\<rparr>) l"
  define l2 where "l2 = put (nxv l p) ((els l1 (nxv l p))\<lparr>elPrev := pvv l p\<rparr>) l1"
  have "unlink_element p l = Some l2"
    using assms by (simp add: unlink_element_def lru_views l1_def l2_def)
  moreover have "nxv l2 = (nxv l)(pvv l p := nxv l p)" "pvv l2 = (pvv l)(nxv l p := pvv l p)"
    "same_conf l l2" "same_data l l2" "same_buckets l l2" "lruHead l2 = lruHead l" "lruLen l2 = lruLen l"
    using assms by (auto simp: l1_def l2_def lru_views same_defs fun_eq_iff)
  ultimately show thesis by (rule that)
qed

lemma set_head_ok:
  assumes "p < length (elements l)" "lruHead l < length (elements l)" "nxv l (lruHead l) < length (elements l)"
    and "p \<noteq> lruHead l"
  obtains l' where "set_head p l = Some l'"
    "pvv l' = (pvv l)(p := lruHead l, nxv l (lruHead l) := p)"
    "nxv l' = (nxv l)(p := nxv l (lruHead l), lruHead l := p)"
    "same_conf l l'" "same_data l l'" "same_buckets l l'" "lruHead l' = p" "lruLen l' = lruLen l"
proof -
  let ?h = "lruHead l" and ?t = "nxv l (lruHead l)"
  define l1 where "l1 = put p ((els l p)\<lparr>elPrev := ?h\<rparr>) l"
  define l2 where "l2 = put p ((els l1 p)\<lparr>elNext := ?t\<rparr>) l1"
  define l3 where "l3 = put ?t ((els l2 ?t)\<lparr>elPrev := p\<rparr>) l2"
  define l4 where "l4 = put ?h ((els l3 ?h)\<lparr>elNext := p\<rparr>) l3"
  have "set_head p l = Some (l4\<lparr>lruHead := p\<rparr>)"
    using assms by (simp add: set_head_def lru_views l1_def l2_def l3_def l4_def)
  moreover have "pvv (l4\<lparr>lruHead := p\<rparr>) = (pvv l)(p := ?h, ?t := p)"
    "nxv (l4\<lparr>lruHead := p\<rparr>) = (nxv l)(p := ?t, ?h := p)"
    "same_conf l (l4\<lparr>lruHead := p\<rparr>)" "same_data l (l4\<lparr>lruHead := p\<rparr>)" "same_buckets l (l4\<lparr>lruHead := p\<rparr>)"
    "lruHead (l4\<lparr>lruHead := p\<rparr>) = p" "lruLen (l4\<lparr>lruHead := p\<rparr>) = lruLen l"
    using assms by (auto simp: l1_def l2_def l3_def l4_def lru_views same_defs fun_eq_iff)
  ultimately show thesis by (rule that)
qed

text \<open>The bucket list starting after the removed position.\<close>

definition cut_bucket :: "nat \<Rightarrow> nat list \<Rightarrow> nat list" where
  "cut_bucket p qs = tl (dropWhile (\<lambda>q. q \<noteq> p) qs) @ takeWhile (\<lambda>q. q \<noteq> p) qs"

lemma cut_bucket_split:
  assumes "p \<notin> set xs" shows "cut_bucket p (xs @ p # ys) = ys @ xs"
proof -
  have "takeWhile (\<lambda>q. q \<noteq> p) (xs @ p # ys) = xs" "dropWhile (\<lambda>q. q \<noteq> p) (xs @ p # ys) = p # ys"
    using assms by (induction xs) auto
  then show ?thesis by (simp add: cut_bucket_def)
qed

lemma bucket_ok_cut_facts:
  assumes "bucket_ok l S b qs" and "p \<in> set qs"
  obtains xs ys where "qs = xs @ p # ys" "cut_bucket p qs = ys @ xs" "ring (nbv l) (pbv l) (p # ys @ xs)"
    "distinct (p # ys @ xs)"
proof -
  from assms(2) obtain xs ys where qs: "qs = xs @ p # ys" and x: "p \<notin> set xs" by (meson split_list_first)
  show thesis
  proof (rule that [OF qs])
    show "cut_bucket p qs = ys @ xs" using qs x by (simp add: cut_bucket_split)
    show "ring (nbv l) (pbv l) (p # ys @ xs)"
      using assms(1) ring_rotate [of "nbv l" "pbv l" xs "p # ys"] by (simp add: bucket_ok_def qs)
    show "distinct (p # ys @ xs)" using assms(1) by (auto simp: bucket_ok_def qs)
  qed
qed

lemma unlink_bucket_ok:
  assumes ok: "bucket_ok l S (bpv l p) qs" and p: "p \<in> set qs" and S: "S \<subseteq> {..<length (elements l)}"
    and b: "bpv l p < length (buckets l)"
  obtains l' where "unlink_bucket p l = Some l'"
    "bucket_ok l' (S - {p}) (bpv l p) (cut_bucket p qs)"
    "\<And>q. q \<notin> set qs \<Longrightarrow> nbv l' q = nbv l q \<and> pbv l' q = pbv l q"
    "cut_bucket p qs = [] \<Longrightarrow> nbv l' p = p \<and> pbv l' p = p"
    "\<And>c. c \<noteq> bpv l p \<Longrightarrow> buckets l' ! c = buckets l ! c"
    "bpv l' = bpv l" "same_conf l l'" "same_data l l'" "same_order l l'" "lruLen l' = lruLen l"
proof -
  obtain xs ys where qs: "qs = xs @ p # ys" and cut: "cut_bucket p qs = ys @ xs"
    and r: "ring (nbv l) (pbv l) (p # ys @ xs)" and d: "distinct (p # ys @ xs)"
    using bucket_ok_cut_facts [OF ok p] .
  have set_qs: "set qs = {q \<in> S. bpv l q = bpv l p}" using ok by (simp add: bucket_ok_def)
  have pin: "p < length (elements l)" using set_qs p S by auto
  have set_cut: "set (ys @ xs) = {q \<in> S - {p}. bpv l q = bpv l p}"
    using d set_qs qs by auto
  show thesis
  proof (cases "ys @ xs = []")
    case True
    with r have self: "nbv l p = p" "pbv l p = p" by simp_all
    define l1 where "l1 = l\<lparr>buckets := (buckets l)[bpv l p := emptyBucket]\<rparr>"
    have "unlink_bucket p l = Some l1"
      using pin self b by (simp add: unlink_bucket_def lru_views set_bucket_def l1_def)
    moreover have "bucket_ok l1 (S - {p}) (bpv l p) (cut_bucket p qs)"
      using True set_cut cut b by (auto simp: bucket_ok_def l1_def lru_views)
    ultimately show thesis
      using self by (intro that [of l1]) (auto simp: l1_def lru_views same_defs)
  next
    case False
    have hd: "nbv l p = hd (ys @ xs)" and lst: "pbv l p = last (ys @ xs)"
      using ring_links [OF r] False by (cases "ys @ xs"; auto)+
    have ins: "nbv l p \<in> set (ys @ xs)" "pbv l p \<in> set (ys @ xs)"
      using False hd lst by (metis hd_in_set) (metis False lst last_in_set)
    have ne: "nbv l p \<noteq> p" "pbv l p \<noteq> p" using ins d by auto
    have bnd: "nbv l p < length (elements l)" "pbv l p < length (elements l)"
      using ins set_cut S by auto
    define l1 where "l1 = put (pbv l p) ((els l (pbv l p))\<lparr>nextBucket := nbv l p\<rparr>) l"
    define l2 where "l2 = put (nbv l p) ((els l1 (nbv l p))\<lparr>prevBucket := pbv l p\<rparr>) l1"
    define l3 where "l3 = l2\<lparr>buckets := (buckets l2)[bpv l p := nbv l p]\<rparr>"
    have views: "nbv l3 = (nbv l)(pbv l p := nbv l p)" "pbv l3 = (pbv l)(nbv l p := pbv l p)"
      "bpv l3 = bpv l" "buckets l3 = (buckets l)[bpv l p := nbv l p]"
      using bnd by (auto simp: l1_def l2_def l3_def lru_views fun_eq_iff)
    have "unlink_bucket p l = Some l3"
      using pin ne bnd b by (simp add: unlink_bucket_def lru_views set_bucket_def l1_def l2_def l3_def)
    moreover have "ring (nbv l3) (pbv l3) (ys @ xs)"
      unfolding views by (rule ring_unlink_hd [OF r d])
    then have "bucket_ok l3 (S - {p}) (bpv l p) (cut_bucket p qs)"
      using False set_cut cut b d hd by (auto simp: bucket_ok_def views)
    moreover have "nbv l3 q = nbv l q \<and> pbv l3 q = pbv l q" if "q \<notin> set qs" for q
      using that ins qs by (auto simp: views)
    ultimately show thesis
      using False cut bnd
      by (intro that [of l3]) (auto simp: views l1_def l2_def l3_def lru_views same_defs)
  qed
qed

section \<open>Touching and evicting an entry\<close>

lemma hashed_ok_cong:
  assumes "hashed_ok l S" "bpv l' = bpv l" "kyv l' = kyv l" "same_conf l l'" "T \<subseteq> S"
  shows "hashed_ok l' T"
proof -
  have "hashFn l' = hashFn l" using assms(4) by (simp add: same_conf_def)
  moreover have "inj_on (kyv l) T" using assms(1,5) inj_on_subset by (auto simp: hashed_ok_def)
  ultimately show ?thesis
    using assms(1,5) by (simp add: hashed_ok_def assms(2,3) hash_pos_cong [OF assms(4)] subset_eq)
qed

lemma bucket_ok_cong:
  "same_buckets l l' \<Longrightarrow> bucket_ok l' S b qs = bucket_ok l S b qs"
  by (simp add: bucket_ok_def same_buckets_def)

lemma lru_onD:
  assumes "lru_on l S ps B"
  shows "lru_shape l" "S \<subseteq> {..<lruSize l}" "lruLen l = card S" "set ps = S" "order_ok l ps"
    "\<And>b. b < lruSize l \<Longrightarrow> bucket_ok l S b (B b)" "hashed_ok l S"
    "length (elements l) = lruSize l" "length (buckets l) = lruSize l" "distinct ps"
    "ring (pvv l) (nxv l) ps" "finite S"
proof -
  show "lru_shape l" and S: "S \<subseteq> {..<lruSize l}" and "lruLen l = card S" and "set ps = S"
    and o: "order_ok l ps" and "hashed_ok l S"
    using assms unfolding lru_on_def by blast+
  show "bucket_ok l S b (B b)" if "b < lruSize l" for b
    using assms that unfolding lru_on_def by blast
  show "length (elements l) = lruSize l" "length (buckets l) = lruSize l"
    using \<open>lru_shape l\<close> unfolding lru_shape_def by blast+
  show "distinct ps" "ring (pvv l) (nxv l) ps" using o unfolding order_ok_def by blast+
  show "finite S" using S finite_subset by blast
qed

lemma lru_on_bounds:
  assumes "lru_on l S ps B" and "p \<in> S"
  shows "p < length (elements l)" "nxv l p < length (elements l)" "pvv l p < length (elements l)"
    "nxv l p \<in> S" "pvv l p \<in> S" "bpv l p < length (buckets l)"
proof -
  note D = lru_onD [OF assms(1)]
  show "nxv l p \<in> S" "pvv l p \<in> S"
    using ring_closed [OF D(11)] assms(2) D(4) by auto
  then show "p < length (elements l)" "nxv l p < length (elements l)" "pvv l p < length (elements l)"
    using D(2,8) assms(2) by auto
  show "bpv l p < length (buckets l)"
    using D(7,9) assms(2) hash_to_bucket_pos_less [OF D(1)] by (auto simp: hashed_ok_def)
qed

lemma touch_ok:
  assumes inv: "lru_on l S ps B" and p: "p \<in> S"
  obtains l' where "touch p l = Some l'" "lru_on l' S (p # remove1 p ps) B"
    "same_conf l l'" "same_data l l'" "lruLen l' = lruLen l"
proof -
  note D = lru_onD [OF inv] and bnd = lru_on_bounds [OF inv]
  obtain h hs where ps: "ps = h # hs" and head: "lruHead l = h"
    using D(4,5) p by (cases ps) (auto simp: order_ok_def)
  show thesis
  proof (cases "p = h")
    case True
    then show thesis using inv ps head by (intro that [of l]) (auto simp: touch_def same_defs)
  next
    case False
    obtain l1 where l1: "unlink_element p l = Some l1"
      "nxv l1 = (nxv l)(pvv l p := nxv l p)" "pvv l1 = (pvv l)(nxv l p := pvv l p)"
      "same_conf l l1" "same_data l l1" "same_buckets l l1" "lruHead l1 = lruHead l" "lruLen l1 = lruLen l"
      using unlink_element_ok bnd(1-3) p by metis
    have "p \<in> set hs" using p D(4) ps False by auto
    then have r1: "ring (pvv l1) (nxv l1) (h # remove1 p hs)"
      using ring_unlink [OF D(11,10), of p] False by (simp add: ps l1)
    have d1: "distinct (h # remove1 p hs)" "p \<notin> set (h # remove1 p hs)"
      using D(10) ps False by auto
    have len1: "length (elements l1) = length (elements l)" using l1(4) by (simp add: same_conf_def)
    have hS: "set (h # remove1 p hs) \<subseteq> S" using D(4) ps by (auto dest: notin_set_remove1)
    have b1: "lruHead l1 < length (elements l1)" "nxv l1 (lruHead l1) < length (elements l1)"
      using ring_closed(2) [OF r1, of h] hS bnd(1) len1 head l1(7) by auto
    obtain l2 where l2: "set_head p l1 = Some l2"
      "pvv l2 = (pvv l1)(p := lruHead l1, nxv l1 (lruHead l1) := p)"
      "nxv l2 = (nxv l1)(p := nxv l1 (lruHead l1), lruHead l1 := p)"
      "same_conf l1 l2" "same_data l1 l2" "same_buckets l1 l2" "lruHead l2 = p" "lruLen l2 = lruLen l1"
      using set_head_ok [of p l1] b1 bnd(1) [OF p] len1 False head l1(7) by auto
    have "ring (pvv l2) (nxv l2) (p # h # remove1 p hs)"
      using ring_link_hd [OF r1 d1] by (simp add: l2 l1 head)
    then have ord: "order_ok l2 (p # remove1 p ps)"
      using d1 False ps l2(7) by (auto simp: order_ok_def)
    have conf: "same_conf l l2" "same_data l l2" "same_buckets l l2"
      using l1 l2 by (simp_all add: same_defs)
    have "lru_on l2 S (p # remove1 p ps) B"
      unfolding lru_on_def
    proof (intro conjI allI impI)
      show "lru_shape l2" using D(1) shape_cong [OF conf(1)] by simp
      show "S \<subseteq> {..<lruSize l2}" using D(2) conf(1) by (simp add: same_conf_def)
      show "lruLen l2 = card S" using D(3) l1(8) l2(8) by simp
      show "set (p # remove1 p ps) = S" using D(4,10) p by (auto simp: set_remove1_eq)
      show "order_ok l2 (p # remove1 p ps)" by (rule ord)
      show "bucket_ok l2 S b (B b)" if "b < lruSize l2" for b
        using D(6) that conf(1) by (simp add: bucket_ok_cong [OF conf(3)] same_conf_def)
      show "hashed_ok l2 S"
        using hashed_ok_cong [OF D(7) _ _ conf(1)] conf by (simp add: same_data_def same_buckets_def)
    qed
    moreover have "touch p l = Some l2" using l1(1) l2(1) False head by (simp add: touch_def)
    moreover have "lruLen l2 = lruLen l" using l1(8) l2(8) by simp
    ultimately show thesis using that conf(1,2) by blast
  qed
qed

lemma evict_ok:
  assumes inv: "lru_on l S ps B" and p: "p \<in> S"
  obtains l' B' where "evict p l = Some l'" "lru_on l' (S - {p}) (remove1 p ps) B'"
    "same_conf l l'" "same_data l l'"
    "\<forall>b < lruSize l. set (B' b) = set (B b) - {p}"
    "B' (bpv l p) = [] \<longrightarrow> nbv l' p = p \<and> pbv l' p = p"
    "lruLen l' = lruLen l - 1"
proof -
  note D = lru_onD [OF inv] and bnd = lru_on_bounds [OF inv]
  define l0 where "l0 = (if p = lruHead l then l\<lparr>lruHead := pvv l p\<rparr> else l)"
  have v0: "nxv l0 = nxv l" "pvv l0 = pvv l" "same_conf l l0" "same_data l l0" "same_buckets l l0"
    "lruLen l0 = lruLen l" "length (elements l0) = length (elements l)"
    by (simp_all add: l0_def lru_views same_defs)
  obtain l1 where l1: "unlink_element p l0 = Some l1"
    "nxv l1 = (nxv l)(pvv l p := nxv l p)" "pvv l1 = (pvv l)(nxv l p := pvv l p)"
    "same_conf l0 l1" "same_data l0 l1" "same_buckets l0 l1" "lruHead l1 = lruHead l0" "lruLen l1 = lruLen l0"
    using unlink_element_ok [of p l0] bnd(1-3) [OF p] by (auto simp: v0)
  have c1: "same_conf l l1" "same_data l l1" "same_buckets l l1" using l1 v0 by (simp_all add: same_defs)
  let ?b = "bpv l p"
  have bp1: "bpv l1 p = ?b" using c1(3) by (simp add: same_buckets_def)
  have bsz: "?b < lruSize l" using bnd(6) [OF p] D(9) by simp
  have okb: "bucket_ok l1 S (bpv l1 p) (B ?b)"
    using D(6) [OF bsz] bp1 by (simp add: bucket_ok_cong [OF c1(3)])
  have pB: "p \<in> set (B ?b)" using D(6) [OF bsz] p by (simp add: bucket_ok_def)
  have S1: "S \<subseteq> {..<length (elements l1)}" "bpv l1 p < length (buckets l1)"
    using D(2,8) bnd(6) [OF p] c1(1) bp1 by (auto simp: same_conf_def)
  obtain l2 where l2: "unlink_bucket p l1 = Some l2"
    "bucket_ok l2 (S - {p}) (bpv l1 p) (cut_bucket p (B ?b))"
    "\<And>q. q \<notin> set (B ?b) \<Longrightarrow> nbv l2 q = nbv l1 q \<and> pbv l2 q = pbv l1 q"
    "cut_bucket p (B ?b) = [] \<Longrightarrow> nbv l2 p = p \<and> pbv l2 p = p"
    "\<And>c. c \<noteq> bpv l1 p \<Longrightarrow> buckets l2 ! c = buckets l1 ! c"
    "bpv l2 = bpv l1" "same_conf l1 l2" "same_data l1 l2" "same_order l1 l2" "lruLen l2 = lruLen l1"
    using unlink_bucket_ok [OF okb pB S1] by blast
  define B' where "B' = B(?b := cut_bucket p (B ?b))"
  define l3 where "l3 = l2\<lparr>lruLen := lruLen l2 - 1\<rparr>"
  have c3: "same_conf l l3" "same_data l l3" using c1 l2 by (simp_all add: l3_def same_defs lru_views)
  have bps: "bpv l3 = bpv l" using l2(6) c1(3) by (simp add: l3_def lru_views same_buckets_def)
  have buck: "bucket_ok l3 (S - {p}) b (B' b)" if "b < lruSize l" for b
  proof (cases "b = ?b")
    case True
    then show ?thesis using l2(2) bp1 by (simp add: B'_def bucket_ok_def l3_def lru_views)
  next
    case False
    have ob: "bucket_ok l S b (B b)" using D(6) that .
    have disj: "q \<notin> set (B ?b)" if "q \<in> set (B b)" for q
      using ob D(6) [OF bsz] that False by (auto simp: bucket_ok_def)
    have "ring (nbv l2) (pbv l2) (B b) = ring (nbv l) (pbv l) (B b)"
      using l2(3) disj c1(3) by (intro ring_cong) (auto simp: same_buckets_def)
    moreover have "buckets l2 ! b = buckets l ! b" using l2(5) [of b] False bp1 c1(3) by (simp add: same_buckets_def)
    ultimately show ?thesis
      using ob False bps by (auto simp: B'_def bucket_ok_def l3_def lru_views)
  qed
  have head: "remove1 p ps \<noteq> [] \<longrightarrow> lruHead l3 = hd (remove1 p ps)"
  proof -
    have h3: "lruHead l3 = lruHead l0" using l2(9) l1(7) by (simp add: l3_def same_order_def)
    show ?thesis
    proof (cases ps)
      case (Cons h hs)
      have hd: "lruHead l = h" using D(5) Cons by (simp add: order_ok_def)
      have "pvv l h = hd (hs @ [h])" using ring_links(1) D(11) Cons by metis
      with h3 hd Cons show ?thesis by (cases hs) (auto simp: l0_def)
    qed simp
  qed
  have "ring (pvv l3) (nxv l3) (remove1 p ps)"
    using ring_unlink [OF D(11,10), of p] p D(4) l2(9) by (simp add: l3_def lru_views same_order_def l1)
  then have ord: "order_ok l3 (remove1 p ps)" using head D(10) by (simp add: order_ok_def)
  have "lru_on l3 (S - {p}) (remove1 p ps) B'"
    unfolding lru_on_def
  proof (intro conjI allI impI)
    show "lru_shape l3" using D(1) shape_cong [OF c3(1)] by simp
    show "S - {p} \<subseteq> {..<lruSize l3}" using D(2) c3(1) by (auto simp: same_conf_def)
    show "lruLen l3 = card (S - {p})"
      using D(3,12) p l2(10) l1(8) v0(6) by (simp add: l3_def)
    show "set (remove1 p ps) = S - {p}" using D(4,10) by (simp add: set_remove1_eq)
    show "hashed_ok l3 (S - {p})"
      using hashed_ok_cong [OF D(7) bps _ c3(1)] c3(2) by (auto simp: same_data_def)
  qed (use buck ord c3(1) in \<open>auto simp: same_conf_def\<close>)
  moreover have "evict p l = (unlink_element p l0 \<bind> (\<lambda>l. unlink_bucket p l \<bind> (\<lambda>l. Some (l\<lparr>lruLen := lruLen l - 1\<rparr>))))"
    using bnd(1) [OF p] by (simp add: evict_def lru_views l0_def)
  then have "evict p l = Some l3" using l1(1) l2(1) by (simp add: l3_def)
  moreover have "\<forall>b < lruSize l. set (B' b) = set (B b) - {p}"
  proof (intro allI impI)
    fix b assume "b < lruSize l"
    then show "set (B' b) = set (B b) - {p}" using buck D(6) bps by (auto simp: bucket_ok_def)
  qed
  moreover have "B' ?b = [] \<longrightarrow> nbv l3 p = p \<and> pbv l3 p = p"
    using l2(4) by (simp add: B'_def l3_def lru_views)
  moreover have "lruLen l3 = lruLen l - 1" using l2(10) l1(8) v0(6) by (simp add: l3_def)
  ultimately show thesis using that c3 by blast
qed

end
