(* ===== verification/Free_LRU_Spec.thy ===== *)
theory Free_LRU_Spec
  imports Free_LRU_Inv
begin

text \<open>
  The LRU map implements a plain list of entries ordered by use: \<open>Get\<close> and
  \<open>AddWithLifetime\<close> never panic or run forever on a map built by \<open>New\<close> and used only
  through them, and they return what the list model returns.
\<close>

section \<open>Moving an entry to another position\<close>

lemma ring_map_other:
  assumes "fro \<notin> set qs" shows "map (\<lambda>p. if p = fro then to else p) qs = qs"
  using assms by (auto intro: map_idI)

lemma move_ok:
  assumes inv: "lru_on l S ps B" and fro: "fro \<in> S" and to: "to \<notin> S" "to < lruSize l"
  obtains l' where "move to fro l = Some l'"
    "lru_on l' (insert to (S - {fro})) (map (\<lambda>p. if p = fro then to else p) ps)
       (\<lambda>b. map (\<lambda>p. if p = fro then to else p) (B b))"
    "same_conf l l'" "lruLen l' = lruLen l"
    "kyv l' = (kyv l)(to := kyv l fro)" "vlv l' = (vlv l)(to := vlv l fro)" "exv l' = (exv l)(to := exv l fro)"
proof -
  note D = lru_onD [OF inv] and bnd = lru_on_bounds [OF inv]
  let ?r = "\<lambda>p. if p = fro then to else p" and ?b = "bpv l fro"
  have neq: "to \<noteq> fro" using fro to by auto
  have bsz: "?b < lruSize l" using bnd(6) [OF fro] D(9) by simp
  have okb: "bucket_ok l S ?b (B ?b)" using D(6) [OF bsz] .
  have fB: "fro \<in> set (B ?b)" using okb fro by (simp add: bucket_ok_def)
  have rb: "ring (nbv l) (pbv l) (B ?b)" and SB: "set (B ?b) \<subseteq> S" "distinct (B ?b)"
    using okb by (auto simp: bucket_ok_def)
  have nbS: "nbv l fro \<in> set (B ?b)" "pbv l fro \<in> set (B ?b)" using ring_closed [OF rb fB] .
  then have bb: "nbv l fro < length (elements l)" "pbv l fro < length (elements l)"
    using SB D(2,8) by auto
  have tob: "to < length (elements l)" using to D(8) by simp
  define l0 where "l0 = (if fro = lruHead l then l\<lparr>lruHead := to\<rparr> else l)"
  have v0: "els l0 = els l" "length (elements l0) = length (elements l)"
    "nxv l0 = nxv l" "pvv l0 = pvv l" "nbv l0 = nbv l" "pbv l0 = pbv l" "bpv l0 = bpv l"
    "kyv l0 = kyv l" "vlv l0 = vlv l" "exv l0 = exv l" "buckets l0 = buckets l" "same_conf l l0" "lruLen l0 = lruLen l"
    by (auto simp: l0_def lru_views same_defs els_def)
  define l1 where "l1 = put (pvv l fro) ((els l0 (pvv l fro))\<lparr>elNext := to\<rparr>) l0"
  define l2 where "l2 = put (nxv l fro) ((els l1 (nxv l fro))\<lparr>elPrev := to\<rparr>) l1"
  define l3 where "l3 = put (pbv l fro) ((els l2 (pbv l fro))\<lparr>nextBucket := to\<rparr>) l2"
  define l4 where "l4 = put (nbv l fro) ((els l3 (nbv l fro))\<lparr>prevBucket := to\<rparr>) l3"
  define l5 where "l5 = put to (els l4 fro) l4"
  define l6 where "l6 = (if buckets l ! ?b = fro then l5\<lparr>buckets := (buckets l)[?b := to]\<rparr> else l5)"
  have len: "length (elements l1) = length (elements l)" "length (elements l2) = length (elements l)"
    "length (elements l3) = length (elements l)" "length (elements l4) = length (elements l)"
    "length (elements l5) = length (elements l)"
    by (simp_all add: l1_def l2_def l3_def l4_def l5_def lru_views v0)
  have v2: "nxv l2 = (nxv l)(pvv l fro := to)" "pvv l2 = (pvv l)(nxv l fro := to)"
    "nbv l2 = nbv l" "pbv l2 = pbv l" "bpv l2 = bpv l" "kyv l2 = kyv l" "vlv l2 = vlv l" "exv l2 = exv l"
    using bnd(1-3) [OF fro] by (auto simp: l1_def l2_def lru_views v0 fun_eq_iff)
  have v4: "nxv l4 = (nxv l)(pvv l fro := to)" "pvv l4 = (pvv l)(nxv l fro := to)"
    "nbv l4 = (nbv l)(pbv l fro := to)" "pbv l4 = (pbv l)(nbv l fro := to)" "bpv l4 = bpv l"
    "kyv l4 = kyv l" "vlv l4 = vlv l" "exv l4 = exv l"
    using bb by (auto simp: l3_def l4_def lru_views v2 len fun_eq_iff)
  have b5: "buckets l5 = buckets l" by (simp add: l1_def l2_def l3_def l4_def l5_def lru_views v0)
  have v6: "nxv l6 = (nxv l4)(to := nxv l4 fro)" "pvv l6 = (pvv l4)(to := pvv l4 fro)"
    "nbv l6 = (nbv l4)(to := nbv l4 fro)" "pbv l6 = (pbv l4)(to := pbv l4 fro)"
    "bpv l6 = (bpv l)(to := ?b)" "kyv l6 = (kyv l)(to := kyv l fro)" "vlv l6 = (vlv l)(to := vlv l fro)"
    "exv l6 = (exv l)(to := exv l fro)"
    "buckets l6 = (if buckets l ! ?b = fro then (buckets l)[?b := to] else buckets l)"
    using tob by (auto simp: l6_def l5_def lru_views v4 len b5 [unfolded l5_def lru_views])
  have conf: "same_conf l l6" "lruLen l6 = lruLen l" "lruHead l6 = lruHead l0"
    using v0(12,13)
    by (auto simp: l6_def l1_def l2_def l3_def l4_def l5_def lru_views same_conf_def)
  have u: "upd_elem (pvv l fro) (elNext_update (\<lambda>_. to)) l0 = Some l1"
    "upd_elem (nxv l fro) (elPrev_update (\<lambda>_. to)) l1 = Some l2"
    "upd_elem (pbv l fro) (nextBucket_update (\<lambda>_. to)) l2 = Some l3"
    "upd_elem (nbv l fro) (prevBucket_update (\<lambda>_. to)) l3 = Some l4"
    "upd_elem to (\<lambda>_. els l4 fro) l4 = Some l5"
    using bnd(1-3) [OF fro] bb tob
    by (simp_all add: upd_elem_Some l1_def l2_def l3_def l4_def l5_def put_fields(2) v0(2))
  have step: "move to fro l = Some l6"
  proof -
    have "move to fro l =
      (elem fro l0 \<bind> (\<lambda>e. upd_elem (elPrev e) (elNext_update (\<lambda>_. to)) l0 \<bind> (\<lambda>l.
        upd_elem (elNext e) (elPrev_update (\<lambda>_. to)) l \<bind> (\<lambda>l. elem fro l \<bind> (\<lambda>e.
        upd_elem (prevBucket e) (nextBucket_update (\<lambda>_. to)) l \<bind> (\<lambda>l.
        upd_elem (nextBucket e) (prevBucket_update (\<lambda>_. to)) l \<bind> (\<lambda>l. elem fro l \<bind> (\<lambda>e.
        upd_elem to (\<lambda>_. e) l \<bind> (\<lambda>l. elem to l \<bind> (\<lambda>e. get_bucket (bucketPos e) l \<bind> (\<lambda>b.
        if b = fro then set_bucket (bucketPos e) to l else Some l)))))))))))"
      using neq by (simp only: move_def Let_def l0_def [symmetric] if_False)
    also have "\<dots> = (elem to l5 \<bind> (\<lambda>e. get_bucket (bucketPos e) l5 \<bind> (\<lambda>b.
        if b = fro then set_bucket (bucketPos e) to l5 else Some l5)))"
      using neq by (simp add: elem_Some u bnd(1-3) [OF fro] tob len fold_views v0 v2 split del: if_split)
    also have "\<dots> = Some l6"
      using tob bsz D(9) len b5
      by (simp add: elem_Some fold_views get_bucket_def set_bucket_def idx_Some l6_def
          l5_def lru_views v4)
    finally show ?thesis .
  qed
  have order: "order_ok l6 (map ?r ps)"
  proof -
    have "ring (pvv l6) (nxv l6) (map ?r ps)"
      unfolding v6 using D(4) fro to
      by (intro ring_rename [OF D(11,10)]) (simp_all add: v4)
    moreover have "distinct (map ?r ps)"
      using D(4,10) to by (auto simp: distinct_map inj_on_def)
    moreover have "map ?r ps \<noteq> [] \<longrightarrow> lruHead l6 = hd (map ?r ps)"
      using D(5) by (cases ps) (auto simp: order_ok_def conf l0_def)
    ultimately show ?thesis by (simp add: order_ok_def)
  qed
  have buck: "bucket_ok l6 (insert to (S - {fro})) b (map ?r (B b))" if b: "b < lruSize l" for b
  proof (cases "b = ?b")
    case True
    have "ring (nbv l6) (pbv l6) (map ?r (B ?b))"
      unfolding v6 using fB SB to
      by (intro ring_rename [OF rb SB(2)]) (auto simp: v4)
    moreover have "distinct (map ?r (B ?b))"
      using SB to by (auto simp: distinct_map inj_on_def)
    moreover have "set (map ?r (B ?b)) = {p \<in> insert to (S - {fro}). bpv l6 p = ?b}"
      using okb fro to by (auto simp: bucket_ok_def v6)
    moreover have "buckets l6 ! ?b = hd (map ?r (B ?b))"
      using okb fB bsz D(9) by (cases "B ?b") (auto simp: bucket_ok_def v6)
    ultimately show ?thesis using True fB by (auto simp: bucket_ok_def)
  next
    case False
    have ok: "bucket_ok l S b (B b)" using D(6) [OF b] .
    then have out: "fro \<notin> set (B b)" "to \<notin> set (B b)" "pbv l fro \<notin> set (B b)" "nbv l fro \<notin> set (B b)"
      using False to okb nbS by (auto simp: bucket_ok_def)
    have "ring (nbv l6) (pbv l6) (B b) = ring (nbv l) (pbv l) (B b)"
      using out by (intro ring_cong) (auto simp: v6 v4)
    moreover have "buckets l6 ! b = buckets l ! b" using False by (simp add: v6)
    ultimately show ?thesis
      using ok False to out by (auto simp: bucket_ok_def ring_map_other v6)
  qed
  have hash: "hashed_ok l6 (insert to (S - {fro}))"
  proof -
    have "hashFn l6 = hashFn l" using conf(1) by (simp add: same_conf_def)
    moreover have "inj_on (kyv l6) (insert to (S - {fro}))"
      using D(7) fro to by (auto simp: hashed_ok_def inj_on_def v6)
    ultimately show ?thesis
      using D(7) fro by (auto simp: hashed_ok_def v6 hash_pos_cong [OF conf(1)])
  qed
  have "lru_on l6 (insert to (S - {fro})) (map ?r ps) (\<lambda>b. map ?r (B b))"
    unfolding lru_on_def
  proof (intro conjI allI impI)
    show "lru_shape l6" using D(1) shape_cong [OF conf(1)] by simp
    show "insert to (S - {fro}) \<subseteq> {..<lruSize l6}" using D(2) to conf(1) by (auto simp: same_conf_def)
    show "lruLen l6 = card (insert to (S - {fro}))"
      using D(3,12) fro to conf(2) card_Suc_Diff1 [OF D(12) fro] by simp
    show "set (map ?r ps) = insert to (S - {fro})" using D(4) fro by auto
  qed (use order hash buck conf(1) in \<open>auto simp: same_conf_def\<close>)
  then show thesis using that step conf v6 by blast
qed

section \<open>Overwriting a free position, walking a bucket\<close>

lemma put_free_ok:
  assumes inv: "lru_on l S ps B" and p: "p \<notin> S" "p < lruSize l"
  shows "lru_on (put p e l) S ps B"
proof -
  note D = lru_onD [OF inv]
  have pl: "p < length (elements l)" using p D(8) by simp
  have conf: "same_conf l (put p e l)" by (simp add: same_conf_def lru_views)
  have buck: "bucket_ok (put p e l) S b (B b)" if b: "b < lruSize l" for b
  proof -
    have ok: "bucket_ok l S b (B b)" using D(6) [OF b] .
    then have "p \<notin> set (B b)" using p by (auto simp: bucket_ok_def)
    then have "ring (nbv (put p e l)) (pbv (put p e l)) (B b) = ring (nbv l) (pbv l) (B b)"
      using pl by (intro ring_cong) (auto simp: lru_views)
    then show ?thesis using ok p pl by (auto simp: bucket_ok_def lru_views)
  qed
  have "ring (pvv (put p e l)) (nxv (put p e l)) ps = ring (pvv l) (nxv l) ps"
    using pl p D(4) by (intro ring_cong) (auto simp: lru_views)
  then have order: "order_ok (put p e l) ps" using D(5) by (simp add: order_ok_def lru_views)
  have "inj_on (kyv (put p e l)) S = inj_on (kyv l) S"
    using p pl by (intro inj_on_cong) (auto simp: lru_views)
  then have hash: "hashed_ok (put p e l) S"
    using D(7) p pl by (auto simp: hashed_ok_def hash_pos_cong [OF conf] lru_views)
  show ?thesis
    unfolding lru_on_def using D shape_cong [OF conf] order hash buck by (auto simp: lru_views)
qed

lemma bucket_walk_suffix:
  assumes "chain (nbv l) g (y # ys @ [s])" and "set (y # ys) \<subseteq> {..<length (elements l)}"
    and "s \<notin> set ys"
  shows "bucket_walk l k s y = Some (find (\<lambda>p. kyv l p = k) (y # ys))"
  using assms
proof (induction ys arbitrary: y)
  case Nil
  then show ?case by (subst bucket_walk.simps) (simp add: lru_views)
next
  case (Cons z zs)
  then have "nbv l y = z" "z \<noteq> s" by auto
  moreover have "bucket_walk l k s z = Some (find (\<lambda>p. kyv l p = k) (z # zs))"
    using Cons.prems by (intro Cons.IH) auto
  ultimately show ?case
    using Cons.prems by (subst bucket_walk.simps) (simp add: lru_views)
qed

lemma bucket_walk_ok:
  assumes inv: "lru_on l S ps B" and b: "b < lruSize l" and ne: "B b \<noteq> []"
  shows "bucket_walk l k (buckets l ! b) (buckets l ! b) = Some (find (\<lambda>p. kyv l p = k) (B b))"
proof -
  note D = lru_onD [OF inv]
  have ok: "bucket_ok l S b (B b)" using D(6) [OF b] .
  obtain y ys where B: "B b = y # ys" using ne by (cases "B b") auto
  have "bucket_walk l k y y = Some (find (\<lambda>p. kyv l p = k) (y # ys))"
  proof (rule bucket_walk_suffix)
    show "chain (nbv l) (pbv l) (y # ys @ [y])" using ok by (simp add: bucket_ok_def B ring_Cons)
    show "set (y # ys) \<subseteq> {..<length (elements l)}" using ok D(2,8) by (auto simp: bucket_ok_def B)
    show "y \<notin> set ys" using ok by (simp add: bucket_ok_def B)
  qed
  then show ?thesis using ok B by (simp add: bucket_ok_def)
qed

lemma bucket_empty_iff:
  assumes inv: "lru_on l S ps B" and b: "b < lruSize l"
  shows "buckets l ! b = emptyBucket \<longleftrightarrow> B b = []"
proof -
  note D = lru_onD [OF inv]
  have ok: "bucket_ok l S b (B b)" using D(6) [OF b] .
  show ?thesis
  proof (cases "B b")
    case Nil
    then show ?thesis using ok by (simp add: bucket_ok_def)
  next
    case (Cons y ys)
    then have "y \<in> S" "buckets l ! b = y" using ok by (auto simp: bucket_ok_def)
    moreover have "lruSize l < emptyBucket" using D(1) by (simp add: lru_shape_def)
    ultimately show ?thesis using D(2) Cons by auto
  qed
qed

lemma hash_to_pos_ok:
  assumes inv: "lru_on l S ps B"
  shows "hash_to_pos l h = Some (hash_to_bucket_pos l h, buckets l ! hash_to_bucket_pos l h)"
  using hash_to_bucket_pos_less [OF lru_onD(1) [OF inv], of h] lru_onD(9) [OF inv]
  by (simp add: hash_to_pos_def get_bucket_def idx_Some)

text \<open>The bucket of a key holds the key's position, if it has one.\<close>

lemma bucket_find:
  assumes inv: "lru_on l S ps B" and b: "b = hash_to_bucket_pos l (hashFn l k)"
  shows "find (\<lambda>p. kyv l p = k) (B b) = None \<longleftrightarrow> k \<notin> kyv l ` S"
    and "find (\<lambda>p. kyv l p = k) (B b) = Some p \<Longrightarrow> p \<in> S \<and> kyv l p = k"
proof -
  note D = lru_onD [OF inv]
  have "b < lruSize l" unfolding b by (rule hash_to_bucket_pos_less [OF D(1)])
  then have sB: "set (B b) = {p \<in> S. bpv l p = b}" using D(6) by (auto simp: bucket_ok_def)
  have h: "\<And>p. p \<in> S \<Longrightarrow> bpv l p = hash_to_bucket_pos l (hashFn l (kyv l p))"
    using D(7) by (simp add: hashed_ok_def)
  show "find (\<lambda>p. kyv l p = k) (B b) = None \<longleftrightarrow> k \<notin> kyv l ` S"
    unfolding find_None_iff sB using h b by auto
  show "p \<in> S \<and> kyv l p = k" if "find (\<lambda>p. kyv l p = k) (B b) = Some p"
    using that sB by (auto simp: find_Some_iff dest: nth_mem)
qed

section \<open>A new entry in front of its bucket\<close>

definition pushed :: "('k, 'v) lru \<Rightarrow> nat set \<Rightarrow> nat \<Rightarrow> (nat \<Rightarrow> nat list) \<Rightarrow> nat \<Rightarrow> ('k, 'v) lru \<Rightarrow> bool" where
  "pushed l S b B pos l' \<longleftrightarrow> (\<forall>c < lruSize l. bucket_ok l' (insert pos S) c ((B(b := pos # B b)) c))
     \<and> bpv l' = (bpv l)(pos := b) \<and> same_conf l l' \<and> same_data l l' \<and> same_order l l' \<and> lruLen l' = lruLen l"

lemma pushedI:
  assumes inv: "lru_on l S ps B" and pos: "pos \<notin> S" and b: "b < lruSize l"
    and bp: "bpv l' = (bpv l)(pos := b)"
    and other: "\<And>q. q \<in> S \<Longrightarrow> bpv l q \<noteq> b \<Longrightarrow> nbv l' q = nbv l q \<and> pbv l' q = pbv l q"
    and ring: "ring (nbv l') (pbv l') (pos # B b)"
    and bks: "buckets l' = (buckets l)[b := pos]"
    and keep: "same_conf l l'" "same_data l l'" "same_order l l'" "lruLen l' = lruLen l"
  shows "pushed l S b B pos l'"
proof -
  note D = lru_onD [OF inv]
  have "bucket_ok l' (insert pos S) c ((B(b := pos # B b)) c)" if c: "c < lruSize l" for c
  proof (cases "c = b")
    case True
    have ok: "bucket_ok l S b (B b)" using D(6) [OF b] .
    then have "pos \<notin> set (B b)" using pos by (auto simp: bucket_ok_def)
    then show ?thesis
      using ok True ring pos b D(9) by (auto simp: bucket_ok_def bp bks)
  next
    case False
    have ok: "bucket_ok l S c (B c)" using D(6) [OF c] .
    then have "ring (nbv l') (pbv l') (B c) = ring (nbv l) (pbv l) (B c)"
      using other False by (intro ring_cong) (auto simp: bucket_ok_def)
    then show ?thesis using ok False pos by (auto simp: bucket_ok_def bp bks)
  qed
  then show ?thesis using bp keep by (simp add: pushed_def)
qed

lemma push_empty_ok:
  assumes inv: "lru_on l S ps B" and pos: "pos \<notin> S" "pos < lruSize l" and b: "b < lruSize l"
    and empty: "B b = []"
  obtains l' where
    "(set_bucket b pos l \<bind> upd_elem pos (\<lambda>e. e\<lparr>bucketPos := b, nextBucket := pos, prevBucket := pos\<rparr>)) = Some l'"
    "pushed l S b B pos l'"
proof -
  note D = lru_onD [OF inv]
  have pl: "pos < length (elements l)" using pos D(8) by simp
  define l1 where "l1 = l\<lparr>buckets := (buckets l)[b := pos]\<rparr>"
  define l' where "l' = put pos ((els l1 pos)\<lparr>bucketPos := b, nextBucket := pos, prevBucket := pos\<rparr>) l1"
  have v: "nbv l' = (nbv l)(pos := pos)" "pbv l' = (pbv l)(pos := pos)" "bpv l' = (bpv l)(pos := b)"
    "buckets l' = (buckets l)[b := pos]" "same_conf l l'" "same_data l l'" "same_order l l'" "lruLen l' = lruLen l"
    using pl by (auto simp: l1_def l'_def lru_views same_defs)
  have "pushed l S b B pos l'"
    by (rule pushedI [OF inv pos(1) b]) (use v empty pos in auto)
  moreover have "(set_bucket b pos l \<bind> upd_elem pos (\<lambda>e. e\<lparr>bucketPos := b, nextBucket := pos, prevBucket := pos\<rparr>)) = Some l'"
    using b D(9) pl by (simp add: set_bucket_def upd_elem_Some l1_def l'_def)
  ultimately show thesis using that by blast
qed

lemma push_front_ok:
  assumes inv: "lru_on l S ps B" and pos: "pos \<notin> S" "pos < lruSize l" and b: "b < lruSize l"
    and s: "s = (if B b = [] then pos else hd (B b))" and self: "B b = [] \<Longrightarrow> pbv l pos = pos"
  obtains l' where
    "do {
       l \<leftarrow> set_bucket b pos l;
       l \<leftarrow> upd_elem pos (\<lambda>e. e\<lparr>bucketPos := b, nextBucket := s\<rparr>) l;
       e \<leftarrow> elem s l;
       l \<leftarrow> upd_elem pos (prevBucket_update (\<lambda>_. prevBucket e)) l;
       e \<leftarrow> elem s l;
       l \<leftarrow> upd_elem (prevBucket e) (nextBucket_update (\<lambda>_. pos)) l;
       upd_elem s (prevBucket_update (\<lambda>_. pos)) l
     } = Some l'"
    "pushed l S b B pos l'"
proof -
  note D = lru_onD [OF inv]
  have ok: "bucket_ok l S b (B b)" using D(6) [OF b] .
  let ?t = "pbv l s"
  have pl: "pos < length (elements l)" using pos D(8) by simp
  have st: "s < length (elements l)" "?t < length (elements l)"
    "s = pos \<and> ?t = pos \<or> s \<in> set (B b) \<and> ?t \<in> set (B b) \<and> B b \<noteq> []"
  proof -
    have "s = pos \<and> ?t = pos \<or> s \<in> set (B b) \<and> ?t \<in> set (B b) \<and> B b \<noteq> []"
    proof (cases "B b = []")
      case False
      then have "s \<in> set (B b)" using s by simp
      moreover have "ring (nbv l) (pbv l) (B b)" using ok by (simp add: bucket_ok_def)
      ultimately show ?thesis using False ring_closed(2) by blast
    qed (simp add: s self)
    moreover have "set (B b) \<subseteq> {..<length (elements l)}" using ok D(2,8) by (auto simp: bucket_ok_def)
    ultimately show "s < length (elements l)" "?t < length (elements l)"
      "s = pos \<and> ?t = pos \<or> s \<in> set (B b) \<and> ?t \<in> set (B b) \<and> B b \<noteq> []" using pl by auto
  qed
  define l1 where "l1 = l\<lparr>buckets := (buckets l)[b := pos]\<rparr>"
  define l2 where "l2 = put pos ((els l1 pos)\<lparr>bucketPos := b, nextBucket := s\<rparr>) l1"
  define l3 where "l3 = put pos ((els l2 pos)\<lparr>prevBucket := ?t\<rparr>) l2"
  define l4 where "l4 = put ?t ((els l3 ?t)\<lparr>nextBucket := pos\<rparr>) l3"
  define l5 where "l5 = put s ((els l4 s)\<lparr>prevBucket := pos\<rparr>) l4"
  have len: "length (elements l1) = length (elements l)" "length (elements l2) = length (elements l)"
    "length (elements l3) = length (elements l)" "length (elements l4) = length (elements l)"
    by (simp_all add: l1_def l2_def l3_def l4_def lru_views)
  have v2: "pbv l2 = pbv l" "pbv l3 = (pbv l)(pos := ?t)"
    using pl by (auto simp: l1_def l2_def l3_def lru_views)
  have v: "nbv l5 = (nbv l)(pos := s, ?t := pos)" "pbv l5 = (pbv l)(pos := ?t, s := pos)"
    "bpv l5 = (bpv l)(pos := b)" "buckets l5 = (buckets l)[b := pos]"
    "same_conf l l5" "same_data l l5" "same_order l l5" "lruLen l5 = lruLen l"
    using pl st(1,2) by (auto simp: l1_def l2_def l3_def l4_def l5_def lru_views same_defs fun_eq_iff)
  have ring: "ring (nbv l5) (pbv l5) (pos # B b)"
  proof (cases "B b")
    case Nil
    then show ?thesis using s st(3) by (auto simp: v)
  next
    case (Cons h hs)
    then have "s = h" using s by simp
    moreover have "ring (nbv l) (pbv l) (h # hs)" "distinct (h # hs)" "pos \<notin> set (h # hs)"
      using ok pos Cons by (auto simp: bucket_ok_def)
    ultimately show ?thesis using ring_link_hd [of "nbv l" "pbv l" h hs pos] by (simp add: v Cons)
  qed
  have "pushed l S b B pos l5"
  proof (rule pushedI [OF inv pos(1) b v(3)])
    fix q assume "q \<in> S" "bpv l q \<noteq> b"
    then have "q \<noteq> pos" "q \<notin> set (B b)" using pos ok by (auto simp: bucket_ok_def)
    then show "nbv l5 q = nbv l q \<and> pbv l5 q = pbv l q" using st(3) by (auto simp: v)
  qed (use v ring in auto)
  moreover have "elem s l2 = Some (els l2 s)" "elem s l3 = Some (els l3 s)"
    "prevBucket (els l2 s) = ?t" "prevBucket (els l3 s) = ?t"
    using st(1) len v2 by (auto simp: elem_Some fold_views)
  moreover have "set_bucket b pos l = Some l1"
    "upd_elem pos (\<lambda>e. e\<lparr>bucketPos := b, nextBucket := s\<rparr>) l1 = Some l2"
    "upd_elem pos (prevBucket_update (\<lambda>_. ?t)) l2 = Some l3"
    "upd_elem ?t (nextBucket_update (\<lambda>_. pos)) l3 = Some l4"
    "upd_elem s (prevBucket_update (\<lambda>_. pos)) l4 = Some l5"
    using b D(9) pl st(1,2) len
    by (simp_all add: set_bucket_def upd_elem_Some l1_def l2_def l3_def l4_def l5_def)
  ultimately show thesis using that by simp
qed

end
