(* ===== verification/Cache_Interface.thy ===== *)
theory Cache_Interface
  imports Free_LRU
begin

text \<open>
  What the resolver and the desync code rely on when they keep answers in a cache with
  lifetimes: the contract of \<^verbatim>\<open>Get\<close> and \<^verbatim>\<open>AddWithLifetime\<close>, and what follows from it for
  any sequence of calls. Entries are value and expiry time, 0 meaning forever.
\<close>

definition stale :: "int \<Rightarrow> int \<Rightarrow> bool" where
  "stale now x \<longleftrightarrow> x \<noteq> 0 \<and> x \<le> now"

definition fresh_value :: "int \<Rightarrow> ('v \<times> int) option \<Rightarrow> 'v option" where
  "fresh_value now e = (case e of None \<Rightarrow> None | Some (v, x) \<Rightarrow> if stale now x then None else Some v)"

datatype ('k, 'v) cache_op = OpGet int 'k | OpAdd int 'k 'v int

text \<open>A sequence of calls and what the \<^verbatim>\<open>Get\<close> calls answer.\<close>

fun cache_run :: "(int \<Rightarrow> 'k \<Rightarrow> 'm \<Rightarrow> ('v option \<times> 'm) option) \<Rightarrow>
    (int \<Rightarrow> 'k \<Rightarrow> 'v \<Rightarrow> int \<Rightarrow> 'm \<Rightarrow> (bool \<times> 'm) option) \<Rightarrow>
    ('k, 'v) cache_op list \<Rightarrow> 'm \<Rightarrow> ('v option list \<times> 'm) option" where
  "cache_run get add [] m = Some ([], m)"
| "cache_run get add (OpGet now k # ops) m =
     do { (r, m) \<leftarrow> get now k m; (rs, m) \<leftarrow> cache_run get add ops m; Some (r # rs, m) }"
| "cache_run get add (OpAdd now k v life # ops) m =
     do { (_, m) \<leftarrow> add now k v life m; cache_run get add ops m }"

text \<open>
  Every answer is a miss, or the value last added under that key, not yet expired.
  \<open>seen\<close> is what was last added under each key.
\<close>

fun answers_ok :: "('k \<Rightarrow> ('v \<times> int) option) \<Rightarrow> ('k, 'v) cache_op list \<Rightarrow> 'v option list \<Rightarrow> bool" where
  "answers_ok seen [] rs \<longleftrightarrow> rs = []"
| "answers_ok seen (OpGet now k # ops) rs \<longleftrightarrow>
     (case rs of [] \<Rightarrow> False
      | r # rs \<Rightarrow> (r = None \<or> r = fresh_value now (seen k)) \<and> answers_ok seen ops rs)"
| "answers_ok seen (OpAdd now k v life # ops) rs \<longleftrightarrow>
     answers_ok (seen(k \<mapsto> (v, expire_at now life))) ops rs"

locale expiring_cache =
  fixes repr :: "'m \<Rightarrow> ('k \<Rightarrow> ('v \<times> int) option) \<Rightarrow> bool"
    and get :: "int \<Rightarrow> 'k \<Rightarrow> 'm \<Rightarrow> ('v option \<times> 'm) option"
    and add :: "int \<Rightarrow> 'k \<Rightarrow> 'v \<Rightarrow> int \<Rightarrow> 'm \<Rightarrow> (bool \<times> 'm) option"
  assumes get_law: "repr m M \<Longrightarrow> \<exists>m'. get now k m = Some (fresh_value now (M k), m') \<and>
      repr m' (if fresh_value now (M k) = None then M(k := None) else M)"
    and add_law: "repr m M \<Longrightarrow> \<exists>evicted m' M'. add now k v life m = Some (evicted, m') \<and> repr m' M' \<and>
      M' k = Some (v, expire_at now life) \<and> M' \<subseteq>\<^sub>m M(k \<mapsto> (v, expire_at now life))"
begin

lemma get_after_add:
  assumes "repr m M" and "\<not> stale t (expire_at now life)"
  shows "\<exists>evicted m1 m2. add now k v life m = Some (evicted, m1) \<and> get t k m1 = Some (Some v, m2)"
proof -
  obtain ev m1 M1 where a: "add now k v life m = Some (ev, m1)" "repr m1 M1"
    "M1 k = Some (v, expire_at now life)"
    using add_law [OF assms(1)] by blast
  have "fresh_value t (M1 k) = Some v" using a(3) assms(2) by (simp add: fresh_value_def)
  then show ?thesis using a(1) get_law [OF a(2), of t k] by auto
qed

lemma run_ok:
  assumes "repr m M" and "M \<subseteq>\<^sub>m seen"
  shows "\<exists>rs m' M'. cache_run get add ops m = Some (rs, m') \<and> repr m' M' \<and> answers_ok seen ops rs"
  using assms
proof (induction ops arbitrary: m M seen)
  case Nil
  then show ?case by auto
next
  case (Cons op ops)
  note prems = Cons.prems and IH = Cons.IH
  show ?case
  proof (cases op)
    case [simp]: (OpGet now k)
  obtain m1 where g: "get now k m = Some (fresh_value now (M k), m1)"
    and r: "repr m1 (if fresh_value now (M k) = None then M(k := None) else M)"
    using get_law [OF prems(1), of now k] by blast
  have "(if fresh_value now (M k) = None then M(k := None) else M) \<subseteq>\<^sub>m seen"
    using prems(2) by (auto simp: map_le_def dom_def)
  from IH [OF r this] obtain rs m2 M2 where "cache_run get add ops m1 = Some (rs, m2)"
    "repr m2 M2" "answers_ok seen ops rs" by auto
  moreover have "fresh_value now (M k) = None \<or> fresh_value now (M k) = fresh_value now (seen k)"
  proof (cases "M k")
    case (Some e)
    then have "seen k = M k" using prems(2) by (auto simp: map_le_def dom_def)
    then show ?thesis by simp
  qed (simp add: fresh_value_def)
  ultimately show ?thesis using g by auto
next
    case [simp]: (OpAdd now k v life)
  obtain ev m1 M1 where a: "add now k v life m = Some (ev, m1)" "repr m1 M1"
    "M1 \<subseteq>\<^sub>m M(k \<mapsto> (v, expire_at now life))"
    using add_law [OF prems(1), of now k v life] by blast
  have "M(k \<mapsto> (v, expire_at now life)) \<subseteq>\<^sub>m seen(k \<mapsto> (v, expire_at now life))"
    using prems(2) by (rule map_le_upd)
  then have "M1 \<subseteq>\<^sub>m seen(k \<mapsto> (v, expire_at now life))" using a(3) map_le_trans by blast
    from IH [OF a(2) this] obtain rs m2 M2 where "cache_run get add ops m1 = Some (rs, m2)" "repr m2 M2"
      "answers_ok (seen(k \<mapsto> (v, expire_at now life))) ops rs" by blast
    then show ?thesis using a(1) by (intro exI [of _ rs] exI [of _ m2] exI [of _ M2]) simp
  qed
qed

end

end
