(* ===== verification/LRU_Cache.thy ===== *)
theory LRU_Cache
  imports Free_LRU_Spec Cache_Interface
begin

text \<open>
  What the LRU map promises: a list of at most \<^verbatim>\<open>cap\<close> entries with distinct keys, the
  most recently used one first. \<open>LRU_Get\<close> and \<open>LRU_AddWithLifetime\<close> implement it.
\<close>

section \<open>The list model\<close>

type_synonym ('k, 'v) entry = "'k \<times> 'v \<times> int"

definition del_key :: "'k \<Rightarrow> ('k, 'v) entry list \<Rightarrow> ('k, 'v) entry list" where
  "del_key k c = filter (\<lambda>e. fst e \<noteq> k) c"

definition cache_get :: "int \<Rightarrow> 'k \<Rightarrow> ('k, 'v) entry list \<Rightarrow> 'v option \<times> ('k, 'v) entry list" where
  "cache_get now k c = (case map_of c k of
       None \<Rightarrow> (None, c)
     | Some (v, x) \<Rightarrow> if stale now x then (None, del_key k c) else (Some v, (k, v, x) # del_key k c))"

definition cache_add :: "nat \<Rightarrow> 'k \<Rightarrow> 'v \<Rightarrow> int \<Rightarrow> ('k, 'v) entry list \<Rightarrow> bool \<times> ('k, 'v) entry list" where
  "cache_add cap k v x c =
     (if map_of c k \<noteq> None then (False, (k, v, x) # del_key k c)
      else if length c = cap then (True, (k, v, x) # butlast c)
      else (False, (k, v, x) # c))"

text \<open>The entries a map holds, read along the ring of use.\<close>

definition entry_at :: "('k, 'v) lru \<Rightarrow> nat \<Rightarrow> ('k, 'v) entry" where
  "entry_at l p = (kyv l p, vlv l p, exv l p)"

definition entries :: "('k, 'v) lru \<Rightarrow> nat list \<Rightarrow> ('k, 'v) entry list" where
  "entries l ps = map (entry_at l) ps"

definition lru_repr :: "('k, 'v) lru \<Rightarrow> ('k, 'v) entry list \<Rightarrow> bool" where
  "lru_repr l c \<longleftrightarrow> (\<exists>ps B. lru_inv l ps B \<and> c = entries l ps)"

lemma entries_same: "same_data l l' \<Longrightarrow> entries l' ps = entries l ps"
  by (simp add: entries_def entry_at_def same_data_def)

lemma entries_cong:
  "(\<And>p. p \<in> set ps \<Longrightarrow> entry_at l' (f p) = entry_at l p) \<Longrightarrow> entries l' (map f ps) = entries l ps"
  by (simp add: entries_def)

lemma entries_remove:
  assumes "inj_on (kyv l) (set ps)" and "distinct ps" and "p \<in> set ps"
  shows "entries l (remove1 p ps) = del_key (kyv l p) (entries l ps)"
proof -
  have "\<And>q. q \<in> set ps \<Longrightarrow> kyv l q = kyv l p \<longleftrightarrow> q = p"
    using assms(1,3) by (auto dest: inj_onD)
  then have "filter (\<lambda>q. q \<noteq> p) ps = filter (\<lambda>q. kyv l q \<noteq> kyv l p) ps"
    by (intro filter_cong) auto
  then show ?thesis
    using assms(2)
    by (simp add: entries_def del_key_def filter_map o_def entry_at_def distinct_remove1_removeAll
        removeAll_filter_not_eq eq_commute [of p])
qed

lemma entries_lookup:
  assumes "inj_on (kyv l) (set ps)" and "p \<in> set ps"
  shows "map_of (entries l ps) (kyv l p) = Some (vlv l p, exv l p)"
  using assms
proof (induction ps)
  case (Cons q qs)
  then show ?case
    by (auto simp: entries_def entry_at_def inj_on_def)
qed simp

lemma entries_absent:
  "k \<notin> kyv l ` set ps \<Longrightarrow> map_of (entries l ps) k = None"
  by (auto simp: map_of_eq_None_iff entries_def entry_at_def)

section \<open>Inserting and removing\<close>

lemma insert_at_ok:
  assumes ord: "order_ok l ps" and ps: "set ps \<subseteq> {..<length (elements l)}"
    and pos: "pos \<notin> set ps" "pos < length (elements l)" and len: "lruLen l = length ps"
  obtains l' where "insert_at now pos k v life l = Some l'" "order_ok l' (pos # ps)"
    "same_conf l l'" "same_buckets l l'" "lruLen l' = Suc (lruLen l)"
    "kyv l' = (kyv l)(pos := k)" "vlv l' = (vlv l)(pos := v)" "exv l' = (exv l)(pos := expire_at now life)"
proof -
  define l1 where "l1 = put pos ((els l pos)\<lparr>elKey := k, elValue := v, elExpire := expire_at now life\<rparr>) l"
  have v1: "nxv l1 = nxv l" "pvv l1 = pvv l" "same_conf l l1" "same_buckets l l1" "lruHead l1 = lruHead l"
    "lruLen l1 = lruLen l" "kyv l1 = (kyv l)(pos := k)" "vlv l1 = (vlv l)(pos := v)"
    "exv l1 = (exv l)(pos := expire_at now life)" "length (elements l1) = length (elements l)"
    using pos by (auto simp: l1_def lru_views same_defs)
  show thesis
  proof (cases ps)
    case Nil
    define l2 where "l2 = (put pos ((els l1 pos)\<lparr>elPrev := pos, elNext := pos\<rparr>) l1)\<lparr>lruHead := pos\<rparr>"
    define l3 where "l3 = l2\<lparr>lruLen := lruLen l2 + 1\<rparr>"
    have "insert_at now pos k v life l = Some l3"
      using pos len Nil v1(6) by (simp add: insert_at_def upd_elem_Some l1_def [symmetric] v1(10) l2_def l3_def)
    moreover have "order_ok l3 (pos # ps)" "same_conf l l3" "same_buckets l l3" "lruLen l3 = Suc (lruLen l)"
      "kyv l3 = (kyv l)(pos := k)" "vlv l3 = (vlv l)(pos := v)" "exv l3 = (exv l)(pos := expire_at now life)"
      using pos v1 Nil by (auto simp: order_ok_def l2_def l3_def lru_views same_defs)
    ultimately show thesis by (rule that)
  next
    case (Cons h hs)
    have head: "lruHead l1 = h" and ring: "ring (pvv l1) (nxv l1) (h # hs)" and d: "distinct (h # hs)"
      using ord v1 Cons by (simp_all add: order_ok_def)
    have ne: "pos \<noteq> h" using pos Cons by auto
    have "nxv l1 h \<in> set ps" using ring_closed(2) [OF ring, of h] Cons by simp
    then have bnd: "pos < length (elements l1)" "lruHead l1 < length (elements l1)"
      "nxv l1 (lruHead l1) < length (elements l1)" "pos \<noteq> lruHead l1"
      using ps pos Cons head ne v1(10) by auto
    obtain l2 where l2: "set_head pos l1 = Some l2"
      "pvv l2 = (pvv l1)(pos := lruHead l1, nxv l1 (lruHead l1) := pos)"
      "nxv l2 = (nxv l1)(pos := nxv l1 (lruHead l1), lruHead l1 := pos)"
      "same_conf l1 l2" "same_data l1 l2" "same_buckets l1 l2" "lruHead l2 = pos" "lruLen l2 = lruLen l1"
      by (rule set_head_ok [OF bnd])
    define l3 where "l3 = l2\<lparr>lruLen := lruLen l2 + 1\<rparr>"
    have "insert_at now pos k v life l = Some l3"
      using pos len Cons v1(6) l2(1) head ne
      by (simp add: insert_at_def upd_elem_Some l1_def [symmetric] l3_def)
    moreover have "ring (pvv l2) (nxv l2) (pos # h # hs)"
      using ring_link_hd [OF ring d, of pos] pos Cons by (simp add: l2 head)
    then have "order_ok l3 (pos # ps)"
      using d pos Cons l2(7) by (auto simp: order_ok_def l3_def lru_views)
    moreover have "same_conf l l3" "same_buckets l l3" "lruLen l3 = Suc (lruLen l)"
      "kyv l3 = (kyv l)(pos := k)" "vlv l3 = (vlv l)(pos := v)" "exv l3 = (exv l)(pos := expire_at now life)"
      using v1 l2 by (auto simp: l3_def lru_views same_defs)
    ultimately show thesis by (rule that)
  qed
qed

text \<open>A pushed position becomes an entry.\<close>

lemma pushed_insert_ok:
  assumes inv: "lru_on l S ps B" and pos: "pos \<notin> S" "pos < lruSize l"
    and push: "pushed l S b B pos l1" and new: "k \<notin> kyv l ` S"
    and b: "b = hash_to_bucket_pos l (hashFn l k)"
  obtains l' B' where "insert_at now pos k v life l1 = Some l'" "lru_on l' (insert pos S) (pos # ps) B'"
    "same_conf l l'" "lruLen l' = Suc (lruLen l)"
    "entries l' (pos # ps) = (k, v, expire_at now life) # entries l ps"
proof -
  note D = lru_onD [OF inv]
  have conf1: "same_conf l l1" and keep: "same_data l l1" "same_order l l1" "lruLen l1 = lruLen l"
    and bp1: "bpv l1 = (bpv l)(pos := b)"
    and bk1: "\<And>c. c < lruSize l \<Longrightarrow> bucket_ok l1 (insert pos S) c ((B(b := pos # B b)) c)"
    using push by (auto simp: pushed_def)
  have len: "lruLen l1 = length ps" using keep D(3,4,10) by (simp add: distinct_card [symmetric])
  have "order_ok l1 ps" using D(5) keep by (simp add: order_ok_def same_order_def)
  moreover have "set ps \<subseteq> {..<length (elements l1)}" "pos \<notin> set ps" "pos < length (elements l1)"
    using D(2,4,8) pos conf1 by (auto simp: same_conf_def)
  ultimately obtain l' where l': "insert_at now pos k v life l1 = Some l'" "order_ok l' (pos # ps)"
    "same_conf l1 l'" "same_buckets l1 l'" "lruLen l' = Suc (lruLen l1)"
    "kyv l' = (kyv l1)(pos := k)" "vlv l' = (vlv l1)(pos := v)" "exv l' = (exv l1)(pos := expire_at now life)"
    using insert_at_ok [of l1 ps pos] len by blast
  have conf: "same_conf l l'" using conf1 l'(3) by (simp add: same_conf_def)
  have ky: "kyv l' = (kyv l)(pos := k)" "vlv l' = (vlv l)(pos := v)" "exv l' = (exv l)(pos := expire_at now life)"
    using l' keep by (simp_all add: same_data_def)
  have bp: "bpv l' = (bpv l)(pos := b)" using l'(4) bp1 by (simp add: same_buckets_def)
  have hf: "hashFn l' = hashFn l" using conf by (simp add: same_conf_def)
  have inj: "inj_on (kyv l') (insert pos S)"
  proof -
    have "inj_on ((kyv l)(pos := k)) S"
      using D(7) pos by (auto simp: hashed_ok_def inj_on_def)
    then show ?thesis using new pos by (auto simp: ky inj_on_insert)
  qed
  have hash: "hashed_ok l' (insert pos S)"
    unfolding hashed_ok_def
  proof (intro conjI ballI inj)
    fix q assume "q \<in> insert pos S"
    then show "bpv l' q = hash_to_bucket_pos l' (hashFn l' (kyv l' q))"
      using D(7) pos by (cases "q = pos") (simp_all add: hashed_ok_def hash_pos_cong [OF conf] bp ky b hf)
  qed
  have "lru_on l' (insert pos S) (pos # ps) (B(b := pos # B b))"
    unfolding lru_on_def
  proof (intro conjI allI impI)
    show "lru_shape l'" using D(1) shape_cong [OF conf] by simp
    show "insert pos S \<subseteq> {..<lruSize l'}" using D(2) pos conf by (auto simp: same_conf_def)
    show "lruLen l' = card (insert pos S)" using D(3,12) pos l'(5) keep by simp
    show "set (pos # ps) = insert pos S" using D(4) by simp
    show "bucket_ok l' (insert pos S) c ((B(b := pos # B b)) c)" if "c < lruSize l'" for c
      using bk1 that conf by (simp add: bucket_ok_cong [OF l'(4)] same_conf_def)
  qed (use l'(2) hash in auto)
  moreover have "entries l' (pos # ps) = (k, v, expire_at now life) # entries l ps"
    using D(4) pos by (auto simp: entries_def entry_at_def ky)
  moreover have "lruLen l' = Suc (lruLen l)" using l'(5) keep by simp
  ultimately show thesis using that l'(1) conf by blast
qed

lemma remove_at_ok:
  assumes inv: "lru_on l {..<lruLen l} ps B" and p: "p < lruLen l"
  obtains l' ps' B' where "remove_at p l = Some l'" "lru_on l' {..<lruLen l'} ps' B'"
    "same_conf l l'" "entries l' ps' = del_key (kyv l p) (entries l ps)" "Suc (lruLen l') = lruLen l"
proof -
  note D = lru_onD [OF inv]
  let ?S = "{..<lruLen l}"
  have pS: "p \<in> ?S" using p by simp
  obtain l1 B1 where l1: "evict p l = Some l1" "lru_on l1 (?S - {p}) (remove1 p ps) B1"
    "same_conf l l1" "same_data l l1" "\<forall>b < lruSize l. set (B1 b) = set (B b) - {p}"
    "B1 (bpv l p) = [] \<longrightarrow> nbv l1 p = p \<and> pbv l1 p = p" "lruLen l1 = lruLen l - 1"
    by (rule evict_ok [OF inv pS])
  note D1 = lru_onD [OF l1(2)]
  let ?m = "lruLen l1" and ?r = "\<lambda>q. if q = lruLen l1 then p else q"
  have m: "Suc ?m = lruLen l" using l1(7) p by simp
  have mlen: "?m < lruSize l" "p < lruSize l" "lruSize l1 = lruSize l" "length (elements l1) = lruSize l"
    using m p D(2,8) l1(3) by (auto simp: same_conf_def lessThan_subset_iff)
  have del: "entries l1 (remove1 p ps) = del_key (kyv l p) (entries l ps)"
    using entries_remove [of l ps p] D(4,7,10) p by (simp add: entries_same [OF l1(4)] hashed_ok_def)
  obtain l2 ps2 B2 where l2: "move p ?m l1 = Some l2" "lru_on l2 {..<?m} ps2 B2"
    "same_conf l1 l2" "lruLen l2 = lruLen l1" "entries l2 ps2 = entries l1 (remove1 p ps)"
  proof (cases "p = ?m")
    case True
    then have "?S - {p} = {..<?m}" using m by auto
    then show thesis using that [of l1] l1(2) True by (simp add: move_def same_defs)
  next
    case False
    have S: "insert p (?S - {p} - {?m}) = {..<?m}" using False m p by auto
    obtain l2 where "move p ?m l1 = Some l2"
      and l2: "lru_on l2 {..<?m} (map ?r (remove1 p ps)) (\<lambda>b. map ?r (B1 b))"
      "same_conf l1 l2" "lruLen l2 = lruLen l1"
      "kyv l2 = (kyv l1)(p := kyv l1 ?m)" "vlv l2 = (vlv l1)(p := vlv l1 ?m)" "exv l2 = (exv l1)(p := exv l1 ?m)"
      using move_ok [OF l1(2), of ?m p] False m mlen S by auto
    moreover have "entries l2 (map ?r (remove1 p ps)) = entries l1 (remove1 p ps)"
      using D(10) l2 by (intro entries_cong) (auto simp: entry_at_def)
    ultimately show thesis using that by blast
  qed
  define l3 where "l3 = put ?m ((els l2 ?m)\<lparr>elKey := emptyKey l2, elValue := emptyValue l2\<rparr>) l2"
  have b2: "?m < lruSize l2" "?m < length (elements l2)" using mlen l2(3) by (simp_all add: same_conf_def)
  have "lru_on l3 {..<?m} ps2 B2" unfolding l3_def using put_free_ok [OF l2(2)] b2 by simp
  moreover have "lruLen l3 = ?m" using l2(4) by (simp add: l3_def lru_views)
  moreover have "remove_at p l = Some l3"
    using l1(1) l2(1,4) b2 by (simp add: remove_at_def clear_key_and_value_def upd_elem_Some l3_def)
  moreover have "same_conf l l3" using l1(3) l2(3) by (simp add: l3_def same_conf_def lru_views)
  moreover have "entries l3 ps2 = entries l2 ps2"
  proof -
    have "?m \<notin> set ps2" using lru_onD(4) [OF l2(2)] by simp
    then show ?thesis using b2 by (auto simp: entries_def entry_at_def l3_def lru_views)
  qed
  ultimately show thesis using that l2(5) del m by metis
qed

section \<open>Get\<close>

lemma lru_reprI: "lru_inv l ps B \<Longrightarrow> entries l ps = c \<Longrightarrow> lru_repr l c"
  by (auto simp: lru_repr_def)

lemma lru_inv_facts:
  assumes "lru_inv l ps B"
  shows "lru_on l {..<lruLen l} ps B" "lruLen l \<le> lruCap l" "set ps = {..<lruLen l}" "distinct ps"
    "inj_on (kyv l) (set ps)" "length ps = lruLen l" "length (entries l ps) = lruLen l"
proof -
  show on: "lru_on l {..<lruLen l} ps B" "lruLen l \<le> lruCap l" using assms by (simp_all add: lru_inv_def)
  note D = lru_onD [OF on(1)]
  show "set ps = {..<lruLen l}" "distinct ps" "inj_on (kyv l) (set ps)"
    using D(4,7,10) by (simp_all add: hashed_ok_def)
  then show "length ps = lruLen l" using distinct_card [of ps] by simp
  then show "length (entries l ps) = lruLen l" by (simp add: entries_def)
qed

text \<open>The bucket of a key, searched: the key's entry in the list model or nothing.\<close>

lemma bucket_search:
  assumes inv: "lru_inv l ps B" and b: "b = hash_to_bucket_pos l (hashFn l k)"
  shows "(\<exists>p v x. find (\<lambda>p. kyv l p = k) (B b) = Some p \<and> p < lruLen l \<and> kyv l p = k
       \<and> map_of (entries l ps) k = Some (v, x) \<and> entry_at l p = (k, v, x))
    \<or> find (\<lambda>p. kyv l p = k) (B b) = None \<and> map_of (entries l ps) k = None \<and> k \<notin> kyv l ` {..<lruLen l}"
proof (cases "find (\<lambda>p. kyv l p = k) (B b)")
  case None
  then show ?thesis
    using bucket_find(1) [OF lru_inv_facts(1) [OF inv] b] lru_inv_facts(3) [OF inv]
    by (simp add: entries_absent)
next
  case (Some p)
  then have "p < lruLen l" "kyv l p = k"
    using bucket_find(2) [OF lru_inv_facts(1) [OF inv] b Some] by simp_all
  then show ?thesis
    using Some entries_lookup [of l ps p] lru_inv_facts(3,5) [OF inv] by (auto simp: entry_at_def)
qed

lemma find_key_ok:
  assumes inv: "lru_inv l ps B"
  shows "map_of (entries l ps) k = None \<Longrightarrow> find_key now (hashFn l k) k l = Some (None, l)"
    and "map_of (entries l ps) k = Some (v, x) \<Longrightarrow> stale now x \<Longrightarrow>
      \<exists>l'. find_key now (hashFn l k) k l = Some (None, l') \<and> same_conf l l' \<and>
        lru_repr l' (del_key k (entries l ps))"
    and "map_of (entries l ps) k = Some (v, x) \<Longrightarrow> \<not> stale now x \<Longrightarrow>
      \<exists>p < lruLen l. find_key now (hashFn l k) k l = Some (Some p, l) \<and> entry_at l p = (k, v, x)"
proof -
  note on = lru_inv_facts(1) [OF inv]
  note D = lru_onD [OF on]
  define b where "b = hash_to_bucket_pos l (hashFn l k)"
  have bsz: "b < lruSize l" unfolding b_def by (rule hash_to_bucket_pos_less [OF D(1)])
  have pos: "hash_to_pos l (hashFn l k) = Some (b, buckets l ! b)"
    unfolding b_def by (rule hash_to_pos_ok [OF on])
  note srch = bucket_search [OF inv b_def]
  note empty = bucket_empty_iff [OF on bsz] and walk = bucket_walk_ok [OF on bsz]
  show "find_key now (hashFn l k) k l = Some (None, l)" if "map_of (entries l ps) k = None"
    using that srch by (cases "B b = []") (auto simp: find_key_def pos empty walk)
  assume k: "map_of (entries l ps) k = Some (v, x)"
  obtain p where p: "find (\<lambda>p. kyv l p = k) (B b) = Some p" "p < lruLen l" "kyv l p = k"
    "entry_at l p = (k, v, x)"
    using srch k by auto
  then have ne: "B b \<noteq> []" by auto
  have pl: "p < length (elements l)" using p(2) D(2,8) by auto
  have ex: "elExpire (els l p) = x" using p(4) by (simp add: entry_at_def fold_views)
  show "\<exists>l'. find_key now (hashFn l k) k l = Some (None, l') \<and> same_conf l l' \<and>
      lru_repr l' (del_key k (entries l ps))" if "stale now x"
  proof -
    obtain l' ps' B' where l': "remove_at p l = Some l'" "lru_on l' {..<lruLen l'} ps' B'"
      "same_conf l l'" "entries l' ps' = del_key (kyv l p) (entries l ps)" "Suc (lruLen l') = lruLen l"
      by (rule remove_at_ok [OF on p(2)])
    have "lruLen l' \<le> lruCap l'"
      using l'(3,5) lru_inv_facts(2) [OF inv] by (simp add: same_conf_def)
    then have "lru_inv l' ps' B'" using l'(2) by (simp add: lru_inv_def)
    then have "lru_repr l' (del_key k (entries l ps))" using l'(4) p(3) by (intro lru_reprI) auto
    moreover have "find_key now (hashFn l k) k l = Some (None, l')"
      using that ne p(1) l'(1) by (simp add: find_key_def pos empty walk elem_Some pl ex stale_def)
    ultimately show ?thesis using l'(3) by blast
  qed
  show "\<exists>p < lruLen l. find_key now (hashFn l k) k l = Some (Some p, l) \<and> entry_at l p = (k, v, x)"
    if "\<not> stale now x"
  proof (intro exI [of _ p] conjI)
    have "\<not> (x \<noteq> 0 \<and> x \<le> now)" using that by (simp add: stale_def)
    then show "find_key now (hashFn l k) k l = Some (Some p, l)"
      using ne p(1) by (simp add: find_key_def pos empty walk elem_Some pl ex del: de_Morgan_conj)
  qed (use p in auto)
qed

lemma touch_entry_ok:
  assumes inv: "lru_inv l ps B" and p: "p < lruLen l" "entry_at l p = (k, v, x)"
  obtains l' where "touch p l = Some l'" "lru_repr l' ((k, v, x) # del_key k (entries l ps))"
    "same_conf l l'" "same_data l l'"
proof -
  note I = lru_inv_facts [OF inv]
  have pS: "p \<in> {..<lruLen l}" using p by simp
  obtain l' where l': "touch p l = Some l'" "lru_on l' {..<lruLen l} (p # remove1 p ps) B"
    "same_conf l l'" "same_data l l'" "lruLen l' = lruLen l"
    by (rule touch_ok [OF I(1) pS])
  have "lru_inv l' (p # remove1 p ps) B"
    using l' I(2) by (simp add: lru_inv_def same_conf_def)
  moreover have "entries l' (p # remove1 p ps) = (k, v, x) # del_key k (entries l ps)"
  proof -
    have "entries l (remove1 p ps) = del_key (kyv l p) (entries l ps)"
      using p(1) I(3) by (intro entries_remove [OF I(5,4)]) simp
    moreover have "kyv l p = k" using p(2) by (simp add: entry_at_def)
    moreover have "entries l' (p # remove1 p ps) = entry_at l p # entries l (remove1 p ps)"
      by (simp add: entries_same [OF l'(4)]) (simp add: entries_def)
    ultimately show ?thesis using p(2) by simp
  qed
  ultimately show thesis using that l' lru_reprI by blast
qed

lemma lru_get_refines:
  assumes "lru_repr l c"
  obtains l' where "LRU_Get now k l = Some (fst (cache_get now k c), l')"
    "lru_repr l' (snd (cache_get now k c))" "same_conf l l'"
proof -
  obtain ps B where inv: "lru_inv l ps B" and c: "c = entries l ps" using assms by (auto simp: lru_repr_def)
  consider (none) "map_of c k = None" | (stale) v x where "map_of c k = Some (v, x)" "stale now x"
    | (hit) v x where "map_of c k = Some (v, x)" "\<not> stale now x" by fastforce
  then show thesis
  proof cases
    case none
    then show thesis
      using find_key_ok(1) [OF inv] assms c
      by (intro that [of l]) (simp_all add: LRU_Get_def lru_get_def cache_get_def same_defs)
  next
    case stale
    then obtain l' where "find_key now (hashFn l k) k l = Some (None, l')" "same_conf l l'"
      "lru_repr l' (del_key k c)" using find_key_ok(2) [OF inv] c by blast
    then show thesis using stale by (intro that [of l']) (simp_all add: LRU_Get_def lru_get_def cache_get_def)
  next
    case hit
    then obtain p where p: "p < lruLen l" "find_key now (hashFn l k) k l = Some (Some p, l)"
      "entry_at l p = (k, v, x)" using find_key_ok(3) [OF inv] c by blast
    obtain l' where l': "touch p l = Some l'" "lru_repr l' ((k, v, x) # del_key k (entries l ps))"
      "same_conf l l'" "same_data l l'" by (rule touch_entry_ok [OF inv p(1,3)])
    have "p < length (elements l')" 
      using p(1) lru_onD(2,8) [OF lru_inv_facts(1) [OF inv]] l'(3) by (auto simp: same_conf_def)
    moreover have "vlv l' p = v" using p(3) l'(4) by (simp add: entry_at_def same_data_def)
    ultimately show thesis
      using hit p l' c by (intro that [of l'])
        (simp_all add: LRU_Get_def lru_get_def cache_get_def elem_Some fold_views)
  qed
qed

section \<open>Add\<close>

lemma claim_pos_ok:
  assumes inv: "lru_inv l ps B"
  obtains pos l1 S1 ps1 B1 where
    "claim_pos l = Some (pos, length (entries l ps) = lruCap l, l1)" "lru_on l1 S1 ps1 B1"
    "pos \<notin> S1" "pos < lruSize l1" "insert pos S1 = {..<Suc (lruLen l1)}" "Suc (lruLen l1) \<le> lruCap l"
    "same_conf l l1" "kyv l1 ` S1 \<subseteq> kyv l ` {..<lruLen l}"
    "entries l1 ps1 = (if length (entries l ps) = lruCap l then butlast (entries l ps) else entries l ps)"
    "length (entries l ps) \<noteq> lruCap l \<longrightarrow> l1 = l \<and> B1 = B"
    "length (entries l ps) = lruCap l \<longrightarrow> (\<forall>b < lruSize l. set (B1 b) = set (B b) - {pos})
       \<and> (B1 (bpv l pos) = [] \<longrightarrow> pbv l1 pos = pos) \<and> pos \<in> {..<lruLen l}"
proof (cases "lruLen l = lruCap l")
  case False
  note I = lru_inv_facts [OF inv]
  note D = lru_onD [OF I(1)]
  have "lruLen l < lruCap l" using False I(2) by simp
  moreover have "lruCap l \<le> lruSize l" using D(1) by (simp add: lru_shape_def)
  ultimately show thesis
    using False I by (intro that [of "lruLen l" l "{..<lruLen l}" ps B])
      (auto simp: claim_pos_def same_defs lessThan_Suc)
next
  case True
  note I = lru_inv_facts [OF inv]
  note D = lru_onD [OF I(1)]
  have pos: "0 < lruLen l" using D(1) True by (simp add: lru_shape_def)
  then obtain h hs where ps: "ps = h # hs" using I(6) by (cases ps) auto
  have head: "lruHead l = h" using D(5) ps by (simp add: order_ok_def)
  define p where "p = last ps"
  have nx: "nxv l h = p" using ring_links(2) [of "pvv l" "nxv l" h hs] D(11) ps by (simp add: p_def)
  have "h \<in> {..<lruLen l}" unfolding I(3) [symmetric] using ps by simp
  then have hl: "h < length (elements l)" using D(2,8) by (metis lessThan_iff subsetD)
  have pS: "p \<in> {..<lruLen l}" unfolding p_def I(3) [symmetric] using ps by (intro last_in_set) simp
  have cl: "claim_pos l = (evict p l \<bind> (\<lambda>l. Some (p, True, l)))"
    using True hl nx by (simp add: claim_pos_def head elem_Some fold_views)
  obtain l1 B1 where l1: "evict p l = Some l1" "lru_on l1 ({..<lruLen l} - {p}) (remove1 p ps) B1"
    "same_conf l l1" "same_data l l1" "\<forall>b < lruSize l. set (B1 b) = set (B b) - {p}"
    "B1 (bpv l p) = [] \<longrightarrow> nbv l1 p = p \<and> pbv l1 p = p" "lruLen l1 = lruLen l - 1"
    by (rule evict_ok [OF I(1) pS])
  have "remove1 p ps = butlast ps"
  proof -
    have "ps \<noteq> []" using ps by simp
    then have split: "ps = butlast ps @ [p]" unfolding p_def by (rule append_butlast_last_id [symmetric])
    then have "distinct (butlast ps @ [p])" using I(4) by simp
    then have "p \<notin> set (butlast ps)" by simp
    then have "remove1 p (butlast ps @ [p]) = butlast ps" by (simp add: remove1_append)
    then show ?thesis using split by simp
  qed
  then have "entries l1 (remove1 p ps) = butlast (entries l ps)"
    by (simp add: entries_same [OF l1(4)]) (simp add: entries_def map_butlast)
  moreover have "kyv l1 ` ({..<lruLen l} - {p}) \<subseteq> kyv l ` {..<lruLen l}"
    using l1(4) by (auto simp: same_data_def)
  moreover have "p < lruSize l1" using pS D(2) l1(3) by (auto simp: same_conf_def)
  moreover have "insert p ({..<lruLen l} - {p}) = {..<Suc (lruLen l1)}" using pS pos l1(7) by auto
  ultimately show thesis
    using True I(2,7) pos l1 pS cl
    by (intro that [of p l1 "{..<lruLen l} - {p}" "remove1 p ps" B1]) simp_all
qed

text \<open>A new key, pushed on an empty bucket or in front of a bucket that holds entries.\<close>

lemma add_new_ok:
  assumes inv: "lru_inv l ps B" and b: "b = hash_to_bucket_pos l (hashFn l k)"
    and new: "k \<notin> kyv l ` {..<lruLen l}"
  obtains l' where
    "add_with_lifetime now (hashFn l k) k v life l = Some (length (entries l ps) = lruCap l, l')"
    "lru_repr l' ((k, v, expire_at now life) #
       (if length (entries l ps) = lruCap l then butlast (entries l ps) else entries l ps))"
    "same_conf l l'"
proof -
  note I = lru_inv_facts [OF inv]
  note D = lru_onD [OF I(1)]
  let ?full = "length (entries l ps) = lruCap l"
  have bsz: "b < lruSize l" unfolding b by (rule hash_to_bucket_pos_less [OF D(1)])
  have hpos: "hash_to_pos l (hashFn l k) = Some (b, buckets l ! b)"
    unfolding b by (rule hash_to_pos_ok [OF I(1)])
  note empty = bucket_empty_iff [OF I(1) bsz] and walk = bucket_walk_ok [OF I(1) bsz]
  have none: "find (\<lambda>p. kyv l p = k) (B b) = None" using bucket_find(1) [OF I(1) b] new by simp
  obtain pos l1 S1 ps1 B1 where cl: "claim_pos l = Some (pos, ?full, l1)" and on1: "lru_on l1 S1 ps1 B1"
    and pos: "pos \<notin> S1" "pos < lruSize l1" and S1: "insert pos S1 = {..<Suc (lruLen l1)}"
    and cap: "Suc (lruLen l1) \<le> lruCap l" and conf: "same_conf l l1"
    and ky: "kyv l1 ` S1 \<subseteq> kyv l ` {..<lruLen l}"
    and ent: "entries l1 ps1 = (if ?full then butlast (entries l ps) else entries l ps)"
    and free: "\<not> ?full \<longrightarrow> l1 = l \<and> B1 = B"
    and full: "?full \<longrightarrow> (\<forall>b < lruSize l. set (B1 b) = set (B b) - {pos})
       \<and> (B1 (bpv l pos) = [] \<longrightarrow> pbv l1 pos = pos) \<and> pos \<in> {..<lruLen l}"
    by (rule claim_pos_ok [OF inv])
  have bsz1: "b < lruSize l1" using bsz conf by (simp add: same_conf_def)
  have new1: "k \<notin> kyv l1 ` S1" using new ky by blast
  have b1: "b = hash_to_bucket_pos l1 (hashFn l1 k)"
    using b conf by (simp add: hash_pos_cong [OF conf] same_conf_def)
  note return = that
  have finish: thesis
    if l2: "pushed l1 S1 b B1 pos l2"
      and eq: "add_with_lifetime now (hashFn l k) k v life l =
        (insert_at now pos k v life l2 \<bind> (\<lambda>l. Some (?full, l)))" for l2
  proof -
    obtain l' B' where l': "insert_at now pos k v life l2 = Some l'"
      "lru_on l' (insert pos S1) (pos # ps1) B'" "same_conf l1 l'" "lruLen l' = Suc (lruLen l1)"
      "entries l' (pos # ps1) = (k, v, expire_at now life) # entries l1 ps1"
      by (rule pushed_insert_ok [OF on1 pos l2 new1 b1])
    have "lru_inv l' (pos # ps1) B'"
      using l' S1 cap conf by (simp add: lru_inv_def same_conf_def)
    moreover have "same_conf l l'" using conf l'(3) by (simp add: same_conf_def)
    moreover have "lru_repr l' ((k, v, expire_at now life) #
       (if ?full then butlast (entries l ps) else entries l ps))"
      using calculation(1) l'(5) ent by (intro lru_reprI) auto
    moreover have "add_with_lifetime now (hashFn l k) k v life l = Some (?full, l')" using eq l'(1) by simp
    ultimately show thesis using return by blast
  qed
  show thesis
  proof (cases "B b = []")
    case True
    have "B1 b = []" using True free full bsz by (cases ?full) auto
    then obtain l2 where
      "(set_bucket b pos l1 \<bind> upd_elem pos (\<lambda>e. e\<lparr>bucketPos := b, nextBucket := pos, prevBucket := pos\<rparr>)) = Some l2"
      and l2: "pushed l1 S1 b B1 pos l2"
      by (rule push_empty_ok [OF on1 pos bsz1])
    then obtain l1' where "set_bucket b pos l1 = Some l1'"
      "upd_elem pos (\<lambda>e. e\<lparr>bucketPos := b, nextBucket := pos, prevBucket := pos\<rparr>) l1' = Some l2"
      by (cases "set_bucket b pos l1") auto
    then show thesis
      using True by (intro finish [OF l2]) (simp add: add_with_lifetime_def hpos empty cl)
  next
    case False
    define s where "s = (if B1 b = [] then pos else hd (B1 b))"
    have start: "(if ?full then do { c \<leftarrow> get_bucket b l1; Some (if c = emptyBucket then pos else c) }
        else Some (buckets l ! b)) = Some s"
    proof (cases ?full)
      case True
      have "buckets l1 ! b = (if B1 b = [] then emptyBucket else hd (B1 b))"
        using lru_onD(6) [OF on1 bsz1] by (simp add: bucket_ok_def)
      then show ?thesis
        using True bucket_empty_iff [OF on1 bsz1] lru_onD(9) [OF on1] bsz1
        by (auto simp: get_bucket_def idx_Some s_def)
    next
      case nf: False
      then have "B1 = B" using free by simp
      then show ?thesis using nf False D(6) [OF bsz] by (simp add: s_def bucket_ok_def)
    qed
    have self: "pbv l1 pos = pos" if nil: "B1 b = []"
    proof -
      have f: ?full using nil False free by (cases ?full) auto
      then have "set (B1 b) = set (B b) - {pos}" using full bsz by blast
      then have "set (B b) - {pos} = {}" using nil by simp
      then have "pos \<in> set (B b)" using False by (cases "B b") auto
      then have "bpv l pos = b" using D(6) [OF bsz] by (simp add: bucket_ok_def)
      then show ?thesis using full f nil by simp
    qed
    obtain l2 where push: "do {
         l \<leftarrow> set_bucket b pos l1;
         l \<leftarrow> upd_elem pos (\<lambda>e. e\<lparr>bucketPos := b, nextBucket := s\<rparr>) l;
         e \<leftarrow> elem s l;
         l \<leftarrow> upd_elem pos (prevBucket_update (\<lambda>_. prevBucket e)) l;
         e \<leftarrow> elem s l;
         l \<leftarrow> upd_elem (prevBucket e) (nextBucket_update (\<lambda>_. pos)) l;
         upd_elem s (prevBucket_update (\<lambda>_. pos)) l
       } = Some l2" and l2: "pushed l1 S1 b B1 pos l2"
      by (rule push_front_ok [OF on1 pos bsz1 s_def self])
    have "add_with_lifetime now (hashFn l k) k v life l = (do {
         l \<leftarrow> set_bucket b pos l1;
         l \<leftarrow> upd_elem pos (\<lambda>e. e\<lparr>bucketPos := b, nextBucket := s\<rparr>) l;
         e \<leftarrow> elem s l;
         l \<leftarrow> upd_elem pos (prevBucket_update (\<lambda>_. prevBucket e)) l;
         e \<leftarrow> elem s l;
         l \<leftarrow> upd_elem (prevBucket e) (nextBucket_update (\<lambda>_. pos)) l;
         upd_elem s (prevBucket_update (\<lambda>_. pos)) l
       } \<bind> (\<lambda>l. insert_at now pos k v life l \<bind> (\<lambda>l. Some (?full, l))))"
      using False none
      by (simp add: add_with_lifetime_def hpos empty walk cl start Option.bind_assoc)
    then show thesis by (intro finish [OF l2]) (simp only: push Option.bind.bind_lunit)
  qed
qed

lemma lru_add_refines:
  assumes "lru_repr l c"
  obtains l' where
    "LRU_AddWithLifetime now k v life l =
       Some (fst (cache_add (lruCap l) k v (expire_at now life) c), l')"
    "lru_repr l' (snd (cache_add (lruCap l) k v (expire_at now life) c))" "same_conf l l'"
proof -
  obtain ps B where inv: "lru_inv l ps B" and c: "c = entries l ps" using assms by (auto simp: lru_repr_def)
  note I = lru_inv_facts [OF inv]
  note D = lru_onD [OF I(1)]
  define b where "b = hash_to_bucket_pos l (hashFn l k)"
  have bsz: "b < lruSize l" unfolding b_def by (rule hash_to_bucket_pos_less [OF D(1)])
  have hpos: "hash_to_pos l (hashFn l k) = Some (b, buckets l ! b)"
    unfolding b_def by (rule hash_to_pos_ok [OF I(1)])
  note srch = bucket_search [OF inv b_def]
  show thesis
  proof (cases "map_of c k")
    case None
    then have new: "k \<notin> kyv l ` {..<lruLen l}" using srch c by auto
    obtain l' where "add_with_lifetime now (hashFn l k) k v life l = Some (length (entries l ps) = lruCap l, l')"
      "lru_repr l' ((k, v, expire_at now life) #
         (if length (entries l ps) = lruCap l then butlast (entries l ps) else entries l ps))"
      "same_conf l l'"
      by (rule add_new_ok [OF inv b_def new])
    then show thesis
      using None c by (intro that [of l']) (auto simp: LRU_AddWithLifetime_def cache_add_def)
  next
    case (Some e)
    then obtain p where p: "find (\<lambda>p. kyv l p = k) (B b) = Some p" "p < lruLen l" "kyv l p = k"
      using srch c by auto
    then have ne: "B b \<noteq> []" by auto
    have pl: "p < length (elements l)" using p(2) D(2,8) by auto
    define l1 where "l1 = put p ((els l p)\<lparr>elValue := v, elExpire := expire_at now life\<rparr>) l"
    have v1: "same_conf l l1" "same_buckets l l1" "same_order l l1" "lruLen l1 = lruLen l" "kyv l1 = kyv l"
      "vlv l1 = (vlv l)(p := v)" "exv l1 = (exv l)(p := expire_at now life)"
      using pl by (auto simp: l1_def lru_views same_defs)
    have inv1: "lru_inv l1 ps B"
      unfolding lru_inv_def lru_on_def
    proof (intro conjI allI impI)
      show "lru_shape l1" using D(1) shape_cong [OF v1(1)] by simp
      show "order_ok l1 ps" using D(5) v1(3) by (simp add: order_ok_def same_order_def)
      show "hashed_ok l1 {..<lruLen l1}"
        using hashed_ok_cong [OF D(7) _ v1(5) v1(1)] v1(2,4) by (simp add: same_buckets_def)
      show "bucket_ok l1 {..<lruLen l1} b (B b)" if "b < lruSize l1" for b
        using D(6) [of b] that v1(1,4) by (simp add: bucket_ok_cong [OF v1(2)] same_conf_def)
    qed (use D I v1 in \<open>simp_all add: same_conf_def\<close>)
    have e1: "entry_at l1 p = (k, v, expire_at now life)" using p(3) v1 by (simp add: entry_at_def)
    have del: "del_key k (entries l1 ps) = del_key k c"
    proof -
      have "entry_at l1 q = entry_at l q" if "kyv l q \<noteq> k" for q
        using that p(3) v1 by (auto simp: entry_at_def)
      then show ?thesis unfolding c entries_def del_key_def
        by (induction ps) (auto simp: entry_at_def v1(5))
    qed
    obtain l' where l': "touch p l1 = Some l'"
      "lru_repr l' ((k, v, expire_at now life) # del_key k (entries l1 ps))"
      "same_conf l1 l'" "same_data l1 l'"
      using touch_entry_ok [OF inv1 _ e1] p(2) v1(4) by auto
    have st: "buckets l ! b \<noteq> emptyBucket" using bucket_empty_iff [OF I(1) bsz] ne by simp
    have "add_with_lifetime now (hashFn l k) k v life l = Some (False, l')"
      using st p(1) l'(1) bucket_walk_ok [OF I(1) bsz ne]
      by (simp add: add_with_lifetime_def hpos upd_elem_Some pl l1_def [symmetric])
    moreover have "same_conf l l'" using v1(1) l'(3) by (simp add: same_conf_def)
    ultimately show thesis
      using Some l'(2) del by (intro that [of l']) (simp_all add: LRU_AddWithLifetime_def cache_add_def)
  qed
qed

section \<open>A fresh map\<close>

lemma init_lru_repr:
  assumes "0 < capacity" and "capacity \<le> sz" and "sz < emptyBucket"
  shows "lru_repr (init_lru zk zv capacity sz hash) []"
proof -
  have "lru_inv (init_lru zk zv capacity sz hash) [] (\<lambda>_. [])"
    using assms by (auto simp: lru_inv_def lru_on_def lru_shape_def order_ok_def bucket_ok_def
        hashed_ok_def init_lru_def)
  then show ?thesis by (rule lru_reprI) (simp add: entries_def)
qed

lemma lru_repr_bounded:
  assumes "lru_repr l c"
  shows "distinct (map fst c) \<and> length c = lruLen l \<and> lruLen l \<le> lruCap l"
proof -
  obtain ps B where inv: "lru_inv l ps B" and c: "c = entries l ps" using assms by (auto simp: lru_repr_def)
  have "map fst c = map (kyv l) ps" by (simp add: c entries_def entry_at_def)
  then show ?thesis
    using lru_inv_facts [OF inv] c by (simp add: distinct_map)
qed

section \<open>The map keeps the cache contract\<close>

definition lru_holds :: "('k, 'v) lru \<Rightarrow> ('k \<Rightarrow> ('v \<times> int) option) \<Rightarrow> bool" where
  "lru_holds l M \<longleftrightarrow> (\<exists>c. lru_repr l c \<and> M = map_of c)"

lemma map_of_del_key [simp]: "map_of (del_key k c) = (map_of c)(k := None)"
  by (induction c) (auto simp: del_key_def fun_eq_iff)

lemma map_of_butlast_le: "distinct (map fst c) \<Longrightarrow> map_of (butlast c) \<subseteq>\<^sub>m map_of c"
proof (induction c)
  case (Cons e c)
  then have "map_of (butlast c) \<subseteq>\<^sub>m map_of c" by simp
  then show ?case by (cases e) (auto simp: map_le_def)
qed simp

interpretation lru: expiring_cache lru_holds LRU_Get LRU_AddWithLifetime
proof unfold_locales
  fix m :: "('a, 'b) lru" and M now k v life
  assume "lru_holds m M"
  then obtain c where c: "lru_repr m c" "M = map_of c" by (auto simp: lru_holds_def)
  have d: "distinct (map fst c)" using lru_repr_bounded [OF c(1)] by simp
  obtain m' where g: "LRU_Get now k m = Some (fst (cache_get now k c), m')" "lru_repr m' (snd (cache_get now k c))"
    by (rule lru_get_refines [OF c(1)])
  have "fst (cache_get now k c) = fresh_value now (M k) \<and>
    map_of (snd (cache_get now k c)) = (if fresh_value now (M k) = None then M(k := None) else M)"
  proof (cases "M k")
    case None
    then show ?thesis using c(2) by (auto simp: cache_get_def fresh_value_def fun_eq_iff)
  next
    case (Some e)
    then show ?thesis using c(2) by (cases e) (auto simp: cache_get_def fresh_value_def fun_eq_iff)
  qed
  then show "\<exists>m'. LRU_Get now k m = Some (fresh_value now (M k), m') \<and>
      lru_holds m' (if fresh_value now (M k) = None then M(k := None) else M)"
    using g by (intro exI [of _ m'] conjI) (auto simp only: lru_holds_def)
  let ?x = "expire_at now life"
  obtain m'' where a: "LRU_AddWithLifetime now k v life m = Some (fst (cache_add (lruCap m) k v ?x c), m'')"
    "lru_repr m'' (snd (cache_add (lruCap m) k v ?x c))"
    by (rule lru_add_refines [OF c(1)])
  have "map_of (snd (cache_add (lruCap m) k v ?x c)) \<subseteq>\<^sub>m M(k \<mapsto> (v, ?x))"
    using map_of_butlast_le [OF d] c(2) by (auto simp: cache_add_def map_le_def)
  moreover have "map_of (snd (cache_add (lruCap m) k v ?x c)) k = Some (v, ?x)" by (simp add: cache_add_def)
  ultimately show "\<exists>ev m' M'. LRU_AddWithLifetime now k v life m = Some (ev, m') \<and> lru_holds m' M' \<and>
      M' k = Some (v, ?x) \<and> M' \<subseteq>\<^sub>m M(k \<mapsto> (v, ?x))"
    using a by (intro exI [of _ "fst (cache_add (lruCap m) k v ?x c)"] exI [of _ m'']
        exI [of _ "map_of (snd (cache_add (lruCap m) k v ?x c))"] conjI) (auto simp only: lru_holds_def)
qed

text \<open>The laws, usable where only the stored hash function matters.\<close>

lemma lru_holds_get:
  assumes "lru_holds l M"
  obtains l' where "LRU_Get now k l = Some (fresh_value now (M k), l')"
    "lru_holds l' (if fresh_value now (M k) = None then M(k := None) else M)" "hashFn l' = hashFn l"
proof -
  obtain c where c: "lru_repr l c" using assms by (auto simp: lru_holds_def)
  obtain l' where "LRU_Get now k l = Some (fst (cache_get now k c), l')" "same_conf l l'"
    by (rule lru_get_refines [OF c])
  moreover obtain l'' where "LRU_Get now k l = Some (fresh_value now (M k), l'')"
    "lru_holds l'' (if fresh_value now (M k) = None then M(k := None) else M)"
    using lru.get_law [OF assms] by blast
  ultimately show thesis using that by (auto simp: same_conf_def)
qed

lemma lru_holds_add:
  assumes "lru_holds l M"
  obtains ev l' M' where "LRU_AddWithLifetime now k v life l = Some (ev, l')" "lru_holds l' M'"
    "M' k = Some (v, expire_at now life)" "M' \<subseteq>\<^sub>m M(k \<mapsto> (v, expire_at now life))" "hashFn l' = hashFn l"
proof -
  obtain c where c: "lru_repr l c" using assms by (auto simp: lru_holds_def)
  obtain l' where "LRU_AddWithLifetime now k v life l =
      Some (fst (cache_add (lruCap l) k v (expire_at now life) c), l')" "same_conf l l'"
    by (rule lru_add_refines [OF c])
  moreover obtain ev l'' M' where "LRU_AddWithLifetime now k v life l = Some (ev, l'')" "lru_holds l'' M'"
    "M' k = Some (v, expire_at now life)" "M' \<subseteq>\<^sub>m M(k \<mapsto> (v, expire_at now life))"
    using lru.add_law [OF assms] by blast
  ultimately show thesis using that by (auto simp: same_conf_def)
qed

section \<open>Properties\<close>

text \<open>
  C0. The operations of a map that holds the entries \<open>c\<close> never panic and their bucket walks end.
  \<^verbatim>\<open>Get\<close> answers as the list model does: a hit moves the entry to the front, an expired entry is
  removed and reported as absent. \<^verbatim>\<open>AddWithLifetime\<close> updates a known key and moves it to the
  front; a new key of a full map takes the place of the least recently used entry (reported by
  the result), any other new key is put in front. The map holds the list model's entries afterwards.
\<close>

theorem lru_refines:
  assumes "lru_repr l c"
  shows "(\<exists>l'. LRU_Get now k l = Some (fst (cache_get now k c), l') \<and> lru_repr l' (snd (cache_get now k c))) \<and>
    (\<exists>l'. LRU_AddWithLifetime now k v life l =
       Some (fst (cache_add (lruCap l) k v (expire_at now life) c), l')
     \<and> lru_repr l' (snd (cache_add (lruCap l) k v (expire_at now life) c))
     \<and> lruCap l' = lruCap l)"
proof
  show "\<exists>l'. LRU_Get now k l = Some (fst (cache_get now k c), l') \<and> lru_repr l' (snd (cache_get now k c))"
    by (rule lru_get_refines [OF assms]) blast
  show "\<exists>l'. LRU_AddWithLifetime now k v life l = Some (fst (cache_add (lruCap l) k v (expire_at now life) c), l')
     \<and> lru_repr l' (snd (cache_add (lruCap l) k v (expire_at now life) c)) \<and> lruCap l' = lruCap l"
    by (rule lru_add_refines [OF assms]) (auto simp: same_conf_def)
qed

theorem lru_refines_witness:
  "\<exists>l1 l2 l3. LRU_AddWithLifetime 10 (1 :: nat) (5 :: int) 0 (init_lru 0 0 1 1 (\<lambda>_. 0)) = Some (False, l1) \<and>
     LRU_AddWithLifetime 10 2 6 3000000 l1 = Some (True, l2) \<and> lru_repr l2 [(2, 6, 13)] \<and>
     LRU_Get 12 2 l2 = Some (Some 6, l3) \<and> lru_repr l3 [(2, 6, 13)]"
proof -
  have i: "lru_repr (init_lru 0 (0 :: int) 1 1 (\<lambda>_. 0)) ([] :: (nat, int) entry list)"
    by (rule init_lru_repr) (simp_all add: emptyBucket_def)
  obtain l1 where l1: "LRU_AddWithLifetime 10 (1 :: nat) (5 :: int) 0 (init_lru 0 0 1 1 (\<lambda>_. 0)) = Some (False, l1)"
    "lru_repr l1 [(1, 5, 0)]" "lruCap l1 = 1"
    using conjunct2 [OF lru_refines [OF i, of 10 1 5 0]]
    by (auto simp: cache_add_def expire_at_def init_lru_def)
  obtain l2 where l2: "LRU_AddWithLifetime 10 2 6 3000000 l1 = Some (True, l2)" "lru_repr l2 [(2, 6, 13)]"
    using conjunct2 [OF lru_refines [OF l1(2), of 10 2 6 3000000]] l1(3)
    by (auto simp: cache_add_def expire_at_def)
  show ?thesis
    using conjunct1 [OF lru_refines [OF l2(2), of 12 2]] l1(1) l2 by (auto simp: cache_get_def stale_def del_key_def)
qed

text \<open>
  C0. Any sequence of \<^verbatim>\<open>Get\<close> and \<^verbatim>\<open>AddWithLifetime\<close> calls on a map made by \<^verbatim>\<open>New\<close> runs
  without a panic, and every \<^verbatim>\<open>Get\<close> answers a miss or the value last added under its key
  whose lifetime has not run out.
\<close>

theorem lru_sequence_ok:
  assumes "0 < capacity" and "capacity < emptyBucket"
  shows "\<exists>l rs l'. new_lru zk zv capacity (Some h) = Inr l \<and>
    cache_run LRU_Get LRU_AddWithLifetime ops l = Some (rs, l') \<and> answers_ok (\<lambda>_. None) ops rs"
proof -
  have "lru_holds (init_lru zk zv capacity capacity h) Map.empty"
    using init_lru_repr [of capacity capacity] assms by (auto simp: lru_holds_def)
  then show ?thesis
    using lru.run_ok [of _ Map.empty "\<lambda>_. None" ops] assms
    by (simp add: new_lru_def new_with_size_def) blast
qed

theorem lru_sequence_ok_witness:
  "\<exists>l rs l'. new_lru (0 :: nat) (0 :: int) 2 (Some (\<lambda>_. 0)) = Inr l \<and>
    cache_run LRU_Get LRU_AddWithLifetime [OpAdd 0 (1 :: nat) 10 0, OpGet 1 1, OpGet 1 2] l = Some (rs, l') \<and>
    answers_ok (\<lambda>_. None) [OpAdd 0 (1 :: nat) 10 0, OpGet 1 1, OpGet 1 2] rs"
  by (rule lru_sequence_ok) (simp_all add: emptyBucket_def)

text \<open>
  What was just added is found until its lifetime runs out, whatever had to be evicted.
\<close>

theorem lru_get_after_add:
  assumes "lru_repr l c" and "\<not> stale t (expire_at now life)"
  shows "\<exists>evicted l1 l2. LRU_AddWithLifetime now k v life l = Some (evicted, l1) \<and>
    LRU_Get t k l1 = Some (Some v, l2)"
proof (rule lru.get_after_add)
  show "lru_holds l (map_of c)" using assms(1) by (auto simp: lru_holds_def)
qed (rule assms(2))

theorem lru_get_after_add_witness:
  "\<exists>evicted l1 l2. LRU_AddWithLifetime 10 (4 :: nat) (5 :: int) 3000000 (init_lru 0 0 2 2 (\<lambda>_. 0)) = Some (evicted, l1) \<and>
    LRU_Get 12 4 l1 = Some (Some 5, l2)"
proof (rule lru_get_after_add)
  show "lru_repr (init_lru 0 (0 :: int) 2 2 (\<lambda>_. 0)) ([] :: (nat, int) entry list)"
    by (rule init_lru_repr) (simp_all add: emptyBucket_def)
  show "\<not> stale 12 (expire_at 10 3000000)" by (simp add: stale_def expire_at_def)
qed

end
