(* ===== verification/Sharded_LRU.thy ===== *)
theory Sharded_LRU
  imports LRU_Cache
begin

text \<open>
  \<^verbatim>\<open>internal/freelru/shardedlru.go\<close>: LRU maps side by side, one chosen by the upper half of
  the key's hash. Each operation holds the mutex of its one shard from start to end, so an
  operation is one step here. The shards are slices of one allocation that do not overlap;
  each has an array of its own here.
\<close>

record ('k, 'v) sharded =
  lrus :: "('k, 'v) lru list"
  shHash :: "'k \<Rightarrow> 32 word"
  shShards :: nat
  shMask :: "32 word"

section \<open>Construction\<close>

text \<open>\<^verbatim>\<open>bits.Len32\<close>.\<close>

fun bit_len :: "nat \<Rightarrow> nat" where
  "bit_len n = (if n = 0 then 0 else Suc (bit_len (n div 2)))"

declare bit_len.simps [simp del]

definition next_power_of_two :: "nat \<Rightarrow> nat" where
  "next_power_of_two val =
     (if ones_count (of_nat val) \<noteq> 1 then 2 ^ bit_len val mod 2 ^ 32 else val)"

function shrink_shards :: "nat \<Rightarrow> nat \<Rightarrow> nat" where
  "shrink_shards limit shards =
     (if limit < shards then shrink_shards limit (shards div 16) else shards)"
  by auto
termination by (relation "measure snd") auto

declare shrink_shards.simps [simp del]

definition new_sharded_with_size ::
  "'k \<Rightarrow> 'v \<Rightarrow> nat \<Rightarrow> nat \<Rightarrow> nat \<Rightarrow> ('k \<Rightarrow> 32 word) \<Rightarrow> error + ('k, 'v) sharded" where
  "new_sharded_with_size zk zv shards capacity sz hash =
     (if capacity = 0 then Inl (NewError ''capacity must be positive'')
      else if sz < capacity
        then Inl (LibError (''size ('' @ show_nat sz @ '') is smaller than capacity ('' @ show_nat capacity @ '')''))
      else
        let sz = (if sz < 2 ^ 31 then next_power_of_two sz else 2 ^ 31);
            shards = shrink_shards (sz div 16) (next_power_of_two shards);
            shards = (if shards = 0 then 1 else shards);
            sz = sz div shards;
            sz = (if sz = 0 then 1 else sz);
            capacity = (capacity + shards - 1) mod 2 ^ 32 div shards;
            capacity = (if capacity = 0 then 1 else capacity)
        in Inr \<lparr>lrus = replicate shards (init_lru zk zv capacity sz hash),
                shHash = hash, shShards = shards, shMask = of_nat shards - 1\<rparr>)"

text \<open>
  \<^verbatim>\<open>NewSharded\<close>, \<open>procs\<close> being \<^verbatim>\<open>GOMAXPROCS\<close>. The product with 1.25 is exact in a
  \<^verbatim>\<open>float64\<close> and the conversion cuts it off.
\<close>

definition new_sharded :: "'k \<Rightarrow> 'v \<Rightarrow> nat \<Rightarrow> nat \<Rightarrow> ('k \<Rightarrow> 32 word) \<Rightarrow> error + ('k, 'v) sharded" where
  "new_sharded zk zv procs capacity hash =
     new_sharded_with_size zk zv (procs * 16 mod 2 ^ 32) capacity (capacity * 5 div 4) hash"

section \<open>Operations\<close>

definition shard_of :: "('k, 'v) sharded \<Rightarrow> 'k \<Rightarrow> nat" where
  "shard_of s k = unat (and (drop_bit 16 (shHash s k)) (shMask s))"

definition Sharded_Get :: "int \<Rightarrow> 'k \<Rightarrow> ('k, 'v) sharded \<Rightarrow> ('v option \<times> ('k, 'v) sharded) option" where
  "Sharded_Get now k s =
     do {
       l \<leftarrow> idx (lrus s) (shard_of s k);
       (r, l) \<leftarrow> lru_get now (shHash s k) k l;
       Some (r, s\<lparr>lrus := (lrus s)[shard_of s k := l]\<rparr>)
     }"

definition Sharded_AddWithLifetime ::
  "int \<Rightarrow> 'k \<Rightarrow> 'v \<Rightarrow> int \<Rightarrow> ('k, 'v) sharded \<Rightarrow> (bool \<times> ('k, 'v) sharded) option" where
  "Sharded_AddWithLifetime now k v life s =
     do {
       l \<leftarrow> idx (lrus s) (shard_of s k);
       (evicted, l) \<leftarrow> add_with_lifetime now (shHash s k) k v life l;
       Some (evicted, s\<lparr>lrus := (lrus s)[shard_of s k := l]\<rparr>)
     }"

section \<open>Invariant and contract\<close>

definition sharded_holds :: "('k, 'v) sharded \<Rightarrow> ('k \<Rightarrow> ('v \<times> int) option) \<Rightarrow> bool" where
  "sharded_holds s M \<longleftrightarrow> unat (shMask s) < length (lrus s) \<and>
     (\<forall>i < length (lrus s). hashFn (lrus s ! i) = shHash s \<and>
       (\<exists>N. lru_holds (lrus s ! i) N \<and> (\<forall>k. shard_of s k = i \<longrightarrow> M k = N k)))"

lemma shard_of_less: "unat (shMask s) < length (lrus s) \<Longrightarrow> shard_of s k < length (lrus s)"
  unfolding shard_of_def
  by (meson le_less_trans word_and_le1 word_le_nat_alt)

lemma shard_of_lrus [simp]: "shard_of (s\<lparr>lrus := ls\<rparr>) k = shard_of s k"
  by (simp add: shard_of_def)

lemma sharded_holds_update:
  assumes "sharded_holds s M" and i: "i = shard_of s k" and l: "lru_holds l N" "hashFn l = shHash s"
    and new: "\<And>k'. shard_of s k' = i \<Longrightarrow> M' k' = N k'" and old: "\<And>k'. shard_of s k' \<noteq> i \<Longrightarrow> M' k' = M k'"
  shows "sharded_holds (s\<lparr>lrus := (lrus s)[i := l]\<rparr>) M'"
  unfolding sharded_holds_def
proof (intro conjI allI impI)
  show "unat (shMask (s\<lparr>lrus := (lrus s)[i := l]\<rparr>)) < length (lrus (s\<lparr>lrus := (lrus s)[i := l]\<rparr>))"
    using assms(1) by (simp add: sharded_holds_def)
  fix j assume "j < length (lrus (s\<lparr>lrus := (lrus s)[i := l]\<rparr>))"
  then have j: "j < length (lrus s)" by simp
  then obtain Nj where Nj: "hashFn (lrus s ! j) = shHash s" "lru_holds (lrus s ! j) Nj"
    "\<And>k. shard_of s k = j \<Longrightarrow> M k = Nj k"
    using assms(1) unfolding sharded_holds_def by blast
  show "hashFn (lrus (s\<lparr>lrus := (lrus s)[i := l]\<rparr>) ! j) = shHash (s\<lparr>lrus := (lrus s)[i := l]\<rparr>)"
    using Nj(1) l(2) j by (cases "j = i") simp_all
  show "\<exists>N. lru_holds (lrus (s\<lparr>lrus := (lrus s)[i := l]\<rparr>) ! j) N \<and>
      (\<forall>k. shard_of (s\<lparr>lrus := (lrus s)[i := l]\<rparr>) k = j \<longrightarrow> M' k = N k)"
  proof (cases "j = i")
    case True
    then show ?thesis using l(1) new j by (intro exI [of _ N]) simp
  next
    case False
    then show ?thesis using Nj(2,3) old j by (intro exI [of _ Nj]) simp
  qed
qed

lemma sharded_shard:
  assumes "sharded_holds s M"
  obtains N l where "idx (lrus s) (shard_of s k) = Some l" "lru_holds l N" "hashFn l = shHash s"
    "\<forall>k'. shard_of s k' = shard_of s k \<longrightarrow> M k' = N k'"
proof -
  have "shard_of s k < length (lrus s)" using assms shard_of_less by (auto simp: sharded_holds_def)
  then show thesis using assms that by (auto simp: sharded_holds_def idx_Some)
qed

interpretation sharded: expiring_cache sharded_holds Sharded_Get Sharded_AddWithLifetime
proof unfold_locales
  fix m :: "('a, 'b) sharded" and M now k v life
  assume h: "sharded_holds m M"
  obtain N l where l: "idx (lrus m) (shard_of m k) = Some l" "lru_holds l N" "hashFn l = shHash m"
    and N: "\<forall>k'. shard_of m k' = shard_of m k \<longrightarrow> M k' = N k'"
    by (rule sharded_shard [OF h])
  have Mk: "M k = N k" using N by simp
  obtain l' where g: "LRU_Get now k l = Some (fresh_value now (N k), l')"
    "lru_holds l' (if fresh_value now (N k) = None then N(k := None) else N)" "hashFn l' = hashFn l"
    by (rule lru_holds_get [OF l(2)])
  have "sharded_holds (m\<lparr>lrus := (lrus m)[shard_of m k := l']\<rparr>)
      (if fresh_value now (M k) = None then M(k := None) else M)"
    using g(3) l(3) Mk N
    by (intro sharded_holds_update [OF h refl g(2)]) (auto simp: fun_eq_iff)
  then show "\<exists>m'. Sharded_Get now k m = Some (fresh_value now (M k), m') \<and>
      sharded_holds m' (if fresh_value now (M k) = None then M(k := None) else M)"
    using g(1) l(1,3) Mk by (simp add: Sharded_Get_def LRU_Get_def)
  obtain ev l'' N' where a: "LRU_AddWithLifetime now k v life l = Some (ev, l'')" "lru_holds l'' N'"
    "N' k = Some (v, expire_at now life)" "N' \<subseteq>\<^sub>m N(k \<mapsto> (v, expire_at now life))" "hashFn l'' = hashFn l"
    by (rule lru_holds_add [OF l(2)])
  define M' where "M' = (\<lambda>k'. if shard_of m k' = shard_of m k then N' k' else M k')"
  have "sharded_holds (m\<lparr>lrus := (lrus m)[shard_of m k := l'']\<rparr>) M'"
    using a(5) l(3) by (intro sharded_holds_update [OF h refl a(2)]) (auto simp: M'_def)
  moreover have "M' k = Some (v, expire_at now life)" by (simp add: M'_def a(3))
  moreover have "M' \<subseteq>\<^sub>m M(k \<mapsto> (v, expire_at now life))"
    using a(4) N by (auto simp: M'_def map_le_def dom_def split: if_splits)
  moreover have "Sharded_AddWithLifetime now k v life m = Some (ev, m\<lparr>lrus := (lrus m)[shard_of m k := l'']\<rparr>)"
    using a(1) l(1,3) by (simp add: Sharded_AddWithLifetime_def LRU_AddWithLifetime_def)
  ultimately show "\<exists>ev m' M'. Sharded_AddWithLifetime now k v life m = Some (ev, m') \<and> sharded_holds m' M' \<and>
      M' k = Some (v, expire_at now life) \<and> M' \<subseteq>\<^sub>m M(k \<mapsto> (v, expire_at now life))"
    by blast
qed

section \<open>Construction gives shards that keep the contract\<close>

lemma bit_len_less: "n < 2 ^ bit_len n"
proof (induction n rule: bit_len.induct)
  case (1 n)
  show ?case
  proof (cases "n = 0")
    case False
    then have "n div 2 < 2 ^ bit_len (n div 2)" by (rule 1)
    moreover have "bit_len n = Suc (bit_len (n div 2))" using False by (subst bit_len.simps) simp
    ultimately show ?thesis by simp
  qed (simp add: bit_len.simps)
qed

lemma bit_len_le: "n < 2 ^ m \<Longrightarrow> bit_len n \<le> m"
proof (induction n arbitrary: m rule: bit_len.induct)
  case (1 n)
  show ?case
  proof (cases "n = 0")
    case False
    with "1.prems" obtain m' where m: "m = Suc m'" by (cases m) auto
    have "bit_len (n div 2) \<le> m'" using False "1.prems" by (intro "1.IH") (auto simp: m)
    then show ?thesis using False m by (subst bit_len.simps) simp
  qed (simp add: bit_len.simps)
qed

lemma ones_count_one:
  assumes "ones_count w = 1"
  obtains i where "i < 32" "w = 2 ^ i"
proof -
  have "length (filter (bit w) [0..<32]) = Suc 0" using assms by (simp add: ones_count_def)
  then obtain i where i: "filter (bit w) [0..<32] = [i]" by (auto simp: length_Suc_conv)
  have "set (filter (bit w) [0..<32]) = {i}" by (simp only: i) simp
  then have s: "{n. n < 32 \<and> bit w n} = {i}" by (auto simp: set_eq_iff)
  then have "i < 32" by auto
  moreover have "w = 2 ^ i"
    by (rule bit_word_eqI) (use s in \<open>auto simp: bit_simps set_eq_iff\<close>)
  ultimately show thesis using that by blast
qed

text \<open>A power of two below 2^32, or 0.\<close>

lemma next_power_of_two_cases:
  assumes "val < 2 ^ 32"
  shows "next_power_of_two val = 0 \<or> (\<exists>i < 32. next_power_of_two val = 2 ^ i)"
    and "val < 2 ^ 31 \<Longrightarrow> \<exists>i \<le> 31. next_power_of_two val = 2 ^ i \<and> val \<le> 2 ^ i"
proof -
  have one: "\<exists>i < 32. val = 2 ^ i" if "ones_count (of_nat val) = 1"
  proof -
    obtain i where i: "i < 32" "(of_nat val :: 32 word) = 2 ^ i" using ones_count_one [OF \<open>ones_count _ = 1\<close>] .
    have "unat (of_nat val :: 32 word) = val" using assms by (simp add: unat_of_nat take_bit_nat_eq_self)
    moreover have "unat (2 ^ i :: 32 word) = 2 ^ i"
    proof -
      have "(2 :: nat) ^ i < 2 ^ 32" using i(1) by (intro power_strict_increasing) simp_all
      then have "unat (of_nat (2 ^ i) :: 32 word) = 2 ^ i" by (simp only: unat_of_nat take_bit_nat_eq_self) (simp add: take_bit_nat_eq_self)
      then show ?thesis by simp
    qed
    ultimately show ?thesis using i by metis
  qed
  have len: "bit_len val \<le> 32" using assms by (intro bit_len_le)
  show "next_power_of_two val = 0 \<or> (\<exists>i < 32. next_power_of_two val = 2 ^ i)"
  proof (cases "ones_count (of_nat val) = 1")
    case True
    then show ?thesis using one by (auto simp: next_power_of_two_def)
  next
    case False
    then show ?thesis
    proof (cases "bit_len val = 32")
      case nl: False
      then have "bit_len val < 32" using len by simp
      moreover from this have "(2 :: nat) ^ bit_len val < 2 ^ 32" by (intro power_strict_increasing) simp_all
      ultimately show ?thesis using False by (auto simp: next_power_of_two_def)
    qed (simp add: next_power_of_two_def)
  qed
  assume small: "val < 2 ^ 31"
  show "\<exists>i \<le> 31. next_power_of_two val = 2 ^ i \<and> val \<le> 2 ^ i"
  proof (cases "ones_count (of_nat val) = 1")
    case True
    then show ?thesis using one by (auto simp: next_power_of_two_def)
  next
    case False
    have l: "bit_len val \<le> 31" using small by (rule bit_len_le)
    then have "(2 :: nat) ^ bit_len val \<le> 2 ^ 31" by (intro power_increasing) simp_all
    then show ?thesis using False l bit_len_less [of val]
      by (intro exI [of _ "bit_len val"]) (simp add: next_power_of_two_def)
  qed
qed

lemma shrink_shards_power:
  assumes "shards = 0 \<or> (\<exists>i. shards = 2 ^ i)"
  shows "shrink_shards limit shards \<le> limit \<and>
    (shrink_shards limit shards = 0 \<or> (\<exists>i. shrink_shards limit shards = 2 ^ i))"
  using assms
proof (induction limit shards rule: shrink_shards.induct)
  case (1 limit shards)
  show ?case
  proof (cases "limit < shards")
    case True
    then obtain i where i: "shards = 2 ^ i" using "1.prems" by auto
    have "shards div 16 = 0 \<or> (\<exists>j. shards div 16 = 2 ^ j)"
    proof (cases "i < 4")
      case True
      then have "(2 :: nat) ^ i < 2 ^ 4" by (intro power_strict_increasing) simp_all
      then show ?thesis by (simp add: i)
    next
      case False
      then have "(2 :: nat) ^ i = 2 ^ (i - 4) * 2 ^ 4" by (simp only: power_add [symmetric]) simp
      then show ?thesis by (auto simp: i)
    qed
    then show ?thesis using "1.IH" [OF True] True by (simp add: shrink_shards.simps [of limit shards])
  qed (use "1.prems" in \<open>simp add: shrink_shards.simps [of limit shards]\<close>)
qed

lemma shard_size_ok:
  fixes capacity :: nat
  assumes "0 < capacity" "capacity \<le> 2 ^ i" "i \<le> 31" "j \<le> i"
  shows "0 < (2 :: nat) ^ i div 2 ^ j" "(2 :: nat) ^ i div 2 ^ j < emptyBucket"
    and "0 < (capacity + 2 ^ j - 1) mod 2 ^ 32 div 2 ^ j"
    and "(capacity + 2 ^ j - 1) mod 2 ^ 32 div 2 ^ j \<le> 2 ^ i div 2 ^ j"
proof -
  have ij: "(2 :: nat) ^ i = 2 ^ (i - j) * 2 ^ j" using assms(4) by (simp add: power_add [symmetric])
  then have q: "(2 :: nat) ^ i div 2 ^ j = 2 ^ (i - j)" by simp
  have "(2 :: nat) ^ (i - j) \<le> 2 ^ 31" "(2 :: nat) ^ j \<le> 2 ^ 31" "(2 :: nat) ^ i \<le> 2 ^ 31"
    using assms by (intro power_increasing; simp)+
  then show "0 < (2 :: nat) ^ i div 2 ^ j" "(2 :: nat) ^ i div 2 ^ j < emptyBucket"
    by (simp_all add: q emptyBucket_def)
  have "capacity + 2 ^ j - 1 < 2 ^ 32"
    using assms(1,2) \<open>(2 :: nat) ^ j \<le> 2 ^ 31\<close> \<open>(2 :: nat) ^ i \<le> 2 ^ 31\<close> by simp
  then have m: "(capacity + 2 ^ j - 1) mod 2 ^ 32 = capacity + 2 ^ j - 1" by simp
  show "0 < (capacity + 2 ^ j - 1) mod 2 ^ 32 div 2 ^ j"
    unfolding m using assms(1) by (simp add: div_greater_zero_iff)
  have "(capacity + 2 ^ j - 1) div 2 ^ j < 2 ^ (i - j) + 1"
  proof (rule less_mult_imp_div_less)
    have "(0 :: nat) < 2 ^ j" by simp
    then have "capacity + 2 ^ j - 1 < 2 ^ i + 2 ^ j" using assms(2) by linarith
    then show "capacity + 2 ^ j - 1 < (2 ^ (i - j) + 1) * 2 ^ j" by (simp add: ij algebra_simps)
  qed
  then show "(capacity + 2 ^ j - 1) mod 2 ^ 32 div 2 ^ j \<le> 2 ^ i div 2 ^ j" unfolding m q by simp
qed

lemma new_sharded_holds:
  assumes "0 < capacity" "capacity \<le> 2 ^ 31" "capacity \<le> sz" "shards < 2 ^ 32"
  obtains s where "new_sharded_with_size zk zv shards capacity sz hash = Inr s" "sharded_holds s Map.empty"
proof -
  obtain i where i: "i \<le> 31" "(if sz < 2 ^ 31 then next_power_of_two sz else 2 ^ 31) = 2 ^ i" "capacity \<le> 2 ^ i"
  proof (cases "sz < 2 ^ 31")
    case True
    then obtain i where "i \<le> 31" "next_power_of_two sz = 2 ^ i" "sz \<le> 2 ^ i"
      using next_power_of_two_cases(2) [of sz] by fastforce
    then show thesis using True assms(3) that by auto
  next
    case False
    then show thesis using assms(2) by (intro that [of 31]) simp_all
  qed
  let ?n = "shrink_shards (2 ^ i div 16) (next_power_of_two shards)"
  have n: "?n \<le> 2 ^ i div 16" "?n = 0 \<or> (\<exists>j. ?n = 2 ^ j)"
    using shrink_shards_power next_power_of_two_cases(1) [OF assms(4)] by blast+
  obtain j where j: "j \<le> i" "(if ?n = 0 then 1 else ?n) = 2 ^ j"
  proof (cases "?n = 0")
    case True
    then show thesis by (intro that [of 0]) simp_all
  next
    case False
    then obtain j where "?n = 2 ^ j" using n(2) by auto
    moreover from this have "(2 :: nat) ^ j \<le> 2 ^ i" using n(1) by (metis div_le_dividend order_trans)
    ultimately show thesis using False by (intro that [of j]) simp_all
  qed
  let ?c = "(capacity + 2 ^ j - 1) mod 2 ^ 32 div 2 ^ j" and ?z = "2 ^ i div 2 ^ j"
  note ok = shard_size_ok [OF assms(1) i(3,1) j(1)]
  define s where "s = \<lparr>lrus = replicate (2 ^ j) (init_lru zk zv ?c ?z hash),
      shHash = hash, shShards = 2 ^ j, shMask = of_nat (2 ^ j) - 1\<rparr>"
  have eq: "new_sharded_with_size zk zv shards capacity sz hash = Inr s"
    using assms(1,3) ok(1,3) unfolding new_sharded_with_size_def i(2) Let_def j(2) s_def
    by (simp del: of_nat_power)
  have jb: "(2 :: nat) ^ j < 2 ^ 32" using i(1) j(1) by (intro power_strict_increasing) simp_all
  have mask: "unat (shMask s) < length (lrus s)"
  proof -
    have "unat (of_nat (2 ^ j) :: 32 word) = 2 ^ j"
      using jb by (simp only: unat_of_nat) (simp add: take_bit_nat_eq_self)
    then have "unat (of_nat (2 ^ j) - 1 :: 32 word) = 2 ^ j - 1"
      by (subst unat_minus_one) (auto simp: word_unat_eq_iff)
    then show ?thesis by (simp add: s_def)
  qed
  have "lru_holds (init_lru zk zv ?c ?z hash) Map.empty"
    using init_lru_repr [OF ok(3,4,2)] by (auto simp: lru_holds_def)
  then have "sharded_holds s Map.empty"
    using mask unfolding sharded_holds_def by (auto simp: s_def init_lru_def)
  then show thesis using that eq by blast
qed

section \<open>Properties\<close>

text \<open>
  C0. A sharded map made for at most 2^31 entries keeps the cache contract from its first
  call on: no sequence of \<^verbatim>\<open>Get\<close> and \<^verbatim>\<open>AddWithLifetime\<close> panics (the shard index and every
  position are in range), and each \<^verbatim>\<open>Get\<close> answers a miss or the last value added under the
  key that has not expired.
\<close>

theorem sharded_sequence_ok:
  assumes "0 < capacity" and "capacity \<le> 2 ^ 31"
  shows "\<exists>s rs s'. new_sharded zk zv procs capacity h = Inr s \<and>
    cache_run Sharded_Get Sharded_AddWithLifetime ops s = Some (rs, s') \<and> answers_ok (\<lambda>_. None) ops rs"
proof -
  have "capacity \<le> capacity * 5 div 4" "procs * 16 mod 2 ^ 32 < 2 ^ 32" by simp_all
  then obtain s where "new_sharded zk zv procs capacity h = Inr s" "sharded_holds s Map.empty"
    unfolding new_sharded_def by (rule new_sharded_holds [OF assms])
  then show ?thesis using sharded.run_ok [of s Map.empty "\<lambda>_. None" ops] by auto
qed

theorem sharded_sequence_ok_witness:
  "\<exists>s rs s'. new_sharded (0 :: nat) (0 :: int) 8 4096 (\<lambda>k. of_nat (k * 65536)) = Inr s \<and>
    cache_run Sharded_Get Sharded_AddWithLifetime [OpAdd 0 (3 :: nat) 10 0, OpGet 1 3] s = Some (rs, s') \<and>
    answers_ok (\<lambda>_. None) [OpAdd 0 (3 :: nat) 10 0, OpGet 1 3] rs"
  by (rule sharded_sequence_ok) simp_all

end
