(* ===== verification/Client_Hello.thy ===== *)
theory Client_Hello
  imports Errors_Format "HOL-Library.Monad_Syntax"
begin

text \<open>
  \<^verbatim>\<open>parseClientHello\<close> of \<^verbatim>\<open>internal/core/tunnel.go\<close>: the place of the server name in the
  first TLS record. Every index and slice is checked: \<open>None\<close> is a run-time panic. An offset
  is a natural number; the absent server name is \<open>-1\<close>, as in the code.
\<close>

record client_hello =
  prtVer :: bytes
  sniStart :: int
  sniLen :: nat
  isTLS13 :: bool
  hasECH :: bool
  chErr :: "error option"

definition tlsRecordTypeHandshake :: byte where "tlsRecordTypeHandshake = 0x16"
definition tlsMajorVersion :: byte where "tlsMajorVersion = 3"
definition tlsRecordHeaderLen :: nat where "tlsRecordHeaderLen = 5"
definition tlsHandshakeHeaderLen :: nat where "tlsHandshakeHeaderLen = 4"
definition tlsHandshakeTypeClientHello :: byte where "tlsHandshakeTypeClientHello = 1"
definition tlsExtTypeSNI :: nat where "tlsExtTypeSNI = 0"
definition tlsExtTypeSupportedVersions :: nat where "tlsExtTypeSupportedVersions = 0x2b"
definition tlsExtTypeECH :: nat where "tlsExtTypeECH = 0xfe"

lemmas tls_consts = tlsRecordTypeHandshake_def tlsMajorVersion_def tlsRecordHeaderLen_def
  tlsHandshakeHeaderLen_def tlsHandshakeTypeClientHello_def tlsExtTypeSNI_def
  tlsExtTypeSupportedVersions_def tlsExtTypeECH_def

text \<open>A return with an error, the results so far unchanged.\<close>

definition fail_with :: "string \<Rightarrow> client_hello \<Rightarrow> client_hello option" where
  "fail_with msg r = Some (r\<lparr>chErr := Some (NewError msg)\<rparr>)"

definition no_hello :: "bytes \<Rightarrow> client_hello" where
  "no_hello ver = \<lparr>prtVer = ver, sniStart = - 1, sniLen = 0, isTLS13 = False, hasECH = False, chErr = None\<rparr>"

text \<open>The \<^verbatim>\<open>server_name\<close> case: its result, or the error that ends the loop.\<close>

definition sni_ext :: "bytes \<Rightarrow> nat \<Rightarrow> nat \<Rightarrow> client_hello \<Rightarrow> client_hello option" where
  "sni_ext data start extLen r =
     (if sniStart r \<noteq> - 1 then fail_with ''duplicate SNI extension'' r
      else if extLen < 2 then fail_with ''malformed SNI extension (too short for list length)'' r
      else do {
        listLen \<leftarrow> be16_at data start;
        if listLen + 2 \<noteq> extLen then fail_with ''SNI list length field mismatch'' r
        else if start + 2 + 3 > start + extLen then fail_with ''SNI entry too short'' r
        else do {
          nameType \<leftarrow> idx data (start + 2);
          if nameType \<noteq> 0 then fail_with ''unsupported SNI name type'' r
          else do {
            nameLen \<leftarrow> be16_at data (start + 3);
            if start + 5 + nameLen > start + extLen then fail_with ''SNI name length exceeds extension'' r
            else Some (r\<lparr>sniStart := int (start + 5), sniLen := nameLen\<rparr>)
          }
        }
      })"

function ext_loop :: "bytes \<Rightarrow> nat \<Rightarrow> nat \<Rightarrow> client_hello \<Rightarrow> client_hello option" where
  "ext_loop data extensionsEnd offset r =
     (if offset + 4 > extensionsEnd then Some r
      else do {
        extType \<leftarrow> be16_at data offset;
        extLen \<leftarrow> be16_at data (offset + 2);
        if offset + 4 + extLen > extensionsEnd
        then fail_with ''extension length exceeds extensions block'' r
        else do {
          r \<leftarrow> (if extType = tlsExtTypeSupportedVersions then Some (r\<lparr>isTLS13 := True\<rparr>)
                else if extType = tlsExtTypeECH then Some (r\<lparr>hasECH := True\<rparr>)
                else if extType = tlsExtTypeSNI then sni_ext data (offset + 4) extLen r
                else Some r);
          if chErr r \<noteq> None then Some r
          else ext_loop data extensionsEnd (offset + 4 + extLen) r
        }
      })"
  by pat_completeness auto
termination
  by (relation "measure (\<lambda>(_, e, o', _). e - o')") auto

declare ext_loop.simps [simp del]

lemma ext_loop_end: "e < off + 4 \<Longrightarrow> ext_loop data e off r = Some r"
  by (simp add: ext_loop.simps)

definition parseClientHello :: "bytes \<Rightarrow> client_hello option" where
  "parseClientHello data = do {
     b0 \<leftarrow> idx data 0;
     if b0 \<noteq> tlsRecordTypeHandshake then fail_with ''not a TLS handshake record'' (no_hello [])
     else do {
     b1 \<leftarrow> idx data 1;
     if b1 \<noteq> tlsMajorVersion then fail_with ''not a standard TLS record'' (no_hello [])
     else do {
     recordLen \<leftarrow> be16_at data 3;
     if length data < tlsRecordHeaderLen + recordLen
       then fail_with ''record length exceeds data size'' (no_hello [])
     else if recordLen < tlsHandshakeHeaderLen
       then fail_with ''handshake message too short'' (no_hello [])
     else do {
     let offset = tlsRecordHeaderLen;
     ty \<leftarrow> idx data offset;
     if ty \<noteq> tlsHandshakeTypeClientHello
       then fail_with (''not a ClientHello handshake (type='' @ show_nat (unat ty) @ '')'') (no_hello [])
     else do {
     h2 \<leftarrow> idx data (offset + 1);
     h1 \<leftarrow> idx data (offset + 2);
     h0 \<leftarrow> idx data (offset + 3);
     let handshakeLen = unat h2 * 65536 + unat h1 * 256 + unat h0;
     if handshakeLen + tlsHandshakeHeaderLen > recordLen
       then fail_with ''handshake length exceeds record length'' (no_hello [])
     else do {
     let offset = offset + tlsHandshakeHeaderLen;
     if handshakeLen < 2 + 32 + 1
       then fail_with ''ClientHello too short for mandatory fields'' (no_hello [])
     else do {
     ver \<leftarrow> slice data offset (offset + 2);
     let offset = offset + 34;
     if offset \<ge> length data then fail_with ''unexpected end after Random'' (no_hello ver)
     else do {
     sessionIDLen \<leftarrow> idx data offset;
     let offset = offset + 1;
     if offset + unat sessionIDLen > length data
       then fail_with ''session_id length exceeds data'' (no_hello ver)
     else do {
     let offset = offset + unat sessionIDLen;
     if offset + 2 > length data then fail_with ''cannot read cipher_suites length'' (no_hello ver)
     else do {
     csLen \<leftarrow> be16_at data offset;
     let offset = offset + 2;
     if offset + csLen > length data then fail_with ''cipher_suites exceed data'' (no_hello ver)
     else do {
     let offset = offset + csLen;
     if offset \<ge> length data then fail_with ''cannot read compression_methods length'' (no_hello ver)
     else do {
     compMethodsLen \<leftarrow> idx data offset;
     let offset = offset + 1;
     if offset + unat compMethodsLen > length data
       then fail_with ''compression_methods exceed data'' (no_hello ver)
     else do {
     let offset = offset + unat compMethodsLen;
     if offset + 2 > length data then Some (no_hello ver)
     else do {
     extTotalLen \<leftarrow> be16_at data offset;
     let offset = offset + 2;
     if offset + extTotalLen > length data then fail_with ''extensions length exceeds data'' (no_hello ver)
     else ext_loop data (offset + extTotalLen) offset (no_hello ver)
     }}}}}}}}}}}}}}"

section \<open>No access out of range, and a server name inside the record\<close>

definition sni_in :: "bytes \<Rightarrow> client_hello \<Rightarrow> bool" where
  "sni_in data r \<longleftrightarrow> sniStart r = - 1 \<and> sniLen r = 0 \<or>
     58 \<le> sniStart r \<and> sniStart r + int (sniLen r) \<le> int (length data)"

lemma sni_in_fields [simp]:
  "sni_in data (r\<lparr>chErr := e\<rparr>) = sni_in data r"
  "sni_in data (r\<lparr>isTLS13 := b\<rparr>) = sni_in data r"
  "sni_in data (r\<lparr>hasECH := b\<rparr>) = sni_in data r"
  "sni_in data (no_hello ver)"
  by (simp_all add: sni_in_def no_hello_def)

lemma fail_with_safe:
  "sni_in data r \<Longrightarrow> \<exists>r'. fail_with msg r = Some r' \<and> sni_in data r' \<and> prtVer r' = prtVer r"
  by (simp add: fail_with_def)

lemma sni_ext_safe:
  assumes "sni_in data r" and "53 \<le> start" and "start + extLen \<le> length data"
  shows "\<exists>r'. sni_ext data start extLen r = Some r' \<and> sni_in data r' \<and> prtVer r' = prtVer r"
proof (cases "sniStart r \<noteq> - 1 \<or> extLen < 2")
  case True
  then show ?thesis using fail_with_safe [OF assms(1)] by (auto simp: sni_ext_def)
next
  case False
  then obtain listLen where l: "be16_at data start = Some listLen" using assms(3) by (simp add: be16_at_Some)
  show ?thesis
  proof (cases "listLen + 2 \<noteq> extLen \<or> extLen < 5")
    case True
    then show ?thesis using False l fail_with_safe [OF assms(1)] by (auto simp: sni_ext_def)
  next
    case nf: False
    then have "be16_at data (start + 3) = Some (be16 (data ! (start + 3)) (data ! Suc (start + 3)))"
      "idx data (start + 2) = Some (data ! (start + 2))"
      using assms(3) by (simp_all add: be16_at_Some idx_Some)
    then show ?thesis
      using False nf l assms fail_with_safe [OF assms(1)] by (auto simp: sni_ext_def sni_in_def)
  qed
qed

lemma ext_loop_safe:
  assumes "sni_in data r" and "49 \<le> offset" and "extensionsEnd \<le> length data"
  shows "\<exists>r'. ext_loop data extensionsEnd offset r = Some r' \<and> sni_in data r' \<and> prtVer r' = prtVer r"
  using assms
proof (induction data extensionsEnd offset r rule: ext_loop.induct)
  case (1 data extensionsEnd offset r)
  show ?case
  proof (cases "extensionsEnd < offset + 4")
    case True
    then show ?thesis using "1.prems" by (simp add: ext_loop.simps)
  next
    case False
    obtain ty len where ty: "be16_at data offset = Some ty" "be16_at data (offset + 2) = Some len"
      using False "1.prems" by (simp add: be16_at_Some)
    show ?thesis
    proof (cases "extensionsEnd < offset + 4 + len")
      case True
      then show ?thesis
        using False ty fail_with_safe [OF "1.prems"(1)] by (subst ext_loop.simps) simp
    next
      case inb: False
      let ?step = "if ty = tlsExtTypeSupportedVersions then Some (r\<lparr>isTLS13 := True\<rparr>)
                else if ty = tlsExtTypeECH then Some (r\<lparr>hasECH := True\<rparr>)
                else if ty = tlsExtTypeSNI then sni_ext data (offset + 4) len r
                else Some r"
      have "\<exists>r'. ?step = Some r' \<and> sni_in data r' \<and> prtVer r' = prtVer r"
        using sni_ext_safe [of data r "offset + 4" len] inb "1.prems" by simp
      then obtain r' where r': "?step = Some r'" "sni_in data r'" "prtVer r' = prtVer r" by blast
      show ?thesis
      proof (cases "chErr r' = None")
        case True
        have "\<exists>r''. ext_loop data extensionsEnd (offset + 4 + len) r' = Some r'' \<and>
            sni_in data r'' \<and> prtVer r'' = prtVer r'"
          by (rule "1.IH" [OF False ty inb r'(1)]) (use True r' "1.prems" in auto)
        then show ?thesis
          using False ty inb r' True by (subst ext_loop.simps) simp
      next
        case nz: False
        then show ?thesis using False ty inb r' by (subst ext_loop.simps) simp
      qed
    qed
  qed
qed

lemma succeeds_fail_with [succ]:
  "succeeds (fail_with msg r) P \<longleftrightarrow> P (r\<lparr>chErr := Some (NewError msg)\<rparr>)"
  by (simp add: fail_with_def succeeds_def)

lemma parse_safe:
  assumes "5 \<le> length data"
  shows "succeeds (parseClientHello data)
    (\<lambda>r. sni_in data r \<and> (chErr r = None \<longrightarrow> length (prtVer r) = 2))"
proof -
  have loop: "succeeds (ext_loop data e off (no_hello ver))
      (\<lambda>r. sni_in data r \<and> (chErr r = None \<longrightarrow> length (prtVer r) = 2))"
    if "49 \<le> off" "e \<le> length data" "length ver = 2" for e off ver
  proof -
    obtain r where "ext_loop data e off (no_hello ver) = Some r" "sni_in data r"
      "prtVer r = prtVer (no_hello ver)"
      using ext_loop_safe [of data "no_hello ver" off e] \<open>49 \<le> off\<close> \<open>e \<le> length data\<close> by auto
    then show ?thesis using that(3) by (simp add: succeeds_def no_hello_def)
  qed
  show ?thesis
    unfolding parseClientHello_def Let_def tlsRecordHeaderLen_def tlsHandshakeHeaderLen_def
    using assms by (simp add: succ loop length_greater_0_conv [symmetric] del: length_greater_0_conv)
      (simp add: no_hello_def)
qed

section \<open>A well-formed ClientHello\<close>

definition put_be24 :: "nat \<Rightarrow> bytes" where
  "put_be24 n = [of_nat (n div 65536), of_nat (n div 256), of_nat n]"

definition enc_ext :: "nat \<times> bytes \<Rightarrow> bytes" where
  "enc_ext e = put_be16 (fst e) @ put_be16 (length (snd e)) @ snd e"

definition enc_sni :: "bytes \<Rightarrow> bytes" where
  "enc_sni name = put_be16 (length name + 3) @ [0] @ put_be16 (length name) @ name"

definition hello_head :: "bytes \<Rightarrow> bytes \<Rightarrow> bytes \<Rightarrow> bytes \<Rightarrow> bytes \<Rightarrow> bytes" where
  "hello_head ver rnd sid cs cm =
     ver @ rnd @ [of_nat (length sid)] @ sid @ put_be16 (length cs) @ cs @ [of_nat (length cm)] @ cm"

definition make_hello :: "bytes \<Rightarrow> bytes \<Rightarrow> (nat \<times> bytes) list \<Rightarrow> bytes" where
  "make_hello minor head exts =
     (let e = concat (map enc_ext exts); body = head @ put_be16 (length e) @ e
      in [0x16, 3] @ minor @ put_be16 (length body + 4) @ [1] @ put_be24 (length body) @ body)"

lemma put_be24_length [simp]: "length (put_be24 n) = 3"
  by (simp add: put_be24_def)

lemma be16_at_put:
  "n < 65536 \<Longrightarrow> be16_at (pre @ put_be16 n @ suf) (length pre) = Some n"
  by (simp add: be16_at_def nth_append put_be16_def be16_def)

lemma be16_at_skip: "be16_at (pre @ xs) (length pre + i) = be16_at xs i"
  by (simp add: be16_at_def nth_append)

lemma idx_skip: "idx (pre @ xs) (length pre + i) = idx xs i"
  by (simp add: idx_def nth_append)

definition ext_flags :: "(nat \<times> bytes) list \<Rightarrow> client_hello \<Rightarrow> client_hello" where
  "ext_flags exts r = r\<lparr>isTLS13 := isTLS13 r \<or> tlsExtTypeSupportedVersions \<in> fst ` set exts,
     hasECH := hasECH r \<or> tlsExtTypeECH \<in> fst ` set exts\<rparr>"

definition small_exts :: "(nat \<times> bytes) list \<Rightarrow> bool" where
  "small_exts exts \<longleftrightarrow> (\<forall>(t, d) \<in> set exts. t < 65536 \<and> length d < 65536)"

lemma ext_loop_skip:
  assumes "small_exts exts" and "tlsExtTypeSNI \<notin> fst ` set exts" and "chErr r = None"
    and "length pre + length (concat (map enc_ext exts)) \<le> e"
  shows "ext_loop (pre @ concat (map enc_ext exts) @ suf) e (length pre) r =
    ext_loop (pre @ concat (map enc_ext exts) @ suf) e
      (length pre + length (concat (map enc_ext exts))) (ext_flags exts r)"
  using assms
proof (induction exts arbitrary: pre r)
  case Nil
  then show ?case by (simp add: ext_flags_def)
next
  case (Cons x exts)
  obtain t d where x: "x = (t, d)" by (cases x)
  have td: "t < 65536" "length d < 65536" "t \<noteq> tlsExtTypeSNI"
    using Cons.prems(1,2) x by (auto simp: small_exts_def)
  let ?data = "pre @ concat (map enc_ext (x # exts)) @ suf"
  have d: "?data = pre @ put_be16 t @ put_be16 (length d) @ d @ concat (map enc_ext exts) @ suf"
    by (simp add: x enc_ext_def)
  have t1: "be16_at ?data (length pre) = Some t" unfolding d by (rule be16_at_put [OF td(1)])
  have t2: "be16_at ?data (length pre + 2) = Some (length d)"
    using be16_at_put [OF td(2), of "pre @ put_be16 t"] unfolding d by simp
  have bnd: "\<not> length pre + 4 > e" "\<not> length pre + 4 + length d > e"
    using Cons.prems(4) by (simp_all add: x enc_ext_def)
  define r' where "r' = (if t = tlsExtTypeSupportedVersions then r\<lparr>isTLS13 := True\<rparr>
      else if t = tlsExtTypeECH then r\<lparr>hasECH := True\<rparr> else r)"
  have e': "chErr r' = None" using Cons.prems(3) by (simp add: r'_def)
  have step: "(if t = tlsExtTypeSupportedVersions then Some (r\<lparr>isTLS13 := True\<rparr>)
                else if t = tlsExtTypeECH then Some (r\<lparr>hasECH := True\<rparr>)
                else if t = tlsExtTypeSNI then sni_ext ?data (length pre + 4) (length d) r
                else Some r) = Some r'"
    using td(3) by (simp add: r'_def)
  have "ext_loop ?data e (length pre) r = ext_loop ?data e (length pre + 4 + length d) r'"
    using bnd t1 t2 step e' by (subst ext_loop.simps) simp
  also have "length pre + 4 + length d = length (pre @ enc_ext x)" by (simp add: x enc_ext_def)
  also have "ext_loop ?data e (length (pre @ enc_ext x)) r' = ext_loop ?data e (length (pre @ enc_ext x) + length (concat (map enc_ext exts))) (ext_flags exts r')"
    using Cons.IH [of r' "pre @ enc_ext x"] Cons.prems e' by (simp add: small_exts_def)
  also have "ext_flags exts r' = ext_flags (x # exts) r"
    by (auto simp: ext_flags_def r'_def x tlsExtTypeSupportedVersions_def tlsExtTypeECH_def)
  finally show ?case by (simp add: add.assoc)
qed

lemma sni_ext_enc:
  assumes "length name < 65000" and "sniStart r = - 1"
  shows "sni_ext (pre @ enc_sni name @ suf) (length pre) (length (enc_sni name)) r =
    Some (r\<lparr>sniStart := int (length pre + 5), sniLen := length name\<rparr>)"
proof -
  have "be16_at (pre @ enc_sni name @ suf) (length pre) = Some (length name + 3)"
    using be16_at_put [of "length name + 3" pre] assms by (simp add: enc_sni_def)
  moreover have "idx (pre @ enc_sni name @ suf) (length pre + 2) = Some 0"
    by (simp add: idx_skip) (simp add: enc_sni_def idx_def nth_append)
  moreover have "be16_at (pre @ enc_sni name @ suf) (length pre + 3) = Some (length name)"
    using be16_at_put [of "length name" "pre @ put_be16 (length name + 3) @ [0]" "name @ suf"] assms
    by (simp add: enc_sni_def)
  moreover have "length (enc_sni name) = length name + 5" by (simp add: enc_sni_def)
  ultimately show ?thesis using assms by (simp add: sni_ext_def)
qed

lemma idx_here: "idx (pre @ x # suf) (length pre) = Some x"
  by (simp add: idx_def)

lemma slice_here: "slice (pre @ xs @ suf) (length pre) (length pre + length xs) = Some xs"
  by (simp add: slice_def)

lemma read_at:
  "data = pre @ put_be16 n @ suf \<Longrightarrow> n < 65536 \<Longrightarrow> i = length pre \<Longrightarrow> be16_at data i = Some n"
  "data = pre @ x # suf' \<Longrightarrow> i = length pre \<Longrightarrow> idx data i = Some x"
  "data = pre @ xs @ suf \<Longrightarrow> i = length pre \<Longrightarrow> j = i + length xs \<Longrightarrow> slice data i j = Some xs"
  by (simp_all add: be16_at_put idx_here slice_here)

lemma ext_loop_sni:
  assumes "small_exts (A @ B)" and "tlsExtTypeSNI \<notin> fst ` set (A @ B)" and "length name < 65000"
    and data: "data = pre @ concat (map enc_ext (A @ (tlsExtTypeSNI, enc_sni name) # B))"
  shows "ext_loop data (length data) (length pre) (no_hello ver) =
    Some (ext_flags (A @ B) (no_hello ver)
      \<lparr>sniStart := int (length pre + length (concat (map enc_ext A)) + 9), sniLen := length name\<rparr>)"
proof -
  let ?S = "enc_ext (tlsExtTypeSNI, enc_sni name)" and ?r = "ext_flags A (no_hello ver)"
  let ?A = "concat (map enc_ext A)" and ?B = "concat (map enc_ext B)"
  let ?p = "length (pre @ ?A)"
  have len: "length (enc_sni name) = length name + 5" by (simp add: enc_sni_def)
  have sA: "small_exts A" "tlsExtTypeSNI \<notin> fst ` set A" and sB: "small_exts B" "tlsExtTypeSNI \<notin> fst ` set B"
    using assms(1,2) by (auto simp: small_exts_def)
  have d: "data = pre @ ?A @ ?S @ ?B" by (simp add: data)
  have "ext_loop data (length data) (length pre) (no_hello ver) =
      ext_loop data (length data) (length pre + length ?A) ?r"
    unfolding d by (rule ext_loop_skip [OF sA]) (simp_all add: no_hello_def)
  also have "length pre + length ?A = ?p" by simp
  also have "ext_loop data (length data) ?p ?r =
      ext_loop data (length data) (?p + 4 + length (enc_sni name)) (?r\<lparr>sniStart := int (?p + 4 + 5), sniLen := length name\<rparr>)"
  proof -
    have d2: "data = (pre @ ?A) @ put_be16 tlsExtTypeSNI @ put_be16 (length (enc_sni name)) @ enc_sni name @ ?B"
      by (simp add: d enc_ext_def)
    have t: "be16_at data ?p = Some tlsExtTypeSNI"
      unfolding d2 by (rule be16_at_put) (simp add: tlsExtTypeSNI_def)
    have l: "be16_at data (?p + 2) = Some (length (enc_sni name))"
      using be16_at_put [of "length (enc_sni name)" "(pre @ ?A) @ put_be16 tlsExtTypeSNI" "enc_sni name @ ?B"]
        assms(3) len unfolding d2 by simp
    have s: "sni_ext data (?p + 4) (length (enc_sni name)) ?r =
        Some (?r\<lparr>sniStart := int (?p + 4 + 5), sniLen := length name\<rparr>)"
    proof -
      have "sniStart ?r = - 1" by (simp add: ext_flags_def no_hello_def)
      from sni_ext_enc [OF assms(3) this, of "(pre @ ?A) @ put_be16 tlsExtTypeSNI @ put_be16 (length (enc_sni name))" ?B]
      show ?thesis unfolding d2 by (simp add: add.assoc)
    qed
    have n: "tlsExtTypeSNI \<noteq> tlsExtTypeSupportedVersions" "tlsExtTypeSNI \<noteq> tlsExtTypeECH"
      by (simp_all add: tls_consts)
    have "\<not> length data < ?p + 4" "\<not> length data < ?p + 4 + length (enc_sni name)"
      by (simp_all add: d enc_ext_def)
    then show ?thesis
      using t l s n by (subst ext_loop.simps) (simp add: ext_flags_def no_hello_def)
  qed
  also have "?p + 4 + length (enc_sni name) = length (pre @ ?A @ ?S)" by (simp add: enc_ext_def)
  also have "ext_loop data (length data) (length (pre @ ?A @ ?S)) (?r\<lparr>sniStart := int (?p + 4 + 5), sniLen := length name\<rparr>)
     = Some (ext_flags B (?r\<lparr>sniStart := int (?p + 4 + 5), sniLen := length name\<rparr>))"
  proof -
    let ?R = "?r\<lparr>sniStart := int (?p + 4 + 5), sniLen := length name\<rparr>"
    have "chErr ?R = None" by (simp add: ext_flags_def no_hello_def)
    then have "ext_loop data (length data) (length (pre @ ?A @ ?S)) ?R =
        ext_loop data (length data) (length data) (ext_flags B ?R)"
      using ext_loop_skip [OF sB, of ?R "pre @ ?A @ ?S" "length data" "[]"] by (simp add: d add.assoc)
    also have "\<dots> = Some (ext_flags B ?R)" by (rule ext_loop_end) simp
    finally show ?thesis .
  qed
  finally show ?thesis by (simp add: ext_flags_def image_Un ac_simps)
qed

lemma parse_steps:
  assumes "idx data 0 = Some 0x16" "idx data (Suc 0) = Some 3" "be16_at data 3 = Some (h + 4)" "idx data 5 = Some 1"
    and "idx data 6 = Some h2" "idx data 7 = Some h1" "idx data 8 = Some h0"
    and "unat h2 * 65536 + unat h1 * 256 + unat h0 = h" "h + 9 = length data" "35 \<le> h"
    and "slice data 9 11 = Some ver" "idx data 43 = Some sl" "unat sl = s"
    and "be16_at data (44 + s) = Some c" "idx data (46 + s + c) = Some ml" "unat ml = m"
    and "be16_at data (47 + s + c + m) = Some e" "49 + s + c + m + e = length data"
  shows "parseClientHello data = ext_loop data (length data) (49 + s + c + m) (no_hello ver)"
proof -
  have "\<not> length data < 5 + (h + 4)" "\<not> h + 4 < 4" "\<not> h < 35" "\<not> length data \<le> 43"
    "\<not> length data < 44 + s" "\<not> length data < 44 + s + 2" "\<not> length data < 46 + s + c"
    "\<not> length data \<le> 46 + s + c" "\<not> length data < 47 + s + c + m" "\<not> length data < 47 + s + c + m + 2"
    "\<not> length data < 49 + s + c + m + e"
    using assms by linarith+
  then show ?thesis
    using assms unfolding parseClientHello_def Let_def
    by (simp add: tls_consts add.assoc)
qed

lemma be24_parts:
  "n < 16777216 \<Longrightarrow> unat (of_nat (n div 65536) :: byte) * 65536 + unat (of_nat (n div 256) :: byte) * 256
     + unat (of_nat n :: byte) = n"
proof -
  assume n: "n < 16777216"
  have "n div 65536 = n div 256 div 256" by (simp add: div_mult2_eq [symmetric])
  moreover have "n div 65536 mod 256 = n div 65536" using n by simp
  moreover have "n = n div 256 * 256 + n mod 256" "n div 256 = n div 256 div 256 * 256 + n div 256 mod 256"
    by simp_all
  ultimately show ?thesis unfolding unat_of_nat_byte by linarith
qed

section \<open>Properties\<close>

lemma parse_hello:
  assumes "length ver = 2" "length rnd = 32" "length sid < 256" "length cs < 65536" "length cm < 256"
    and "small_exts (A @ B)" "tlsExtTypeSNI \<notin> fst ` set (A @ B)" "length name < 65000"
    and data: "data = make_hello [m] (hello_head ver rnd sid cs cm) (A @ (tlsExtTypeSNI, enc_sni name) # B)"
    and "length data < 65536"
  shows "\<exists>pos. parseClientHello data = Some \<lparr>prtVer = ver, sniStart = int pos, sniLen = length name,
       isTLS13 = (tlsExtTypeSupportedVersions \<in> fst ` set (A @ B)),
       hasECH = (tlsExtTypeECH \<in> fst ` set (A @ B)), chErr = None\<rparr>
     \<and> slice data pos (pos + length name) = Some name"
proof -
  let ?E = "concat (map enc_ext (A @ (tlsExtTypeSNI, enc_sni name) # B))"
  let ?H = "length (hello_head ver rnd sid cs cm) + 2 + length ?E"
  define p0 :: bytes where "p0 = [0x16, 3, m]"
  define p1 where "p1 = p0 @ put_be16 (?H + 4)"
  define p2 where "p2 = p1 @ [1] @ put_be24 ?H"
  define p3 where "p3 = p2 @ ver @ rnd"
  define p4 where "p4 = p3 @ [of_nat (length sid)] @ sid"
  define p5 where "p5 = p4 @ put_be16 (length cs) @ cs"
  define p6 where "p6 = p5 @ [of_nat (length cm)] @ cm"
  define p7 where "p7 = p6 @ put_be16 (length ?E)"
  note P = p0_def p1_def p2_def p3_def p4_def p5_def p6_def p7_def
  have all: "data = p7 @ ?E" by (simp add: data make_hello_def hello_head_def Let_def P ac_simps)
  define r6 where "r6 = put_be16 (length ?E) @ ?E"
  define r5 where "r5 = of_nat (length cm) # cm @ r6"
  define r4 where "r4 = put_be16 (length cs) @ cs @ r5"
  define r3 where "r3 = of_nat (length sid) # sid @ r4"
  define r2 where "r2 = ver @ rnd @ r3"
  define r1 where "r1 = 1 # put_be24 ?H @ r2"
  have d6: "data = p6 @ r6" by (simp only: all p7_def r6_def append_assoc)
  then have d5: "data = p5 @ r5" by (simp add: p6_def r5_def)
  then have d4: "data = p4 @ r4" by (simp add: p5_def r4_def)
  then have d3: "data = p3 @ r3" by (simp add: p4_def r3_def)
  then have d2: "data = p2 @ r2" by (simp add: p3_def r2_def)
  then have d1: "data = p1 @ r1" by (simp add: p2_def r1_def)
  then have d0: "data = p0 @ put_be16 (?H + 4) @ r1" by (simp only: p1_def append_assoc)
  have lens: "length p0 = 3" "length p1 = 5" "length p2 = 9" "length p3 = 43"
    "length p4 = 44 + length sid" "length p5 = length p4 + 2 + length cs"
    "length p6 = length p5 + 1 + length cm" "length p7 = length p6 + 2" "length data = length p7 + length ?E"
    "length (hello_head ver rnd sid cs cm) + 11 = length p7"
    using assms(1,2) unfolding all by (simp_all add: P hello_head_def)
  have H: "?H + 9 = length data" "?H < 65536" using lens assms(10) by simp_all
  have steps: "idx data 0 = Some 0x16" "idx data (Suc 0) = Some 3" "be16_at data 3 = Some (?H + 4)"
    "idx data 5 = Some 1" "idx data 43 = Some (of_nat (length sid))"
    "be16_at data (length p4) = Some (length cs)" "idx data (length p5) = Some (of_nat (length cm))"
    "be16_at data (length p6) = Some (length ?E)" "slice data 9 (9 + 2) = Some ver"
  proof -
    show "idx data 0 = Some 0x16" "idx data (Suc 0) = Some 3" unfolding all P by (simp_all add: idx_def)
    show "be16_at data 3 = Some (?H + 4)" using H lens(1) assms(10) by (intro read_at(1) [OF d0]) simp_all
    show "idx data 5 = Some 1" using lens(2) by (intro read_at(2) [OF d1 [unfolded r1_def]]) simp
    show "idx data 43 = Some (of_nat (length sid))"
      using lens(4) by (intro read_at(2) [OF d3 [unfolded r3_def]]) simp
    show "be16_at data (length p4) = Some (length cs)" by (rule read_at(1) [OF d4 [unfolded r4_def] assms(4) refl])
    show "idx data (length p5) = Some (of_nat (length cm))" by (rule read_at(2) [OF d5 [unfolded r5_def] refl])
    show "be16_at data (length p6) = Some (length ?E)"
      using lens(9) assms(10) by (intro read_at(1) [OF d6 [unfolded r6_def]]) simp_all
    show "slice data 9 (9 + 2) = Some ver"
      using assms(1) lens(3) by (intro read_at(3) [OF d2 [unfolded r2_def]]) simp_all
  qed
  have "idx data (length p1 + i) = idx r1 i" for i unfolding d1 by (rule idx_skip)
  from this [of 1] this [of 2] this [of 3]
  have h: "idx data 6 = Some (of_nat (?H div 65536))" "idx data 7 = Some (of_nat (?H div 256))"
    "idx data 8 = Some (of_nat ?H)" by (simp_all add: lens(2) idx_def r1_def put_be24_def)
  have u: "unat (of_nat (length sid) :: byte) = length sid" "unat (of_nat (length cm) :: byte) = length cm"
    using assms(3,5) by (simp_all add: unat_of_nat_byte)
  have hl: "unat (of_nat (?H div 65536) :: byte) * 65536 + unat (of_nat (?H div 256) :: byte) * 256
     + unat (of_nat ?H :: byte) = ?H"
    using H by (intro be24_parts) simp
  have "parseClientHello data = ext_loop data (length data) (49 + length sid + length cs + length cm) (no_hello ver)"
    by (rule parse_steps [OF steps(1-4) h hl H(1) _ _ steps(5) u(1) _ _ u(2)])
      (use steps(6-9) lens assms(1) in \<open>simp_all add: ac_simps\<close>)
  also have "49 + length sid + length cs + length cm = length p7" using lens by simp
  also have "ext_loop data (length data) (length p7) (no_hello ver) =
    Some (ext_flags (A @ B) (no_hello ver)
      \<lparr>sniStart := int (length p7 + length (concat (map enc_ext A)) + 9), sniLen := length name\<rparr>)"
    by (rule ext_loop_sni [OF assms(6,7,8) all])
  finally have parse: "parseClientHello data = Some (ext_flags (A @ B) (no_hello ver)
      \<lparr>sniStart := int (length p7 + length (concat (map enc_ext A)) + 9), sniLen := length name\<rparr>)" .
  have "data = (p7 @ concat (map enc_ext A) @ put_be16 tlsExtTypeSNI @ put_be16 (length (enc_sni name))
      @ put_be16 (length name + 3) @ [0] @ put_be16 (length name)) @ name @ concat (map enc_ext B)"
    unfolding all by (simp add: enc_ext_def enc_sni_def)
  then have "slice data (length p7 + length (concat (map enc_ext A)) + 9)
      (length p7 + length (concat (map enc_ext A)) + 9 + length name) = Some name"
    by (rule read_at(3)) simp_all
  with parse show ?thesis
    by (intro exI [of _ "length p7 + length (concat (map enc_ext A)) + 9"]) (simp add: ext_flags_def no_hello_def)
qed

text \<open>
  C0. A well-formed ClientHello record with one server name is parsed without a panic or an
  error: the returned position and length cut exactly that name out of the record, and the
  version and the \<^verbatim>\<open>supported_versions\<close> and ECH flags are those of the message.
\<close>

theorem parse_make_hello:
  assumes "length ver = 2" "length rnd = 32" "length sid < 256" "length cs < 65536" "length cm < 256"
    and "small_exts (A @ B)" "tlsExtTypeSNI \<notin> fst ` set (A @ B)" "length name < 65000"
    and data: "data = make_hello [m] (hello_head ver rnd sid cs cm) (A @ (tlsExtTypeSNI, enc_sni name) # B)"
    and "length data < 65536"
  shows "\<exists>pos. parseClientHello data = Some \<lparr>prtVer = ver, sniStart = int pos, sniLen = length name,
       isTLS13 = (tlsExtTypeSupportedVersions \<in> fst ` set (A @ B)),
       hasECH = (tlsExtTypeECH \<in> fst ` set (A @ B)), chErr = None\<rparr>
     \<and> slice data pos (pos + length name) = Some name"
  by (rule parse_hello [OF assms])

theorem parse_make_hello_witness:
  "\<exists>pos. parseClientHello (make_hello [1] (hello_head [3, 3] (replicate 32 7) [] [19, 1] [0])
       ([] @ (tlsExtTypeSNI, enc_sni [97, 46, 98]) # [(43, [2, 3, 4])]))
     = Some \<lparr>prtVer = [3, 3], sniStart = int pos, sniLen = 3, isTLS13 = True, hasECH = False, chErr = None\<rparr>
     \<and> slice (make_hello [1] (hello_head [3, 3] (replicate 32 7) [] [19, 1] [0])
         ([] @ (tlsExtTypeSNI, enc_sni [97, 46, 98]) # [(43, [2, 3, 4])])) pos (pos + 3) = Some [97, 46, 98]"
proof -
  let ?d = "make_hello [1] (hello_head [3, 3] (replicate 32 7) [] [19, 1] [0])
       ([] @ (tlsExtTypeSNI, enc_sni [97, 46, 98]) # [(43, [2, 3, 4])])"
  have "length ?d < 65536"
    by (simp add: make_hello_def hello_head_def Let_def enc_ext_def enc_sni_def)
  from parse_make_hello [OF _ _ _ _ _ _ _ _ refl this]
  show ?thesis by (simp add: small_exts_def tls_consts numeral_3_eq_3)
qed

text \<open>
  On any record of at least the five header bytes the parser never reads out of range,
  ends, and a server name it reports lies inside the record, not before byte 58; a parse
  without an error comes with the two bytes of the version.
\<close>

theorem parseClientHello_safe:
  assumes "5 \<le> length data"
  shows "\<exists>r. parseClientHello data = Some r \<and>
    (sniStart r = - 1 \<or> 58 \<le> sniStart r \<and> sniStart r + int (sniLen r) \<le> int (length data)) \<and>
    (chErr r = None \<longrightarrow> length (prtVer r) = 2)"
  using parse_safe [OF assms] by (auto simp: succeeds_def sni_in_def)

theorem parseClientHello_safe_witness:
  "\<exists>r. parseClientHello [0x16, 3, 1, 0, 9] = Some r \<and>
    (sniStart r = - 1 \<or> 58 \<le> sniStart r \<and> sniStart r + int (sniLen r) \<le> int (length [0x16, 3, 1, 0, 9 :: byte])) \<and>
    (chErr r = None \<longrightarrow> length (prtVer r) = 2)"
  by (rule parseClientHello_safe) simp

end
