(* ===== verification/Net_IO.thy ===== *)
theory Net_IO
  imports Errors_Format "HOL-Library.Sublist"
begin

text \<open>
  Calls on a TCP connection. \<open>sent\<close> is what was handed to the kernel, in order; \<open>faults\<close>
  gives the outcome of the calls to come, each \<open>None\<close> or an error, success when the list is
  used up. \<open>Noise fake real ttl\<close> is a segment sent with the bytes \<open>fake\<close> and a small TTL, whose
  pages then hold \<open>real\<close>, which is what a retransmission carries. A computation maps the connection to an error
  or a value and the connection after it; \<open>None\<close> is a run-time panic. A call that fails is taken to have sent
  nothing and one that succeeds to have sent all its bytes: \<^verbatim>\<open>Write\<close> of the library retries until then, for the
  \<^verbatim>\<open>sendto\<close> of an urgent byte, whose count the code does not see, it is an assumption (the buffer of the
  socket, which is empty before a ClientHello, has room for it).
\<close>

datatype wire =
    Data bytes
  | Urgent bytes byte
  | Noise bytes bytes int
  | AckWait

record conn =
  sent :: "wire list"
  faults :: "error option list"

type_synonym 'a io = "conn \<Rightarrow> ((error + 'a) \<times> conn) option"

definition ret :: "'a \<Rightarrow> 'a io" where
  "ret a c = Some (Inr a, c)"

definition throw :: "error \<Rightarrow> 'a io" where
  "throw e c = Some (Inl e, c)"

definition panic :: "'a io" where
  "panic c = None"

definition seq :: "'a io \<Rightarrow> ('a \<Rightarrow> 'b io) \<Rightarrow> 'b io" where
  "seq m k c = (case m c of None \<Rightarrow> None | Some (Inl e, c') \<Rightarrow> Some (Inl e, c') | Some (Inr a, c') \<Rightarrow> k a c')"

text \<open>A computation whose result may be a panic, used in a sequence of calls.\<close>

definition lift :: "'a option \<Rightarrow> ('a \<Rightarrow> 'b io) \<Rightarrow> 'b io" where
  "lift x k = (case x of None \<Rightarrow> panic | Some a \<Rightarrow> k a)"

text \<open>A call whose error is looked at later.\<close>

definition attempt :: "'a io \<Rightarrow> (error + 'a \<Rightarrow> 'b io) \<Rightarrow> 'b io" where
  "attempt m k c = (case m c of None \<Rightarrow> None | Some (r, c') \<Rightarrow> k r c')"

text \<open>\<^verbatim>\<open>if err := m; err != nil { return E.WithStr(op, err) }\<close>\<close>

definition labelled :: "string \<Rightarrow> 'a io \<Rightarrow> 'a io" where
  "labelled op m c = (case m c of Some (Inl e, c') \<Rightarrow> Some (Inl (OpError op e), c') | r \<Rightarrow> r)"

definition net_call :: "wire list \<Rightarrow> unit io" where
  "net_call ws c =
     (case faults c of
        Some e # fs \<Rightarrow> Some (Inl e, c\<lparr>faults := fs\<rparr>)
      | _ \<Rightarrow> Some (Inr (), c\<lparr>faults := tl (faults c), sent := sent c @ ws\<rparr>))"

definition conn_write :: "bytes \<Rightarrow> unit io" where
  "conn_write b = net_call [Data b]"

definition get_raw_conn :: "unit io" where
  "get_raw_conn = labelled ''get raw conn'' (net_call [])"

text \<open>
  \<^verbatim>\<open>sendWithOOB\<close>: one \<^verbatim>\<open>sendto\<close> with \<^verbatim>\<open>MSG_OOB\<close>, whose last byte is the urgent one. The
  outcome of \<^verbatim>\<open>sendto\<close> is the one after the retries on \<^verbatim>\<open>EINTR\<close>.
\<close>

definition send_with_oob :: "bytes \<Rightarrow> byte \<Rightarrow> unit io" where
  "send_with_oob dat oob =
     seq get_raw_conn (\<lambda>_.
     seq (labelled ''raw write'' (net_call [])) (\<lambda>_.
     labelled ''sendto (MSG_OOB)'' (net_call [Urgent dat oob])))"

text \<open>
  \<^verbatim>\<open>waitForAck\<close> on Linux: a sleep, or polling \<^verbatim>\<open>TCP_INFO\<close> until nothing is
  unacknowledged. The outcome of the poll is the one of its last turn.
\<close>

definition wait_for_ack :: "bool \<Rightarrow> unit io" where
  "wait_for_ack enabled =
     (if \<not> enabled then (\<lambda>c. Some (Inr (), c\<lparr>sent := sent c @ [AckWait]\<rparr>))
      else
        seq (labelled ''wait for ack'' get_raw_conn) (\<lambda>_.
        seq (labelled ''wait for ack: raw control'' (net_call [])) (\<lambda>_.
        labelled ''wait for ack: get tcp info'' (net_call [AckWait]))))"

section \<open>What a computation sends\<close>

text \<open>
  \<open>sends m ws\<close>: \<open>m\<close> hands \<open>ws\<close> to the kernel, all of it when it returns without an error,
  as it does when no call fails, and otherwise what comes before the failed call.
\<close>

definition sends :: "unit io \<Rightarrow> wire list \<Rightarrow> bool" where
  "sends m ws \<longleftrightarrow> (\<forall>c. \<exists>r c' ws'. m c = Some (r, c') \<and> sent c' = sent c @ ws' \<and> prefix ws' ws \<and>
     (r = Inr () \<longrightarrow> ws' = ws) \<and> (faults c = [] \<longrightarrow> r = Inr () \<and> faults c' = []))"

named_theorems io_sends \<open>what the calls send\<close>

lemma sendsE:
  assumes "sends m ws"
  obtains r c' ws' where "m c = Some (r, c')" "sent c' = sent c @ ws'" "prefix ws' ws"
    "r = Inr () \<longrightarrow> ws' = ws" "faults c = [] \<longrightarrow> r = Inr () \<and> faults c' = []"
  using assms unfolding sends_def by blast

lemma sends_ret [io_sends]: "sends (ret ()) []"
  by (simp add: sends_def ret_def)

lemma sends_net_call [io_sends]: "sends (net_call ws) ws"
  unfolding sends_def net_call_def
  by (intro allI, rename_tac c, case_tac "faults c") (auto split: option.splits)

lemma sends_labelled [io_sends]:
  assumes "sends m ws" shows "sends (labelled op m) ws"
  unfolding sends_def
proof
  fix c
  obtain r c' ws' where "m c = Some (r, c')" "sent c' = sent c @ ws'" "prefix ws' ws"
    "r = Inr () \<longrightarrow> ws' = ws" "faults c = [] \<longrightarrow> r = Inr () \<and> faults c' = []"
    by (rule sendsE [OF assms])
  then show "\<exists>r c' ws'. labelled op m c = Some (r, c') \<and> sent c' = sent c @ ws' \<and> prefix ws' ws \<and>
     (r = Inr () \<longrightarrow> ws' = ws) \<and> (faults c = [] \<longrightarrow> r = Inr () \<and> faults c' = [])"
    by (cases r) (auto simp: labelled_def)
qed

lemma sends_seq [io_sends]:
  assumes m: "sends m ws" and k: "sends (k ()) vs" shows "sends (seq m k) (ws @ vs)"
  unfolding sends_def
proof
  fix c
  obtain r c1 ws' where 1: "m c = Some (r, c1)" "sent c1 = sent c @ ws'" "prefix ws' ws"
    "r = Inr () \<longrightarrow> ws' = ws" "faults c = [] \<longrightarrow> r = Inr () \<and> faults c1 = []"
    by (rule sendsE [OF m])
  obtain r2 c2 vs' where 2: "k () c1 = Some (r2, c2)" "sent c2 = sent c1 @ vs'" "prefix vs' vs"
    "r2 = Inr () \<longrightarrow> vs' = vs" "faults c1 = [] \<longrightarrow> r2 = Inr () \<and> faults c2 = []"
    by (rule sendsE [OF k])
  show "\<exists>r c' us. seq m k c = Some (r, c') \<and> sent c' = sent c @ us \<and> prefix us (ws @ vs) \<and>
     (r = Inr () \<longrightarrow> us = ws @ vs) \<and> (faults c = [] \<longrightarrow> r = Inr () \<and> faults c' = [])"
  proof (cases r)
    case (Inl e)
    then show ?thesis using 1 by (intro exI [of _ r] exI [of _ c1] exI [of _ ws']) (auto simp: seq_def)
  next
    case (Inr u)
    then show ?thesis using 1 2 by (intro exI [of _ r2] exI [of _ c2] exI [of _ "ws' @ vs'"]) (auto simp: seq_def)
  qed
qed

lemma sends_lift: "x = Some a \<Longrightarrow> sends (k a) ws \<Longrightarrow> sends (lift x k) ws"
  by (simp add: lift_def)

lemma sends_conn_write [io_sends]: "sends (conn_write b) [Data b]"
  by (simp add: conn_write_def io_sends)

lemma sends_send_with_oob [io_sends]: "sends (send_with_oob b x) [Urgent b x]"
proof -
  have "sends (send_with_oob b x) ([] @ [] @ [Urgent b x])"
    unfolding send_with_oob_def get_raw_conn_def by (intro io_sends)
  then show ?thesis by simp
qed

lemma sends_wait_for_ack [io_sends]: "sends (wait_for_ack e) [AckWait]"
proof (cases e)
  case True
  have "sends (wait_for_ack e) ([] @ [] @ [AckWait])"
    unfolding wait_for_ack_def get_raw_conn_def if_not_P [OF not_not [THEN iffD2, OF True]]
    by (intro io_sends)
  then show ?thesis by simp
qed (auto simp: wait_for_ack_def sends_def)

text \<open>
  \<open>delivers m ws\<close>: when \<open>m\<close> returns without an error it has handed over \<open>ws\<close>, whatever it
  does before an error.
\<close>

definition delivers :: "unit io \<Rightarrow> wire list \<Rightarrow> bool" where
  "delivers m ws \<longleftrightarrow> (\<forall>c c'. m c = Some (Inr (), c') \<longrightarrow> sent c' = sent c @ ws)"

named_theorems io_delivers \<open>what calls that succeed have sent\<close>

lemma sends_delivers: "sends m ws \<Longrightarrow> delivers m ws"
  unfolding delivers_def by (metis sendsE option.inject prod.inject)

lemma delivers_net_call [io_delivers]: "delivers (net_call ws) ws"
  by (simp add: sends_delivers io_sends)

lemma delivers_conn_write [io_delivers]: "delivers (conn_write b) [Data b]"
  by (simp add: sends_delivers io_sends)

lemma delivers_labelled [io_delivers]: "delivers m ws \<Longrightarrow> delivers (labelled op m) ws"
  by (auto simp: delivers_def labelled_def split: option.splits sum.splits prod.splits)

lemma delivers_seq [io_delivers]:
  assumes "delivers m ws" and "delivers (k ()) vs" shows "delivers (seq m k) (ws @ vs)"
  unfolding delivers_def
proof (intro allI impI)
  fix c c'
  assume "seq m k c = Some (Inr (), c')"
  then obtain c1 where "m c = Some (Inr (), c1)" "k () c1 = Some (Inr (), c')"
    by (auto simp: seq_def split: option.splits sum.splits prod.splits)
  then show "sent c' = sent c @ ws @ vs" using assms by (auto simp: delivers_def)
qed

section \<open>What the peer reads\<close>

text \<open>
  The stream a receiver reads in band. TCP has one urgent byte at a time: a later one
  takes its place and leaves the earlier one in the stream, and the last one is not read. This is a receiver
  without \<^verbatim>\<open>SO_OOBINLINE\<close> for which the urgent pointer has moved on before it reads, as the method of the
  program intends; one that reads in between may skip an earlier urgent byte as well.
\<close>

definition has_urgent :: "wire list \<Rightarrow> bool" where
  "has_urgent ws \<longleftrightarrow> (\<exists>b x. Urgent b x \<in> set ws)"

fun received :: "wire list \<Rightarrow> bytes" where
  "received [] = []"
| "received (Data b # ws) = b @ received ws"
| "received (Urgent b x # ws) = b @ (if has_urgent ws then [x] else []) @ received ws"
| "received (Noise f r ttl # ws) = r @ received ws"
| "received (AckWait # ws) = received ws"

text \<open>\<open>reach ttl\<close>: a segment with this TTL gets to the peer.\<close>

fun arrive :: "(int \<Rightarrow> bool) \<Rightarrow> wire \<Rightarrow> wire" where
  "arrive reach (Noise f r ttl) = Data (if reach ttl then f else r)"
| "arrive reach w = w"

lemma has_urgent_simps [simp]:
  "\<not> has_urgent []"
  "has_urgent (Data b # ws) = has_urgent ws"
  "has_urgent (AckWait # ws) = has_urgent ws"
  "has_urgent (Noise f r ttl # ws) = has_urgent ws"
  "has_urgent (Urgent b x # ws)"
  "has_urgent (ws @ ws') \<longleftrightarrow> has_urgent ws \<or> has_urgent ws'"
  by (auto simp: has_urgent_def)

lemma received_arrive:
  assumes "\<forall>f r ttl. Noise f r ttl \<in> set ws \<longrightarrow> \<not> reach ttl"
  shows "received (map (arrive reach) ws) = received ws"
proof -
  have "has_urgent (map (arrive reach) ws) = has_urgent ws" for ws
  proof (induction ws)
    case (Cons w ws)
    then show ?case by (cases w) simp_all
  qed simp
  then show ?thesis using assms by (induction ws rule: received.induct) auto
qed

lemma received_append: "\<not> has_urgent ws' \<Longrightarrow> received (ws @ ws') = received ws @ received ws'"
  by (induction ws rule: received.induct) auto

end
