(* ===== verification/Fragment.thy ===== *)
theory Fragment
  imports Net_IO
begin

text \<open>
  \<^verbatim>\<open>internal/core/fragment.go\<close>: a ClientHello record sent as several TLS records, several
  TCP segments, or both, with urgent bytes in between. Counts are integers as in the code,
  where negative ones are possible; slices and \<^verbatim>\<open>make\<close> panic as Go does.
\<close>

section \<open>Splitting\<close>

definition findLastDotOrMidPos :: "bytes \<Rightarrow> nat \<Rightarrow> nat \<Rightarrow> nat option" where
  "findLastDotOrMidPos data sniStart sniLen =
     (case slice data sniStart (sniStart + sniLen) of
        None \<Rightarrow> None
      | Some name \<Rightarrow>
          (case last_index_byte 46 name of
             None \<Rightarrow> Some (sniLen div 2 + sniStart)
           | Some subIdx \<Rightarrow> Some (sniStart + subIdx)))"

definition makeRecord :: "bytes \<Rightarrow> bytes \<Rightarrow> bytes" where
  "makeRecord header payload =
     take 3 (header @ replicate 3 0) @ put_be16 (length payload) @ payload"

text \<open>\<open>None\<close> for the header is Go's \<^verbatim>\<open>nil\<close>; the parts are appended to \<open>result\<close>.\<close>

definition splitAndAppend :: "bytes \<Rightarrow> bytes option \<Rightarrow> int \<Rightarrow> bytes list \<Rightarrow> bytes list option" where
  "splitAndAppend data header n result =
     (let rec = (\<lambda>part. case header of Some h \<Rightarrow> makeRecord h part | None \<Rightarrow> part) in
      if n \<le> 0 then None
      else if n = 1 \<or> int (length data) < n then Some (result @ [rec data])
      else
        let k = nat n; base = length data div k in
        Some (result @ map (\<lambda>i. if i = k - 1 then rec (drop (i * base) data)
                               else rec (take base (drop (i * base) data))) [0..<k]))"

section \<open>Sending\<close>

text \<open>\<^verbatim>\<open>for i, x := range xs\<close>, left at the first error.\<close>

fun send_each :: "(nat \<Rightarrow> bytes \<Rightarrow> unit io) \<Rightarrow> nat \<Rightarrow> bytes list \<Rightarrow> unit io" where
  "send_each f i [] = ret ()"
| "send_each f i (x # xs) = seq (f i x) (\<lambda>_. send_each f (Suc i) xs)"

record send_opts =
  soOob :: bool
  soOobex :: bool
  soWaitForAck :: bool

text \<open>The first 35 bytes in two urgent sends; the bytes left to send.\<close>

definition oobex_head :: "send_opts \<Rightarrow> bytes \<Rightarrow> (bytes \<Rightarrow> unit io) \<Rightarrow> unit io" where
  "oobex_head o' b k =
     lift (slice b 0 15) (\<lambda>b15. lift (idx b 15) (\<lambda>x15.
     seq (labelled ''oob 1'' (send_with_oob b15 x15)) (\<lambda>_.
     lift (slice b 16 35) (\<lambda>b19.
     seq (labelled ''oob 2'' (send_with_oob b19 0)) (\<lambda>_.
     seq (wait_for_ack (soWaitForAck o')) (\<lambda>_.
     lift (slice b 35 (length b)) k))))))"

text \<open>One packet of the first branch, \<^verbatim>\<open>records == 1\<close>.\<close>

definition send_packet :: "send_opts \<Rightarrow> nat \<Rightarrow> bytes \<Rightarrow> unit io" where
  "send_packet o' i packet =
     seq (if i = 0 \<and> soOob o' then labelled ''oob'' (send_with_oob packet 0)
          else labelled (''write packet '' @ show_nat (i + 1)) (conn_write packet))
       (\<lambda>_. wait_for_ack (soWaitForAck o'))"

text \<open>\<^verbatim>\<open>make([][]byte, 0, n)\<close> panics when \<open>n\<close> is negative. That memory suffices for any other count is assumed.\<close>

definition make_cap :: "int \<Rightarrow> unit option" where
  "make_cap n = (if n < 0 then None else Some ())"

definition send_one_record ::
  "send_opts \<Rightarrow> nat \<Rightarrow> nat \<Rightarrow> int \<Rightarrow> bytes \<Rightarrow> unit io" where
  "send_one_record o' offset len segments clientHello =
     (if segments = 1 then labelled ''send remaining data'' (conn_write clientHello)
      else
        let leftSegments = sgn segments * (\<bar>segments\<bar> div 2);
            rightSegments = segments - leftSegments in
        lift (make_cap segments) (\<lambda>_.
        lift (findLastDotOrMidPos clientHello offset len) (\<lambda>cut.
        lift (slice clientHello 0 cut) (\<lambda>front.
        lift (splitAndAppend front None leftSegments []) (\<lambda>packets.
        lift (slice clientHello cut (length clientHello)) (\<lambda>back.
        lift (splitAndAppend back None rightSegments packets) (\<lambda>packets.
        send_each (send_packet o') 0 packets)))))))"

text \<open>One record of the branch \<^verbatim>\<open>segments == -1\<close>.\<close>

definition send_chunk :: "send_opts \<Rightarrow> nat \<Rightarrow> bytes \<Rightarrow> unit io" where
  "send_chunk o' i chunk =
     seq (if i = 0 then
            if soOob o' then labelled ''oob'' (send_with_oob chunk 0)
            else if soOobex o' then
              lift (slice chunk 0 (length chunk - 1)) (\<lambda>front. lift (idx chunk (length chunk - 1)) (\<lambda>x.
              labelled ''oob 1'' (send_with_oob front x)))
            else labelled ''write record 1'' (conn_write chunk)
          else if i = 1 \<and> soOobex o' then labelled ''oob 2'' (send_with_oob chunk 0)
          else labelled (''write record '' @ show_nat (i + 1)) (conn_write chunk))
       (\<lambda>_. wait_for_ack (soWaitForAck o'))"

definition send_segment :: "send_opts \<Rightarrow> nat \<Rightarrow> bytes \<Rightarrow> unit io" where
  "send_segment o' i seg =
     seq (if i = 0 \<and> soOob o' then labelled ''oob'' (send_with_oob seg 0)
          else labelled (''write segment '' @ show_nat (i + 1)) (conn_write seg))
       (\<lambda>_. wait_for_ack (soWaitForAck o'))"

text \<open>
  The last part: the merged records in \<open>segments\<close> pieces. \<^verbatim>\<open>range segments\<close> is empty for a
  negative count, and then nothing is sent.
\<close>

definition merged_segments :: "int \<Rightarrow> bytes \<Rightarrow> bytes list" where
  "merged_segments segments merged =
     (let k = nat segments; base = length merged div k in
      map (\<lambda>i. if i = k - 1 then drop (i * base) merged else take base (drop (i * base) merged)) [0..<k])"

definition send_merged :: "send_opts \<Rightarrow> int \<Rightarrow> bytes \<Rightarrow> unit io" where
  "send_merged o' segments merged =
     (if segments = 1 \<or> int (length merged) \<le> segments then conn_write merged
      else send_each (send_segment o') 0 (merged_segments segments merged))"

text \<open>\<^verbatim>\<open>minorVersion\<close> is \<open>None\<close> when \<^verbatim>\<open>IsZero\<close> holds.\<close>

definition sendRecords ::
  "bytes \<Rightarrow> nat \<Rightarrow> nat \<Rightarrow> int \<Rightarrow> int \<Rightarrow> byte option \<Rightarrow> send_opts \<Rightarrow> unit io" where
  "sendRecords clientHello offset len records segments minorVersion o' =
     lift (case minorVersion of
             None \<Rightarrow> Some clientHello
           | Some v \<Rightarrow> if 2 < length clientHello then Some (clientHello[2 := v]) else None)
     (\<lambda>clientHello.
       let records = (if records = 0 then 1 else records);
           segments = (if segments = 0 then 1 else segments) in
       if records = 1 then
         if soOobex o' then
           oobex_head o' clientHello (\<lambda>rest.
             if segments \<noteq> 1 \<and> offset < 35 then panic
             else send_one_record o' (offset - 35) len segments rest)
         else send_one_record o' offset len segments clientHello
       else
         let leftChunks = sgn records * (\<bar>records\<bar> div 2);
             rightChunks = records - leftChunks in
         lift (make_cap records) (\<lambda>_.
         lift (findLastDotOrMidPos clientHello offset len) (\<lambda>cut.
         lift (slice clientHello 0 3) (\<lambda>header.
         lift (slice clientHello 5 cut) (\<lambda>front.
         lift (splitAndAppend front (Some header) leftChunks []) (\<lambda>chunks.
         lift (slice clientHello cut (length clientHello)) (\<lambda>back.
         lift (splitAndAppend back (Some header) rightChunks chunks) (\<lambda>chunks.
           if segments = -1 then send_each (send_chunk o') 0 chunks
           else
             let merged = concat chunks in
             if soOobex o' then oobex_head o' merged (send_merged o' segments)
             else send_merged o' segments merged))))))))"

section \<open>Splitting keeps the bytes\<close>

lemma findLastDotOrMidPos_ok:
  assumes "offset + len \<le> length b"
  obtains cut where "findLastDotOrMidPos b offset len = Some cut" "offset \<le> cut" "cut \<le> offset + len"
proof -
  have s: "slice b offset (offset + len) = Some (take len (drop offset b))" using assms by (simp add: slice_Some)
  show thesis
  proof (cases "last_index_byte 46 (take len (drop offset b))")
    case None
    then show thesis using s by (intro that [of "len div 2 + offset"]) (auto simp: findLastDotOrMidPos_def)
  next
    case (Some j)
    then have "j < length (take len (drop offset b))" using last_index_byte_SomeD by fast
    then show thesis using s Some by (intro that [of "offset + j"]) (simp_all add: findLastDotOrMidPos_def)
  qed
qed

lemma pieces_concat:
  assumes "0 < k"
  shows "concat (map (\<lambda>i. if i = k - 1 then drop (i * base) xs else take base (drop (i * base) xs)) [0..<k]) = xs"
proof -
  have cat: "concat (map (\<lambda>i. take base (drop (i * base) xs)) [0..<n]) = take (n * base) xs" for n
    by (induction n) (simp_all add: take_add [of "_ * base" base, symmetric] add.commute [of base])
  obtain n where k: "k = Suc n" using assms by (cases k) auto
  have same: "map (\<lambda>i. if i = n then drop (i * base) xs else take base (drop (i * base) xs)) [0..<n] =
      map (\<lambda>i. take base (drop (i * base) xs)) [0..<n]" by simp
  show ?thesis
    unfolding k diff_Suc_1 upt_Suc_append [OF le0] map_append concat_append same cat by simp
qed

lemma split_plain:
  assumes "0 < n"
  obtains parts where "splitAndAppend data None n result = Some (result @ parts)" "parts \<noteq> []" "concat parts = data"
proof (cases "n = 1 \<or> int (length data) < n")
  case True
  then show thesis using assms by (intro that [of "[data]"]) (auto simp: splitAndAppend_def)
next
  case False
  then have "0 < nat n" using assms by simp
  then show thesis
    using False assms pieces_concat [of "nat n" "length data div nat n" data]
    by (intro that [of "map (\<lambda>i. if i = nat n - 1 then drop (i * (length data div nat n)) data
        else take (length data div nat n) (drop (i * (length data div nat n)) data)) [0..<nat n]"])
      (auto simp: splitAndAppend_def Let_def)
qed

lemma split_records:
  assumes "0 < n"
  obtains parts where "splitAndAppend data (Some h) n result = Some (result @ map (makeRecord h) parts)"
    "parts \<noteq> []" "concat parts = data"
proof (cases "n = 1 \<or> int (length data) < n")
  case True
  then show thesis using assms by (intro that [of "[data]"]) (auto simp: splitAndAppend_def)
next
  case False
  then have k: "0 < nat n" using assms by simp
  have "map (\<lambda>i. if i = k - 1 then makeRecord h (drop (i * base) data) else makeRecord h (take base (drop (i * base) data))) [0..<k]
    = map (makeRecord h) (map (\<lambda>i. if i = k - 1 then drop (i * base) data else take base (drop (i * base) data)) [0..<k])"
    for k base by simp
  then show thesis
    using False assms pieces_concat [OF k, of "length data div nat n" data] k
    by (intro that [of "map (\<lambda>i. if i = nat n - 1 then drop (i * (length data div nat n)) data
        else take (length data div nat n) (drop (i * (length data div nat n)) data)) [0..<nat n]"])
      (auto simp: splitAndAppend_def Let_def)
qed

section \<open>Records on the wire\<close>

text \<open>The receiver's view: the payloads of a sequence of complete records.\<close>

function read_records :: "bytes \<Rightarrow> bytes list option" where
  "read_records b =
     (if b = [] then Some []
      else if length b < 5 \<or> length b < 5 + be16 (b ! 3) (b ! 4) then None
      else case read_records (drop (5 + be16 (b ! 3) (b ! 4)) b) of
             None \<Rightarrow> None
           | Some ps \<Rightarrow> Some (take (be16 (b ! 3) (b ! 4)) (drop 5 b) # ps))"
  by pat_completeness auto
termination
  by (relation "measure length") auto

declare read_records.simps [simp del]

lemma read_records_make:
  assumes "length h = 3" and "length p < 65536"
  shows "read_records (makeRecord h p @ rest) = map_option ((#) p) (read_records rest)"
proof -
  obtain x y z where h: "h = [x, y, z]" using assms(1) by (auto simp: numeral_3_eq_3 length_Suc_conv)
  have m: "makeRecord h p @ rest = x # y # z # of_nat (length p div 256) # of_nat (length p) # p @ rest"
    by (simp add: makeRecord_def h put_be16_def)
  have "be16 (of_nat (length p div 256)) (of_nat (length p)) = length p"
    using be16_put [OF assms(2)] by (simp add: put_be16_def)
  moreover have "drop (5 + length p) (x # y # z # of_nat (length p div 256) # of_nat (length p) # p @ rest) = rest"
  proof -
    have "drop (5 + n) (a # b # c # d # e # ys) = drop n ys" for n and a b c d e :: byte and ys
    proof -
      have "5 + n = Suc (Suc (Suc (Suc (Suc n))))" by simp
      then show ?thesis by (simp only: drop_Suc_Cons)
    qed
    then show ?thesis by simp
  qed
  ultimately show ?thesis
    unfolding m by (subst read_records.simps) (simp split: option.split)
qed

lemma read_records_all:
  assumes "length h = 3" and "\<forall>p \<in> set ps. length p < 65536"
  shows "read_records (concat (map (makeRecord h) ps)) = Some ps"
  using assms(2) by (induction ps) (simp_all add: read_records.simps [of "[]"] read_records_make [OF assms(1)])

section \<open>What is sent\<close>

lemma send_each_sends:
  "(\<And>j x. x \<in> set xs \<Longrightarrow> sends (f j x) (w j x)) \<Longrightarrow>
     sends (send_each f i xs) (concat (map (\<lambda>(j, x). w j x) (zip [i..<i + length xs] xs)))"
proof (induction xs arbitrary: i)
  case Nil
  then show ?case by (simp add: io_sends)
next
  case (Cons x xs)
  have "[i..<i + length (x # xs)] = i # [Suc i..<Suc i + length xs]"
    by (subst upt_conv_Cons) simp_all
  moreover have "sends (send_each f i (x # xs)) (w i x @ concat (map (\<lambda>(j, x). w j x) (zip [Suc i..<Suc i + length xs] xs)))"
    unfolding send_each.simps by (intro sends_seq Cons.IH Cons.prems) simp_all
  ultimately show ?case by (simp del: upt_Suc)
qed

text \<open>One send, in band or with an urgent byte behind it.\<close>

definition packet_wire :: "bool \<Rightarrow> bytes \<Rightarrow> wire list" where
  "packet_wire urgent b = [if urgent then Urgent b 0 else Data b, AckWait]"

lemma sends_if:
  "sends m ws \<Longrightarrow> sends m' ws' \<Longrightarrow> sends (if b then m else m') (if b then ws else ws')"
  by simp

lemma sends_packet:
  "sends (send_packet o' i b) (packet_wire (i = 0 \<and> soOob o') b)"
  "sends (send_segment o' i b) (packet_wire (i = 0 \<and> soOob o') b)"
proof -
  have "sends (send_packet o' i b) ((if i = 0 \<and> soOob o' then [Urgent b 0] else [Data b]) @ [AckWait])"
    "sends (send_segment o' i b) ((if i = 0 \<and> soOob o' then [Urgent b 0] else [Data b]) @ [AckWait])"
    unfolding send_packet_def send_segment_def by (intro io_sends sends_if)+
  then show "sends (send_packet o' i b) (packet_wire (i = 0 \<and> soOob o') b)"
    "sends (send_segment o' i b) (packet_wire (i = 0 \<and> soOob o') b)"
    by (auto simp: packet_wire_def split: if_splits)
qed

lemma received_plain:
  "\<forall>j \<in> set js. \<not> u j \<Longrightarrow> length js = length xs \<Longrightarrow>
    received (concat (map (\<lambda>(j, x). packet_wire (u j) x) (zip js xs))) = concat xs
    \<and> \<not> has_urgent (concat (map (\<lambda>(j, x). packet_wire (u j) x) (zip js xs)))"
  by (induction js xs rule: list_induct2') (auto simp: packet_wire_def)

lemma received_packets:
  "received (concat (map (\<lambda>(j, x). packet_wire (j = 0 \<and> oob) x) (zip [0..<length xs] xs))) = concat xs"
proof (cases xs)
  case (Cons x ys)
  have "[0..<length xs] = 0 # [1..<length xs]" using Cons by (subst upt_conv_Cons) simp_all
  then have "concat (map (\<lambda>(j, x). packet_wire (j = 0 \<and> oob) x) (zip [0..<length xs] xs)) =
      packet_wire oob x @ concat (map (\<lambda>(j, x). packet_wire (j = 0 \<and> oob) x) (zip [1..<length xs] ys))"
    by (simp add: Cons del: upt_Suc)
  moreover have "received (concat (map (\<lambda>(j, x). packet_wire (j = 0 \<and> oob) x) (zip [1..<length xs] ys))) = concat ys
    \<and> \<not> has_urgent (concat (map (\<lambda>(j, x). packet_wire (j = 0 \<and> oob) x) (zip [1..<length xs] ys)))"
    by (rule received_plain) (auto simp: Cons simp del: upt_Suc)
  ultimately show ?thesis using Cons by (cases oob) (simp_all add: packet_wire_def)
qed simp

lemma not_urgent_packets:
  "\<not> has_urgent (concat (map (\<lambda>(j, x). packet_wire (j = 0 \<and> False) x) (zip js xs)))"
  by (induction js xs rule: list_induct2') (auto simp: packet_wire_def)

lemma slice_parts:
  "c \<le> length b \<Longrightarrow> slice b 0 c = Some (take c b)"
  "c \<le> length b \<Longrightarrow> slice b c (length b) = Some (drop c b)"
  by (simp_all add: slice_Some)

lemma sends_send_one_record:
  assumes "1 \<le> segments" and "offset + len \<le> length b"
  obtains ws where "sends (send_one_record o' offset len segments b) ws" "received ws = b"
    "\<not> soOob o' \<longrightarrow> \<not> has_urgent ws"
proof (cases "segments = 1")
  case True
  then show thesis
    by (intro that [of "[Data b]"]) (simp_all add: send_one_record_def io_sends)
next
  case False
  obtain cut where cut: "findLastDotOrMidPos b offset len = Some cut" "cut \<le> length b"
    using findLastDotOrMidPos_ok [OF assms(2)] assms(2) by (metis order_trans)
  have n: "0 < segments div 2" "0 < segments - segments div 2" using assms(1) False by auto
  obtain ps where ps: "splitAndAppend (take cut b) None (segments div 2) [] = Some ([] @ ps)" "concat ps = take cut b"
    by (rule split_plain [OF n(1)])
  obtain qs where qs: "splitAndAppend (drop cut b) None (segments - segments div 2) ([] @ ps) = Some (([] @ ps) @ qs)"
    "concat qs = drop cut b"
    by (rule split_plain [OF n(2)])
  let ?ws = "concat (map (\<lambda>(j, x). packet_wire (j = 0 \<and> soOob o') x) (zip [0..<0 + length (ps @ qs)] (ps @ qs)))"
  have "sends (send_each (send_packet o') 0 (ps @ qs)) ?ws"
    by (rule send_each_sends) (rule sends_packet)
  moreover have "sgn segments * (\<bar>segments\<bar> div 2) = segments div 2" using assms(1) by simp
  ultimately have "sends (send_one_record o' offset len segments b) ?ws"
    using False assms(1) cut ps(1) qs(1) unfolding send_one_record_def Let_def
    by (simp add: lift_def make_cap_def slice_parts [OF cut(2)])
  moreover have "received ?ws = b" using received_packets [of "soOob o'" "ps @ qs"] ps(2) qs(2) by simp
  moreover have "\<not> soOob o' \<longrightarrow> \<not> has_urgent ?ws"
    using not_urgent_packets [of "[0..<length (ps @ qs)]" "ps @ qs"] by simp
  ultimately show thesis using that by blast
qed

definition oobex_wire :: "bytes \<Rightarrow> wire list" where
  "oobex_wire b = [Urgent (take 15 b) (b ! 15), Urgent (take 19 (drop 16 b)) 0, AckWait]"

lemma sends_oobex_head:
  assumes "35 \<le> length b" and "sends (k (drop 35 b)) ws"
  shows "sends (oobex_head o' b k) (oobex_wire b @ ws)"
proof -
  have "slice b 0 15 = Some (take 15 b)" "idx b 15 = Some (b ! 15)" "slice b 16 35 = Some (take 19 (drop 16 b))"
    "slice b 35 (length b) = Some (drop 35 b)"
    using assms(1) by (simp_all add: slice_Some idx_Some)
  then have "sends (oobex_head o' b k) ([Urgent (take 15 b) (b ! 15)] @ [Urgent (take 19 (drop 16 b)) 0] @ [AckWait] @ ws)"
    unfolding oobex_head_def by (simp only: lift_def option.case) (intro io_sends assms(2))
  then show ?thesis by (simp add: oobex_wire_def)
qed

text \<open>A later urgent byte leaves the zero of the second send in the stream.\<close>

lemma received_oobex_head:
  assumes "35 \<le> length b"
  shows "received (oobex_wire b @ ws) = take 35 b @ (if has_urgent ws then [0] else []) @ received ws"
proof -
  have "take 35 b = take (15 + 1 + 19) b" by simp
  also have "\<dots> = take 15 b @ take 1 (drop 15 b) @ take 19 (drop 16 b)"
    by (simp only: take_add drop_drop append_assoc) simp
  also have "take 1 (drop 15 b) = [b ! 15]" using assms(1) by (simp add: take_Suc_conv_app_nth)
  finally show ?thesis by (simp add: oobex_wire_def)
qed

lemma sends_send_merged:
  assumes "1 \<le> segments"
  obtains ws where "sends (send_merged o' segments b) ws" "received ws = b" "\<not> soOob o' \<longrightarrow> \<not> has_urgent ws"
proof (cases "segments = 1 \<or> int (length b) \<le> segments")
  case True
  then show thesis by (intro that [of "[Data b]"]) (auto simp: send_merged_def io_sends)
next
  case False
  let ?xs = "merged_segments segments b"
  let ?ws = "concat (map (\<lambda>(j, x). packet_wire (j = 0 \<and> soOob o') x) (zip [0..<0 + length ?xs] ?xs))"
  have "sends (send_merged o' segments b) ?ws"
    using False unfolding send_merged_def if_not_P [OF False] by (intro send_each_sends sends_packet)
  moreover have "concat ?xs = b"
    using assms pieces_concat [of "nat segments"] by (simp add: merged_segments_def Let_def)
  then have "received ?ws = b" using received_packets [of "soOob o'" ?xs] by simp
  moreover have "\<not> soOob o' \<longrightarrow> \<not> has_urgent ?ws"
    using not_urgent_packets [of "[0..<length ?xs]" ?xs] by simp
  ultimately show thesis using that by blast
qed

text \<open>The records sent one by one.\<close>

definition chunk_wire :: "send_opts \<Rightarrow> nat \<Rightarrow> bytes \<Rightarrow> wire list" where
  "chunk_wire o' i x =
     (if i = 0 then
        (if soOob o' then [Urgent x 0]
         else if soOobex o' then [Urgent (butlast x) (last x)] else [Data x])
      else if i = 1 \<and> soOobex o' then [Urgent x 0] else [Data x]) @ [AckWait]"

lemma sends_chunk:
  assumes "x \<noteq> []" shows "sends (send_chunk o' i x) (chunk_wire o' i x)"
proof -
  have "slice x 0 (length x - 1) = Some (butlast x)" "idx x (length x - 1) = Some (last x)"
    using assms by (simp_all add: slice_Some idx_Some butlast_conv_take last_conv_nth)
  then show ?thesis
    unfolding send_chunk_def chunk_wire_def
    by (simp only: lift_def option.case) (intro sends_seq sends_if io_sends)
qed

lemma received_rest:
  assumes "\<forall>j \<in> set js. 2 \<le> j" and "length js = length xs"
  shows "received (concat (map (\<lambda>(j, x). chunk_wire o' j x) (zip js xs))) = concat xs
    \<and> \<not> has_urgent (concat (map (\<lambda>(j, x). chunk_wire o' j x) (zip js xs)))"
  using assms by (induction js xs rule: list_induct2') (auto simp: chunk_wire_def)

lemma received_chunks:
  assumes "x \<noteq> []"
  shows "received (concat (map (\<lambda>(j, x). chunk_wire o' j x) (zip [0..<length (x # y # zs)] (x # y # zs)))) =
    x @ (if soOob o' \<and> soOobex o' then [0] else []) @ y @ concat zs"
proof -
  have "[0..<length (x # y # zs)] = 0 # 1 # [2..<length (x # y # zs)]"
    by (simp add: upt_conv_Cons numeral_2_eq_2 del: upt_Suc)
  then have "concat (map (\<lambda>(j, x). chunk_wire o' j x) (zip [0..<length (x # y # zs)] (x # y # zs))) =
      chunk_wire o' 0 x @ chunk_wire o' 1 y @
      concat (map (\<lambda>(j, x). chunk_wire o' j x) (zip [2..<length (x # y # zs)] zs))"
    by (simp del: upt_Suc)
  moreover have "received (concat (map (\<lambda>(j, x). chunk_wire o' j x) (zip [2..<length (x # y # zs)] zs))) = concat zs
    \<and> \<not> has_urgent (concat (map (\<lambda>(j, x). chunk_wire o' j x) (zip [2..<length (x # y # zs)] zs)))"
    by (rule received_rest) (auto simp del: upt_Suc)
  moreover have "butlast x @ last x # t = x @ t" for t
    using append_butlast_last_id [OF assms(1)] by (metis append_Cons append_Nil append_assoc)
  ultimately show ?thesis
    by (cases "soOob o'"; cases "soOobex o'") (simp_all add: chunk_wire_def)
qed

text \<open>
  With both kinds of urgent data the second urgent byte takes the place of the first, which then
  stays in the stream: the server reads a zero between the first two records.
\<close>

lemma oob_and_oobex:
  assumes "soOob o'" and "soOobex o'"
  shows "received (chunk_wire o' 0 x @ chunk_wire o' 1 y) = x @ 0 # y"
  using assms by (simp add: chunk_wire_def)

section \<open>The replaced version\<close>

definition with_minor :: "byte option \<Rightarrow> bytes \<Rightarrow> bytes" where
  "with_minor v b = (case v of None \<Rightarrow> b | Some m \<Rightarrow> b[2 := m])"

lemma with_minor_length [simp]: "length (with_minor v b) = length b"
  by (simp add: with_minor_def split: option.split)

lemma sendRecords_minor:
  assumes "3 \<le> length b"
  shows "sendRecords b offset len records segments v o' =
    sendRecords (with_minor v b) offset len records segments None o'"
  using assms by (cases v) (simp_all add: sendRecords_def with_minor_def lift_def)

text \<open>
  The stream \<open>s\<close> as it is read: unchanged, or, when \<^verbatim>\<open>oob\<close> and \<^verbatim>\<open>oob_ex\<close> are combined, perhaps with a zero
  put into it, an urgent byte that a later one has replaced.
\<close>

definition read_as :: "send_opts \<Rightarrow> bytes \<Rightarrow> bytes \<Rightarrow> bool" where
  "read_as o' s x \<longleftrightarrow> x = s \<or> soOob o' \<and> soOobex o' \<and> (\<exists>j \<le> length s. x = take j s @ 0 # drop j s)"

lemma read_as_refl [simp]: "read_as o' s s"
  by (simp add: read_as_def)

lemma read_as_oobex:
  assumes "35 \<le> length s" and "received ws = drop 35 s" and "\<not> soOob o' \<longrightarrow> \<not> has_urgent ws" and "soOobex o'"
  shows "read_as o' s (received (oobex_wire s @ ws))"
  using assms by (auto simp: read_as_def received_oobex_head intro: exI [of _ 35])

text \<open>A computation that never succeeds, and panics when no call fails.\<close>

definition doomed :: "unit io \<Rightarrow> bool" where
  "doomed m \<longleftrightarrow> (\<forall>c. (\<forall>r c'. m c = Some (r, c') \<longrightarrow> isl r) \<and> (faults c = [] \<longrightarrow> m c = None))"

lemma doomed_panic [simp]: "doomed panic"
  by (simp add: doomed_def panic_def)

lemma doomed_seq: "sends m ws \<Longrightarrow> doomed (k ()) \<Longrightarrow> doomed (seq m k)"
  unfolding doomed_def
proof (intro allI conjI impI)
  fix c
  assume m: "sends m ws" and k: "\<forall>c. (\<forall>r c'. k () c = Some (r, c') \<longrightarrow> isl r) \<and> (faults c = [] \<longrightarrow> k () c = None)"
  obtain r c1 ws' where 1: "m c = Some (r, c1)" "faults c = [] \<longrightarrow> r = Inr () \<and> faults c1 = []"
    by (rule sendsE [OF m]) blast
  show "isl r'" if "seq m k c = Some (r', c')" for r' c'
    using that 1(1) k by (cases r) (auto simp: seq_def)
  show "seq m k c = None" if "faults c = []"
    using that 1 k by (simp add: seq_def)
qed

lemma sends_not_doomed: "sends m ws \<Longrightarrow> \<not> doomed m"
  unfolding doomed_def by (elim sendsE [of _ _ "\<lparr>sent = [], faults = []\<rparr>"]) (metis option.distinct(1) conn.select_convs(2))

section \<open>One record\<close>

lemma sendRecords_one_ok:
  assumes "records = 0 \<or> records = 1" and "0 \<le> segments"
    and "offset + len \<le> length b" and "35 \<le> offset"
  obtains ws where "sends (sendRecords b offset len records segments None o') ws" "read_as o' b (received ws)"
proof -
  let ?s = "if segments = 0 then 1 else segments"
  have s: "1 \<le> ?s" using assms(2) by auto
  have r: "(if records = 0 then 1 else records) = 1" using assms(1) by auto
  show thesis
  proof (cases "soOobex o'")
    case False
    obtain ws where ws: "sends (send_one_record o' offset len ?s b) ws" "received ws = b"
      by (rule sends_send_one_record [OF s assms(3)])
    then show thesis
      using False by (intro that [of ws]) (simp_all add: sendRecords_def lift_def r Let_def del: split_paired_All)
  next
    case True
    have b35: "35 \<le> length b" and "offset - 35 + len \<le> length (drop 35 b)" using assms(3,4) by simp_all
    then obtain ws where ws: "sends (send_one_record o' (offset - 35) len ?s (drop 35 b)) ws"
      "received ws = drop 35 b" "\<not> soOob o' \<longrightarrow> \<not> has_urgent ws"
      using sends_send_one_record [OF s] by metis
    let ?k = "\<lambda>rest. if ?s \<noteq> 1 \<and> offset < 35 then panic else send_one_record o' (offset - 35) len ?s rest"
    have k: "sends (?k (drop 35 b)) ws" using ws(1) assms(4) by auto
    have eq: "sendRecords b offset len records segments None o' = oobex_head o' b ?k"
      using True by (simp only: sendRecords_def lift_def r Let_def option.case if_True refl)
    show thesis
      by (rule that [of "oobex_wire b @ ws"])
        (simp_all add: eq sends_oobex_head [of b ?k, OF b35 k] read_as_oobex [OF b35 ws(2,3) True])
  qed
qed

lemma doomed_oobex_head:
  assumes "35 \<le> length b" and "doomed (k (drop 35 b))"
  shows "doomed (oobex_head o' b k)"
proof -
  have "slice b 0 15 = Some (take 15 b)" "idx b 15 = Some (b ! 15)" "slice b 16 35 = Some (take 19 (drop 16 b))"
    "slice b 35 (length b) = Some (drop 35 b)"
    using assms(1) by (simp_all add: slice_Some idx_Some)
  then show ?thesis
    unfolding oobex_head_def using assms(2)
    by (simp only: lift_def option.case)
      (intro doomed_seq [OF sends_labelled [OF sends_send_with_oob]] doomed_seq [OF sends_wait_for_ack])
qed

text \<open>
  A negative \<^verbatim>\<open>num_segs\<close> or \<^verbatim>\<open>num_records\<close>, which the configuration accepts, is a negative capacity
  for \<^verbatim>\<open>make\<close>.
\<close>

lemma sendRecords_doomed:
  assumes "records < 0 \<or> records \<le> 1 \<and> segments < 0" and "35 \<le> length b"
  shows "doomed (sendRecords b offset len records segments None o')"
proof (cases "records < 0")
  case True
  then have "sendRecords b offset len records segments None o' = panic"
    by (simp add: sendRecords_def lift_def Let_def make_cap_def)
  then show ?thesis by simp
next
  case False
  then have r: "(if records = 0 then 1 else records) = 1" "segments < 0" using assms(1) by auto
  have one: "send_one_record o' off len segments x = panic" for off x
    using r(2) by (simp add: send_one_record_def make_cap_def lift_def Let_def)
  show ?thesis
  proof (cases "soOobex o'")
    case True
    have "sendRecords b offset len records segments None o' = oobex_head o' b (\<lambda>_. panic)"
      using True r by (simp add: sendRecords_def lift_def Let_def one cong: if_cong)
    then show ?thesis using doomed_oobex_head [OF assms(2), of "\<lambda>_. panic"] by simp
  next
    case False
    then show ?thesis using r by (simp add: sendRecords_def lift_def Let_def one)
  qed
qed

section \<open>Several records\<close>

lemma sendRecords_many_ok:
  assumes "2 \<le> records" and "offset + len \<le> length b" and "35 \<le> offset"
  obtains ws ps where "sends (sendRecords b offset len records segments None o') ws" "concat ps = drop 5 b" "2 \<le> length ps"
    "if segments < -1 then received ws = (if soOobex o' then take 35 (concat (map (makeRecord (take 3 b)) ps)) else [])
     else read_as o' (concat (map (makeRecord (take 3 b)) ps)) (received ws)"
proof -
  let ?s = "if segments = 0 then 1 else segments" and ?h = "take 3 b"
  obtain c where c: "findLastDotOrMidPos b offset len = Some c" "offset \<le> c" "c \<le> length b"
    using findLastDotOrMidPos_ok [OF assms(2)] assms(2) by (metis order_trans)
  have n: "0 < records div 2" "0 < records - records div 2" using assms(1) by auto
  obtain ps where ps: "splitAndAppend (take (c - 5) (drop 5 b)) (Some ?h) (records div 2) [] =
      Some ([] @ map (makeRecord ?h) ps)" "ps \<noteq> []" "concat ps = take (c - 5) (drop 5 b)"
    by (rule split_records [OF n(1)])
  obtain qs where qs: "splitAndAppend (drop c b) (Some ?h) (records - records div 2) ([] @ map (makeRecord ?h) ps) =
      Some (([] @ map (makeRecord ?h) ps) @ map (makeRecord ?h) qs)" "qs \<noteq> []" "concat qs = drop c b"
    by (rule split_records [OF n(2)])
  have cat: "concat (ps @ qs) = drop 5 b"
  proof -
    have "drop c b = drop (c - 5) (drop 5 b)" using c assms(3) by simp
    then show ?thesis using ps(3) qs(3) by (simp only: concat_append append_take_drop_id)
  qed
  have two: "2 \<le> length (ps @ qs)" using ps(2) qs(2) by (cases ps; cases qs) auto
  let ?cs = "map (makeRecord ?h) (ps @ qs)"
  have slices: "slice b 0 3 = Some ?h" "slice b 5 c = Some (take (c - 5) (drop 5 b))" "slice b c (length b) = Some (drop c b)"
    using c assms(3) by (simp_all add: slice_Some)
  have cond: "records \<noteq> 0" "records \<noteq> 1" "make_cap records = Some ()" "sgn records * (\<bar>records\<bar> div 2) = records div 2"
    using assms(1) by (simp_all add: make_cap_def)
  have eq: "sendRecords b offset len records segments None o' =
      (if ?s = -1 then send_each (send_chunk o') 0 ?cs
       else if soOobex o' then oobex_head o' (concat ?cs) (send_merged o' ?s)
       else send_merged o' ?s (concat ?cs))"
    using ps(1) qs(1) by (simp add: sendRecords_def lift_def Let_def cond slices c(1))
  have "length (concat (map (makeRecord h) xs)) = 5 * length xs + length (concat xs)" if "length h = 3" for h xs
    using that by (induction xs) (simp_all add: makeRecord_def)
  moreover have "length ?h = 3" using assms(2,3) by simp
  moreover have "length (concat (ps @ qs)) = length b - 5" using cat by simp
  ultimately have long: "35 \<le> length (concat ?cs)" using two assms(2,3) by simp
  consider (chunks) "?s = -1" | (none) "segments < -1" | (pieces) "1 \<le> ?s" by (cases "segments = 0") (simp_all, linarith)
  then show thesis
  proof cases
    case chunks
    then have seg: "segments = -1" by (simp split: if_splits)
    obtain x y zs where xyz: "?cs = x # y # zs"
    proof (atomize_elim)
      have "Suc (Suc 0) \<le> length ?cs" using two by simp
      then show "\<exists>x y zs. ?cs = x # y # zs" unfolding Suc_le_length_iff by auto
    qed
    let ?ws = "concat (map (\<lambda>(j, x). chunk_wire o' j x) (zip [0..<0 + length ?cs] ?cs))"
    have ne: "x \<noteq> []" if "x \<in> set ?cs" for x using that by (auto simp: makeRecord_def put_be16_def)
    have "sends (send_each (send_chunk o') 0 ?cs) ?ws"
      by (rule send_each_sends) (rule sends_chunk, rule ne)
    moreover have "received ?ws = x @ (if soOob o' \<and> soOobex o' then [0] else []) @ y @ concat zs"
      using received_chunks [of x o' y zs] ne [of x] unfolding xyz by simp
    then have "read_as o' (concat ?cs) (received ?ws)"
      unfolding xyz by (auto simp: read_as_def intro: exI [of _ "length x"])
    ultimately show thesis using that [OF _ cat two, of ?ws] eq chunks seg by simp
  next
    case none
    then have m: "send_merged o' segments x = ret ()" "send_merged o' ?s x = ret ()" for x
      by (simp_all add: send_merged_def merged_segments_def)
    have "sends (oobex_head o' (concat ?cs) (send_merged o' ?s)) (oobex_wire (concat ?cs) @ [])"
      by (rule sends_oobex_head [OF long]) (simp add: m io_sends)
    moreover have "received (oobex_wire (concat ?cs) @ []) = take 35 (concat ?cs)" unfolding received_oobex_head [OF long] by simp
    ultimately show thesis
      using that [OF _ cat two, of "if soOobex o' then oobex_wire (concat ?cs) @ [] else []"] eq none
      by (simp add: m io_sends split: if_splits)
  next
    case pieces
    show thesis
    proof (cases "soOobex o'")
      case False
      obtain ws where "sends (send_merged o' ?s (concat ?cs)) ws" "received ws = concat ?cs"
        by (rule sends_send_merged [OF pieces])
      then show thesis using that [OF _ cat two, of ws] eq False pieces by (auto split: if_splits)
    next
      case True
      obtain ws where ws: "sends (send_merged o' ?s (drop 35 (concat ?cs))) ws"
        "received ws = drop 35 (concat ?cs)" "\<not> soOob o' \<longrightarrow> \<not> has_urgent ws"
        by (rule sends_send_merged [OF pieces])
      have "sends (oobex_head o' (concat ?cs) (send_merged o' ?s)) (oobex_wire (concat ?cs) @ ws)"
        by (rule sends_oobex_head [OF long]) (rule ws(1))
      with read_as_oobex [OF long ws(2,3) True] show thesis
        using that [OF _ cat two, of "oobex_wire (concat ?cs) @ ws"] eq True pieces by (auto split: if_splits)
    qed
  qed
qed

section \<open>Properties\<close>

lemma sendRecords_one:
  assumes "records \<le> 1" and "offset + len \<le> length b" and "35 \<le> offset"
  shows "if 0 \<le> records \<and> 0 \<le> segments
    then \<exists>ws. sends (sendRecords b offset len records segments v o') ws \<and> read_as o' (with_minor v b) (received ws)
    else doomed (sendRecords b offset len records segments v o')"
proof -
  have l: "offset + len \<le> length (with_minor v b)" "3 \<le> length b" "35 \<le> length (with_minor v b)" using assms(2,3) by simp_all
  note minor = sendRecords_minor [OF l(2), of offset len records segments v o']
  show ?thesis
  proof (cases "0 \<le> records \<and> 0 \<le> segments")
    case True
    then have r: "records = 0 \<or> records = 1" "0 \<le> segments" using assms(1) by auto
    show ?thesis using True sendRecords_one_ok [OF r l(1) assms(3)] unfolding minor by metis
  next
    case False
    then have "records < 0 \<or> records \<le> 1 \<and> segments < 0" using assms(1) by auto
    from sendRecords_doomed [OF this l(3)] show ?thesis unfolding minor if_not_P [OF False] .
  qed
qed

text \<open>
  C6. At most one record asked for, counts as the configuration accepts them. When none is
  negative, then whatever the number of segments and the urgent bytes in between, what the peer reads in
  band is the ClientHello, its minor version replaced when one is configured; only when \<^verbatim>\<open>oob\<close> and \<^verbatim>\<open>oob_ex\<close> are
  combined may a zero byte be put into it. When a call fails, what was sent is a prefix of that and the
  error is returned. When a count is negative, the call never succeeds, and panics unless an error comes first.
\<close>

theorem fragment_one_record:
  assumes "records \<le> 1" and "offset + len \<le> length b" and "35 \<le> offset"
  shows "if 0 \<le> records \<and> 0 \<le> segments
    then \<exists>ws. sends (sendRecords b offset len records segments v o') ws \<and>
      (received ws = with_minor v b \<or> soOob o' \<and> soOobex o' \<and>
        (\<exists>j \<le> length b. received ws = take j (with_minor v b) @ 0 # drop j (with_minor v b)))
    else \<forall>c. (\<forall>r c'. sendRecords b offset len records segments v o' c = Some (r, c') \<longrightarrow> isl r) \<and>
      (faults c = [] \<longrightarrow> sendRecords b offset len records segments v o' c = None)"
  using sendRecords_one [OF assms, of segments v o'] by (simp only: read_as_def doomed_def with_minor_length)

theorem fragment_one_record_witness:
  "(\<exists>ws. sends (sendRecords (replicate 70 7) 58 5 1 3 (Some 4) \<lparr>soOob = True, soOobex = False, soWaitForAck = True\<rparr>) ws
     \<and> received ws = with_minor (Some 4) (replicate 70 7)) \<and>
   sendRecords (replicate 70 7) 58 5 1 (-1) None \<lparr>soOob = False, soOobex = True, soWaitForAck = False\<rparr> \<lparr>sent = [], faults = []\<rparr> = None"
  using fragment_one_record [of 1 58 5 "replicate 70 7" 3 "Some 4" "\<lparr>soOob = True, soOobex = False, soWaitForAck = True\<rparr>"]
    fragment_one_record [of 1 58 5 "replicate 70 7" "-1" None "\<lparr>soOob = False, soOobex = True, soWaitForAck = False\<rparr>"]
  by simp

lemma sendRecords_many:
  assumes "2 \<le> records" and "offset + len \<le> length b" and "35 \<le> offset" and "length b \<le> 65540"
  shows "\<exists>ws ps s. sends (sendRecords b offset len records segments v o') ws \<and> 2 \<le> length ps \<and> concat ps = drop 5 b \<and>
    s = concat (map (makeRecord (take 3 (with_minor v b))) ps) \<and> read_records s = Some ps \<and>
    (if segments < -1 then received ws = (if soOobex o' then take 35 s else []) else read_as o' s (received ws))"
proof -
  have l: "offset + len \<le> length (with_minor v b)" "3 \<le> length b" using assms(2,3) by simp_all
  obtain ws ps where ws: "sends (sendRecords (with_minor v b) offset len records segments None o') ws"
    "concat ps = drop 5 (with_minor v b)" "2 \<le> length ps"
    "if segments < -1 then received ws = (if soOobex o' then take 35 (concat (map (makeRecord (take 3 (with_minor v b))) ps)) else [])
     else read_as o' (concat (map (makeRecord (take 3 (with_minor v b))) ps)) (received ws)"
    by (rule sendRecords_many_ok [OF assms(1) l(1) assms(3)])
  have d: "drop 5 (with_minor v b) = drop 5 b" by (simp add: with_minor_def split: option.split)
  have "\<forall>p \<in> set ps. length p < 65536"
  proof
    fix p assume "p \<in> set ps"
    then have "length p \<le> length (concat ps)" by (induction ps) auto
    then show "length p < 65536" using ws(2) d assms(4) by simp
  qed
  moreover have "length (take 3 (with_minor v b)) = 3" using l(2) by simp
  ultimately have "read_records (concat (map (makeRecord (take 3 (with_minor v b))) ps)) = Some ps" by (intro read_records_all)
  then show ?thesis
    using ws d sendRecords_minor [OF l(2), of offset len records segments v o'] by metis
qed

text \<open>
  C5. With two or more records asked for, sent record by record, merged, or in any number of segments, the
  bytes that are put together are complete TLS records under the ClientHello's own type and version, or the
  minor version that is configured, whose payloads put together are the payload of the original record. With
  a number of segments of -1 or more the peer reads these bytes, only that a zero byte may be put
  into them when \<^verbatim>\<open>oob\<close> and \<^verbatim>\<open>oob_ex\<close> are combined. With a number below -1 it reads nothing, or the
  35 bytes that \<^verbatim>\<open>oob_ex\<close> sends first, although the call succeeds. The record is one that a
  length of 16 bits describes.
\<close>

theorem fragment_records:
  assumes "2 \<le> records" and "offset + len \<le> length b" and "35 \<le> offset" and "length b \<le> 65540"
  shows "\<exists>ws ps s. sends (sendRecords b offset len records segments v o') ws \<and> 2 \<le> length ps \<and> concat ps = drop 5 b \<and>
    s = concat (map (makeRecord (take 3 (with_minor v b))) ps) \<and> read_records s = Some ps \<and>
    (if segments < -1 then received ws = (if soOobex o' then take 35 s else [])
     else received ws = s \<or> soOob o' \<and> soOobex o' \<and> (\<exists>j \<le> length s. received ws = take j s @ 0 # drop j s))"
  using sendRecords_many [OF assms, of segments v o'] by (simp only: read_as_def)

theorem fragment_records_witness:
  "(\<exists>ws ps. sends (sendRecords (replicate 70 7) 58 5 4 (-1) None \<lparr>soOob = False, soOobex = True, soWaitForAck = False\<rparr>) ws
     \<and> 2 \<le> length ps \<and> received ws = concat (map (makeRecord (take 3 (with_minor None (replicate 70 7)))) ps)
     \<and> read_records (received ws) = Some ps \<and> concat ps = drop 5 (replicate 70 7)) \<and>
   (\<exists>ws. sends (sendRecords (replicate 70 7) 58 5 2 (-2) None \<lparr>soOob = False, soOobex = False, soWaitForAck = False\<rparr>) ws \<and> received ws = [])"
  using fragment_records [of 4 58 5 "replicate 70 7" "-1" None "\<lparr>soOob = False, soOobex = True, soWaitForAck = False\<rparr>"]
    fragment_records [of 2 58 5 "replicate 70 7" "-2" None "\<lparr>soOob = False, soOobex = False, soWaitForAck = False\<rparr>"]
  by auto

text \<open>
  C0. A negative \<^verbatim>\<open>num_segs\<close>, which the configuration accepts, makes the single-record
  branch panic: the capacity given to \<^verbatim>\<open>make\<close> is negative.
\<close>

theorem fragment_negative_segments_panic:
  assumes "records = 0 \<or> records = 1" and "segments < 0" and "3 \<le> length b" and "\<not> soOobex o'"
  shows "sendRecords b offset len records segments v o' c = None"
proof -
  have r: "(if records = 0 then 1 else records) = 1" using assms(1) by auto
  have "sendRecords (with_minor v b) offset len records segments None o' c = None"
    using assms(2,4) by (simp add: sendRecords_def lift_def r send_one_record_def make_cap_def panic_def)
  then show ?thesis using sendRecords_minor [OF assms(3)] by simp
qed

theorem fragment_negative_segments_panic_witness:
  "sendRecords [22, 3, 1] 0 3 1 (-1) None \<lparr>soOob = False, soOobex = False, soWaitForAck = False\<rparr>
     \<lparr>sent = [], faults = []\<rparr> = None"
  by (rule fragment_negative_segments_panic) simp_all

text \<open>
  C0. With two or more records a \<^verbatim>\<open>num_segs\<close> below \<open>-1\<close> sends nothing at all, and the call
  still reports success.
\<close>

theorem fragment_negative_segments_silent:
  assumes "2 \<le> records" and "segments < -1"
    and "offset + len \<le> length b" and "5 \<le> offset" and "\<not> soOobex o'"
  shows "sendRecords b offset len records segments v o' c = Some (Inr (), c)"
proof -
  let ?b = "with_minor v b" and ?h = "take 3 (with_minor v b)"
  have l: "offset + len \<le> length ?b" "3 \<le> length b" using assms(3,4) by simp_all
  obtain c' where c': "findLastDotOrMidPos ?b offset len = Some c'" "offset \<le> c'" "c' \<le> length ?b"
    using findLastDotOrMidPos_ok [OF l(1)] l(1) by (metis order_trans)
  have n: "0 < records div 2" "0 < records - records div 2" using assms(1) by auto
  obtain ps where ps: "splitAndAppend (take (c' - 5) (drop 5 ?b)) (Some ?h) (records div 2) [] = Some ([] @ map (makeRecord ?h) ps)"
    by (rule split_records [OF n(1)])
  obtain qs where qs: "splitAndAppend (drop c' ?b) (Some ?h) (records - records div 2) ([] @ map (makeRecord ?h) ps) =
      Some (([] @ map (makeRecord ?h) ps) @ map (makeRecord ?h) qs)"
    by (rule split_records [OF n(2)])
  have slices: "slice ?b 0 3 = Some ?h" "slice ?b 5 c' = Some (take (c' - 5) (drop 5 ?b))"
    "slice ?b c' (length ?b) = Some (drop c' ?b)"
    using c' assms(4) l by (simp_all add: slice_Some)
  have cond: "records \<noteq> 0" "records \<noteq> 1" "make_cap records = Some ()" "sgn records * (\<bar>records\<bar> div 2) = records div 2"
    using assms(1) by (simp_all add: make_cap_def)
  have eq: "sendRecords ?b offset len records segments None o' = send_merged o' segments (concat (map (makeRecord ?h) (ps @ qs)))"
    using ps qs slices assms(2,5) by (simp add: sendRecords_def lift_def Let_def cond c'(1))
  have "sendRecords ?b offset len records segments None o' c = Some (Inr (), c)"
    unfolding eq using assms(2) by (simp add: send_merged_def merged_segments_def ret_def)
  then show ?thesis using sendRecords_minor [OF l(2)] by simp
qed

theorem fragment_negative_segments_silent_witness:
  "sendRecords (replicate 70 7) 58 5 2 (-2) None \<lparr>soOob = False, soOobex = False, soWaitForAck = False\<rparr>
     \<lparr>sent = [], faults = []\<rparr> = Some (Inr (), \<lparr>sent = [], faults = []\<rparr>)"
  by (rule fragment_negative_segments_silent) simp_all

end
