(* ===== verification/Netip.thy ===== *)
theory Netip
  imports Errors_Format
begin

text \<open>
  What the program uses of \<^verbatim>\<open>net/netip\<close>: addresses, prefixes, their text and its parsing.
  An address is its four or sixteen bytes, with the zone of an IPv6 address. A valid
  \<^verbatim>\<open>netip.Addr\<close> is meant; the zero value does not occur where the model uses the type.
\<close>

section \<open>Addresses\<close>

datatype addr = IP4 bytes | IP6 bytes string

definition wf_addr :: "addr \<Rightarrow> bool" where
  "wf_addr a = (case a of IP4 b \<Rightarrow> length b = 4 | IP6 b z \<Rightarrow> length b = 16)"

definition is4 :: "addr \<Rightarrow> bool" where
  "is4 a = (case a of IP4 _ \<Rightarrow> True | IP6 _ _ \<Rightarrow> False)"

definition v4_in_6_head :: bytes where
  "v4_in_6_head = replicate 10 0 @ [255, 255]"

definition is4in6 :: "addr \<Rightarrow> bool" where
  "is4in6 a = (case a of IP4 _ \<Rightarrow> False | IP6 b _ \<Rightarrow> take 12 b = v4_in_6_head)"

definition unmap :: "addr \<Rightarrow> addr" where
  "unmap a = (case a of IP4 b \<Rightarrow> a | IP6 b _ \<Rightarrow> if is4in6 a then IP4 (drop 12 b) else a)"

text \<open>\<^verbatim>\<open>As4\<close> panics on an address that is neither IPv4 nor IPv4 in IPv6.\<close>

definition as4 :: "addr \<Rightarrow> bytes option" where
  "as4 a = (case unmap a of IP4 b \<Rightarrow> Some b | IP6 _ _ \<Rightarrow> None)"

definition as16 :: "addr \<Rightarrow> bytes" where
  "as16 a = (case a of IP4 b \<Rightarrow> v4_in_6_head @ b | IP6 b _ \<Rightarrow> b)"

lemma wf_unmap [simp]: "wf_addr a \<Longrightarrow> wf_addr (unmap a)"
  by (cases a) (auto simp: wf_addr_def unmap_def)

lemma as4_length: "wf_addr a \<Longrightarrow> as4 a = Some b \<Longrightarrow> length b = 4"
  using wf_unmap [of a] by (auto simp: as4_def wf_addr_def split: addr.splits)

lemma as16_length: "wf_addr a \<Longrightarrow> length (as16 a) = 16"
  by (cases a) (simp_all add: wf_addr_def as16_def v4_in_6_head_def)

section \<open>Parsing\<close>

text \<open>One decimal field: digits, no superfluous zero, at most 255.\<close>

definition parse_octet :: "string \<Rightarrow> byte option" where
  "parse_octet s =
     (if s \<noteq> [] \<and> list_all is_digit s \<and> (hd s = CHR ''0'' \<longrightarrow> length s = 1) \<and> read_digits s \<le> 255
      then Some (of_nat (read_digits s)) else None)"

fun parse_octets :: "string list \<Rightarrow> bytes option" where
  "parse_octets [] = Some []"
| "parse_octets (s # ss) =
     (case parse_octet s of None \<Rightarrow> None
      | Some b \<Rightarrow> (case parse_octets ss of None \<Rightarrow> None | Some bs \<Rightarrow> Some (b # bs)))"

definition parse_ipv4 :: "string \<Rightarrow> bytes option" where
  "parse_ipv4 s = (let fs = split_on CHR ''.'' s in if length fs = 4 then parse_octets fs else None)"

definition hex_val :: "char \<Rightarrow> nat option" where
  "hex_val c =
     (let n = of_char c :: nat in
      if 48 \<le> n \<and> n \<le> 57 then Some (n - 48)
      else if 97 \<le> n \<and> n \<le> 102 then Some (n - 87)
      else if 65 \<le> n \<and> n \<le> 70 then Some (n - 55) else None)"

text \<open>The hexadecimal digits at the start of a text: how many, and their value.\<close>

fun read_hex :: "string \<Rightarrow> nat \<Rightarrow> nat \<times> nat" where
  "read_hex [] acc = (0, acc)"
| "read_hex (c # s) acc =
     (case hex_val c of None \<Rightarrow> (0, acc)
      | Some d \<Rightarrow> (case read_hex s (16 * acc + d) of (n, v) \<Rightarrow> (Suc n, v)))"

text \<open>
  The loop of \<^verbatim>\<open>parseIPv6\<close>: the bytes so far, the place of the ellipsis, the rest of the
  text. It ends with the bytes, the ellipsis and what was not read.
\<close>

function ipv6_loop :: "bytes \<Rightarrow> nat option \<Rightarrow> string \<Rightarrow> (bytes \<times> nat option \<times> string) option" where
  "ipv6_loop ip ell s =
     (if 16 \<le> length ip then Some (ip, ell, s)
      else
        let (off, acc) = read_hex s 0; rest = drop off s in
        if off = 0 \<or> 4 < off then None
        else if rest \<noteq> [] \<and> hd rest = CHR ''.'' then
          (if ell = None \<and> length ip \<noteq> 12 \<or> 16 < length ip + 4 then None
           else map_option (\<lambda>b. (ip @ b, ell, [])) (parse_ipv4 s))
        else
          let ip = ip @ put_be16 acc in
          if rest = [] then Some (ip, ell, [])
          else if hd rest \<noteq> CHR '':'' \<or> length rest = 1 then None
          else
            let s = tl rest in
            if hd s = CHR '':'' then
              (if ell \<noteq> None then None
               else if tl s = [] then Some (ip, Some (length ip), [])
               else ipv6_loop ip (Some (length ip)) (tl s))
            else ipv6_loop ip ell s)"
  by pat_completeness auto
termination
  by (relation "measure (\<lambda>(ip, _). 16 - length ip)") auto

declare ipv6_loop.simps [simp del]

definition parse_ipv6 :: "string \<Rightarrow> addr option" where
  "parse_ipv6 s0 =
     (let (s, zone) = (case index_byte CHR ''%'' s0 of None \<Rightarrow> (s0, []) | Some i \<Rightarrow> (take i s0, drop (Suc i) s0)) in
      if CHR ''%'' \<in> set s0 \<and> zone = [] then None
      else
        let lead = has_prefix s ''::''; s = (if lead then drop 2 s else s) in
        if lead \<and> s = [] then Some (IP6 (replicate 16 0) zone)
        else
          (case ipv6_loop [] (if lead then Some 0 else None) s of
             None \<Rightarrow> None
           | Some (ip, ell, rest) \<Rightarrow>
               if rest \<noteq> [] then None
               else if length ip < 16 then
                 (case ell of None \<Rightarrow> None
                  | Some e \<Rightarrow> Some (IP6 (take e ip @ replicate (16 - length ip) 0 @ drop e ip) zone))
               else if ell \<noteq> None then None
               else Some (IP6 ip zone)))"

text \<open>\<^verbatim>\<open>ParseAddr\<close>: the first of the bytes \<^verbatim>\<open>.\<close>, \<^verbatim>\<open>:\<close>, \<^verbatim>\<open>%\<close> decides the family.\<close>

fun parse_family :: "string \<Rightarrow> char option" where
  "parse_family [] = None"
| "parse_family (c # s) = (if c = CHR ''.'' \<or> c = CHR '':'' \<or> c = CHR ''%'' then Some c else parse_family s)"

definition parse_addr :: "string \<Rightarrow> addr option" where
  "parse_addr s =
     (case parse_family s of
        None \<Rightarrow> None
      | Some c \<Rightarrow>
          if c = CHR ''.'' then map_option IP4 (parse_ipv4 s)
          else if c = CHR '':'' then parse_ipv6 s else None)"

text \<open>\<^verbatim>\<open>ParseAddrPort\<close>: brackets around an IPv6 address, none around an IPv4 one.\<close>

definition parse_port :: "string \<Rightarrow> nat option" where
  "parse_port s = (if s \<noteq> [] \<and> list_all is_digit s \<and> read_digits s < 65536 then Some (read_digits s) else None)"

definition parse_addr_port :: "string \<Rightarrow> (addr \<times> nat) option" where
  "parse_addr_port s =
     (case last_index_byte CHR '':'' s of
        None \<Rightarrow> None
      | Some i \<Rightarrow>
          let ip = take i s; port = drop (Suc i) s; bracket = ip \<noteq> [] \<and> hd ip = CHR ''['' in
          if ip = [] \<or> (bracket \<and> (length ip < 2 \<or> last ip \<noteq> CHR '']'')) then None
          else
            (case (parse_port port, parse_addr (if bracket then tl (butlast ip) else ip)) of
               (Some n, Some a) \<Rightarrow> if bracket = is4 a then None else Some (a, n)
             | _ \<Rightarrow> None))"

section \<open>Prefixes\<close>

type_synonym prefix = "addr \<times> nat"

definition addr_bits :: "addr \<Rightarrow> nat" where
  "addr_bits a = (if is4 a then 32 else 128)"

definition parse_prefix :: "string \<Rightarrow> prefix option" where
  "parse_prefix s =
     (case last_index_byte CHR ''/'' s of
        None \<Rightarrow> None
      | Some i \<Rightarrow>
          (case parse_addr (take i s) of
             None \<Rightarrow> None
           | Some ip \<Rightarrow>
               let bits = drop (Suc i) s in
               if (case ip of IP6 _ z \<Rightarrow> z \<noteq> [] | _ \<Rightarrow> False) then None
               else if bits = [] \<or> \<not> list_all is_digit bits \<or> (1 < length bits \<and> hd bits = CHR ''0'') then None
               else if read_digits bits \<le> addr_bits ip then Some (ip, read_digits bits) else None))"

text \<open>The bits of a byte and of a byte list, the most significant one first.\<close>

definition byte_bits :: "byte \<Rightarrow> bool list" where
  "byte_bits b = map (\<lambda>i. bit b (7 - i)) [0..<8]"

definition bits_of :: "bytes \<Rightarrow> bool list" where
  "bits_of bs = concat (map byte_bits bs)"

text \<open>\<^verbatim>\<open>Masked\<close>: the bits after the prefix are cleared.\<close>

definition mask_byte :: "nat \<Rightarrow> byte" where
  "mask_byte k = (if 8 \<le> k then 255 else push_bit (8 - k) 255)"

definition mask_bytes :: "nat \<Rightarrow> bytes \<Rightarrow> bytes" where
  "mask_bytes k bs = map (\<lambda>i. and (bs ! i) (mask_byte (k - 8 * i))) [0..<length bs]"

definition masked :: "prefix \<Rightarrow> addr" where
  "masked p = (case fst p of IP4 b \<Rightarrow> IP4 (mask_bytes (snd p) b) | IP6 b z \<Rightarrow> IP6 (mask_bytes (snd p) b) z)"

definition contains :: "prefix \<Rightarrow> addr \<Rightarrow> bool" where
  "contains p a =
     (case (fst p, a) of
        (IP4 b, IP4 c) \<Rightarrow> take (snd p) (bits_of b) = take (snd p) (bits_of c)
      | (IP6 b _, IP6 c z) \<Rightarrow> z = [] \<and> take (snd p) (bits_of b) = take (snd p) (bits_of c)
      | _ \<Rightarrow> False)"

section \<open>Text\<close>

definition ipv4_string :: "bytes \<Rightarrow> string" where
  "ipv4_string b = join_with ''.'' (map (\<lambda>x. show_nat (unat x)) b)"

fun show_hex :: "nat \<Rightarrow> string" where
  "show_hex n = (if n < 16 then [hex_digit n] else show_hex (n div 16) @ [hex_digit (n mod 16)])"

declare show_hex.simps [simp del]

definition group_at :: "bytes \<Rightarrow> nat \<Rightarrow> nat" where
  "group_at b i = be16 (b ! (2 * i)) (b ! (2 * i + 1))"

definition zero_run :: "bytes \<Rightarrow> nat \<Rightarrow> nat" where
  "zero_run b i = length (takeWhile (\<lambda>j. group_at b j = 0) [i..<8])"

text \<open>The first longest run of two or more zero groups: start and end.\<close>

definition longest_run :: "bytes \<Rightarrow> nat \<times> nat" where
  "longest_run b =
     foldl (\<lambda>(zs, ze) i. if 2 \<le> zero_run b i \<and> ze - zs < zero_run b i then (i, i + zero_run b i) else (zs, ze))
       (255, 255) [0..<8]"

definition ipv6_string :: "bytes \<Rightarrow> string" where
  "ipv6_string b =
     (let (zs, ze) = longest_run b; hex = (\<lambda>is. join_with '':'' (map (\<lambda>i. show_hex (group_at b i)) is)) in
      if zs = 255 then hex [0..<8] else hex [0..<zs] @ ''::'' @ hex [ze..<8])"

definition addr_string :: "addr \<Rightarrow> string" where
  "addr_string a =
     (case a of
        IP4 b \<Rightarrow> ipv4_string b
      | IP6 b z \<Rightarrow>
          (if is4in6 a then ''::ffff:'' @ ipv4_string (drop 12 b) else ipv6_string b)
          @ (if z = [] then [] else ''%'' @ z))"

definition addr_port_string :: "addr \<times> nat \<Rightarrow> string" where
  "addr_port_string ap =
     (if is4 (fst ap) then addr_string (fst ap) else ''['' @ addr_string (fst ap) @ '']'')
     @ '':'' @ show_nat (snd ap)"

section \<open>Facts\<close>

lemma byte_bits_length [simp]: "length (byte_bits b) = 8"
  by (simp add: byte_bits_def)

lemma byte_bits_nth: "i < 8 \<Longrightarrow> byte_bits b ! i = bit b (7 - i)"
  by (simp add: byte_bits_def)

lemma bits_of_simps [simp]: "bits_of [] = []" "bits_of (b # bs) = byte_bits b @ bits_of bs"
  by (simp_all add: bits_of_def)

lemma bits_of_length [simp]: "length (bits_of bs) = 8 * length bs"
  by (induction bs) simp_all

lemma bits_of_nth: "i < 8 * length bs \<Longrightarrow> bits_of bs ! i = bit (bs ! (i div 8)) (7 - i mod 8)"
proof (induction bs arbitrary: i)
  case (Cons b bs)
  show ?case
  proof (cases "i < 8")
    case True
    then show ?thesis by (simp add: nth_append byte_bits_nth)
  next
    case False
    then obtain j where j: "i = 8 + j" by (metis le_add_diff_inverse not_less)
    have "(8 + j) div 8 = Suc (j div 8)" "(8 + j) mod 8 = j mod 8" by simp_all
    then show ?thesis using Cons j by (simp add: nth_append)
  qed
qed simp

lemma byte_bits_inj: "byte_bits a = byte_bits b \<Longrightarrow> a = b"
proof (rule bit_word_eqI)
  fix n assume eq: "byte_bits a = byte_bits b" and "n < LENGTH(8)"
  then have "byte_bits a ! (7 - n) = byte_bits b ! (7 - n)" "7 - n < 8" by simp_all
  then show "bit a n = bit b n" using \<open>n < LENGTH(8)\<close> by (simp add: byte_bits_nth)
qed

lemma bits_of_inj: "length a = length b \<Longrightarrow> bits_of a = bits_of b \<Longrightarrow> a = b"
  by (induction a b rule: list_induct2) (auto dest: byte_bits_inj)

lemma parse_octet_show: "parse_octet (show_nat (unat b)) = Some b"
proof -
  have z: "hd (show_nat n) = CHR ''0'' \<longrightarrow> length (show_nat n) = 1" for n
  proof (induction n rule: show_nat.induct)
    case (1 n)
    show ?case
    proof (cases "n < 10")
      case False
      then have "n div 10 \<noteq> 0" by simp
      moreover have "show_nat (n div 10) = ''0''" if "hd (show_nat (n div 10)) = CHR ''0''"
        using that 1 [OF False] by (cases "show_nat (n div 10)") auto
      then have "hd (show_nat (n div 10)) = CHR ''0'' \<longrightarrow> read_digits (show_nat (n div 10)) = read_digits ''0''"
        by auto
      moreover have "read_digits ''0'' = 0" by (simp add: read_digits_def digit_val_def)
      ultimately have "hd (show_nat (n div 10)) \<noteq> CHR ''0''" by simp
      then show ?thesis using False by (simp add: show_nat.simps [of n])
    qed (simp add: show_nat.simps [of n])
  qed
  have "list_all is_digit (show_nat (unat b))" by (simp add: list_all_iff show_nat_digits)
  moreover have "unat b \<le> 255" using unat_byte_less [of b] by linarith
  ultimately show ?thesis using z [of "unat b"] by (simp add: parse_octet_def)
qed

lemma parse_octets_length: "parse_octets ss = Some bs \<Longrightarrow> length bs = length ss"
  by (induction ss arbitrary: bs) (auto split: option.splits)

lemma parse_ipv4_length: "parse_ipv4 s = Some b \<Longrightarrow> length b = 4"
  by (auto simp: parse_ipv4_def Let_def parse_octets_length split: if_splits)

lemma ipv6_loop_length:
  "ipv6_loop ip ell s = Some (ip', ell', r) \<Longrightarrow> even (length ip) \<Longrightarrow> length ip \<le> 16 \<Longrightarrow> length ip' \<le> 16"
proof (induction ip ell s rule: ipv6_loop.induct)
  case (1 ip ell s)
  show ?case
  proof (cases "16 \<le> length ip")
    case True
    then show ?thesis using "1.prems" by (simp add: ipv6_loop.simps)
  next
    case False
    obtain off acc where r: "read_hex s 0 = (off, acc)" by (cases "read_hex s 0")
    have len: "length (ip @ put_be16 acc) \<le> 16" "even (length (ip @ put_be16 acc))"
    proof -
      have "length ip < 16" "even (length ip)" using False "1.prems"(2) by simp_all
      then have "length ip + 2 \<le> 16" by presburger
      then show "length (ip @ put_be16 acc) \<le> 16" by simp
      show "even (length (ip @ put_be16 acc))" using "1.prems"(2) by simp
    qed
    note IH = "1.IH" [OF False r [symmetric] refl]
    consider (dot) b where "drop off s \<noteq> []" "hd (drop off s) = CHR ''.''" "length ip + 4 \<le> 16" "parse_ipv4 s = Some b" "ip' = ip @ b"
      | (stop) "ip' = ip @ put_be16 acc"
      | (go) ell1 s1 where "ipv6_loop (ip @ put_be16 acc) ell1 s1 = Some (ip', ell', r)"
          "\<not> (off = 0 \<or> 4 < off)" "\<not> (drop off s \<noteq> [] \<and> hd (drop off s) = CHR ''.'')" "drop off s \<noteq> []"
          "\<not> (hd (drop off s) \<noteq> CHR '':'' \<or> length (drop off s) = 1)"
          "(hd (tl (drop off s)) = CHR '':'' \<and> ell = None \<and> tl (tl (drop off s)) \<noteq> [] \<and>
             ell1 = Some (length (ip @ put_be16 acc)) \<and> s1 = tl (tl (drop off s))) \<or>
           (hd (tl (drop off s)) \<noteq> CHR '':'' \<and> ell1 = ell \<and> s1 = tl (drop off s))"
      using "1.prems"(1) False r
      by (subst (asm) ipv6_loop.simps) (auto simp: Let_def split: if_splits)
    then show ?thesis
    proof cases
      case dot
      then show ?thesis using parse_ipv4_length by auto
    next
      case stop
      then show ?thesis using len by simp
    next
      case go
      from go(6) show ?thesis
        using IH(1) [OF refl go(2,3) refl go(4,5) refl] IH(2) [OF refl go(2,3) refl go(4,5) refl] go(1) len by auto
    qed
  qed
qed

lemma parse_addr_wf: "parse_addr s = Some a \<Longrightarrow> wf_addr a"
proof -
  assume "parse_addr s = Some a"
  then consider b where "parse_ipv4 s = Some b" "a = IP4 b" | "parse_ipv6 s = Some a"
    by (auto simp: parse_addr_def split: option.splits if_splits)
  then show "wf_addr a"
  proof cases
    case 1
    then show ?thesis by (simp add: wf_addr_def parse_ipv4_length)
  next
    case 2
    then show ?thesis
      unfolding parse_ipv6_def Let_def
      by (auto simp: wf_addr_def split: prod.splits option.splits if_splits dest!: ipv6_loop_length)
  qed
qed

lemma parse_prefix_wf:
  "parse_prefix s = Some (a, n) \<Longrightarrow> wf_addr a \<and> n \<le> addr_bits a"
  by (auto simp: parse_prefix_def Let_def dest: parse_addr_wf split: option.splits if_splits)

end
