(* ===== verification/Dst.thy ===== *)
theory Dst
  imports Netip "HOL-Library.Monad_Syntax"
begin

text \<open>
  \<^verbatim>\<open>internal/dial/dst.go\<close>: a destination is a host name or address (\<^verbatim>\<open>single\<close>), a list
  of addresses with ports (\<^verbatim>\<open>multi\<close>), or nothing. \<^verbatim>\<open>multi\<close> distinguishes a nil slice
  (\<open>None\<close>) from an empty one. A \<^verbatim>\<open>*Dst\<close> that may be nil is a \<open>dst option\<close>.
\<close>

record dst =
  single :: string
  singleValid :: bool
  multi :: "(addr \<times> nat) list option"

definition zero_dst :: dst where
  "zero_dst = \<lparr>single = [], singleValid = False, multi = None\<rparr>"

definition addrport_to_string :: "addr \<times> nat \<Rightarrow> string" where
  "addrport_to_string ap = (if snd ap = 0 then addr_string (fst ap) else addr_port_string ap)"

text \<open>\<^verbatim>\<open>String\<close>: \<open>None\<close> is the panic of \<^verbatim>\<open>d.multi[0]\<close> on an empty list.\<close>

definition dst_string :: "dst option \<Rightarrow> string option" where
  "dst_string d =
     (case d of
        None \<Rightarrow> Some []
      | Some d \<Rightarrow>
          (case multi d of
             None \<Rightarrow> Some (single d)
           | Some [ap] \<Rightarrow> Some (addrport_to_string ap)
           | Some aps \<Rightarrow> do {
               first \<leftarrow> idx aps 0;
               Some (''['' @ addrport_to_string first
                 @ concat (map (\<lambda>ap. '' '' @ addrport_to_string ap) (tl aps)) @ '']'')
             }))"

definition new_single_dst :: "string \<Rightarrow> dst" where
  "new_single_dst s = \<lparr>single = s, singleValid = True, multi = None\<rparr>"

definition new_dst_from_addrs :: "addr list \<Rightarrow> dst" where
  "new_dst_from_addrs as = \<lparr>single = [], singleValid = False, multi = Some (map (\<lambda>a. (a, 0)) as)\<rparr>"

text \<open>\<^verbatim>\<open>netip.AddrFromSlice\<close> on a \<^verbatim>\<open>net.IP\<close>, and \<^verbatim>\<open>NewDstFromIPs\<close>, which panics on a bad length.\<close>

definition addr_from_slice :: "bytes \<Rightarrow> addr option" where
  "addr_from_slice b = (if length b = 4 then Some (IP4 b) else if length b = 16 then Some (IP6 b []) else None)"

fun addrs_from_slices :: "bytes list \<Rightarrow> addr list option" where
  "addrs_from_slices [] = Some []"
| "addrs_from_slices (b # bs) = do { a \<leftarrow> addr_from_slice b; as \<leftarrow> addrs_from_slices bs; Some (a # as) }"

definition new_dst_from_ips :: "bytes list \<Rightarrow> dst option" where
  "new_dst_from_ips ips = map_option new_dst_from_addrs (addrs_from_slices ips)"

definition is_multi :: "dst option \<Rightarrow> bool" where
  "is_multi d = (case d of None \<Rightarrow> False | Some d \<Rightarrow> multi d \<noteq> None)"

text \<open>\<^verbatim>\<open>Single\<close>: \<open>None\<close> is the panic on a single text that is not marked valid.\<close>

definition dst_single :: "dst option \<Rightarrow> string option" where
  "dst_single d =
     (case d of
        None \<Rightarrow> Some []
      | Some d \<Rightarrow> if singleValid d then Some (single d) else if single d \<noteq> [] then None else Some [])"

definition dst_is_zero :: "dst option \<Rightarrow> bool" where
  "dst_is_zero d = (case d of None \<Rightarrow> True | Some d \<Rightarrow> \<not> singleValid d \<and> multi d = None)"

section \<open>From JSON\<close>

text \<open>A JSON value as \<^verbatim>\<open>encoding/json\<close> hands it to \<^verbatim>\<open>UnmarshalJSON\<close>; numbers and objects are \<open>JOther\<close>.\<close>

datatype jval = JNull | JBool bool | JString string | JArray "jval list" | JOther

text \<open>\<^verbatim>\<open>json.Unmarshal\<close> into a string: \<^verbatim>\<open>null\<close> leaves it as it is.\<close>

definition unmarshal_string :: "string \<Rightarrow> jval \<Rightarrow> error + string" where
  "unmarshal_string old j =
     (case j of JNull \<Rightarrow> Inr old | JString s \<Rightarrow> Inr s
      | _ \<Rightarrow> Inl (LibError ''json: cannot unmarshal into Go value of type string''))"

definition unmarshal_strings :: "jval \<Rightarrow> error + string list" where
  "unmarshal_strings j =
     (case j of
        JNull \<Rightarrow> Inr []
      | JArray js \<Rightarrow>
          if list_all (\<lambda>j. case j of JNull \<Rightarrow> True | JString _ \<Rightarrow> True | _ \<Rightarrow> False) js
          then Inr (map (\<lambda>j. case j of JString s \<Rightarrow> s | _ \<Rightarrow> []) js)
          else Inl (LibError ''json: cannot unmarshal into Go value of type string'')
      | _ \<Rightarrow> Inl (LibError ''json: cannot unmarshal into Go value of type []string''))"

fun dst_addrs :: "string list \<Rightarrow> error + (addr \<times> nat) list" where
  "dst_addrs [] = Inr []"
| "dst_addrs (s # ss) =
     (case (case parse_addr_port s of Some ap \<Rightarrow> Some ap
            | None \<Rightarrow> map_option (\<lambda>a. (a, 0)) (parse_addr s)) of
        None \<Rightarrow> Inl (NewError (''invalid address: '' @ s))
      | Some ap \<Rightarrow> (case dst_addrs ss of Inl e \<Rightarrow> Inl e | Inr aps \<Rightarrow> Inr (ap # aps)))"

definition dst_unmarshal :: "dst \<Rightarrow> jval \<Rightarrow> error + dst" where
  "dst_unmarshal d j =
     (case unmarshal_string (single d) j of
        Inr s \<Rightarrow> Inr (d\<lparr>single := s, singleValid := True\<rparr>)
      | Inl se \<Rightarrow>
          (case unmarshal_strings j of
             Inl me \<Rightarrow> Inl (JoinError [se, me])
           | Inr ss \<Rightarrow>
               if length ss < 2 then Inl (NewError ''the number of addresses must be greater than 1'')
               else (case dst_addrs ss of Inl e \<Rightarrow> Inl e | Inr aps \<Rightarrow> Inr (d\<lparr>multi := Some aps\<rparr>))))"

section \<open>Well-formed destinations\<close>

text \<open>
  What every constructor and the decoding of a configuration keep: the single text is only
  set together with its flag, so \<^verbatim>\<open>Single\<close> never panics.
\<close>

definition wf_dst :: "dst \<Rightarrow> bool" where
  "wf_dst d \<longleftrightarrow> (single d \<noteq> [] \<longrightarrow> singleValid d) \<and> (singleValid d \<longrightarrow> multi d = None)"

lemma wf_dst_simps [simp]: "wf_dst zero_dst" "wf_dst (new_single_dst s)" "wf_dst (new_dst_from_addrs as)"
  by (simp_all add: wf_dst_def zero_dst_def new_single_dst_def new_dst_from_addrs_def)

lemma dst_new_simps [simp]:
  "is_multi None = False" "is_multi (Some (new_single_dst s)) = False" "is_multi (Some (new_dst_from_addrs as))"
  "dst_single None = Some []" "dst_single (Some (new_single_dst s)) = Some s"
  "dst_is_zero (Some (new_single_dst s)) = False" "dst_is_zero None" "dst_is_zero (Some zero_dst)"
  "dst_single (Some zero_dst) = Some []" "is_multi (Some zero_dst) = False"
  by (simp_all add: is_multi_def dst_single_def dst_is_zero_def new_single_dst_def new_dst_from_addrs_def zero_dst_def)

lemma wf_dst_single: "wf_dst d \<Longrightarrow> \<exists>s. dst_single (Some d) = Some s"
  by (auto simp: wf_dst_def dst_single_def)

lemma dst_addrs_length: "dst_addrs ss = Inr aps \<Longrightarrow> length aps = length ss"
  by (induction ss arbitrary: aps) (auto split: option.splits sum.splits)

lemma wf_dst_unmarshal:
  assumes "dst_unmarshal zero_dst j = Inr d" shows "wf_dst d \<and> dst_string (Some d) \<noteq> None"
proof (cases "unmarshal_string [] j")
  case (Inr s)
  then show ?thesis
    using assms by (auto simp: dst_unmarshal_def zero_dst_def wf_dst_def dst_string_def)
next
  case (Inl se)
  then obtain ss aps where "length ss \<ge> 2" "dst_addrs ss = Inr aps" "d = zero_dst\<lparr>multi := Some aps\<rparr>"
    using assms by (auto simp: dst_unmarshal_def zero_dst_def not_less split: sum.splits if_splits)
  then show ?thesis
    using dst_addrs_length [of ss aps]
    by (cases aps; cases "tl aps") (auto simp: zero_dst_def wf_dst_def dst_string_def idx_def)
qed

section \<open>Properties\<close>

text \<open>
  A destination decoded from the configuration is a text or a list of at least two
  addresses, never both; reading it as a text and printing it never panic.
\<close>

theorem dst_unmarshal_wf:
  assumes "dst_unmarshal zero_dst j = Inr d"
  shows "(\<exists>s. dst_single (Some d) = Some s) \<and> (\<exists>s. dst_string (Some d) = Some s) \<and>
    (singleValid d \<longrightarrow> multi d = None) \<and> (\<forall>aps. multi d = Some aps \<longrightarrow> 2 \<le> length aps)"
proof -
  have "2 \<le> length aps" if "multi d = Some aps" for aps
    using assms that by (auto simp: dst_unmarshal_def zero_dst_def not_less dest!: dst_addrs_length split: sum.splits if_splits)
  then show ?thesis
    using wf_dst_unmarshal [OF assms] wf_dst_single [of d] by (auto simp: wf_dst_def)
qed

theorem dst_unmarshal_wf_witness:
  "\<exists>d. dst_unmarshal zero_dst (JArray [JString ''::'', JString ''::'']) = Inr d \<and>
     (\<exists>s. dst_string (Some d) = Some s)"
proof -
  have "\<exists>d. dst_unmarshal zero_dst (JArray [JString ''::'', JString ''::'']) = Inr d"
    by (rule exI [of _ "zero_dst\<lparr>multi := Some [(IP6 (replicate 16 0) [], 0), (IP6 (replicate 16 0) [], 0)]\<rparr>"]) code_simp
  then show ?thesis using dst_unmarshal_wf by blast
qed

text \<open>
  C0. A destination built from no addresses, which the resolver can return, panics when it is
  printed: \<^verbatim>\<open>String\<close> reads the first element of an empty, non-nil list.
\<close>

theorem empty_multi_dst_panics:
  "is_multi (Some (new_dst_from_addrs [])) \<and> dst_string (Some (new_dst_from_addrs [])) = None"
  by (simp add: new_dst_from_addrs_def is_multi_def dst_string_def idx_def)

end
