(* ===== verification/Go_Time.thy ===== *)
theory Go_Time
  imports Errors_Format
begin

text \<open>
  \<^verbatim>\<open>time.Duration\<close>: a number of nanoseconds in 64 bits, kept as an integer. \<^verbatim>\<open>String\<close> and
  \<^verbatim>\<open>ParseDuration\<close> are the functions of Go's standard library that the configuration and
  the log lines use. The fraction of a unit is cut off exactly here; Go scales it with a
  \<^verbatim>\<open>float64\<close>, which gives the same value up to nine decimal places of a second.
\<close>

definition nanosecond :: int where "nanosecond = 1"
definition microsecond :: int where "microsecond = 1000"
definition millisecond :: int where "millisecond = 1000000"
definition second :: int where "second = 1000000000"
definition minute :: int where "minute = 60000000000"
definition hour :: int where "hour = 3600000000000"

definition maxDuration :: int where "maxDuration = 2 ^ 63 - 1"

section \<open>Printing\<close>

text \<open>\<open>prec\<close> decimal digits of \<open>v\<close> without trailing zeros, with their point.\<close>

fun pad_left :: "nat \<Rightarrow> string \<Rightarrow> string" where
  "pad_left n s = replicate (n - length s) (CHR ''0'') @ s"

definition frac_text :: "nat \<Rightarrow> nat \<Rightarrow> string" where
  "frac_text v prec =
     (let ds = rev (dropWhile (\<lambda>c. c = CHR ''0'') (rev (pad_left prec (show_nat (v mod 10 ^ prec)))))
      in if v mod 10 ^ prec = 0 then [] else CHR ''.'' # ds)"

definition micro_text :: string where
  "micro_text = [char_of (0xC2 :: nat), char_of (0xB5 :: nat), CHR ''s'']"

definition duration_string :: "int \<Rightarrow> string" where
  "duration_string d =
     (let u = nat (abs d); sign = (if d < 0 then ''-'' else []);
          secs = u div 10 ^ 9; mins = secs div 60; hours = mins div 60
      in if u = 0 then ''0s''
         else if u < 10 ^ 3 then sign @ show_nat u @ ''ns''
         else if u < 10 ^ 6 then sign @ show_nat (u div 10 ^ 3) @ frac_text u 3 @ micro_text
         else if u < 10 ^ 9 then sign @ show_nat (u div 10 ^ 6) @ frac_text u 6 @ ''ms''
         else sign
           @ (if hours > 0 then show_nat hours @ ''h'' else [])
           @ (if mins > 0 then show_nat (mins mod 60) @ ''m'' else [])
           @ show_nat (secs mod 60) @ frac_text u 9 @ ''s'')"

section \<open>Parsing\<close>

definition invalid_duration :: "string \<Rightarrow> error" where
  "invalid_duration s = LibError (''time: invalid duration '' @ s)"

fun leading_int :: "nat \<Rightarrow> string \<Rightarrow> (nat \<times> string) option" where
  "leading_int x [] = Some (x, [])"
| "leading_int x (c # s) =
     (if \<not> is_digit c then Some (x, c # s)
      else if x > 2 ^ 63 div 10 then None
      else let x = x * 10 + digit_val c in if x > 2 ^ 63 then None else leading_int x s)"

text \<open>Digits past the range of 63 bits are read and ignored.\<close>

fun leading_fraction :: "nat \<Rightarrow> nat \<Rightarrow> bool \<Rightarrow> string \<Rightarrow> nat \<times> nat \<times> string" where
  "leading_fraction x scale over [] = (x, scale, [])"
| "leading_fraction x scale over (c # s) =
     (if \<not> is_digit c then (x, scale, c # s)
      else if over \<or> x > (2 ^ 63 - 1) div 10 \<or> x * 10 + digit_val c > 2 ^ 63
        then leading_fraction x scale True s
      else leading_fraction (x * 10 + digit_val c) (scale * 10) False s)"

definition unit_map :: "string \<Rightarrow> nat option" where
  "unit_map u =
     (if u = ''ns'' then Some 1
      else if u = ''us'' \<or> u = micro_text \<or> u = [char_of (0xCE :: nat), char_of (0xBC :: nat), CHR ''s'']
        then Some (10 ^ 3)
      else if u = ''ms'' then Some (10 ^ 6)
      else if u = ''s'' then Some (10 ^ 9)
      else if u = ''m'' then Some (60 * 10 ^ 9)
      else if u = ''h'' then Some (3600 * 10 ^ 9)
      else None)"

text \<open>One number with its unit; the rest of the text is strictly shorter.\<close>

definition duration_part :: "string \<Rightarrow> (nat \<times> string) option" where
  "duration_part s =
     (case leading_int 0 s of
        None \<Rightarrow> None
      | Some (v, s1) \<Rightarrow>
          let (f, scale, s2) = (if has_prefix s1 ''.'' then leading_fraction 0 1 False (tl s1) else (0, 1, s1));
              pre = (length s1 \<noteq> length s);
              post = (has_prefix s1 ''.'' \<and> Suc (length s2) \<noteq> length s1);
              u = takeWhile (\<lambda>c. c \<noteq> CHR ''.'' \<and> \<not> is_digit c) s2;
              s3 = dropWhile (\<lambda>c. c \<noteq> CHR ''.'' \<and> \<not> is_digit c) s2
          in if \<not> pre \<and> \<not> post then None
             else if u = [] then None
             else (case unit_map u of
                None \<Rightarrow> None
              | Some unit \<Rightarrow>
                  if v > 2 ^ 63 div unit then None
                  else let v = v * unit + f * unit div scale
                       in if v > 2 ^ 63 then None else Some (v, s3)))"

text \<open>
  The loop over the parts. \<open>n\<close> is fuel: every part that is read takes at least one character, so the length of
  the text is enough and the second equation is never reached with it (\<open>duration_parts_enough\<close>).
\<close>

fun duration_parts :: "nat \<Rightarrow> nat \<Rightarrow> string \<Rightarrow> nat option" where
  "duration_parts n d [] = Some d"
| "duration_parts 0 d s = None"
| "duration_parts (Suc n) d s =
     (case duration_part s of
        None \<Rightarrow> None
      | Some (v, s) \<Rightarrow> if d + v > 2 ^ 63 then None else duration_parts n (d + v) s)"

definition parse_duration :: "string \<Rightarrow> error + int" where
  "parse_duration orig =
     (let neg = has_prefix orig ''-'';
          s = (if neg \<or> has_prefix orig ''+'' then tl orig else orig)
      in if s = ''0'' then Inr 0
         else if s = [] then Inl (invalid_duration orig)
         else (case duration_parts (length s) 0 s of
            None \<Rightarrow> Inl (invalid_duration orig)
          | Some d \<Rightarrow> if neg then Inr (- int d)
                      else if d > 2 ^ 63 - 1 then Inl (invalid_duration orig) else Inr (int d)))"

lemma leading_int_length: "leading_int x s = Some (v, s') \<Longrightarrow> length s' \<le> length s"
  by (induction x s rule: leading_int.induct) (auto simp: Let_def split: if_splits)

lemma leading_fraction_length: "length (snd (snd (leading_fraction x k b s))) \<le> length s"
  by (induction x k b s rule: leading_fraction.induct) auto

lemma duration_part_shorter:
  assumes "duration_part s = Some (v, s')"
  shows "length s' < length s"
proof -
  obtain v1 s1 where 1: "leading_int 0 s = Some (v1, s1)" using assms by (auto simp: duration_part_def split: option.splits)
  obtain f k s2 where 2: "(if has_prefix s1 ''.'' then leading_fraction 0 1 False (tl s1) else (0, 1, s1)) = (f, k, s2)"
    by (rule prod_cases3)
  have "length s2 \<le> length s1"
    using 2 leading_fraction_length [of 0 1 False "tl s1"] by (auto split: if_splits)
  then have "length s2 \<le> length s" using leading_int_length [OF 1] by linarith
  moreover have "takeWhile (\<lambda>c. c \<noteq> CHR ''.'' \<and> \<not> is_digit c) s2 \<noteq> []" "s' = dropWhile (\<lambda>c. c \<noteq> CHR ''.'' \<and> \<not> is_digit c) s2"
    using assms 1 2 by (auto simp: duration_part_def Let_def split: option.splits if_splits prod.splits)
  moreover have "length (takeWhile P xs) + length (dropWhile P xs) = length xs" for P :: "char \<Rightarrow> bool" and xs
    by (simp only: length_append [symmetric] takeWhile_dropWhile_id)
  from this [of "\<lambda>c. c \<noteq> CHR ''.'' \<and> \<not> is_digit c" s2] have
    "length (takeWhile (\<lambda>c. c \<noteq> CHR ''.'' \<and> \<not> is_digit c) s2) + length (dropWhile (\<lambda>c. c \<noteq> CHR ''.'' \<and> \<not> is_digit c) s2) = length s2" .
  ultimately show ?thesis by (cases "takeWhile (\<lambda>c. c \<noteq> CHR ''.'' \<and> \<not> is_digit c) s2") simp_all
qed

text \<open>Any bound from the length of the text on gives the same.\<close>

lemma duration_parts_enough: "length s \<le> n \<Longrightarrow> length s \<le> m \<Longrightarrow> duration_parts n d s = duration_parts m d s"
proof (induction n d s arbitrary: m rule: duration_parts.induct)
  case (3 n d c s)
  then obtain k where m: "m = Suc k" by (cases m) auto
  have "duration_parts n (d + v) s' = duration_parts k (d + v) s'" if "duration_part (c # s) = Some (v, s')" "d + v \<le> 2 ^ 63" for v s'
    using duration_part_shorter [OF that(1)] that 3 m by auto
  then show ?case unfolding m by (auto split: option.split)
qed simp_all

text \<open>A parsed duration fits 64 bits.\<close>

lemma duration_parts_bound: "duration_parts n d s = Some r \<Longrightarrow> d \<le> 2 ^ 63 \<Longrightarrow> r \<le> 2 ^ 63"
  by (induction n d s rule: duration_parts.induct) (auto split: option.splits if_splits)

lemma parse_duration_range: "parse_duration s = Inr d \<Longrightarrow> - (2 ^ 63) \<le> d \<and> d \<le> maxDuration"
  by (auto simp: parse_duration_def Let_def maxDuration_def dest!: duration_parts_bound
      split: if_splits option.splits)

end
