(* ===== verification/Policy.thy ===== *)
theory Policy
  imports Dst Go_Time
begin

text \<open>
  \<^verbatim>\<open>internal/core/policy.go\<close> (the policy values) and the scalar types of
  \<^verbatim>\<open>internal/jsonx/types.go\<close>: three-valued booleans and the optional byte, the enumerated
  modes with their names, the checking of a configured policy, the merging of policies by
  priority and the line of text that describes one. A duration is an integer number of
  nanoseconds; Go's \<^verbatim>\<open>int\<close> and \<^verbatim>\<open>uint\<close> have 64 bits.
\<close>

section \<open>Booleans and bytes that may be unset\<close>

datatype jbool = BoolUnset | BoolFalse | BoolTrue

definition is_true :: "jbool \<Rightarrow> bool" where
  "is_true b \<longleftrightarrow> b = BoolTrue"

definition is_unset :: "jbool \<Rightarrow> bool" where
  "is_unset b \<longleftrightarrow> b = BoolUnset"

text \<open>\<^verbatim>\<open>UnmarshalJSON\<close> is given the text of one JSON value.\<close>

definition bool_unmarshal :: "string \<Rightarrow> error + jbool" where
  "bool_unmarshal s =
     (if s = ''false'' then Inr BoolFalse
      else if s = ''true'' then Inr BoolTrue
      else Inl (NewError (''invalid bool: '' @ s)))"

record jbyte =
  byteVal :: byte
  byteValid :: bool
  byteZero :: bool

definition zero_byte :: jbyte where
  "zero_byte = \<lparr>byteVal = 0, byteValid = False, byteZero = False\<rparr>"

definition byte_is_unset :: "jbyte \<Rightarrow> bool" where
  "byte_is_unset b \<longleftrightarrow> \<not> byteValid b"

definition byte_is_zero :: "jbyte \<Rightarrow> bool" where
  "byte_is_zero b \<longleftrightarrow> byte_is_unset b \<or> byteZero b"

text \<open>
  \<^verbatim>\<open>json.Unmarshal\<close> of a JSON value into a \<^verbatim>\<open>uint8\<close>: \<^verbatim>\<open>null\<close> changes nothing, otherwise the
  value must be written in decimal digits and fit. The receiver is changed even on an error.
\<close>

definition byte_unmarshal :: "jbyte \<Rightarrow> string \<Rightarrow> error option \<times> jbyte" where
  "byte_unmarshal b data =
     (let b = b\<lparr>byteValid := True\<rparr>
      in if data = ''false'' then (None, b\<lparr>byteZero := True\<rparr>)
         else if data = ''null'' then (None, b)
         else if data \<noteq> [] \<and> list_all is_digit data \<and> read_digits data < 256
           then (None, b\<lparr>byteVal := of_nat (read_digits data)\<rparr>)
         else (Some (LibError ''json: cannot unmarshal into Go value of type uint8''), b))"

definition duration_unmarshal :: "jval \<Rightarrow> error + int" where
  "duration_unmarshal j =
     (case unmarshal_string [] j of Inl e \<Rightarrow> Inl e
      | Inr s \<Rightarrow> (case parse_duration s of Inl e \<Rightarrow> Inl e | Inr d \<Rightarrow> Inr d))"

section \<open>Modes and their names\<close>

text \<open>The zero value of each type is its unset constructor.\<close>

datatype sniff_override_mode =
    SniffOverrideUnset
  | SniffOverrideOff
  | SniffOverrideAlways
  | SniffOverridePolicyExists
  | SniffOverrideRouteOnly

definition sniff_unmarshal :: "jval \<Rightarrow> error + sniff_override_mode" where
  "sniff_unmarshal j =
     (case unmarshal_string [] j of Inl e \<Rightarrow> Inl e
      | Inr s \<Rightarrow>
        if s = ''off'' then Inr SniffOverrideOff
        else if s = ''always'' then Inr SniffOverrideAlways
        else if s = ''policy_exists'' then Inr SniffOverridePolicyExists
        else if s = ''route_only'' then Inr SniffOverrideRouteOnly
        else Inl (NewError (''invalid sniff_override: '' @ s)))"

datatype mode =
    ModeUnset
  | ModeRaw
  | ModeDirect
  | ModeTLSRF
  | ModeTTLD
  | ModeBlock
  | ModeTLSAlert

definition ModeDefault :: mode where
  "ModeDefault = ModeTLSRF"

definition mode_string :: "mode \<Rightarrow> string" where
  "mode_string m =
     (case m of
       ModeUnset \<Rightarrow> ''unknown''
     | ModeRaw \<Rightarrow> ''raw''
     | ModeDirect \<Rightarrow> ''direct''
     | ModeTLSRF \<Rightarrow> ''tls-rf''
     | ModeTTLD \<Rightarrow> ''ttl-d''
     | ModeBlock \<Rightarrow> ''block''
     | ModeTLSAlert \<Rightarrow> ''tls-alert'')"

definition mode_unmarshal :: "jval \<Rightarrow> error + mode" where
  "mode_unmarshal j =
     (case unmarshal_string [] j of Inl e \<Rightarrow> Inl e
      | Inr s \<Rightarrow>
        if s = ''raw'' then Inr ModeRaw
        else if s = ''direct'' then Inr ModeDirect
        else if s = ''tls-rf'' then Inr ModeTLSRF
        else if s = ''ttl-d'' then Inr ModeTTLD
        else if s = ''block'' then Inr ModeBlock
        else if s = ''tls-alert'' then Inr ModeTLSAlert
        else Inl (NewError (''invalid mode: '' @ s)))"

datatype dns_mode =
    DNSModeUnset
  | DNSModePreferIPv4
  | DNSModePreferIPv6
  | DNSModeIPv4Only
  | DNSModeIPv6Only
  | DNSModeMultiPreferIPv4
  | DNSModeMultiPreferIPv6
  | DNSModeMultiIPv4Only
  | DNSModeMultiIPv6Only

definition DNSModeDefault :: dns_mode where
  "DNSModeDefault = DNSModePreferIPv4"

definition dns_mode_string :: "dns_mode \<Rightarrow> string" where
  "dns_mode_string m =
     (case m of
       DNSModeUnset \<Rightarrow> ''unknown''
     | DNSModePreferIPv4 \<Rightarrow> ''prefer_ipv4''
     | DNSModePreferIPv6 \<Rightarrow> ''prefer_ipv6''
     | DNSModeIPv4Only \<Rightarrow> ''ipv4_only''
     | DNSModeIPv6Only \<Rightarrow> ''ipv6_only''
     | DNSModeMultiPreferIPv4 \<Rightarrow> ''multi_prefer_ipv4''
     | DNSModeMultiPreferIPv6 \<Rightarrow> ''multi_prefer_ipv6''
     | DNSModeMultiIPv4Only \<Rightarrow> ''multi_ipv4_only''
     | DNSModeMultiIPv6Only \<Rightarrow> ''multi_ipv6_only'')"

definition dns_mode_unmarshal :: "jval \<Rightarrow> error + dns_mode" where
  "dns_mode_unmarshal j =
     (case unmarshal_string [] j of Inl e \<Rightarrow> Inl e
      | Inr s \<Rightarrow>
        if s = ''prefer_ipv4'' then Inr DNSModePreferIPv4
        else if s = ''prefer_ipv6'' then Inr DNSModePreferIPv6
        else if s = ''ipv4_only'' then Inr DNSModeIPv4Only
        else if s = ''ipv6_only'' then Inr DNSModeIPv6Only
        else if s = ''multi_prefer_ipv4'' then Inr DNSModeMultiPreferIPv4
        else if s = ''multi_prefer_ipv6'' then Inr DNSModeMultiPreferIPv6
        else if s = ''multi_ipv4_only'' then Inr DNSModeMultiIPv4Only
        else if s = ''multi_ipv6_only'' then Inr DNSModeMultiIPv6Only
        else Inl (NewError (''invalid dns_mode '' @ s)))"

section \<open>The policy\<close>

record policy =
  pReplyFirst :: jbool
  pSniffOverrideMode :: sniff_override_mode
  pDNSMode :: dns_mode
  pDNSCacheTTL :: int
  pConnectTimeout :: int
  pDialDelay :: int
  pHost :: dst
  pMapTo :: dst
  pPort :: int
  pHttpStatus :: int
  pTLS13Only :: jbool
  pDisableECHPassthrough :: jbool
  pMode :: mode
  pNumRecords :: int
  pNumSegments :: int
  pWaitForAck :: jbool
  pOOB :: jbool
  pOOBEx :: jbool
  pMinorVer :: jbyte
  pSendInterval :: int
  pFakeTTL :: int
  pFakeSleep :: int
  pMaxTTL :: int
  pAttempts :: int
  pSingleTimeout :: int
  pTTLCacheTTL :: int

definition unsetInt :: int where
  "unsetInt = -1"

definition zero_policy :: policy where
  "zero_policy =
    \<lparr>pReplyFirst = BoolUnset,
     pSniffOverrideMode = SniffOverrideUnset,
     pDNSMode = DNSModeUnset,
     pDNSCacheTTL = 0,
     pConnectTimeout = 0,
     pDialDelay = 0,
     pHost = zero_dst,
     pMapTo = zero_dst,
     pPort = 0,
     pHttpStatus = 0,
     pTLS13Only = BoolUnset,
     pDisableECHPassthrough = BoolUnset,
     pMode = ModeUnset,
     pNumRecords = 0,
     pNumSegments = 0,
     pWaitForAck = BoolUnset,
     pOOB = BoolUnset,
     pOOBEx = BoolUnset,
     pMinorVer = zero_byte,
     pSendInterval = 0,
     pFakeTTL = 0,
     pFakeSleep = 0,
     pMaxTTL = 0,
     pAttempts = 0,
     pSingleTimeout = 0,
     pTTLCacheTTL = 0\<rparr>"

text \<open>\<^verbatim>\<open>init\<close>.\<close>

definition policy_init :: "policy \<Rightarrow> policy" where
  "policy_init p = p\<lparr>pPort := unsetInt, pDialDelay := unsetInt, pHttpStatus := unsetInt,
     pSendInterval := unsetInt, pFakeTTL := unsetInt, pConnectTimeout := unsetInt,
     pSingleTimeout := unsetInt, pDNSCacheTTL := unsetInt, pTTLCacheTTL := unsetInt\<rparr>"

text \<open>The options as they are decoded: a pointer is an option, the integers keep their width.\<close>

record policy_options =
  oSniffOverrideMode :: sniff_override_mode
  oReplyFirst :: jbool
  oConnectTimeout :: "int option"
  oDialDelay :: "int option"
  oHost :: dst
  oMapTo :: dst
  oPort :: "16 word option"
  oDNSMode :: dns_mode
  oDNSCacheTTL :: "int option"
  oHttpStatus :: "64 word option"
  oTLS13Only :: jbool
  oDisableECHPassthrough :: jbool
  oMode :: mode
  oNumRecords :: "64 word option"
  oNumSegments :: "64 word option"
  oWaitForAck :: jbool
  oOOB :: jbool
  oOOBEx :: jbool
  oMinorVer :: jbyte
  oSendInterval :: "int option"
  oFakeTTL :: "8 word option"
  oFakeSleep :: "int option"
  oMaxTTL :: "8 word option"
  oAttempts :: "64 word option"
  oSingleTimeout :: "int option"
  oTTLCacheTTL :: "int option"

text \<open>\<^verbatim>\<open>newPolicy\<close>: the checks in the order of the source; \<open>check\<close> is one pointer that may be nil.\<close>

definition check :: "'a option \<Rightarrow> ('a \<Rightarrow> bool) \<Rightarrow> string \<Rightarrow> ('a \<Rightarrow> policy \<Rightarrow> policy) \<Rightarrow> error + policy \<Rightarrow> error + policy" where
  "check opt bad msg upd r =
     (case r of Inl e \<Rightarrow> Inl e
      | Inr p \<Rightarrow>
          (case opt of None \<Rightarrow> Inr p
           | Some v \<Rightarrow> if bad v then Inl (NewError msg) else Inr (upd v p)))"

definition newPolicy :: "policy_options \<Rightarrow> error + policy" where
  "newPolicy o' =
     (let p = policy_init (zero_policy\<lparr>pSniffOverrideMode := oSniffOverrideMode o',
            pReplyFirst := oReplyFirst o', pTLS13Only := oTLS13Only o',
            pDisableECHPassthrough := oDisableECHPassthrough o', pMode := oMode o',
            pDNSMode := oDNSMode o', pOOB := oOOB o', pOOBEx := oOOBEx o', pMinorVer := oMinorVer o',
            pWaitForAck := oWaitForAck o', pHost := oHost o', pMapTo := oMapTo o'\<rparr>);
          r = Inr p;
          r = check (oNumRecords o') (\<lambda>n. n = 0) ''num_records cannot be 0'' (\<lambda>n. pNumRecords_update (\<lambda>_. sint n)) r;
          r = check (oNumSegments o') (\<lambda>n. n = 0) ''num_segs cannot be 0'' (\<lambda>n. pNumSegments_update (\<lambda>_. sint n)) r;
          r = check (oAttempts o') (\<lambda>n. n = 0) ''attempts cannot be 0'' (\<lambda>n. pAttempts_update (\<lambda>_. sint n)) r;
          r = check (oMaxTTL o') (\<lambda>n. n = 0) ''max_ttl cannot be 0'' (\<lambda>n. pMaxTTL_update (\<lambda>_. uint n)) r;
          r = check (oConnectTimeout o') (\<lambda>d. d \<le> 0) ''connect_timeout must be positive'' (\<lambda>d. pConnectTimeout_update (\<lambda>_. d)) r;
          r = check (oDialDelay o') (\<lambda>d. d \<le> 0) ''dial_delay must be positive'' (\<lambda>d. pDialDelay_update (\<lambda>_. d)) r;
          r = check (oSendInterval o') (\<lambda>d. d < 0) ''send_interval cannot be negative'' (\<lambda>d. pSendInterval_update (\<lambda>_. d)) r;
          r = check (oFakeSleep o') (\<lambda>d. d \<le> 0) ''fake_sleep must be positive'' (\<lambda>d. pFakeSleep_update (\<lambda>_. d)) r;
          r = check (oSingleTimeout o') (\<lambda>d. d \<le> 0) ''single_timeout must be positive'' (\<lambda>d. pSingleTimeout_update (\<lambda>_. d)) r;
          r = check (oDNSCacheTTL o') (\<lambda>d. d < 0) ''dns_cache_ttl cannot be negative'' (\<lambda>d. pDNSCacheTTL_update (\<lambda>_. d)) r;
          r = check (oTTLCacheTTL o') (\<lambda>d. d < 0) ''ttl_cache_ttl cannot be negative'' (\<lambda>d. pTTLCacheTTL_update (\<lambda>_. d)) r;
          r = check (oPort o') (\<lambda>_. False) [] (\<lambda>n. pPort_update (\<lambda>_. uint n)) r;
          r = check (oHttpStatus o') (\<lambda>_. False) [] (\<lambda>n. pHttpStatus_update (\<lambda>_. sint n)) r;
          r = check (oFakeTTL o') (\<lambda>_. False) [] (\<lambda>n. pFakeTTL_update (\<lambda>_. uint n)) r
      in r)"

section \<open>Merging\<close>

text \<open>One field: the merged value is kept once it is set.\<close>

definition pick :: "('a \<Rightarrow> bool) \<Rightarrow> 'a \<Rightarrow> 'a \<Rightarrow> 'a" where
  "pick unset m p = (if unset m \<and> \<not> unset p then p else m)"

definition merge_step :: "policy \<Rightarrow> policy \<Rightarrow> policy" where
  "merge_step m p = m\<lparr>
     pSniffOverrideMode := pick (\<lambda>v. v = SniffOverrideUnset) (pSniffOverrideMode m) (pSniffOverrideMode p),
     pReplyFirst := pick is_unset (pReplyFirst m) (pReplyFirst p),
     pConnectTimeout := pick (\<lambda>v. v = unsetInt) (pConnectTimeout m) (pConnectTimeout p),
     pDialDelay := pick (\<lambda>v. v = unsetInt) (pDialDelay m) (pDialDelay p),
     pHost := pick (\<lambda>v. dst_is_zero (Some v)) (pHost m) (pHost p),
     pMapTo := pick (\<lambda>v. dst_is_zero (Some v)) (pMapTo m) (pMapTo p),
     pPort := pick (\<lambda>v. v = unsetInt) (pPort m) (pPort p),
     pHttpStatus := pick (\<lambda>v. v = unsetInt) (pHttpStatus m) (pHttpStatus p),
     pTLS13Only := pick is_unset (pTLS13Only m) (pTLS13Only p),
     pDisableECHPassthrough := pick is_unset (pDisableECHPassthrough m) (pDisableECHPassthrough p),
     pMode := pick (\<lambda>v. v = ModeUnset) (pMode m) (pMode p),
     pDNSMode := pick (\<lambda>v. v = DNSModeUnset) (pDNSMode m) (pDNSMode p),
     pDNSCacheTTL := pick (\<lambda>v. v = unsetInt) (pDNSCacheTTL m) (pDNSCacheTTL p),
     pNumRecords := pick (\<lambda>v. v = 0) (pNumRecords m) (pNumRecords p),
     pNumSegments := pick (\<lambda>v. v = 0) (pNumSegments m) (pNumSegments p),
     pWaitForAck := pick is_unset (pWaitForAck m) (pWaitForAck p),
     pOOB := pick is_unset (pOOB m) (pOOB p),
     pOOBEx := pick is_unset (pOOBEx m) (pOOBEx p),
     pMinorVer := pick byte_is_unset (pMinorVer m) (pMinorVer p),
     pSendInterval := pick (\<lambda>v. v = unsetInt) (pSendInterval m) (pSendInterval p),
     pFakeSleep := pick (\<lambda>v. v = 0) (pFakeSleep m) (pFakeSleep p),
     pFakeTTL := pick (\<lambda>v. v = unsetInt) (pFakeTTL m) (pFakeTTL p),
     pMaxTTL := pick (\<lambda>v. v = 0) (pMaxTTL m) (pMaxTTL p),
     pAttempts := pick (\<lambda>v. v = 0) (pAttempts m) (pAttempts p),
     pSingleTimeout := pick (\<lambda>v. v = unsetInt) (pSingleTimeout m) (pSingleTimeout p),
     pTTLCacheTTL := pick (\<lambda>v. v = unsetInt) (pTTLCacheTTL m) (pTTLCacheTTL p)\<rparr>"

definition merge_defaults :: "policy \<Rightarrow> policy" where
  "merge_defaults m =
     (let m = (if pMode m = ModeUnset then m\<lparr>pMode := ModeDefault\<rparr> else m)
      in if pDNSMode m = DNSModeUnset then m\<lparr>pDNSMode := DNSModeDefault\<rparr> else m)"

definition mergePolicies :: "policy list \<Rightarrow> policy" where
  "mergePolicies ps = merge_defaults (foldl merge_step (policy_init zero_policy) ps)"

text \<open>What a policy of the configuration satisfies, and what merging keeps.\<close>

definition wf_policy :: "policy \<Rightarrow> bool" where
  "wf_policy p \<longleftrightarrow>
     (pConnectTimeout p = unsetInt \<or> 0 < pConnectTimeout p) \<and>
     (pDialDelay p = unsetInt \<or> 0 < pDialDelay p) \<and>
     (pSingleTimeout p = unsetInt \<or> 0 < pSingleTimeout p) \<and>
     unsetInt \<le> pSendInterval p \<and> 0 \<le> pFakeSleep p \<and>
     unsetInt \<le> pDNSCacheTTL p \<and> unsetInt \<le> pTTLCacheTTL p \<and>
     unsetInt \<le> pPort p \<and> pPort p < 65536 \<and>
     unsetInt \<le> pFakeTTL p \<and> pFakeTTL p < 256 \<and> 0 \<le> pMaxTTL p \<and> pMaxTTL p < 256 \<and>
     wf_dst (pHost p) \<and> wf_dst (pMapTo p)"

section \<open>Description of a policy\<close>

definition Policy_Append :: "policy \<Rightarrow> string \<Rightarrow> string" where
  "Policy_Append p b =
     (let b = (if pConnectTimeout p > 0 then b @ '' dial_timeout='' @ duration_string (pConnectTimeout p) else b);
          b = (if pPort p \<noteq> unsetInt \<and> pPort p \<noteq> 0 then b @ '' port='' @ show_int (pPort p) else b);
          b = (if dst_is_zero (Some (pHost p)) then
                 let b = (if pDNSMode p \<noteq> DNSModeUnset then b @ '' dns_mode='' @ dns_mode_string (pDNSMode p) else b)
                 in if pDNSCacheTTL p > 0 then b @ '' dns_cache_ttl='' @ duration_string (pDNSCacheTTL p) else b
               else b);
          b = (if pHttpStatus p > 0 then b @ '' http_status='' @ show_int (pHttpStatus p) else b);
          b = (if is_true (pTLS13Only p) then b @ '' tls13_only'' else b);
          b = (if is_true (pDisableECHPassthrough p) then b @ '' disable_ech_passthrough'' else b);
          b = b @ '' mode='' @ mode_string (pMode p)
      in if pMode p = ModeTLSRF then
           let b = (if \<not> byte_is_zero (pMinorVer p) then b @ '' tls_minor_ver='' @ format_byte (byteVal (pMinorVer p)) else b);
               b = (if pNumRecords p \<noteq> 0 then b @ '' tls_records='' @ show_int (pNumRecords p) else b);
               b = (if pNumSegments p \<noteq> 0 then
                      let b = b @ '' tcp_segments='' @ show_int (pNumSegments p)
                      in if pSendInterval p > 0 then b @ '' send_interval='' @ duration_string (pSendInterval p) else b
                    else b);
               b = (if is_true (pOOB p) then b @ '' oob'' else b)
           in if is_true (pOOBEx p) then b @ '' oob_ex'' else b
         else if pMode p = ModeTTLD then
           let b = b @ '' fake_ttl='';
               b = (if pFakeTTL p \<noteq> unsetInt \<and> pFakeTTL p \<noteq> 0 then b @ show_int (pFakeTTL p)
                    else
                      let b = b @ ''auto'';
                          b = (if pAttempts p \<noteq> 0 then b @ '' ttl_probing_attempts='' @ show_int (pAttempts p) else b);
                          b = (if pMaxTTL p \<noteq> 0 then b @ '' ttl_probing_max_ttl='' @ show_int (pMaxTTL p) else b);
                          b = (if pSingleTimeout p \<noteq> 0
                               then b @ '' ttl_probing_single_timeout='' @ duration_string (pSingleTimeout p) else b)
                      in if pTTLCacheTTL p > 0 then b @ '' ttl_cache_ttl='' @ duration_string (pTTLCacheTTL p) else b)
           in if pFakeSleep p \<noteq> 0 then b @ '' fake_sleep='' @ duration_string (pFakeSleep p) else b
         else b)"

section \<open>Lemmas\<close>

text \<open>The value of a field after merging: the first value of the list that is set.\<close>

fun first_set :: "('a \<Rightarrow> bool) \<Rightarrow> 'a \<Rightarrow> 'a list \<Rightarrow> 'a" where
  "first_set unset d [] = d"
| "first_set unset d (x # xs) = (if unset x then first_set unset d xs else x)"

lemma first_set_append:
  "unset d \<Longrightarrow> first_set unset d (xs @ ys) = first_set unset (first_set unset d ys) xs"
  by (induction xs) auto

lemma first_set_unset: "unset (first_set unset d xs) \<Longrightarrow> first_set unset d xs = d"
  by (induction xs) (auto split: if_splits)

lemma first_set_default: "first_set unset d xs = first_set unset d' xs \<or> list_all unset xs"
  by (induction xs) auto

lemma fold_field:
  assumes "\<And>m p. f (merge_step m p) = pick unset (f m) (f p)"
  shows "f (foldl merge_step m ps) = (if unset (f m) then first_set unset (f m) (map f ps) else f m)"
proof (induction ps arbitrary: m)
  case (Cons p ps)
  then show ?case by (simp add: assms pick_def)
qed simp

lemma merge_defaults_simps [simp]:
  "pSniffOverrideMode (merge_defaults m) = pSniffOverrideMode m"
  "pReplyFirst (merge_defaults m) = pReplyFirst m"
  "pConnectTimeout (merge_defaults m) = pConnectTimeout m"
  "pDialDelay (merge_defaults m) = pDialDelay m"
  "pHost (merge_defaults m) = pHost m"
  "pMapTo (merge_defaults m) = pMapTo m"
  "pPort (merge_defaults m) = pPort m"
  "pHttpStatus (merge_defaults m) = pHttpStatus m"
  "pTLS13Only (merge_defaults m) = pTLS13Only m"
  "pDisableECHPassthrough (merge_defaults m) = pDisableECHPassthrough m"
  "pMode (merge_defaults m) = (if pMode m = ModeUnset then ModeDefault else pMode m)"
  "pDNSMode (merge_defaults m) = (if pDNSMode m = DNSModeUnset then DNSModeDefault else pDNSMode m)"
  "pDNSCacheTTL (merge_defaults m) = pDNSCacheTTL m"
  "pNumRecords (merge_defaults m) = pNumRecords m"
  "pNumSegments (merge_defaults m) = pNumSegments m"
  "pWaitForAck (merge_defaults m) = pWaitForAck m"
  "pOOB (merge_defaults m) = pOOB m"
  "pOOBEx (merge_defaults m) = pOOBEx m"
  "pMinorVer (merge_defaults m) = pMinorVer m"
  "pSendInterval (merge_defaults m) = pSendInterval m"
  "pFakeSleep (merge_defaults m) = pFakeSleep m"
  "pFakeTTL (merge_defaults m) = pFakeTTL m"
  "pMaxTTL (merge_defaults m) = pMaxTTL m"
  "pAttempts (merge_defaults m) = pAttempts m"
  "pSingleTimeout (merge_defaults m) = pSingleTimeout m"
  "pTTLCacheTTL (merge_defaults m) = pTTLCacheTTL m"
  by (simp_all add: merge_defaults_def Let_def)

lemma merge_step_simps [simp]:
  "pSniffOverrideMode (merge_step m p) = pick (\<lambda>v. v = SniffOverrideUnset) (pSniffOverrideMode m) (pSniffOverrideMode p)"
  "pReplyFirst (merge_step m p) = pick is_unset (pReplyFirst m) (pReplyFirst p)"
  "pConnectTimeout (merge_step m p) = pick (\<lambda>v. v = unsetInt) (pConnectTimeout m) (pConnectTimeout p)"
  "pDialDelay (merge_step m p) = pick (\<lambda>v. v = unsetInt) (pDialDelay m) (pDialDelay p)"
  "pHost (merge_step m p) = pick (\<lambda>v. dst_is_zero (Some v)) (pHost m) (pHost p)"
  "pMapTo (merge_step m p) = pick (\<lambda>v. dst_is_zero (Some v)) (pMapTo m) (pMapTo p)"
  "pPort (merge_step m p) = pick (\<lambda>v. v = unsetInt) (pPort m) (pPort p)"
  "pHttpStatus (merge_step m p) = pick (\<lambda>v. v = unsetInt) (pHttpStatus m) (pHttpStatus p)"
  "pTLS13Only (merge_step m p) = pick is_unset (pTLS13Only m) (pTLS13Only p)"
  "pDisableECHPassthrough (merge_step m p) = pick is_unset (pDisableECHPassthrough m) (pDisableECHPassthrough p)"
  "pMode (merge_step m p) = pick (\<lambda>v. v = ModeUnset) (pMode m) (pMode p)"
  "pDNSMode (merge_step m p) = pick (\<lambda>v. v = DNSModeUnset) (pDNSMode m) (pDNSMode p)"
  "pDNSCacheTTL (merge_step m p) = pick (\<lambda>v. v = unsetInt) (pDNSCacheTTL m) (pDNSCacheTTL p)"
  "pNumRecords (merge_step m p) = pick (\<lambda>v. v = 0) (pNumRecords m) (pNumRecords p)"
  "pNumSegments (merge_step m p) = pick (\<lambda>v. v = 0) (pNumSegments m) (pNumSegments p)"
  "pWaitForAck (merge_step m p) = pick is_unset (pWaitForAck m) (pWaitForAck p)"
  "pOOB (merge_step m p) = pick is_unset (pOOB m) (pOOB p)"
  "pOOBEx (merge_step m p) = pick is_unset (pOOBEx m) (pOOBEx p)"
  "pMinorVer (merge_step m p) = pick byte_is_unset (pMinorVer m) (pMinorVer p)"
  "pSendInterval (merge_step m p) = pick (\<lambda>v. v = unsetInt) (pSendInterval m) (pSendInterval p)"
  "pFakeSleep (merge_step m p) = pick (\<lambda>v. v = 0) (pFakeSleep m) (pFakeSleep p)"
  "pFakeTTL (merge_step m p) = pick (\<lambda>v. v = unsetInt) (pFakeTTL m) (pFakeTTL p)"
  "pMaxTTL (merge_step m p) = pick (\<lambda>v. v = 0) (pMaxTTL m) (pMaxTTL p)"
  "pAttempts (merge_step m p) = pick (\<lambda>v. v = 0) (pAttempts m) (pAttempts p)"
  "pSingleTimeout (merge_step m p) = pick (\<lambda>v. v = unsetInt) (pSingleTimeout m) (pSingleTimeout p)"
  "pTTLCacheTTL (merge_step m p) = pick (\<lambda>v. v = unsetInt) (pTTLCacheTTL m) (pTTLCacheTTL p)"
  by (simp_all add: merge_step_def)

lemma init_simps [simp]:
  "pSniffOverrideMode (policy_init zero_policy) = SniffOverrideUnset"
  "pReplyFirst (policy_init zero_policy) = BoolUnset"
  "pConnectTimeout (policy_init zero_policy) = unsetInt"
  "pDialDelay (policy_init zero_policy) = unsetInt"
  "pHost (policy_init zero_policy) = zero_dst"
  "pMapTo (policy_init zero_policy) = zero_dst"
  "pPort (policy_init zero_policy) = unsetInt"
  "pHttpStatus (policy_init zero_policy) = unsetInt"
  "pTLS13Only (policy_init zero_policy) = BoolUnset"
  "pDisableECHPassthrough (policy_init zero_policy) = BoolUnset"
  "pMode (policy_init zero_policy) = ModeUnset"
  "pDNSMode (policy_init zero_policy) = DNSModeUnset"
  "pDNSCacheTTL (policy_init zero_policy) = unsetInt"
  "pNumRecords (policy_init zero_policy) = 0"
  "pNumSegments (policy_init zero_policy) = 0"
  "pWaitForAck (policy_init zero_policy) = BoolUnset"
  "pOOB (policy_init zero_policy) = BoolUnset"
  "pOOBEx (policy_init zero_policy) = BoolUnset"
  "pMinorVer (policy_init zero_policy) = zero_byte"
  "pSendInterval (policy_init zero_policy) = unsetInt"
  "pFakeSleep (policy_init zero_policy) = 0"
  "pFakeTTL (policy_init zero_policy) = unsetInt"
  "pMaxTTL (policy_init zero_policy) = 0"
  "pAttempts (policy_init zero_policy) = 0"
  "pSingleTimeout (policy_init zero_policy) = unsetInt"
  "pTTLCacheTTL (policy_init zero_policy) = unsetInt"
  by (simp_all add: policy_init_def zero_policy_def)

lemma unset_simps [simp]: "is_unset BoolUnset" "byte_is_unset zero_byte"
  by (simp_all add: is_unset_def byte_is_unset_def zero_byte_def)

lemma first_set_or_default:
  "unset d \<Longrightarrow> (if unset (first_set unset d xs) then d' else first_set unset d xs) = first_set unset d' xs"
  by (induction xs) auto

lemma first_set_is_set: "\<not> unset d \<Longrightarrow> \<not> unset (first_set unset d xs)"
  by (induction xs) auto

lemma first_set_nested: "first_set unset d (xs @ [first_set unset d ys]) = first_set unset d (xs @ ys)"
  by (induction xs) (auto dest: first_set_unset)

lemma merged_SniffOverrideMode: "pSniffOverrideMode (mergePolicies ps) = first_set (\<lambda>v. v = SniffOverrideUnset) SniffOverrideUnset (map pSniffOverrideMode ps)"
  unfolding mergePolicies_def merge_defaults_simps by (subst fold_field [of pSniffOverrideMode "(\<lambda>v. v = SniffOverrideUnset)"]) simp_all

lemma merged_ReplyFirst: "pReplyFirst (mergePolicies ps) = first_set is_unset BoolUnset (map pReplyFirst ps)"
  unfolding mergePolicies_def merge_defaults_simps by (subst fold_field [of pReplyFirst "is_unset"]) simp_all

lemma merged_ConnectTimeout: "pConnectTimeout (mergePolicies ps) = first_set (\<lambda>v. v = unsetInt) unsetInt (map pConnectTimeout ps)"
  unfolding mergePolicies_def merge_defaults_simps by (subst fold_field [of pConnectTimeout "(\<lambda>v. v = unsetInt)"]) simp_all

lemma merged_DialDelay: "pDialDelay (mergePolicies ps) = first_set (\<lambda>v. v = unsetInt) unsetInt (map pDialDelay ps)"
  unfolding mergePolicies_def merge_defaults_simps by (subst fold_field [of pDialDelay "(\<lambda>v. v = unsetInt)"]) simp_all

lemma merged_Host: "pHost (mergePolicies ps) = first_set (\<lambda>v. dst_is_zero (Some v)) zero_dst (map pHost ps)"
  unfolding mergePolicies_def merge_defaults_simps by (subst fold_field [of pHost "(\<lambda>v. dst_is_zero (Some v))"]) simp_all

lemma merged_MapTo: "pMapTo (mergePolicies ps) = first_set (\<lambda>v. dst_is_zero (Some v)) zero_dst (map pMapTo ps)"
  unfolding mergePolicies_def merge_defaults_simps by (subst fold_field [of pMapTo "(\<lambda>v. dst_is_zero (Some v))"]) simp_all

lemma merged_Port: "pPort (mergePolicies ps) = first_set (\<lambda>v. v = unsetInt) unsetInt (map pPort ps)"
  unfolding mergePolicies_def merge_defaults_simps by (subst fold_field [of pPort "(\<lambda>v. v = unsetInt)"]) simp_all

lemma merged_HttpStatus: "pHttpStatus (mergePolicies ps) = first_set (\<lambda>v. v = unsetInt) unsetInt (map pHttpStatus ps)"
  unfolding mergePolicies_def merge_defaults_simps by (subst fold_field [of pHttpStatus "(\<lambda>v. v = unsetInt)"]) simp_all

lemma merged_TLS13Only: "pTLS13Only (mergePolicies ps) = first_set is_unset BoolUnset (map pTLS13Only ps)"
  unfolding mergePolicies_def merge_defaults_simps by (subst fold_field [of pTLS13Only "is_unset"]) simp_all

lemma merged_DisableECHPassthrough: "pDisableECHPassthrough (mergePolicies ps) = first_set is_unset BoolUnset (map pDisableECHPassthrough ps)"
  unfolding mergePolicies_def merge_defaults_simps by (subst fold_field [of pDisableECHPassthrough "is_unset"]) simp_all

lemma merged_Mode: "pMode (mergePolicies ps) = first_set (\<lambda>v. v = ModeUnset) ModeDefault (map pMode ps)"
proof -
  have "pMode (foldl merge_step (policy_init zero_policy) ps) = first_set (\<lambda>v. v = ModeUnset) ModeUnset (map pMode ps)"
    by (subst fold_field [of pMode "(\<lambda>v. v = ModeUnset)"]) simp_all
  then show ?thesis
    using first_set_or_default [of "(\<lambda>v. v = ModeUnset)" ModeUnset "map pMode ps" ModeDefault]
    by (simp only: mergePolicies_def merge_defaults_simps)
qed

lemma merged_DNSMode: "pDNSMode (mergePolicies ps) = first_set (\<lambda>v. v = DNSModeUnset) DNSModeDefault (map pDNSMode ps)"
proof -
  have "pDNSMode (foldl merge_step (policy_init zero_policy) ps) = first_set (\<lambda>v. v = DNSModeUnset) DNSModeUnset (map pDNSMode ps)"
    by (subst fold_field [of pDNSMode "(\<lambda>v. v = DNSModeUnset)"]) simp_all
  then show ?thesis
    using first_set_or_default [of "(\<lambda>v. v = DNSModeUnset)" DNSModeUnset "map pDNSMode ps" DNSModeDefault]
    by (simp only: mergePolicies_def merge_defaults_simps)
qed

lemma merged_DNSCacheTTL: "pDNSCacheTTL (mergePolicies ps) = first_set (\<lambda>v. v = unsetInt) unsetInt (map pDNSCacheTTL ps)"
  unfolding mergePolicies_def merge_defaults_simps by (subst fold_field [of pDNSCacheTTL "(\<lambda>v. v = unsetInt)"]) simp_all

lemma merged_NumRecords: "pNumRecords (mergePolicies ps) = first_set (\<lambda>v. v = 0) 0 (map pNumRecords ps)"
  unfolding mergePolicies_def merge_defaults_simps by (subst fold_field [of pNumRecords "(\<lambda>v. v = 0)"]) simp_all

lemma merged_NumSegments: "pNumSegments (mergePolicies ps) = first_set (\<lambda>v. v = 0) 0 (map pNumSegments ps)"
  unfolding mergePolicies_def merge_defaults_simps by (subst fold_field [of pNumSegments "(\<lambda>v. v = 0)"]) simp_all

lemma merged_WaitForAck: "pWaitForAck (mergePolicies ps) = first_set is_unset BoolUnset (map pWaitForAck ps)"
  unfolding mergePolicies_def merge_defaults_simps by (subst fold_field [of pWaitForAck "is_unset"]) simp_all

lemma merged_OOB: "pOOB (mergePolicies ps) = first_set is_unset BoolUnset (map pOOB ps)"
  unfolding mergePolicies_def merge_defaults_simps by (subst fold_field [of pOOB "is_unset"]) simp_all

lemma merged_OOBEx: "pOOBEx (mergePolicies ps) = first_set is_unset BoolUnset (map pOOBEx ps)"
  unfolding mergePolicies_def merge_defaults_simps by (subst fold_field [of pOOBEx "is_unset"]) simp_all

lemma merged_MinorVer: "pMinorVer (mergePolicies ps) = first_set byte_is_unset zero_byte (map pMinorVer ps)"
  unfolding mergePolicies_def merge_defaults_simps by (subst fold_field [of pMinorVer "byte_is_unset"]) simp_all

lemma merged_SendInterval: "pSendInterval (mergePolicies ps) = first_set (\<lambda>v. v = unsetInt) unsetInt (map pSendInterval ps)"
  unfolding mergePolicies_def merge_defaults_simps by (subst fold_field [of pSendInterval "(\<lambda>v. v = unsetInt)"]) simp_all

lemma merged_FakeSleep: "pFakeSleep (mergePolicies ps) = first_set (\<lambda>v. v = 0) 0 (map pFakeSleep ps)"
  unfolding mergePolicies_def merge_defaults_simps by (subst fold_field [of pFakeSleep "(\<lambda>v. v = 0)"]) simp_all

lemma merged_FakeTTL: "pFakeTTL (mergePolicies ps) = first_set (\<lambda>v. v = unsetInt) unsetInt (map pFakeTTL ps)"
  unfolding mergePolicies_def merge_defaults_simps by (subst fold_field [of pFakeTTL "(\<lambda>v. v = unsetInt)"]) simp_all

lemma merged_MaxTTL: "pMaxTTL (mergePolicies ps) = first_set (\<lambda>v. v = 0) 0 (map pMaxTTL ps)"
  unfolding mergePolicies_def merge_defaults_simps by (subst fold_field [of pMaxTTL "(\<lambda>v. v = 0)"]) simp_all

lemma merged_Attempts: "pAttempts (mergePolicies ps) = first_set (\<lambda>v. v = 0) 0 (map pAttempts ps)"
  unfolding mergePolicies_def merge_defaults_simps by (subst fold_field [of pAttempts "(\<lambda>v. v = 0)"]) simp_all

lemma merged_SingleTimeout: "pSingleTimeout (mergePolicies ps) = first_set (\<lambda>v. v = unsetInt) unsetInt (map pSingleTimeout ps)"
  unfolding mergePolicies_def merge_defaults_simps by (subst fold_field [of pSingleTimeout "(\<lambda>v. v = unsetInt)"]) simp_all

lemma merged_TTLCacheTTL: "pTTLCacheTTL (mergePolicies ps) = first_set (\<lambda>v. v = unsetInt) unsetInt (map pTTLCacheTTL ps)"
  unfolding mergePolicies_def merge_defaults_simps by (subst fold_field [of pTTLCacheTTL "(\<lambda>v. v = unsetInt)"]) simp_all

lemmas merged_simps =
  merged_SniffOverrideMode merged_ReplyFirst merged_ConnectTimeout merged_DialDelay merged_Host
  merged_MapTo merged_Port merged_HttpStatus merged_TLS13Only merged_DisableECHPassthrough
  merged_Mode merged_DNSMode merged_DNSCacheTTL merged_NumRecords merged_NumSegments
  merged_WaitForAck merged_OOB merged_OOBEx merged_MinorVer merged_SendInterval
  merged_FakeSleep merged_FakeTTL merged_MaxTTL merged_Attempts merged_SingleTimeout
  merged_TTLCacheTTL

text \<open>
  C30. Every field of a merged policy is that of the first policy in the list that sets it,
  whatever the later ones say; a field that no policy sets stays unset, except the mode and
  the DNS mode, which get their defaults.
\<close>

theorem mergePolicies_first_set:
  "pSniffOverrideMode (mergePolicies ps) = first_set (\<lambda>v. v = SniffOverrideUnset) SniffOverrideUnset (map pSniffOverrideMode ps) \<and>
    pReplyFirst (mergePolicies ps) = first_set is_unset BoolUnset (map pReplyFirst ps) \<and>
    pConnectTimeout (mergePolicies ps) = first_set (\<lambda>v. v = unsetInt) unsetInt (map pConnectTimeout ps) \<and>
    pDialDelay (mergePolicies ps) = first_set (\<lambda>v. v = unsetInt) unsetInt (map pDialDelay ps) \<and>
    pHost (mergePolicies ps) = first_set (\<lambda>v. dst_is_zero (Some v)) zero_dst (map pHost ps) \<and>
    pMapTo (mergePolicies ps) = first_set (\<lambda>v. dst_is_zero (Some v)) zero_dst (map pMapTo ps) \<and>
    pPort (mergePolicies ps) = first_set (\<lambda>v. v = unsetInt) unsetInt (map pPort ps) \<and>
    pHttpStatus (mergePolicies ps) = first_set (\<lambda>v. v = unsetInt) unsetInt (map pHttpStatus ps) \<and>
    pTLS13Only (mergePolicies ps) = first_set is_unset BoolUnset (map pTLS13Only ps) \<and>
    pDisableECHPassthrough (mergePolicies ps) = first_set is_unset BoolUnset (map pDisableECHPassthrough ps) \<and>
    pDNSCacheTTL (mergePolicies ps) = first_set (\<lambda>v. v = unsetInt) unsetInt (map pDNSCacheTTL ps) \<and>
    pNumRecords (mergePolicies ps) = first_set (\<lambda>v. v = 0) 0 (map pNumRecords ps) \<and>
    pNumSegments (mergePolicies ps) = first_set (\<lambda>v. v = 0) 0 (map pNumSegments ps) \<and>
    pWaitForAck (mergePolicies ps) = first_set is_unset BoolUnset (map pWaitForAck ps) \<and>
    pOOB (mergePolicies ps) = first_set is_unset BoolUnset (map pOOB ps) \<and>
    pOOBEx (mergePolicies ps) = first_set is_unset BoolUnset (map pOOBEx ps) \<and>
    pMinorVer (mergePolicies ps) = first_set byte_is_unset zero_byte (map pMinorVer ps) \<and>
    pSendInterval (mergePolicies ps) = first_set (\<lambda>v. v = unsetInt) unsetInt (map pSendInterval ps) \<and>
    pFakeSleep (mergePolicies ps) = first_set (\<lambda>v. v = 0) 0 (map pFakeSleep ps) \<and>
    pFakeTTL (mergePolicies ps) = first_set (\<lambda>v. v = unsetInt) unsetInt (map pFakeTTL ps) \<and>
    pMaxTTL (mergePolicies ps) = first_set (\<lambda>v. v = 0) 0 (map pMaxTTL ps) \<and>
    pAttempts (mergePolicies ps) = first_set (\<lambda>v. v = 0) 0 (map pAttempts ps) \<and>
    pSingleTimeout (mergePolicies ps) = first_set (\<lambda>v. v = unsetInt) unsetInt (map pSingleTimeout ps) \<and>
    pTTLCacheTTL (mergePolicies ps) = first_set (\<lambda>v. v = unsetInt) unsetInt (map pTTLCacheTTL ps) \<and>
    pMode (mergePolicies ps) = first_set (\<lambda>v. v = ModeUnset) ModeDefault (map pMode ps) \<and>
    pDNSMode (mergePolicies ps) = first_set (\<lambda>v. v = DNSModeUnset) DNSModeDefault (map pDNSMode ps)"
  by (simp only: merged_simps simp_thms)

text \<open>
  Merging in two steps is merging at once: a policy merged from the lower priorities can
  stand for them at the end of the list.
\<close>

theorem mergePolicies_nested: "mergePolicies (ps @ [mergePolicies qs]) = mergePolicies (ps @ qs)"
  by (rule policy.equality) (simp_all only: merged_simps map_append list.map first_set_nested, simp)

text \<open>A merged policy always has a mode and a DNS mode.\<close>

theorem mergePolicies_mode_set: "pMode (mergePolicies ps) \<noteq> ModeUnset \<and> pDNSMode (mergePolicies ps) \<noteq> DNSModeUnset"
  using first_set_is_set [of "\<lambda>v. v = ModeUnset" ModeDefault "map pMode ps"]
    first_set_is_set [of "\<lambda>v. v = DNSModeUnset" DNSModeDefault "map pDNSMode ps"]
  by (simp add: merged_Mode merged_DNSMode ModeDefault_def DNSModeDefault_def)

section \<open>Checked options\<close>

definition accepts :: "error + 'a \<Rightarrow> ('a \<Rightarrow> bool) \<Rightarrow> bool" where
  "accepts r P \<longleftrightarrow> (\<forall>p. r = Inr p \<longrightarrow> P p)"

lemma accepts_check:
  assumes "accepts r P" and "\<And>v q. \<not> bad v \<Longrightarrow> P q \<Longrightarrow> P (upd v q)"
  shows "accepts (check opt bad msg upd r) P"
  using assms by (auto simp: accepts_def check_def split: sum.splits option.splits if_splits)

lemma check_Inl: "isl (check opt bad msg upd r) \<longleftrightarrow> isl r \<or> (\<exists>v. opt = Some v \<and> bad v)"
  by (auto simp: check_def split: sum.splits option.splits)

lemma word_ranges [simp]:
  "uint (w8 :: 8 word) < 256" "uint (w16 :: 16 word) < 65536" "- 1 \<le> uint (w :: 'a::len word)"
proof -
  show "uint w8 < 256" using uint_lt2p [of w8] by simp
  show "uint w16 < 65536" using uint_lt2p [of w16] by simp
  have "0 \<le> uint w" by simp
  then show "- 1 \<le> uint w" by linarith
qed

lemma newPolicy_wf:
  assumes "wf_dst (oHost o')" and "wf_dst (oMapTo o')" and "newPolicy o' = Inr p"
  shows "wf_policy p"
proof -
  have "accepts (newPolicy o') wf_policy"
    unfolding newPolicy_def Let_def
    by (intro accepts_check)
      (auto simp: accepts_def wf_policy_def unsetInt_def policy_init_def zero_policy_def assms(1,2))
  then show ?thesis using assms(3) by (simp add: accepts_def)
qed

lemma first_set_keeps: "P d \<Longrightarrow> (\<And>x. x \<in> set xs \<Longrightarrow> P x) \<Longrightarrow> P (first_set unset d xs)"
  by (induction xs) auto

lemma mergePolicies_wf:
  assumes "\<And>p. p \<in> set ps \<Longrightarrow> wf_policy p"
  shows "wf_policy (mergePolicies ps)"
  unfolding wf_policy_def merged_simps
  by (intro conjI; rule first_set_keeps) (use assms in \<open>auto simp: wf_policy_def unsetInt_def\<close>)

text \<open>
  C0. \<^verbatim>\<open>newPolicy\<close> refuses exactly the options with a count of zero, a timeout, delay or
  sleep that is not positive, or a negative interval or lifetime; every other numeric option is taken as it is.
\<close>

theorem newPolicy_refuses:
  "isl (newPolicy o') \<longleftrightarrow>
    oNumRecords o' = Some 0 \<or> oNumSegments o' = Some 0 \<or> oAttempts o' = Some 0 \<or> oMaxTTL o' = Some 0 \<or>
    (\<exists>d \<le> 0. oConnectTimeout o' = Some d \<or> oDialDelay o' = Some d \<or> oFakeSleep o' = Some d \<or> oSingleTimeout o' = Some d) \<or>
    (\<exists>d < 0. oSendInterval o' = Some d \<or> oDNSCacheTTL o' = Some d \<or> oTTLCacheTTL o' = Some d)"
  unfolding newPolicy_def Let_def check_Inl by (simp only: sum.disc simp_thms ex_simps) blast

text \<open>
  C31. A policy made from checked options and any merge of such policies keeps the bounds the
  rest of the program relies on: timeouts unset or positive, lifetimes and intervals unset or
  not negative, ports and TTLs in their ranges, destinations whose text can be read.
\<close>

theorem policies_well_formed:
  assumes "\<forall>o' \<in> set os. wf_dst (oHost o') \<and> wf_dst (oMapTo o')"
    and "map newPolicy os = map Inr ps"
  shows "(\<forall>p \<in> set ps. wf_policy p) \<and> wf_policy (mergePolicies ps)"
proof -
  have "\<forall>p \<in> set ps. \<exists>o' \<in> set os. newPolicy o' = Inr p"
  proof
    fix p assume "p \<in> set ps"
    then have "Inr p \<in> set (map newPolicy os)" by (auto simp: assms(2))
    then show "\<exists>o' \<in> set os. newPolicy o' = Inr p" by (metis image_iff list.set_map)
  qed
  then have "\<forall>p \<in> set ps. wf_policy p" using assms(1) newPolicy_wf by blast
  then show ?thesis using mergePolicies_wf by blast
qed

text \<open>
  The names of the modes and of the DNS modes read back: a JSON value is accepted exactly
  when it is the printed name of a mode that is not the unset one.
\<close>

theorem mode_names_round_trip:
  "(mode_unmarshal j = Inr m \<longleftrightarrow> m \<noteq> ModeUnset \<and> j = JString (mode_string m)) \<and>
   (dns_mode_unmarshal j = Inr d \<longleftrightarrow> d \<noteq> DNSModeUnset \<and> j = JString (dns_mode_string d))"
proof
  show "mode_unmarshal j = Inr m \<longleftrightarrow> m \<noteq> ModeUnset \<and> j = JString (mode_string m)"
    by (cases j; cases m) (auto simp: mode_unmarshal_def mode_string_def unmarshal_string_def)
  show "dns_mode_unmarshal j = Inr d \<longleftrightarrow> d \<noteq> DNSModeUnset \<and> j = JString (dns_mode_string d)"
    by (cases j; cases d) (auto simp: dns_mode_unmarshal_def dns_mode_string_def unmarshal_string_def)
qed

definition default_options :: policy_options where
  "default_options =
    \<lparr>oSniffOverrideMode = SniffOverrideUnset, oReplyFirst = BoolUnset, oConnectTimeout = None,
     oDialDelay = None, oHost = zero_dst, oMapTo = zero_dst, oPort = None, oDNSMode = DNSModeUnset,
     oDNSCacheTTL = None, oHttpStatus = None, oTLS13Only = BoolUnset, oDisableECHPassthrough = BoolUnset,
     oMode = ModeUnset, oNumRecords = None, oNumSegments = None, oWaitForAck = BoolUnset, oOOB = BoolUnset,
     oOOBEx = BoolUnset, oMinorVer = zero_byte, oSendInterval = None, oFakeTTL = None, oFakeSleep = None,
     oMaxTTL = None, oAttempts = None, oSingleTimeout = None, oTTLCacheTTL = None\<rparr>"

theorem policies_well_formed_witness:
  "\<exists>p. newPolicy (default_options\<lparr>oPort := Some 443, oHost := new_single_dst ''h''\<rparr>) = Inr p \<and>
     wf_policy (mergePolicies [p])"
proof -
  let ?o = "default_options\<lparr>oPort := Some 443, oHost := new_single_dst ''h''\<rparr>"
  have "\<not> isl (newPolicy ?o)" by (simp add: newPolicy_def Let_def check_Inl default_options_def)
  then obtain p where "newPolicy ?o = Inr p" by (cases "newPolicy ?o") auto
  then show ?thesis
    using policies_well_formed [of "[?o]" "[p]"] by (auto simp: default_options_def)
qed

end
