(* ===== verification/Dns.thy ===== *)
theory Dns
  imports Policy Sharded_LRU
begin

text \<open>
  The resolver of \<^verbatim>\<open>internal/core/dns.go\<close>: building a question, choosing addresses from an
  answer by mode, the cache, and the client that waits for a better answer than the first.
  What \<^verbatim>\<open>github.com/miekg/dns\<close> and the network do is the record \<open>dns_ops\<close>, an argument:
  the exchange of a message, fresh identifiers, the clock, and two of its tables. A nil
  \<^verbatim>\<open>net.IP\<close> is the empty list of bytes; \<open>None\<close> is a panic.
\<close>

section \<open>Messages\<close>

datatype rr = RR_A bytes | RR_AAAA bytes | RR_OPT "nat list" | RR_Other

record dns_msg =
  msgId :: nat
  recursionDesired :: bool
  question :: "(string \<times> nat) list"
  rcode :: nat
  answer :: "rr list"
  nsRecords :: "rr list"
  extra :: "rr list"

definition new_msg :: dns_msg where
  "new_msg = \<lparr>msgId = 0, recursionDesired = False, question = [], rcode = 0, answer = [], nsRecords = [], extra = []\<rparr>"

definition TypeA :: nat where "TypeA = 1"
definition TypeAAAA :: nat where "TypeAAAA = 28"
definition EDNS0SUBNET :: nat where "EDNS0SUBNET = 8"

record 'n dns_ops =
  dnsExchange :: "dns_msg \<Rightarrow> 'n \<Rightarrow> (error + dns_msg) \<times> 'n"
  dnsId :: "'n \<Rightarrow> nat \<times> 'n"
  dnsNow :: "'n \<Rightarrow> int \<times> 'n"
  dnsFqdn :: "string \<Rightarrow> string"
  rcodeToString :: "nat \<Rightarrow> string"

record dns_resolver =
  edns0SubnetOpt :: "rr option"
  qtype2 :: nat
  singleFlight :: bool

section \<open>Records of an answer\<close>

fun pickFirstARecord :: "rr list \<Rightarrow> bytes" where
  "pickFirstARecord [] = []"
| "pickFirstARecord (r # rs) = (case r of RR_A ip \<Rightarrow> ip | _ \<Rightarrow> pickFirstARecord rs)"

fun pickFirstAAAARecord :: "rr list \<Rightarrow> bytes" where
  "pickFirstAAAARecord [] = []"
| "pickFirstAAAARecord (r # rs) = (case r of RR_AAAA ip \<Rightarrow> ip | _ \<Rightarrow> pickFirstAAAARecord rs)"

text \<open>The slices start as \<^verbatim>\<open>make([]net.IP, 0)\<close>: the result is never nil, so it is a list.\<close>

fun pickARecords :: "rr list \<Rightarrow> bytes list" where
  "pickARecords [] = []"
| "pickARecords (r # rs) = (case r of RR_A ip \<Rightarrow> ip # pickARecords rs | _ \<Rightarrow> pickARecords rs)"

fun pickAAAARecords :: "rr list \<Rightarrow> bytes list" where
  "pickAAAARecords [] = []"
| "pickAAAARecords (r # rs) = (case r of RR_AAAA ip \<Rightarrow> ip # pickAAAARecords rs | _ \<Rightarrow> pickAAAARecords rs)"

definition hasEDNS0Subnet :: "dns_msg \<Rightarrow> bool" where
  "hasEDNS0Subnet m = list_ex (\<lambda>r. case r of RR_OPT os \<Rightarrow> EDNS0SUBNET \<in> set os | _ \<Rightarrow> False) (extra m)"

section \<open>Questions and answers\<close>

definition dnsMsgSetQuestion :: "'n dns_ops \<Rightarrow> dns_resolver \<Rightarrow> dns_msg \<Rightarrow> string \<Rightarrow> nat \<Rightarrow> 'n \<Rightarrow> dns_msg \<times> 'n" where
  "dnsMsgSetQuestion ops r msg fqdn qtype n =
     (let (i, n) = dnsId ops n
      in (msg\<lparr>msgId := i, recursionDesired := True,
            question := (if qtype2 r = 0 then [(fqdn, qtype)] else [(fqdn, qtype), (fqdn, qtype2 r)])\<rparr>, n))"

definition bad_rcode :: "'n dns_ops \<Rightarrow> dns_msg \<Rightarrow> error" where
  "bad_rcode ops resp = NewError (''bad rcode: '' @ rcodeToString ops (rcode resp))"

text \<open>The second question of the modes that prefer one family; \<open>err\<close> is the error of the first exchange.\<close>

definition ask_other ::
  "'n dns_ops \<Rightarrow> dns_resolver \<Rightarrow> string \<Rightarrow> nat \<Rightarrow> dns_msg \<Rightarrow> error option \<Rightarrow> 'n \<Rightarrow> (error + rr list) \<times> 'n" where
  "ask_other ops r domain qtype msg err n =
     (let (msg, n) = dnsMsgSetQuestion ops r msg domain qtype n;
          (x, n) = dnsExchange ops msg n
      in (case x of
            Inl err2 \<Rightarrow> (Inl (OpError ''dns exchange'' (the (join_errors [err, Some err2]))), n)
          | Inr resp \<Rightarrow> (if rcode resp \<noteq> 0 then Inl (bad_rcode ops resp) else Inr (answer resp), n)))"

definition one_record :: "string \<Rightarrow> (rr list \<Rightarrow> bytes) \<Rightarrow> error + rr list \<Rightarrow> error + bytes" where
  "one_record msg sel x =
     (case x of Inl e \<Rightarrow> Inl e | Inr ans \<Rightarrow> if sel ans = [] then Inl (NewError msg) else Inr (sel ans))"

definition resolveSingle ::
  "'n dns_ops \<Rightarrow> dns_resolver \<Rightarrow> string \<Rightarrow> dns_mode \<Rightarrow> rr list \<Rightarrow> dns_msg \<Rightarrow> error option \<Rightarrow> 'n \<Rightarrow> (error + bytes) \<times> 'n" where
  "resolveSingle ops r domain mode ans msg err n =
     (case mode of
        DNSModeIPv4Only \<Rightarrow> (one_record ''A record not found'' pickFirstARecord (Inr ans), n)
      | DNSModeIPv6Only \<Rightarrow> (one_record ''AAAA record not found'' pickFirstAAAARecord (Inr ans), n)
      | DNSModePreferIPv4 \<Rightarrow>
          if pickFirstARecord ans \<noteq> [] then (Inr (pickFirstARecord ans), n)
          else (let (x, n) = ask_other ops r domain TypeAAAA msg err n
                in (one_record ''record not found'' pickFirstAAAARecord x, n))
      | DNSModePreferIPv6 \<Rightarrow>
          if pickFirstAAAARecord ans \<noteq> [] then (Inr (pickFirstAAAARecord ans), n)
          else (let (x, n) = ask_other ops r domain TypeA msg err n
                in (one_record ''record not found'' pickFirstARecord x, n))
      | _ \<Rightarrow> (Inr [], n))"

text \<open>
  \<^verbatim>\<open>resolveMulti\<close>: the lists are compared with nil, which they never are, so neither the
  error nor the second question of the source is ever reached.
\<close>

definition is_nil_slice :: "bytes list option \<Rightarrow> bool" where
  "is_nil_slice s \<longleftrightarrow> s = None"

definition many_records :: "string \<Rightarrow> (rr list \<Rightarrow> bytes list) \<Rightarrow> error + rr list \<Rightarrow> error + bytes list" where
  "many_records msg sel x =
     (case x of Inl e \<Rightarrow> Inl e
      | Inr ans \<Rightarrow> if is_nil_slice (Some (sel ans)) then Inl (NewError msg) else Inr (sel ans))"

definition resolveMulti ::
  "'n dns_ops \<Rightarrow> dns_resolver \<Rightarrow> string \<Rightarrow> dns_mode \<Rightarrow> rr list \<Rightarrow> dns_msg \<Rightarrow> error option \<Rightarrow> 'n \<Rightarrow> (error + bytes list) \<times> 'n" where
  "resolveMulti ops r domain mode ans msg err n =
     (case mode of
        DNSModeMultiIPv4Only \<Rightarrow> (many_records ''A record not found'' pickARecords (Inr ans), n)
      | DNSModeMultiIPv6Only \<Rightarrow> (many_records ''AAAA record not found'' pickAAAARecords (Inr ans), n)
      | DNSModeMultiPreferIPv4 \<Rightarrow>
          if is_nil_slice (Some (pickARecords ans))
          then (let (x, n) = ask_other ops r domain TypeAAAA msg err n
                in (many_records ''record not found'' pickAAAARecords x, n))
          else (Inr (pickARecords ans), n)
      | DNSModeMultiPreferIPv6 \<Rightarrow>
          if is_nil_slice (Some (pickAAAARecords ans))
          then (let (x, n) = ask_other ops r domain TypeA msg err n
                in (many_records ''record not found'' pickARecords x, n))
          else (Inr (pickAAAARecords ans), n)
      | _ \<Rightarrow> (Inr [], n))"

text \<open>\<^verbatim>\<open>net.IP.String\<close>: an IPv4 address in IPv6 form is printed as IPv4.\<close>

definition net_ip_string :: "bytes \<Rightarrow> string" where
  "net_ip_string ip =
     (case addr_from_slice ip of
        None \<Rightarrow> if ip = [] then ''<nil>'' else ''?'' @ concat (map format_byte ip)
      | Some a \<Rightarrow> addr_string (unmap a))"

definition is_single_mode :: "dns_mode \<Rightarrow> bool" where
  "is_single_mode m \<longleftrightarrow> m \<in> {DNSModeIPv4Only, DNSModeIPv6Only, DNSModePreferIPv4, DNSModePreferIPv6}"

definition first_qtype :: "dns_mode \<Rightarrow> nat option" where
  "first_qtype m =
     (if m \<in> {DNSModePreferIPv4, DNSModeIPv4Only, DNSModeMultiPreferIPv4, DNSModeMultiIPv4Only} then Some TypeA
      else if m \<in> {DNSModePreferIPv6, DNSModeIPv6Only, DNSModeMultiPreferIPv6, DNSModeMultiIPv6Only} then Some TypeAAAA
      else None)"

text \<open>The destination made of the answer; \<open>None\<close> outside is a panic, inside the nil pointer.\<close>

definition answer_dst ::
  "'n dns_ops \<Rightarrow> dns_resolver \<Rightarrow> string \<Rightarrow> dns_mode \<Rightarrow> dns_msg \<Rightarrow> dns_msg \<Rightarrow> 'n \<Rightarrow> ((error + dst option) \<times> 'n) option" where
  "answer_dst ops r fqdn mode msg resp n =
     (if is_single_mode mode then
        (let (x, n) = resolveSingle ops r fqdn mode (answer resp) msg None n
         in Some (case x of Inl e \<Rightarrow> Inl e | Inr ip \<Rightarrow> Inr (Some (new_single_dst (net_ip_string ip))), n))
      else if mode = DNSModeUnset then Some (Inr None, n)
      else
        (let (x, n) = resolveMulti ops r fqdn mode (answer resp) msg None n
         in (case x of Inl e \<Rightarrow> Some (Inl e, n)
             | Inr ips \<Rightarrow> do { d \<leftarrow> new_dst_from_ips ips; Some (Inr (Some d), n) })))"

record 'n dns_state =
  dnsCache :: "(string, dst option) sharded option"
  dnsNet :: 'n

definition cache_answer :: "'n dns_ops \<Rightarrow> string \<Rightarrow> dst option \<Rightarrow> int \<Rightarrow> 'n dns_state \<Rightarrow> 'n dns_state option" where
  "cache_answer ops domain d cacheTTL st =
     (case dnsCache st of
        None \<Rightarrow> Some st
      | Some c \<Rightarrow>
          if cacheTTL \<noteq> 0 \<and> cacheTTL \<noteq> unsetInt then do {
            let (now, n) = dnsNow ops (dnsNet st);
            (_, c) \<leftarrow> Sharded_AddWithLifetime now domain d cacheTTL c;
            Some \<lparr>dnsCache = Some c, dnsNet = n\<rparr>
          }
          else Some st)"

text \<open>The first question of \<^verbatim>\<open>doResolve\<close>, and what is made of the reply to it.\<close>

definition first_query :: "'n dns_ops \<Rightarrow> dns_resolver \<Rightarrow> string \<Rightarrow> dns_mode \<Rightarrow> 'n \<Rightarrow> dns_msg \<times> 'n" where
  "first_query ops r fqdn mode n =
     (let (msg, n) = (case first_qtype mode of
            Some q \<Rightarrow> dnsMsgSetQuestion ops r new_msg fqdn q n
          | None \<Rightarrow> (new_msg, n))
      in (case edns0SubnetOpt r of Some opt \<Rightarrow> msg\<lparr>extra := [opt]\<rparr> | None \<Rightarrow> msg, n))"

definition finish_resolve ::
  "'n dns_ops \<Rightarrow> dns_resolver \<Rightarrow> string \<Rightarrow> dns_mode \<Rightarrow> int \<Rightarrow> dns_msg \<Rightarrow> error + dns_msg \<Rightarrow> 'n dns_state \<Rightarrow>
   ((error + dst option) \<times> 'n dns_state) option" where
  "finish_resolve ops r domain mode cacheTTL msg x st =
     (case x of
        Inl e \<Rightarrow> Some (Inl (OpError ''dns exchange'' e), st)
      | Inr resp \<Rightarrow>
          if rcode resp \<noteq> 0 then Some (Inl (bad_rcode ops resp), st)
          else do {
            (y, n) \<leftarrow> answer_dst ops r (dnsFqdn ops domain) mode msg resp (dnsNet st);
            (case y of
               Inl e \<Rightarrow> Some (Inl e, st\<lparr>dnsNet := n\<rparr>)
             | Inr d \<Rightarrow> do {
                 st \<leftarrow> cache_answer ops domain d cacheTTL (st\<lparr>dnsNet := n\<rparr>);
                 Some (Inr d, st)
               })
          })"

definition doResolve ::
  "'n dns_ops \<Rightarrow> dns_resolver \<Rightarrow> string \<Rightarrow> dns_mode \<Rightarrow> int \<Rightarrow> 'n dns_state \<Rightarrow> ((error + dst option) \<times> 'n dns_state) option" where
  "doResolve ops r domain mode cacheTTL st =
     (let (msg, n) = first_query ops r (dnsFqdn ops domain) mode (dnsNet st);
          (x, n) = dnsExchange ops msg n
      in finish_resolve ops r domain mode cacheTTL msg x (st\<lparr>dnsNet := n\<rparr>))"

definition cache_lookup :: "'n dns_ops \<Rightarrow> string \<Rightarrow> 'n dns_state \<Rightarrow> (dst option option \<times> 'n dns_state) option" where
  "cache_lookup ops domain st =
     (case dnsCache st of
        None \<Rightarrow> Some (None, st)
      | Some c \<Rightarrow> do {
          let (now, n) = dnsNow ops (dnsNet st);
          (v, c) \<leftarrow> Sharded_Get now domain c;
          Some (v, \<lparr>dnsCache = Some c, dnsNet = n\<rparr>)
        })"

text \<open>
  \<^verbatim>\<open>Resolve\<close>, as run by a caller that makes the call itself: always without \<^verbatim>\<open>resolveGroup\<close>, with it when no
  call for the same name is in flight. The others wait and get the result of that call, which is the step
  relation of the theory on single flight.
\<close>

definition Resolve ::
  "'n dns_ops \<Rightarrow> dns_resolver \<Rightarrow> string \<Rightarrow> dns_mode \<Rightarrow> int \<Rightarrow> 'n dns_state \<Rightarrow> ((error + dst option \<times> bool) \<times> 'n dns_state) option" where
  "Resolve ops r domain mode cacheTTL st =
     do {
       (hit, st) \<leftarrow> cache_lookup ops domain st;
       (case hit of
          Some d \<Rightarrow> Some (Inr (d, True), st)
        | None \<Rightarrow> do {
            (x, st) \<leftarrow> doResolve ops r domain mode cacheTTL st;
            Some (case x of Inl e \<Rightarrow> Inl e | Inr d \<Rightarrow> Inr (d, False), st)
          })
     }"

section \<open>The client that waits\<close>

record anti_client =
  clTimeout :: int
  clReadTimeout :: int
  clWriteTimeout :: int
  clDialerTimeout :: "int option"
  clUDPSize :: nat
  waitTimeout :: int
  minRTT :: int

definition dnsRWTimeout :: int where
  "dnsRWTimeout = 2 * second"

definition readTimeout :: "anti_client \<Rightarrow> int" where
  "readTimeout c = (if clTimeout c \<noteq> 0 then clTimeout c else if clReadTimeout c \<noteq> 0 then clReadTimeout c else dnsRWTimeout)"

definition writeTimeout :: "anti_client \<Rightarrow> int" where
  "writeTimeout c = (if clTimeout c \<noteq> 0 then clTimeout c else if clWriteTimeout c \<noteq> 0 then clWriteTimeout c else dnsRWTimeout)"

definition getTimeoutForRequest :: "anti_client \<Rightarrow> int \<Rightarrow> int" where
  "getTimeoutForRequest c timeout =
     (let t = (if clTimeout c \<noteq> 0 then clTimeout c else timeout)
      in (case clDialerTimeout c of
            Some d \<Rightarrow> if d \<noteq> 0 \<and> d < t then d else t
          | None \<Rightarrow> t))"

text \<open>The deadlines relative to the start; \<open>deadline\<close> is that of the context.\<close>

definition exchange_deadlines :: "anti_client \<Rightarrow> int option \<Rightarrow> int \<times> int" where
  "exchange_deadlines c deadline =
     (let w = getTimeoutForRequest c (writeTimeout c);
          r = getTimeoutForRequest c (readTimeout c);
          w = (case deadline of Some d \<Rightarrow> if d < w then d else w | None \<Rightarrow> w);
          r = (case deadline of Some d \<Rightarrow> if d < r then d else r | None \<Rightarrow> r);
          r = (if waitTimeout c \<noteq> 0 \<and> waitTimeout c < r then waitTimeout c else r)
      in (w, r))"

definition record_count :: "dns_msg \<Rightarrow> nat" where
  "record_count r = length (answer r) + length (nsRecords r) + length (extra r)"

text \<open>
  The reading loop: \<open>msgs\<close> are the messages read with the time since the start of each, and
  then reading fails with \<open>final\<close>, at the latest at the deadline. \<open>best\<close> is the best answer
  so far with its number of records and its time. The result is a message, perhaps none,
  and an error, perhaps none: Go returns both. A message that comes with the error that ends the reading is
  left out of the reply, since the callers look at the error first.
\<close>

type_synonym reply = "dns_msg option \<times> int \<times> error option"

definition best_reply :: "(dns_msg \<times> nat \<times> int) option \<Rightarrow> reply \<Rightarrow> reply" where
  "best_reply best other = (case best of Some (r, _, rtt) \<Rightarrow> (Some r, rtt, None) | None \<Rightarrow> other)"

fun read_loop ::
  "anti_client \<Rightarrow> dns_msg \<Rightarrow> (int \<times> dns_msg) list \<Rightarrow> int \<times> error \<Rightarrow> (dns_msg \<times> nat \<times> int) option \<Rightarrow> reply" where
  "read_loop c m [] final best = best_reply best (None, fst final, Some (snd final))"
| "read_loop c m ((curRTT, r) # msgs) final best =
     (if minRTT c \<noteq> 0 \<and> curRTT < minRTT c then read_loop c m msgs final best
      else if msgId r = msgId m \<and> (waitTimeout c \<le> 0 \<or> hasEDNS0Subnet m \<and> hasEDNS0Subnet r)
      then (Some r, curRTT, None)
      else
        let count = (case best of Some (_, n, _) \<Rightarrow> n | None \<Rightarrow> 0);
            best = (if msgId r = msgId m \<and> count \<le> record_count r then Some (r, record_count r, curRTT) else best)
        in if waitTimeout c > 0 \<and> waitTimeout c \<le> curRTT then best_reply best (Some r, curRTT, None)
           else read_loop c m msgs final best)"

text \<open>\<^verbatim>\<open>ExchangeWithConnContext\<close>: the size of the answers to accept, writing the question, and the loop.\<close>

definition exchangeWithConn ::
  "anti_client \<Rightarrow> dns_msg \<Rightarrow> nat option \<Rightarrow> nat \<Rightarrow> error option \<Rightarrow> (int \<times> dns_msg) list \<Rightarrow> int \<times> error \<Rightarrow> nat \<times> reply" where
  "exchangeWithConn c m optSize connSize writeErr msgs final =
     (let connSize = (case optSize of
            Some s \<Rightarrow> if 512 \<le> s then s else connSize
          | None \<Rightarrow> if 512 \<le> clUDPSize c then clUDPSize c else connSize)
      in (connSize,
          (case writeErr of Some e \<Rightarrow> (None, 0, Some e) | None \<Rightarrow> read_loop c m msgs final None)))"

text \<open>
  A connection as the client meets it: its size, the error of writing the question, the messages
  that are read and the error that ends reading.
\<close>

record dns_conn =
  coUDPSize :: nat
  coWrite :: "error option"
  coRead :: "(int \<times> dns_msg) list"
  coEnd :: "int \<times> error"

text \<open>
  \<^verbatim>\<open>Exchange\<close>, over a connection of its own, and what the resolver calls; \<open>optSize\<close>: the size in the OPT
  record of a message.
\<close>

definition antihijack_exchange ::
  "(string \<Rightarrow> error + dns_conn) \<Rightarrow> (dns_msg \<Rightarrow> nat option) \<Rightarrow> anti_client \<Rightarrow> dns_msg \<Rightarrow> string \<Rightarrow> reply" where
  "antihijack_exchange dial optSize c m address =
     (case dial address of
        Inl e \<Rightarrow> (None, 0, Some e)
      | Inr co \<Rightarrow> snd (exchangeWithConn c m (optSize m) (coUDPSize co) (coWrite co) (coRead co) (coEnd co)))"

definition buildDNSExchangeFunc :: "(dns_msg \<Rightarrow> string \<Rightarrow> reply) \<Rightarrow> string \<Rightarrow> dns_msg \<Rightarrow> dns_msg option \<times> error option" where
  "buildDNSExchangeFunc cli addr req = (case cli req addr of (resp, _, err) \<Rightarrow> (resp, err))"

end
