(* ===== verification/Domain_Matcher.thy ===== *)
theory Domain_Matcher
  imports Errors_Format
begin

text \<open>
  \<^verbatim>\<open>internal/addrtrie/domain.go\<close>: the trie of domain labels, from the top-level domain
  down, behind the domain policies and the hosts table. A node's \<^verbatim>\<open>hasExact\<close> and
  \<^verbatim>\<open>hasWildcard\<close> flags are set together with the value they guard and never reset, so the
  pair of flag and value is an option here.
\<close>

section \<open>The trie\<close>

datatype 'v label_node =
  LabelNode (children: "string \<Rightarrow> 'v label_node option")
    (exactValue: "'v option") (wildcardValue: "'v option")

definition new_label_node :: "'v label_node" where
  "new_label_node = LabelNode (\<lambda>_. None) None None"

type_synonym 'v domain_matcher = "'v label_node"

definition new_domain_matcher :: "'v domain_matcher" where
  "new_domain_matcher = new_label_node"

definition set_child :: "string \<Rightarrow> 'v label_node \<Rightarrow> 'v label_node \<Rightarrow> 'v label_node" where
  "set_child l c n = LabelNode ((children n)(l \<mapsto> c)) (exactValue n) (wildcardValue n)"

definition set_values :: "'v \<Rightarrow> bool \<Rightarrow> bool \<Rightarrow> 'v label_node \<Rightarrow> 'v label_node" where
  "set_values v isWildcard isExact n =
     LabelNode (children n)
       (if isExact then Some v else exactValue n)
       (if isWildcard then Some v else wildcardValue n)"

text \<open>
  One turn of the loops of \<^verbatim>\<open>insertPattern\<close> and \<^verbatim>\<open>Find\<close>: the text not read yet is
  \<^verbatim>\<open>pattern[:i+1]\<close>; the label after its last dot is taken off.
\<close>

definition last_label :: "string \<Rightarrow> string \<times> string" where
  "last_label p =
     (case last_index_byte CHR ''.'' p of
        None \<Rightarrow> (p, [])
      | Some j \<Rightarrow> (drop (Suc j) p, take j p))"

lemma last_label_shorter [termination_simp]:
  "p \<noteq> [] \<Longrightarrow> length (snd (last_label p)) < length p"
  by (auto simp: last_label_def dest!: last_index_byte_SomeD split: option.splits)

function insert_pattern :: "string \<Rightarrow> 'v \<Rightarrow> bool \<Rightarrow> bool \<Rightarrow> 'v label_node \<Rightarrow> 'v label_node" where
  "insert_pattern p v isWildcard isExact node =
     (if p = [] then set_values v isWildcard isExact node
      else
        let label = fst (last_label p);
            child = (case children node label of None \<Rightarrow> new_label_node | Some c \<Rightarrow> c)
        in set_child label (insert_pattern (snd (last_label p)) v isWildcard isExact child) node)"
  by pat_completeness auto
termination
  by (relation "measure (\<lambda>(p, _). length p)") (auto simp: last_label_shorter)

declare insert_pattern.simps [simp del]

definition domain_add :: "string \<Rightarrow> 'v \<Rightarrow> 'v domain_matcher \<Rightarrow> error + 'v domain_matcher" where
  "domain_add pattern v m =
     (if pattern = ''*'' then Inr (LabelNode (children m) (exactValue m) (Some v))
      else if CHR ''.'' \<notin> set pattern then Inl (NewError (''invalid pattern: '' @ pattern))
      else if has_prefix pattern ''*.'' then Inr (insert_pattern (drop 2 pattern) v True False m)
      else if has_prefix pattern ''*'' then Inr (insert_pattern (drop 1 pattern) v True True m)
      else Inr (insert_pattern pattern v False True m))"

text \<open>The loop of \<^verbatim>\<open>Find\<close>: the node reached, the candidate wildcard, \<^verbatim>\<open>fullyMatched\<close>.\<close>

function find_walk :: "string \<Rightarrow> 'v label_node \<Rightarrow> 'v option \<Rightarrow> 'v label_node \<times> 'v option \<times> bool" where
  "find_walk p node candidate =
     (if p = [] then (node, candidate, True)
      else
        case children node (fst (last_label p)) of
          None \<Rightarrow> (node, candidate, False)
        | Some child \<Rightarrow>
            find_walk (snd (last_label p)) child
              (if last_index_byte CHR ''.'' p \<noteq> None \<and> wildcardValue child \<noteq> None
               then wildcardValue child else candidate))"
  by pat_completeness auto
termination
  by (relation "measure (\<lambda>(p, _). length p)") (auto simp: last_label_shorter)

declare find_walk.simps [simp del]

definition domain_find :: "'v domain_matcher \<Rightarrow> string \<Rightarrow> 'v option" where
  "domain_find m domain =
     (case find_walk domain m None of
        (node, candidate, fullyMatched) \<Rightarrow>
          if fullyMatched \<and> exactValue node \<noteq> None then exactValue node
          else if candidate \<noteq> None then candidate
          else wildcardValue m)"

section \<open>What the trie stores: keys are reversed label lists\<close>

function rlabels :: "string \<Rightarrow> string list" where
  "rlabels p = (if p = [] then [] else fst (last_label p) # rlabels (snd (last_label p)))"
  by pat_completeness auto
termination
  by (relation "measure length") (auto simp: last_label_shorter)

declare rlabels.simps [simp del]

text \<open>
  The keys a domain's wildcards are looked up at, longest first: every part of the domain
  that follows a dot.
\<close>

function dotted_keys :: "string \<Rightarrow> string list list" where
  "dotted_keys p =
     (if p = [] \<or> last_index_byte CHR ''.'' p = None then []
      else map (Cons (fst (last_label p))) (dotted_keys (snd (last_label p)))
           @ [[fst (last_label p)]])"
  by pat_completeness auto
termination
  by (relation "measure length") (auto simp: last_label_shorter)

declare dotted_keys.simps [simp del]

fun node_at :: "'v label_node \<Rightarrow> string list \<Rightarrow> 'v label_node option" where
  "node_at n [] = Some n"
| "node_at n (l # ls) = (case children n l of None \<Rightarrow> None | Some c \<Rightarrow> node_at c ls)"

definition exact_at :: "'v domain_matcher \<Rightarrow> string list \<Rightarrow> 'v option" where
  "exact_at m ls = Option.bind (node_at m ls) exactValue"

definition wildcard_at :: "'v domain_matcher \<Rightarrow> string list \<Rightarrow> 'v option" where
  "wildcard_at m ls = Option.bind (node_at m ls) wildcardValue"

lemma at_simps [simp]:
  "exact_at n [] = exactValue n" "wildcard_at n [] = wildcardValue n"
  "exact_at n (l # ls) = (case children n l of None \<Rightarrow> None | Some c \<Rightarrow> exact_at c ls)"
  "wildcard_at n (l # ls) = (case children n l of None \<Rightarrow> None | Some c \<Rightarrow> wildcard_at c ls)"
  by (auto simp: exact_at_def wildcard_at_def split: option.splits)

lemma new_label_node_at [simp]:
  "exact_at new_label_node ls = None" "wildcard_at new_label_node ls = None"
  by (cases ls; simp add: new_label_node_def)+

lemma insert_pattern_at:
  "exact_at (insert_pattern p v w e n) ls =
     (if e \<and> ls = rlabels p then Some v else exact_at n ls)"
  "wildcard_at (insert_pattern p v w e n) ls =
     (if w \<and> ls = rlabels p then Some v else wildcard_at n ls)"
proof (induction p v w e n arbitrary: ls rule: insert_pattern.induct)
  case (1 p v w e n)
  let ?l = "fst (last_label p)" and ?r = "snd (last_label p)"
  define c where "c = (case children n ?l of None \<Rightarrow> new_label_node | Some c \<Rightarrow> c)"
  have step: "p \<noteq> [] \<Longrightarrow> insert_pattern p v w e n = set_child ?l (insert_pattern ?r v w e c) n"
    by (simp add: insert_pattern.simps [of p] c_def Let_def)
  have stop: "insert_pattern [] v w e n = set_values v w e n"
    by (simp add: insert_pattern.simps)
  have c_at: "exact_at c ls = exact_at n (?l # ls)" "wildcard_at c ls = wildcard_at n (?l # ls)" for ls
    by (auto simp: c_def split: option.splits)
  note IH = "1.IH" [OF _ refl refl, folded c_def]
  have rl: "p \<noteq> [] \<Longrightarrow> rlabels p = ?l # rlabels ?r" "rlabels [] = []"
    by (simp_all add: rlabels.simps [of p] rlabels.simps [of "[]"])
  { case 1
    show ?case
      using IH(1) c_at(1)
      by (cases ls; cases "p = []") (auto simp: step stop rl set_values_def set_child_def)
  next
    case 2
    show ?case
      using IH(2) c_at(2)
      by (cases ls; cases "p = []") (auto simp: step stop rl set_values_def set_child_def) }
qed

lemma find_walk_spec:
  "find_walk p n cand = (n', cand', full) \<Longrightarrow>
     (if full \<and> exactValue n' \<noteq> None then exactValue n' else None) = exact_at n (rlabels p) \<and>
     cand' = (case first_some (wildcard_at n) (dotted_keys p) of Some v \<Rightarrow> Some v | None \<Rightarrow> cand)"
proof (induction p n cand arbitrary: n' cand' full rule: find_walk.induct)
  case (1 p n cand)
  show ?case
  proof (cases "p = []")
    case True
    with "1.prems" show ?thesis
      by (auto simp: find_walk.simps [of "[]"] rlabels.simps [of "[]"] dotted_keys.simps [of "[]"])
  next
    case False
    let ?l = "fst (last_label p)" and ?r = "snd (last_label p)"
    show ?thesis
    proof (cases "children n ?l")
      case None
      have "first_some (wildcard_at n) (dotted_keys p) = None"
        using None by (auto simp: first_some_None dotted_keys.simps [of p])
      with False None "1.prems" show ?thesis
        by (auto simp: find_walk.simps [of p] rlabels.simps [of p])
    next
      case (Some c)
      let ?cand = "if last_index_byte CHR ''.'' p \<noteq> None \<and> wildcardValue c \<noteq> None
                   then wildcardValue c else cand"
      have "find_walk ?r c ?cand = (n', cand', full)"
        using "1.prems" False Some by (simp add: find_walk.simps [of p])
      note IH = "1.IH" [OF False Some this]
      have "dotted_keys ?r = []" if "last_index_byte CHR ''.'' p = None"
        using that by (simp add: last_label_def dotted_keys.simps [of "[]"])
      moreover have "wildcard_at n \<circ> Cons ?l = wildcard_at c"
        using Some by (simp add: fun_eq_iff)
      ultimately show ?thesis
        using IH False Some
        by (auto simp: rlabels.simps [of p] dotted_keys.simps [of p] first_some_append first_some_map
            split: option.splits)
    qed
  qed
qed

lemma domain_find_law:
  "domain_find m d =
     (case exact_at m (rlabels d) of
        Some v \<Rightarrow> Some v
      | None \<Rightarrow> first_some (wildcard_at m) (dotted_keys d @ [[]]))"
proof -
  obtain n c f where w: "find_walk d m None = (n, c, f)" by (cases "find_walk d m None")
  from find_walk_spec [OF this] show ?thesis
    by (auto simp: domain_find_def w first_some_append split: option.splits if_splits)
qed

section \<open>The contract the route matcher relies on\<close>

text \<open>What a pattern stands for: its key, whether it is a wildcard, whether it is exact.\<close>

definition pattern_entry :: "string \<Rightarrow> (string list \<times> bool \<times> bool) option" where
  "pattern_entry p =
     (if p = ''*'' then Some ([], True, False)
      else if CHR ''.'' \<notin> set p then None
      else if has_prefix p ''*.'' then Some (rlabels (drop 2 p), True, False)
      else if has_prefix p ''*'' then Some (rlabels (drop 1 p), True, True)
      else Some (rlabels p, False, True))"

locale domain_table =
  fixes add :: "string \<Rightarrow> 'v \<Rightarrow> 'm \<Rightarrow> error + 'm"
    and find :: "'m \<Rightarrow> string \<Rightarrow> 'v option"
    and exact wildcard :: "'m \<Rightarrow> string list \<Rightarrow> 'v option"
  assumes add_entry: "pattern_entry p = Some (k, w, e) \<Longrightarrow>
      \<exists>m'. add p v m = Inr m'
         \<and> (\<forall>ls. exact m' ls = (if e \<and> ls = k then Some v else exact m ls))
         \<and> (\<forall>ls. wildcard m' ls = (if w \<and> ls = k then Some v else wildcard m ls))"
    and add_invalid: "pattern_entry p = None \<Longrightarrow> \<exists>err. add p v m = Inl err"
    and find_law: "find m d =
      (case exact m (rlabels d) of
         Some v \<Rightarrow> Some v
       | None \<Rightarrow> first_some (wildcard m) (dotted_keys d @ [[]]))"
begin

lemma add_ok_iff: "(\<exists>m'. add p v m = Inr m') \<longleftrightarrow> pattern_entry p \<noteq> None"
  using add_entry [of p _ _ _ v m] add_invalid [of p v m] by (cases "pattern_entry p") auto

lemma addD:
  assumes "add p v m = Inr m'" and "pattern_entry p = Some (k, w, e)"
  shows "exact m' ls = (if e \<and> ls = k then Some v else exact m ls)"
    and "wildcard m' ls = (if w \<and> ls = k then Some v else wildcard m ls)"
  using add_entry [OF assms(2), of v m] assms(1) by auto

lemma find_stored: "find m d = Some v \<Longrightarrow> \<exists>ls. exact m ls = Some v \<or> wildcard m ls = Some v"
  by (auto simp: find_law split: option.splits dest: first_some_SomeD)

lemma find_added_exact:
  assumes "add p v m = Inr m'" and "pattern_entry p = Some (rlabels d, w, True)"
  shows "find m' d = Some v"
  using addD [OF assms] by (simp add: find_law)

lemma find_other_unchanged:
  assumes "add p v m = Inr m'" and "pattern_entry p = Some (k, w, e)"
    and "e \<Longrightarrow> k \<noteq> rlabels d" and "w \<Longrightarrow> k \<notin> set (dotted_keys d @ [[]])"
  shows "find m' d = find m d"
proof -
  have "exact m' (rlabels d) = exact m (rlabels d)"
    using assms(3) by (auto simp: addD [OF assms(1,2)])
  moreover have "first_some (wildcard m') (dotted_keys d @ [[]])
      = first_some (wildcard m) (dotted_keys d @ [[]])"
    using assms(4) by (intro first_some_cong) (auto simp: addD [OF assms(1,2)])
  ultimately show ?thesis by (simp only: find_law)
qed

lemma find_added_wildcard:
  assumes "add p v m = Inr m'" and "pattern_entry p = Some (k, True, e)"
    and "dotted_keys d @ [[]] = longer @ k # shorter"
    and "exact m (rlabels d) = None" and "\<forall>l \<in> set longer. wildcard m l = None" and "k \<notin> set longer"
  shows "find m' d = Some v"
proof -
  have "first_some (wildcard m') longer = None"
    using assms(5,6) by (auto simp: first_some_None addD [OF assms(1,2)])
  then show ?thesis
    using assms(4) by (auto simp: find_law assms(3) first_some_append addD [OF assms(1,2)])
qed

end

lemma domain_add_entry:
  assumes "pattern_entry p = Some (k, w, e)"
  shows "\<exists>m'. domain_add p v m = Inr m'
     \<and> (\<forall>ls. exact_at m' ls = (if e \<and> ls = k then Some v else exact_at m ls))
     \<and> (\<forall>ls. wildcard_at m' ls = (if w \<and> ls = k then Some v else wildcard_at m ls))"
proof (cases "p = ''*''")
  case True
  have "exact_at (LabelNode (children m) (exactValue m) (Some v)) ls = exact_at m ls"
    "wildcard_at (LabelNode (children m) (exactValue m) (Some v)) ls
       = (if ls = [] then Some v else wildcard_at m ls)" for ls
    by (cases ls; simp)+
  with True assms show ?thesis
    by (auto simp: domain_add_def pattern_entry_def)
next
  case False
  with assms show ?thesis
    by (auto simp: domain_add_def pattern_entry_def insert_pattern_at split: if_splits)
qed

interpretation dm: domain_table domain_add domain_find exact_at wildcard_at
proof unfold_locales
  show "\<exists>err. domain_add p v m = Inl err" if "pattern_entry p = None" for p and v :: 'v and m
    using that by (auto simp: domain_add_def pattern_entry_def split: if_splits)
qed (fact domain_add_entry domain_find_law)+

section \<open>Labels of a subdomain\<close>

lemma last_label_sub:
  "last_label (l @ CHR ''.'' # x) =
     (if CHR ''.'' \<in> set x then (fst (last_label x), l @ CHR ''.'' # snd (last_label x)) else (x, l))"
proof (cases "last_index_byte CHR ''.'' x")
  case None
  then have "CHR ''.'' \<notin> set x" by (simp add: last_index_byte_None)
  then show ?thesis by (simp add: last_label_def last_index_byte_append)
next
  case (Some j)
  have "last_index_byte CHR ''.'' (l @ CHR ''.'' # x) = Some (length l + Suc j)"
    using Some by (induction l) auto
  moreover have "CHR ''.'' \<in> set x" using Some last_index_byte_None [of "CHR ''.''" x] by simp
  ultimately show ?thesis using Some by (simp add: last_label_def)
qed

lemma rlabels_sub:
  assumes "x \<noteq> []" "\<not> has_prefix x ''.''" "l \<noteq> []" "CHR ''.'' \<notin> set l"
  shows "rlabels (l @ CHR ''.'' # x) = rlabels x @ [l]
       \<and> dotted_keys (l @ CHR ''.'' # x) = rlabels x # dotted_keys x"
  using assms
proof (induction x rule: rlabels.induct)
  case (1 x)
  have l: "last_index_byte CHR ''.'' l = None" "rlabels l = [l]" "dotted_keys l = []"
    using "1.prems" by (simp_all add: rlabels.simps [of l] rlabels.simps [of "[]"] dotted_keys.simps [of l] last_label_def)
  show ?case
  proof (cases "CHR ''.'' \<in> set x")
    case False
    then have "last_label (l @ CHR ''.'' # x) = (x, l)" "last_label x = (x, [])"
      by (simp_all add: last_label_sub) (simp add: last_label_def)
    with False "1.prems" l show ?thesis
      by (simp add: rlabels.simps [of "_ @ _"] rlabels.simps [of x] rlabels.simps [of "[]"]
          dotted_keys.simps [of "_ @ _"] dotted_keys.simps [of x] last_index_byte_append)
  next
    case True
    then obtain j where j: "last_index_byte CHR ''.'' x = Some j"
      using last_index_byte_present by fast
    then have r: "snd (last_label x) = take j x" by (simp add: last_label_def)
    have "j \<noteq> 0"
      using last_index_byte_SomeD [OF j] "1.prems" by (cases x; cases j) auto
    then have ne: "take j x \<noteq> []" "\<not> has_prefix (take j x) ''.''"
      using "1.prems" by (cases x; cases j; simp)+
    have "rlabels (l @ CHR ''.'' # take j x) = rlabels (take j x) @ [l]
        \<and> dotted_keys (l @ CHR ''.'' # take j x) = rlabels (take j x) # dotted_keys (take j x)"
      using "1.IH" "1.prems" ne r by simp
    moreover have "last_label (l @ CHR ''.'' # x) = (fst (last_label x), l @ CHR ''.'' # take j x)"
      using True r by (simp add: last_label_sub)
    moreover have "last_index_byte CHR ''.'' (l @ CHR ''.'' # x) \<noteq> None"
      by (simp add: last_index_byte_None)
    ultimately show ?thesis
      using "1.prems"(1) j r
      by (simp add: rlabels.simps [of "l @ _ # x"] rlabels.simps [of x]
          dotted_keys.simps [of "l @ _ # x"] dotted_keys.simps [of x])
  qed
qed

lemma dotted_keys_shorter: "k \<in> set (dotted_keys d) \<Longrightarrow> length k < length (rlabels d) \<or> has_prefix d ''.''"
proof (induction d arbitrary: k rule: dotted_keys.induct)
  case (1 d)
  show ?case
  proof (cases "d = [] \<or> last_index_byte CHR ''.'' d = None")
    case True
    with "1.prems" show ?thesis by (auto simp: dotted_keys.simps [of d])
  next
    case False
    then obtain j where j: "last_index_byte CHR ''.'' d = Some j" and d: "d \<noteq> []" by auto
    then have r: "snd (last_label d) = take j d" by (simp add: last_label_def)
    show ?thesis
    proof (cases "j = 0")
      case True
      with last_index_byte_SomeD [OF j] show ?thesis by (cases d) auto
    next
      case nz: False
      have "take j d \<noteq> []" using nz d by simp
      then have len: "0 < length (rlabels (take j d))" by (simp add: rlabels.simps [of "take j d"])
      have pre: "has_prefix (take j d) ''.'' \<Longrightarrow> has_prefix d ''.''"
        using nz by (cases d; cases j; simp)
      consider k' where "k = fst (last_label d) # k'" "k' \<in> set (dotted_keys (take j d))"
        | "k = [fst (last_label d)]"
        using "1.prems" False r by (auto simp: dotted_keys.simps [of d])
      then show ?thesis
        using "1.IH" [OF False] len pre r d by cases (auto simp: rlabels.simps [of d])
    qed
  qed
qed

lemma rlabels_Nil_iff [simp]: "rlabels d = [] \<longleftrightarrow> d = []"
  by (subst rlabels.simps) simp

text \<open>
  C0. \<^verbatim>\<open>Find\<close> returns the value of the exact pattern equal to the domain; failing that, the
  wildcard of the longest part of the domain that follows a dot; failing that, the value
  of the pattern \<^verbatim>\<open>*\<close>; and nothing otherwise.
\<close>

theorem domain_find_spec:
  "domain_find m d =
     (case exact_at m (rlabels d) of
        Some v \<Rightarrow> Some v
      | None \<Rightarrow> first_some (wildcard_at m) (dotted_keys d @ [[]]))"
  by (rule dm.find_law)

text \<open>Adding an exact pattern makes it found, at once and whatever else the table
  holds; the value found for a domain that the pattern does not name is unchanged.\<close>

theorem domain_add_exact:
  assumes "domain_add p v m = Inr m'" and "\<not> has_prefix p ''*''"
  shows "domain_find m' d = (if rlabels d = rlabels p then Some v else domain_find m d)"
proof -
  have "pattern_entry p \<noteq> None"
    using dm.add_ok_iff [of p v m] assms(1) by auto
  moreover have "p \<noteq> ''*''" "\<not> has_prefix p ''*.''"
    using assms(2) has_prefix_appendD [of p "''*''" "''.''"] by auto
  ultimately have e: "pattern_entry p = Some (rlabels p, False, True)"
    using assms(2) by (simp add: pattern_entry_def split: if_splits)
  show ?thesis
  proof (cases "rlabels d = rlabels p")
    case True
    with e have "pattern_entry p = Some (rlabels d, False, True)" by simp
    from dm.find_added_exact [OF assms(1) this] True show ?thesis by simp
  next
    case False
    then show ?thesis using dm.find_other_unchanged [OF assms(1) e, of d] by auto
  qed
qed

text \<open>C0. Adding \<^verbatim>\<open>*.x\<close> is found by the direct subdomains of \<^verbatim>\<open>x\<close> that have no exact
  pattern, and never changes what is found for \<^verbatim>\<open>x\<close> itself.\<close>

theorem domain_add_wildcard:
  assumes "domain_add (''*.'' @ x) v m = Inr m'" and "x \<noteq> []" and "\<not> has_prefix x ''.''"
    and "l \<noteq> []" and "CHR ''.'' \<notin> set l" and "exact_at m (rlabels (l @ ''.'' @ x)) = None"
  shows "domain_find m' (l @ ''.'' @ x) = Some v \<and> domain_find m' x = domain_find m x"
proof

  have e: "pattern_entry (''*.'' @ x) = Some (rlabels x, True, False)"
    by (simp add: pattern_entry_def has_prefix_def)
  show "domain_find m' (l @ ''.'' @ x) = Some v"
    using assms(4-6) rlabels_sub [OF assms(2,3), of l]
    by (intro dm.find_added_wildcard [OF assms(1) e, where longer = "[]"]) auto
  show "domain_find m' x = domain_find m x"
    using dotted_keys_shorter [of "rlabels x" x] assms(2,3)
    by (intro dm.find_other_unchanged [OF assms(1) e]) auto
qed

theorem domain_add_exact_witness:
  "\<exists>m'. domain_add ''a.bc'' (1 :: nat) new_domain_matcher = Inr m' \<and> domain_find m' ''a.bc'' = Some 1"
proof -
  obtain m' where m: "domain_add ''a.bc'' (1 :: nat) new_domain_matcher = Inr m'"
    by (auto simp: domain_add_def has_prefix_def)
  from domain_add_exact [OF m, of "''a.bc''"] m show ?thesis by (auto simp: has_prefix_def)
qed

theorem domain_add_wildcard_witness:
  "\<exists>m'. domain_add ''*.bc'' (1 :: nat) new_domain_matcher = Inr m' \<and>
     domain_find m' ''x.bc'' = Some 1 \<and> domain_find m' ''bc'' = None"
proof -
  obtain m' where m: "domain_add (''*.'' @ ''bc'') (1 :: nat) new_domain_matcher = Inr m'"
    by (auto simp: domain_add_def has_prefix_def)
  have e: "exact_at (new_domain_matcher :: nat domain_matcher) ls = None" for ls
    by (cases ls) (simp_all add: new_domain_matcher_def new_label_node_def)
  have n: "domain_find (new_domain_matcher :: nat domain_matcher) ''bc'' = None"
    by (simp add: domain_find_def find_walk.simps new_domain_matcher_def new_label_node_def)
  have "domain_find m' (''x'' @ ''.'' @ ''bc'') = Some 1 \<and>
      domain_find m' ''bc'' = domain_find new_domain_matcher ''bc''"
    by (rule domain_add_wildcard [OF m]) (simp_all add: has_prefix_def e)
  with m n show ?thesis by auto
qed

end
