(* ===== verification/IP_Trie.thy ===== *)
theory IP_Trie
  imports Netip
begin

text \<open>
  \<^verbatim>\<open>internal/addrtrie/ipv4.go\<close> and \<^verbatim>\<open>ipv6.go\<close>: binary tries over address bits, behind the
  address policies. A node's \<^verbatim>\<open>valueExists\<close> guards its value and is never reset, so the pair
  is an option here.
\<close>

section \<open>Nodes\<close>

datatype 'v bit_node = BitNode (child0: "'v bit_node option") (child1: "'v bit_node option") (nodeValue: "'v option")

definition new_bit_node :: "'v bit_node" where
  "new_bit_node = BitNode None None None"

definition bit_child :: "bool \<Rightarrow> 'v bit_node \<Rightarrow> 'v bit_node option" where
  "bit_child b n = (if b then child1 n else child0 n)"

definition set_bit_child :: "bool \<Rightarrow> 'v bit_node \<Rightarrow> 'v bit_node \<Rightarrow> 'v bit_node" where
  "set_bit_child b c n =
     (if b then BitNode (child0 n) (Some c) (nodeValue n) else BitNode (Some c) (child1 n) (nodeValue n))"

definition set_node_value :: "'v \<Rightarrow> 'v bit_node \<Rightarrow> 'v bit_node" where
  "set_node_value v n = BitNode (child0 n) (child1 n) (Some v)"

text \<open>The loop of \<^verbatim>\<open>Insert\<close>: bits \<open>i\<close> to \<open>i + n - 1\<close> of the address, read by \<open>get\<close>.\<close>

fun insert_loop :: "(nat \<Rightarrow> bool) \<Rightarrow> nat \<Rightarrow> nat \<Rightarrow> 'v \<Rightarrow> 'v bit_node \<Rightarrow> 'v bit_node" where
  "insert_loop get i 0 v cur = set_node_value v cur"
| "insert_loop get i (Suc n) v cur =
     (let b = get i; c = (case bit_child b cur of None \<Rightarrow> new_bit_node | Some c \<Rightarrow> c)
      in set_bit_child b (insert_loop get (Suc i) n v c) cur)"

text \<open>The loop of \<^verbatim>\<open>Find\<close>, from bit \<open>i\<close> on: the node it stops at, and the last value met before.\<close>

fun find_loop :: "(nat \<Rightarrow> bool) \<Rightarrow> nat \<Rightarrow> nat \<Rightarrow> 'v bit_node \<Rightarrow> 'v option \<Rightarrow> 'v bit_node \<times> 'v option" where
  "find_loop get i 0 cur matched = (cur, matched)"
| "find_loop get i (Suc n) cur matched =
     (let matched = (if nodeValue cur \<noteq> None then nodeValue cur else matched) in
      case bit_child (get i) cur of
        None \<Rightarrow> (cur, matched)
      | Some c \<Rightarrow> find_loop get (Suc i) n c matched)"

definition find_result :: "'v bit_node \<Rightarrow> 'v bit_node \<times> 'v option \<Rightarrow> 'v option" where
  "find_result root r =
     (if nodeValue (fst r) \<noteq> None then nodeValue (fst r)
      else if snd r = None then nodeValue root else snd r)"

section \<open>IPv4\<close>

definition be_word :: "bytes \<Rightarrow> 'a::len word" where
  "be_word bs = foldl (\<lambda>w b. or (push_bit 8 w) (ucast b)) 0 bs"

definition getBit32 :: "32 word \<Rightarrow> nat \<Rightarrow> bool" where
  "getBit32 v i \<longleftrightarrow> and (drop_bit (31 - i) v) 1 = 1"

definition parseIPv4OrCIDR :: "string \<Rightarrow> error + 32 word \<times> nat" where
  "parseIPv4OrCIDR s =
     (case parse_prefix s of
        Some (a, bits) \<Rightarrow>
          (case a of
             IP6 _ _ \<Rightarrow> Inl (LibError ''non-IPv4 mask'')
           | IP4 b \<Rightarrow> if 32 < bits then Inl (LibError ''non-canonical mask'') else Inr (be_word b, bits))
      | None \<Rightarrow>
          (case parse_addr s of
             Some a \<Rightarrow>
               (case unmap a of
                  IP6 _ _ \<Rightarrow> Inl (LibError ''invalid IPv4 address'')
                | IP4 b \<Rightarrow> Inr (be_word b, 32))
           | None \<Rightarrow> Inl (LibError ''invalid IPv4 address or CIDR'')))"

definition ipv4_insert :: "string \<Rightarrow> 'v \<Rightarrow> 'v bit_node \<Rightarrow> error + 'v bit_node" where
  "ipv4_insert prefix v t =
     (if prefix = ''*'' then Inr (set_node_value v t)
      else case parseIPv4OrCIDR prefix of
             Inl e \<Rightarrow> Inl e
           | Inr (ip, bitLen) \<Rightarrow> Inr (insert_loop (getBit32 ip) 0 bitLen v t))"

definition ipv4_find :: "'v bit_node \<Rightarrow> addr \<Rightarrow> 'v option option" where
  "ipv4_find t a =
     (case as4 a of
        None \<Rightarrow> None
      | Some b \<Rightarrow> Some (find_result t (find_loop (getBit32 (be_word b)) 0 32 t None)))"

section \<open>IPv6\<close>

type_synonym uint128 = "64 word \<times> 64 word"

definition getBit128 :: "uint128 \<Rightarrow> nat \<Rightarrow> bool" where
  "getBit128 v i \<longleftrightarrow>
     (if i < 64 then and (drop_bit (63 - i) (fst v)) 1 = 1
      else and (drop_bit (63 - (i - 64)) (snd v)) 1 = 1)"

definition be128 :: "bytes \<Rightarrow> uint128" where
  "be128 b = (be_word (take 8 b), be_word (take 8 (drop 8 b)))"

definition parseIPv6OrCIDR :: "string \<Rightarrow> error + uint128 \<times> nat" where
  "parseIPv6OrCIDR s =
     (case parse_prefix s of
        Some (a, bits) \<Rightarrow>
          (if is4 (unmap a) then Inl (LibError ''non-IPv6 mask'')
           else if 128 < bits then Inl (LibError ''non-canonical mask'')
           else Inr (be128 (as16 (unmap a)), bits))
      | None \<Rightarrow>
          (case parse_addr s of
             Some a \<Rightarrow>
               (if is4 (unmap a) then Inl (LibError ''invalid IPv6 address'')
                else Inr (be128 (as16 (unmap a)), 128))
           | None \<Rightarrow> Inl (LibError ''invalid IPv6 address or CIDR'')))"

definition ipv6_insert :: "string \<Rightarrow> 'v \<Rightarrow> 'v bit_node \<Rightarrow> error + 'v bit_node" where
  "ipv6_insert prefix v t =
     (if prefix = ''*'' then Inr (set_node_value v t)
      else case parseIPv6OrCIDR prefix of
             Inl e \<Rightarrow> Inl e
           | Inr (ip, bitLen) \<Rightarrow> Inr (insert_loop (getBit128 ip) 0 bitLen v t))"

definition ipv6_find :: "'v bit_node \<Rightarrow> addr \<Rightarrow> 'v option" where
  "ipv6_find t a = find_result t (find_loop (getBit128 (be128 (as16 a))) 0 128 t None)"

section \<open>The bits of an address\<close>

lemma bit_be_word:
  assumes "8 * length bs \<le> LENGTH('a)" and "n < LENGTH('a)"
  shows "bit (be_word bs :: 'a::len word) n \<longleftrightarrow>
    n < 8 * length bs \<and> bit (bs ! (length bs - 1 - n div 8)) (n mod 8)"
  using assms
proof (induction bs arbitrary: n rule: rev_induct)
  case Nil
  then show ?case by (simp add: be_word_def)
next
  case (snoc b bs)
  have step: "bit (be_word (bs @ [b]) :: 'a word) n \<longleftrightarrow>
      8 \<le> n \<and> bit (be_word bs :: 'a word) (n - 8) \<or> n < 8 \<and> bit b n"
    using snoc.prems by (auto simp: be_word_def bit_simps dest: bit_imp_le_length)
  show ?case
  proof (cases "n < 8")
    case True
    then show ?thesis unfolding step by (simp add: nth_append)
  next
    case False
    then obtain m where m: "n = m + 8" by (metis add.commute le_add_diff_inverse not_less)
    have d: "(m + 8) div 8 = Suc (m div 8)" "(m + 8) mod 8 = m mod 8" by simp_all
    have "bit (be_word (bs @ [b]) :: 'a word) n \<longleftrightarrow> m < 8 * length bs \<and> bit (bs ! (length bs - 1 - m div 8)) (m mod 8)"
      unfolding step using snoc.IH [of m] snoc.prems by (simp add: m)
    also have "\<dots> \<longleftrightarrow> n < 8 * length (bs @ [b]) \<and> bit ((bs @ [b]) ! (length (bs @ [b]) - 1 - n div 8)) (n mod 8)"
      unfolding m d by (auto simp: nth_append)
    finally show ?thesis .
  qed
qed

lemma and_1_eq: "and (drop_bit k w) 1 = 1 \<longleftrightarrow> bit w k" for w :: "'a::len word"
  by (simp add: and_one_eq bit_iff_odd_drop_bit odd_iff_mod_2_eq_one)

lemma byte_flip:
  fixes i n :: nat
  assumes "i < 8 * n"
  shows "(8 * n - 1 - i) div 8 = n - 1 - i div 8" and "(8 * n - 1 - i) mod 8 = 7 - i mod 8"
proof -
  define q r where "q = i div 8" and "r = i mod 8"
  have i: "i = 8 * q + r" and r: "r < 8" by (simp_all add: q_def r_def)
  have "q < n" using assms by (simp add: q_def less_mult_imp_div_less)
  then obtain m where n: "n = Suc (q + m)" using less_imp_Suc_add by blast
  have e: "8 * n - 1 - i = (7 - r) + 8 * m" using r by (simp add: i n)
  have "((7 - r) + 8 * m) div 8 = m" "((7 - r) + 8 * m) mod 8 = 7 - r"
    by (subst div_mult_self2; simp) (subst mod_mult_self2; simp)
  moreover have "n - 1 - q = m" by (simp add: n)
  ultimately show "(8 * n - 1 - i) div 8 = n - 1 - i div 8" "(8 * n - 1 - i) mod 8 = 7 - i mod 8"
    unfolding e by (simp_all only: q_def r_def)
qed

lemma getBit32_bits:
  assumes "length b = 4" and "i < 32"
  shows "getBit32 (be_word b) i = bits_of b ! i"
proof -
  have "(31 - i) div 8 = 3 - i div 8" "(31 - i) mod 8 = 7 - i mod 8"
    using byte_flip [of i 4] assms(2) by simp_all
  then show ?thesis
    using assms bit_be_word [of b "31 - i", where ?'a = 32]
    by (simp add: getBit32_def and_1_eq bits_of_nth)
qed

lemma getBit128_bits:
  assumes "length b = 16" and "i < 128"
  shows "getBit128 (be128 b) i = bits_of b ! i"
proof (cases "i < 64")
  case True
  have "(63 - i) div 8 = 7 - i div 8" "(63 - i) mod 8 = 7 - i mod 8"
    using byte_flip [of i 8] True by simp_all
  moreover have "i div 8 < 8" using True by (simp add: less_mult_imp_div_less)
  moreover have "63 - i < LENGTH(64)" by simp
  ultimately show ?thesis
    using assms True bit_be_word [of "take 8 b" "63 - i", where ?'a = 64]
    by (simp add: getBit128_def be128_def and_1_eq bits_of_nth)
next
  case False
  define j where "j = i - 64"
  have j: "i = 64 + j" "j < 64" using False assms(2) by (simp_all add: j_def)
  have "(63 - j) div 8 = 7 - j div 8" "(63 - j) mod 8 = 7 - j mod 8" "j div 8 < 8"
    "(64 + j) div 8 = 8 + j div 8" "(64 + j) mod 8 = j mod 8"
    using byte_flip [of j 8] j(2) div_mult_self1 [of 8 j 8] mod_mult_self1 [of j 8 8]
    by (simp_all add: less_mult_imp_div_less add.commute)
  moreover have "63 - j < LENGTH(64)" by simp
  ultimately show ?thesis
    using assms j bit_be_word [of "take 8 (drop 8 b)" "63 - j", where ?'a = 64]
    by (simp add: getBit128_def be128_def and_1_eq bits_of_nth)
qed

section \<open>What a trie stores\<close>

fun trie_at :: "'v bit_node \<Rightarrow> bool list \<Rightarrow> 'v option" where
  "trie_at n [] = nodeValue n"
| "trie_at n (b # bs) = (case bit_child b n of None \<Rightarrow> None | Some c \<Rightarrow> trie_at c bs)"

lemma trie_at_new [simp]: "trie_at new_bit_node bs = None"
  by (cases bs) (auto simp: new_bit_node_def bit_child_def)

lemma trie_at_set_value: "trie_at (set_node_value v n) bs = (if bs = [] then Some v else trie_at n bs)"
  by (cases bs) (auto simp: set_node_value_def bit_child_def)

lemma trie_at_set_child:
  "trie_at (set_bit_child b c n) bs = (if bs \<noteq> [] \<and> hd bs = b then trie_at c (tl bs) else trie_at n bs)"
  by (cases bs) (auto simp: set_bit_child_def bit_child_def)

lemma insert_loop_at:
  "trie_at (insert_loop get i n v cur) bs = (if bs = map get [i..<i + n] then Some v else trie_at cur bs)"
proof (induction n arbitrary: i cur bs)
  case 0
  then show ?case by (simp add: trie_at_set_value)
next
  case (Suc n)
  have up: "[i..<i + Suc n] = i # [Suc i..<Suc i + n]" by (subst upt_conv_Cons) simp_all
  show ?case
    unfolding up insert_loop.simps Let_def trie_at_set_child Suc.IH
    by (cases bs) (auto split: option.splits)
qed

text \<open>The value of the longest stored prefix of a bit list.\<close>

definition longest_match :: "(bool list \<Rightarrow> 'v option) \<Rightarrow> bool list \<Rightarrow> 'v option" where
  "longest_match at bs = first_some (\<lambda>k. at (take k bs)) (rev [0..<Suc (length bs)])"

lemma longest_match_Cons:
  "longest_match at (b # bs) =
     (case longest_match (\<lambda>l. at (b # l)) bs of Some v \<Rightarrow> Some v | None \<Rightarrow> at [])"
proof -
  have "rev [0..<Suc (length (b # bs))] = map Suc (rev [0..<Suc (length bs)]) @ [0]"
    by (simp add: map_Suc_upt rev_map [symmetric] upt_conv_Cons del: upt_Suc)
  then show ?thesis
    unfolding longest_match_def by (simp only: first_some_append first_some_map) (simp add: o_def split: option.split)
qed

lemma longest_match_None_iff: "longest_match at bs = None \<longleftrightarrow> (\<forall>k \<le> length bs. at (take k bs) = None)"
  by (auto simp: longest_match_def first_some_None less_Suc_eq_le simp del: upt_Suc)

lemma longest_match_None: "longest_match at bs = None \<Longrightarrow> at [] = None"
  by (auto simp: longest_match_None_iff dest: spec [of _ 0])

lemma find_loop_match:
  assumes "find_loop get i n cur matched = (c, m)"
  shows "(if nodeValue c \<noteq> None then nodeValue c else m) =
    (case longest_match (trie_at cur) (map get [i..<i + n]) of Some v \<Rightarrow> Some v | None \<Rightarrow> matched)"
  using assms
proof (induction n arbitrary: i cur matched)
  case 0
  then show ?case by (auto simp: longest_match_def split: option.splits)
next
  case (Suc n)
  have up: "[i..<i + Suc n] = i # [Suc i..<Suc i + n]" by (subst upt_conv_Cons) simp_all
  let ?m = "if nodeValue cur \<noteq> None then nodeValue cur else matched"
  show ?case
  proof (cases "bit_child (get i) cur")
    case None
    have "longest_match (trie_at cur) (map get [i..<i + Suc n]) = nodeValue cur"
    proof -
      have "longest_match (\<lambda>l. trie_at cur (get i # l)) (map get [Suc i..<Suc i + n]) = None"
        by (simp add: longest_match_None_iff None del: upt_Suc)
      then show ?thesis unfolding up by (simp add: longest_match_Cons del: upt_Suc)
    qed
    then show ?thesis using Suc.prems None by (auto simp: Let_def split: option.splits if_splits)
  next
    case (Some d)
    have "find_loop get (Suc i) n d ?m = (c, m)" using Suc.prems Some by (simp add: Let_def)
    from Suc.IH [OF this] show ?thesis
      unfolding up by (simp add: longest_match_Cons Some split: option.splits)
  qed
qed

lemma find_result_match:
  "find_result t (find_loop get 0 n t None) = longest_match (trie_at t) (map get [0..<n])"
proof -
  obtain c m where f: "find_loop get 0 n t None = (c, m)" by (cases "find_loop get 0 n t None")
  have "longest_match (trie_at t) (map get [0..<n]) = (if nodeValue c \<noteq> None then nodeValue c else m)"
    using find_loop_match [OF f] by (simp split: option.splits)
  moreover have "nodeValue c = None \<and> m = None \<Longrightarrow> nodeValue t = None"
    using calculation longest_match_None [of "trie_at t"] by simp
  ultimately show ?thesis by (auto simp: find_result_def f)
qed

section \<open>The contract the route matcher relies on\<close>

text \<open>
  A table of prefixes given as text. \<open>key\<close> is what a text stands for, \<open>bits\<close> the bits an
  address is looked up by.
\<close>

locale prefix_table =
  fixes insert :: "string \<Rightarrow> 'v \<Rightarrow> 'm \<Rightarrow> error + 'm"
    and find :: "'m \<Rightarrow> addr \<Rightarrow> 'v option"
    and at :: "'m \<Rightarrow> bool list \<Rightarrow> 'v option"
    and key :: "string \<Rightarrow> bool list option"
    and bits :: "addr \<Rightarrow> bool list"
    and ok :: "addr \<Rightarrow> bool"
  assumes insert_key: "key p = Some k \<Longrightarrow>
      \<exists>m'. insert p v m = Inr m' \<and> (\<forall>l. at m' l = (if l = k then Some v else at m l))"
    and insert_bad: "key p = None \<Longrightarrow> \<exists>e. insert p v m = Inl e"
    and find_longest: "ok a \<Longrightarrow> find m a = longest_match (at m) (bits a)"
begin

lemma insertD:
  assumes "insert p v m = Inr m'"
  obtains k where "key p = Some k" "\<forall>l. at m' l = (if l = k then Some v else at m l)"
proof (cases "key p")
  case None
  then show thesis using assms insert_bad [of p v m] by auto
next
  case (Some k)
  then show thesis using assms insert_key [OF Some, of v m] that by auto
qed

text \<open>A prefix of the address and no longer one stored: its value is found.\<close>

lemma find_stored: "ok a \<Longrightarrow> find m a = Some v \<Longrightarrow> \<exists>k. at m k = Some v"
  by (simp only: find_longest longest_match_def) (blast dest: first_some_SomeD)

lemma find_inserted:
  assumes "insert p v m = Inr m'" and "key p = Some (take n (bits a))" and "n \<le> length (bits a)" and "ok a"
    and "\<And>j. n < j \<Longrightarrow> j \<le> length (bits a) \<Longrightarrow> at m (take j (bits a)) = None"
  shows "find m' a = Some v"
proof -
  obtain k where k: "key p = Some k" "\<forall>l. at m' l = (if l = k then Some v else at m l)"
    by (rule insertD [OF assms(1)])
  have split: "rev [0..<Suc (length (bits a))] = rev [Suc n..<Suc (length (bits a))] @ n # rev [0..<n]"
  proof -
    have "[0..<Suc (length (bits a))] = [0..<n] @ n # [Suc n..<Suc (length (bits a))]"
      using assms(3) upt_add_eq_append [of 0 n "Suc (length (bits a)) - n"] upt_conv_Cons [of n "Suc (length (bits a))"]
      by (simp del: upt_Suc)
    then show ?thesis by (simp del: upt_Suc)
  qed
  have "first_some (\<lambda>k. at m' (take k (bits a))) (rev [Suc n..<Suc (length (bits a))]) = None"
  proof -
    have "take j (bits a) \<noteq> take n (bits a)" if "n < j" "j \<le> length (bits a)" for j
    proof -
      have "length (take j (bits a)) \<noteq> length (take n (bits a))" using that assms(3) by simp
      then show ?thesis by metis
    qed
    then show ?thesis using k assms(2,5) by (auto simp: first_some_None simp del: upt_Suc)
  qed
  then show ?thesis
    unfolding find_longest [OF assms(4)] longest_match_def split using k assms(2) by (simp add: first_some_append)
qed

lemma find_unrelated:
  assumes "insert p v m = Inr m'" and "key p = Some k" and "k \<noteq> take (length k) (bits a)" and "ok a"
  shows "find m' a = find m a"
proof -
  have "at m' (take j (bits a)) = at m (take j (bits a))" for j
  proof -
    have "take j (bits a) \<noteq> k"
    proof
      assume eq: "take j (bits a) = k"
      then have "k = take (length k) (bits a)" by (metis append_eq_conv_conj append_take_drop_id)
      with assms(3) show False by blast
    qed
    moreover obtain k' where "key p = Some k'" "\<forall>l. at m' l = (if l = k' then Some v else at m l)"
      by (rule insertD [OF assms(1)])
    ultimately show ?thesis using assms(2) by simp
  qed
  then show ?thesis by (simp add: find_longest [OF assms(4)] longest_match_def)
qed

end

text \<open>What a text stands for: the bits of the prefix, or of the whole address.\<close>

definition ipv4_key :: "string \<Rightarrow> bool list option" where
  "ipv4_key p =
     (if p = ''*'' then Some []
      else case parse_prefix p of
        Some (IP4 b, n) \<Rightarrow> Some (take n (bits_of b))
      | Some (IP6 _ _, _) \<Rightarrow> None
      | None \<Rightarrow> (case map_option unmap (parse_addr p) of Some (IP4 b) \<Rightarrow> Some (bits_of b) | _ \<Rightarrow> None))"

definition ipv6_key :: "string \<Rightarrow> bool list option" where
  "ipv6_key p =
     (if p = ''*'' then Some []
      else case parse_prefix p of
        Some (a, n) \<Rightarrow> if is4 (unmap a) then None else Some (take n (bits_of (as16 a)))
      | None \<Rightarrow> (case map_option unmap (parse_addr p) of Some (IP6 b z) \<Rightarrow> Some (bits_of b) | _ \<Rightarrow> None))"

definition ipv4_bits :: "addr \<Rightarrow> bool list" where
  "ipv4_bits a = bits_of (the (as4 a))"

definition ipv6_bits :: "addr \<Rightarrow> bool list" where
  "ipv6_bits a = bits_of (as16 a)"

lemma map_getBit32: "length b = 4 \<Longrightarrow> n \<le> 32 \<Longrightarrow> map (getBit32 (be_word b)) [0..<n] = take n (bits_of b)"
  by (rule nth_equalityI) (simp_all add: getBit32_bits)

lemma map_getBit128: "length b = 16 \<Longrightarrow> n \<le> 128 \<Longrightarrow> map (getBit128 (be128 b)) [0..<n] = take n (bits_of b)"
  by (rule nth_equalityI) (simp_all add: getBit128_bits)

lemma parseIPv4OrCIDR_key:
  assumes "p \<noteq> ''*''"
  shows "case parseIPv4OrCIDR p of
      Inl e \<Rightarrow> ipv4_key p = None
    | Inr (ip, n) \<Rightarrow> ipv4_key p = Some (map (getBit32 ip) [0..<n])"
proof (cases "parse_prefix p")
  case None
  show ?thesis
  proof (cases "parse_addr p")
    case (Some a)
    have "wf_addr (unmap a)" using parse_addr_wf [OF Some] by simp
    then show ?thesis
      using assms None Some map_getBit32 [of _ 32]
      by (cases "unmap a") (simp_all add: parseIPv4OrCIDR_def ipv4_key_def wf_addr_def)
  qed (use assms None in \<open>simp add: parseIPv4OrCIDR_def ipv4_key_def\<close>)
next
  case (Some an)
  obtain a n where an: "an = (a, n)" by (cases an)
  have "wf_addr a \<and> n \<le> addr_bits a" using parse_prefix_wf Some an by simp
  then show ?thesis
    using assms Some an
    by (cases a) (simp_all add: parseIPv4OrCIDR_def ipv4_key_def wf_addr_def addr_bits_def is4_def map_getBit32)
qed

lemma parseIPv6OrCIDR_key:
  assumes "p \<noteq> ''*''"
  shows "case parseIPv6OrCIDR p of
      Inl e \<Rightarrow> ipv6_key p = None
    | Inr (ip, n) \<Rightarrow> ipv6_key p = Some (map (getBit128 ip) [0..<n])"
proof (cases "parse_prefix p")
  case None
  show ?thesis
  proof (cases "parse_addr p")
    case (Some a)
    have "wf_addr (unmap a)" using parse_addr_wf [OF Some] by simp
    then show ?thesis
      using assms None Some map_getBit128 [of _ 128]
      by (cases "unmap a") (simp_all add: parseIPv6OrCIDR_def ipv6_key_def wf_addr_def is4_def as16_def)
  qed (use assms None in \<open>simp add: parseIPv6OrCIDR_def ipv6_key_def\<close>)
next
  case (Some an)
  obtain a n where an: "an = (a, n)" by (cases an)
  have wf: "wf_addr a \<and> n \<le> addr_bits a" using parse_prefix_wf Some an by simp
  show ?thesis
  proof (cases "is4 (unmap a)")
    case True
    then show ?thesis using assms Some an by (simp add: parseIPv6OrCIDR_def ipv6_key_def)
  next
    case False
    then obtain b z where a: "a = IP6 b z" "unmap a = a"
      by (cases a) (auto simp: unmap_def is4_def split: if_splits)
    have "length b = 16" "n \<le> 128" using wf a by (simp_all add: wf_addr_def addr_bits_def is4_def)
    then show ?thesis
      using assms Some an False a by (simp add: parseIPv6OrCIDR_def ipv6_key_def as16_def map_getBit128)
  qed
qed

definition ipv4_lookup :: "'v bit_node \<Rightarrow> addr \<Rightarrow> 'v option" where
  "ipv4_lookup t a = (case ipv4_find t a of None \<Rightarrow> None | Some r \<Rightarrow> r)"

interpretation v4: prefix_table ipv4_insert ipv4_lookup trie_at ipv4_key ipv4_bits "\<lambda>a. wf_addr a \<and> is4 (unmap a)"
proof unfold_locales
  fix p :: string and k and v :: 'v and m
  assume k: "ipv4_key p = Some k"
  show "\<exists>m'. ipv4_insert p v m = Inr m' \<and> (\<forall>l. trie_at m' l = (if l = k then Some v else trie_at m l))"
  proof (cases "p = ''*''")
    case True
    then show ?thesis using k by (simp add: ipv4_insert_def ipv4_key_def trie_at_set_value)
  next
    case False
    from parseIPv4OrCIDR_key [OF False] k show ?thesis
      using False by (auto simp: ipv4_insert_def insert_loop_at split: sum.splits)
  qed
next
  fix p :: string and v :: 'v and m
  assume k: "ipv4_key p = None"
  then have "p \<noteq> ''*''" by (auto simp: ipv4_key_def)
  from parseIPv4OrCIDR_key [OF this] k this show "\<exists>e. ipv4_insert p v m = Inl e"
    by (auto simp: ipv4_insert_def split: sum.splits)
next
  fix a and m :: "'v bit_node"
  assume a: "wf_addr a \<and> is4 (unmap a)"
  then obtain b where b: "unmap a = IP4 b" by (cases "unmap a") (auto simp: is4_def)
  have "length b = 4" using a wf_unmap [of a] b by (simp add: wf_addr_def)
  then show "ipv4_lookup m a = longest_match (trie_at m) (ipv4_bits a)"
    by (simp add: ipv4_lookup_def ipv4_find_def as4_def b find_result_match map_getBit32 ipv4_bits_def)
qed

interpretation v6: prefix_table ipv6_insert ipv6_find trie_at ipv6_key ipv6_bits wf_addr
proof unfold_locales
  fix p :: string and k and v :: 'v and m
  assume k: "ipv6_key p = Some k"
  show "\<exists>m'. ipv6_insert p v m = Inr m' \<and> (\<forall>l. trie_at m' l = (if l = k then Some v else trie_at m l))"
  proof (cases "p = ''*''")
    case True
    then show ?thesis using k by (simp add: ipv6_insert_def ipv6_key_def trie_at_set_value)
  next
    case False
    from parseIPv6OrCIDR_key [OF False] k show ?thesis
      using False by (auto simp: ipv6_insert_def insert_loop_at split: sum.splits)
  qed
next
  fix p :: string and v :: 'v and m
  assume k: "ipv6_key p = None"
  then have "p \<noteq> ''*''" by (auto simp: ipv6_key_def)
  from parseIPv6OrCIDR_key [OF this] k this show "\<exists>e. ipv6_insert p v m = Inl e"
    by (auto simp: ipv6_insert_def split: sum.splits)
next
  fix a and m :: "'v bit_node"
  assume "wf_addr a"
  then have "length (as16 a) = 16" by (rule as16_length)
  then show "ipv6_find m a = longest_match (trie_at m) (ipv6_bits a)"
    by (simp add: ipv6_find_def find_result_match map_getBit128 ipv6_bits_def)
qed

section \<open>Properties\<close>

text \<open>
  C0. \<^verbatim>\<open>Insert\<close> accepts exactly the IPv4 addresses, the IPv4 prefixes and \<^verbatim>\<open>*\<close>. After it an
  address under the prefix, with no longer prefix stored, finds the new value; an address
  outside the prefix finds what it found before.
\<close>

theorem ipv4_longest_prefix:
  assumes "ipv4_insert p v m = Inr m'" and "wf_addr a" and "is4 (unmap a)"
  shows "\<exists>k. ipv4_key p = Some k \<and>
    (if k \<noteq> take (length k) (ipv4_bits a) then ipv4_find m' a = ipv4_find m a
     else (\<forall>j. length k < j \<and> j \<le> 32 \<longrightarrow> trie_at m (take j (ipv4_bits a)) = None) \<longrightarrow>
       ipv4_find m' a = Some (Some v))"
proof -
  obtain k where k: "ipv4_key p = Some k" by (rule v4.insertD [OF assms(1)])
  obtain b where b: "unmap a = IP4 b" using assms(3) by (cases "unmap a") (auto simp: is4_def)
  have len: "length (ipv4_bits a) = 32"
    using assms(2) wf_unmap [of a] b by (simp add: ipv4_bits_def as4_def wf_addr_def)
  have ok: "wf_addr a \<and> is4 (unmap a)" using assms(2,3) by blast
  have lift: "ipv4_find t a = Some (ipv4_lookup t a)" for t :: "'a bit_node"
    by (simp add: ipv4_lookup_def ipv4_find_def as4_def b)
  show ?thesis
  proof (cases "k = take (length k) (ipv4_bits a)")
    case True
    then have "length k \<le> 32" using len by (metis length_take min.cobounded1)
    then have "ipv4_lookup m' a = Some v"
      if "\<forall>j. length k < j \<and> j \<le> 32 \<longrightarrow> trie_at m (take j (ipv4_bits a)) = None"
      using True k that len by (intro v4.find_inserted [OF assms(1) _ _ ok, of "length k"]) auto
    then show ?thesis using k True lift by auto
  next
    case False
    then show ?thesis using v4.find_unrelated [OF assms(1) k False ok] k lift by auto
  qed
qed

theorem ipv4_longest_prefix_witness:
  "\<exists>m'. ipv4_insert ''10.0.0.0/8'' (7 :: nat) new_bit_node = Inr m' \<and>
     ipv4_find m' (IP4 [10, 1, 2, 3]) = Some (Some 7) \<and> ipv4_find m' (IP4 [11, 1, 2, 3]) = Some None"
proof -
  obtain k where k: "k = [False, False, False, False, True, False, True, False]" by blast
  have key: "ipv4_key ''10.0.0.0/8'' = Some k" unfolding k by code_simp
  obtain m' where m: "ipv4_insert ''10.0.0.0/8'' (7 :: nat) new_bit_node = Inr m'"
    using v4.insert_key [OF key, of 7 new_bit_node] by auto
  have wf: "wf_addr (IP4 [10, 1, 2, 3])" "is4 (unmap (IP4 [10, 1, 2, 3]))"
    "wf_addr (IP4 [11, 1, 2, 3])" "is4 (unmap (IP4 [11, 1, 2, 3]))"
    by (simp_all add: wf_addr_def is4_def unmap_def)
  have b: "k = take (length k) (ipv4_bits (IP4 [10, 1, 2, 3]))"
    "k \<noteq> take (length k) (ipv4_bits (IP4 [11, 1, 2, 3]))"
    "ipv4_find (new_bit_node :: nat bit_node) (IP4 [11, 1, 2, 3]) = Some None"
    unfolding k by code_simp+
  from ipv4_longest_prefix [OF m wf(1,2)] ipv4_longest_prefix [OF m wf(3,4)] m b key show ?thesis
    by (auto split: if_splits)
qed

text \<open>The same for the IPv6 table.\<close>

theorem ipv6_longest_prefix:
  assumes "ipv6_insert p v m = Inr m'" and "wf_addr a"
  shows "\<exists>k. ipv6_key p = Some k \<and>
    (if k \<noteq> take (length k) (ipv6_bits a) then ipv6_find m' a = ipv6_find m a
     else (\<forall>j. length k < j \<and> j \<le> 128 \<longrightarrow> trie_at m (take j (ipv6_bits a)) = None) \<longrightarrow>
       ipv6_find m' a = Some v)"
proof -
  obtain k where k: "ipv6_key p = Some k" by (rule v6.insertD [OF assms(1)])
  have len: "length (ipv6_bits a) = 128" using as16_length [OF assms(2)] by (simp add: ipv6_bits_def)
  show ?thesis
  proof (cases "k = take (length k) (ipv6_bits a)")
    case True
    then have "length k \<le> 128" using len by (metis length_take min.cobounded1)
    then have "ipv6_find m' a = Some v"
      if "\<forall>j. length k < j \<and> j \<le> 128 \<longrightarrow> trie_at m (take j (ipv6_bits a)) = None"
      using True k that len by (intro v6.find_inserted [OF assms(1) _ _ assms(2), of "length k"]) auto
    then show ?thesis using k True by auto
  next
    case False
    then show ?thesis using v6.find_unrelated [OF assms(1) k False assms(2)] k by auto
  qed
qed

theorem ipv6_longest_prefix_witness:
  "\<exists>m'. ipv6_insert ''*'' (7 :: nat) new_bit_node = Inr m' \<and>
     ipv6_find m' (IP6 (replicate 15 0 @ [1]) []) = Some 7"
proof -
  have key: "ipv6_key ''*'' = Some []" by (simp add: ipv6_key_def)
  obtain m' where m: "ipv6_insert ''*'' (7 :: nat) new_bit_node = Inr m'"
    using v6.insert_key [OF key, of 7 new_bit_node] by auto
  have wf: "wf_addr (IP6 (replicate 15 0 @ [1]) [])" by (simp add: wf_addr_def)
  from ipv6_longest_prefix [OF m wf] m key show ?thesis by auto
qed

end
