(* ===== verification/Pattern.thy ===== *)
theory Pattern
  imports Prelude "HOL-Library.Monad_Syntax"
begin

text \<open>
  \<^verbatim>\<open>expandPattern\<close> of \<^verbatim>\<open>internal/core/core.go\<close>: a pattern such as \<^verbatim>\<open>a(b|c)d|e\<close> stands for
  the list of texts it expands to. It is used for domain patterns, addresses and address
  pools. \<open>None\<close> is the panic of a slice whose bounds are out of order.
\<close>

function expandPattern :: "string \<Rightarrow> string list option" where
  "expandPattern s =
     (case index_byte (CHR ''('') s of
        None \<Rightarrow> Some (split_on (CHR ''|'') s)
      | Some left \<Rightarrow>
          (case index_byte (CHR '')'') s of
             None \<Rightarrow> Some (split_on (CHR ''|'') s)
           | Some right \<Rightarrow> do {
               inner \<leftarrow> slice s (left + 1) right;
               let parts = split_on (CHR ''|'') inner;
               suffixResults \<leftarrow> expandPattern (drop (right + 1) s);
               Some (concat (map (\<lambda>part. map (\<lambda>suff. take left s @ part @ suff) suffixResults) parts))
             }))"
  by auto
termination by (relation "measure length") (auto dest!: index_byte_SomeD)

declare expandPattern.simps [simp del]

text \<open>
  What a pattern means: groups, each a plain text followed by alternatives in parentheses, and
  alternatives after the last group.
\<close>

type_synonym pattern = "(string \<times> string list) list \<times> string list"

fun render :: "pattern \<Rightarrow> string" where
  "render ([], tails) = join_with ''|'' tails"
| "render ((pre, alts) # groups, tails) = pre @ ''('' @ join_with ''|'' alts @ '')'' @ render (groups, tails)"

fun expansions :: "pattern \<Rightarrow> string list" where
  "expansions ([], tails) = tails"
| "expansions ((pre, alts) # groups, tails) =
     [pre @ a @ r. a \<leftarrow> alts, r \<leftarrow> expansions (groups, tails)]"

definition plain :: "string \<Rightarrow> bool" where
  "plain s \<longleftrightarrow> CHR ''('' \<notin> set s \<and> CHR '')'' \<notin> set s"

definition alternatives :: "string list \<Rightarrow> bool" where
  "alternatives xs \<longleftrightarrow> xs \<noteq> [] \<and> (\<forall>x \<in> set xs. plain x \<and> CHR ''|'' \<notin> set x)"

lemma split_on_join:
  assumes "xs \<noteq> []" and "\<And>x. x \<in> set xs \<Longrightarrow> c \<notin> set x"
  shows "split_on c (join_with [c] xs) = xs"
  using assms
proof (induction "[c]" xs rule: join_with.induct)
  case (3 x y ys)
  then show ?case using split_on_append [of c x "join_with [c] (y # ys)"] by simp
qed (simp_all add: split_on_id)

lemma set_join_with: "set (join_with sep xs) \<subseteq> set sep \<union> \<Union> (set ` set xs)"
  by (induction sep xs rule: join_with.induct) auto

lemma alternatives_plain: "alternatives xs \<Longrightarrow> plain (join_with ''|'' xs)"
  using set_join_with [of "''|''" xs] by (force simp: alternatives_def plain_def)

lemma alternatives_split: "alternatives xs \<Longrightarrow> split_on (CHR ''|'') (join_with ''|'' xs) = xs"
  by (rule split_on_join) (auto simp: alternatives_def)

lemma index_byte_skip: "c \<notin> set xs \<Longrightarrow> index_byte c (xs @ ys) = map_option ((+) (length xs)) (index_byte c ys)"
  by (induction xs; cases "index_byte c ys") (auto simp del: index_byte_None)

lemma expandPattern_plain:
  assumes "plain s" shows "expandPattern s = Some (split_on (CHR ''|'') s)"
proof -
  have "index_byte (CHR ''('') s = None" using assms by (simp add: plain_def)
  then show ?thesis by (subst expandPattern.simps) (simp only: option.case)
qed

lemma expandPattern_group:
  assumes "plain pre" and "plain inner" and "expandPattern rest = Some rs"
  shows "expandPattern (pre @ ''('' @ inner @ '')'' @ rest) =
    Some [pre @ a @ r. a \<leftarrow> split_on (CHR ''|'') inner, r \<leftarrow> rs]"
proof -
  let ?s = "pre @ ''('' @ inner @ '')'' @ rest"
  have l: "index_byte (CHR ''('') ?s = Some (length pre)"
    using assms(1) by (simp add: plain_def index_byte_append)
  have r: "index_byte (CHR '')'') ?s = Some (length pre + length inner + 1)"
    using assms(1,2) by (simp add: plain_def index_byte_skip)
  have "slice ?s (length pre + 1) (length pre + length inner + 1) = Some inner"
    by (simp add: slice_def)
  moreover have "drop (length pre + length inner + 1 + 1) ?s = rest" by simp
  moreover have "take (length pre) ?s = pre" by simp
  ultimately show ?thesis
    by (subst expandPattern.simps) (simp only: l r option.case assms(3) bind.bind_lunit Let_def)
qed

text \<open>
  A pattern expands to every choice of one alternative per group, in order, for any number
  of groups; a text with no parentheses expands to its alternatives.
\<close>

theorem expandPattern_render:
  assumes "\<forall>(pre, alts) \<in> set groups. plain pre \<and> alternatives alts" and "alternatives tails"
  shows "expandPattern (render (groups, tails)) = Some (expansions (groups, tails))"
  using assms(1)
proof (induction groups)
  case Nil
  then show ?case by (simp add: expandPattern_plain alternatives_plain alternatives_split assms(2))
next
  case (Cons g groups)
  obtain pre alts where g: "g = (pre, alts)" by (cases g)
  then show ?case
    using Cons expandPattern_group [of pre "join_with ''|'' alts" "render (groups, tails)" "expansions (groups, tails)"]
    by (simp add: alternatives_plain alternatives_split)
qed

theorem expandPattern_render_witness:
  "expandPattern ''a(b|c)d|e'' = Some [''abd'', ''abe'', ''acd'', ''ace'']"
proof -
  have "expandPattern (render ([(''a'', [''b'', ''c''])], [''d'', ''e''])) =
      Some (expansions ([(''a'', [''b'', ''c''])], [''d'', ''e'']))"
    by (rule expandPattern_render) (auto simp: plain_def alternatives_def)
  then show ?thesis by simp
qed

text \<open>
  A closing parenthesis before the first opening one makes the expansion panic: the slice
  between them has its bounds out of order.
\<close>

theorem expandPattern_panics:
  assumes "index_byte (CHR ''('') s = Some left" and "index_byte (CHR '')'') s = Some right" and "right < left"
  shows "expandPattern s = None"
  using assms by (subst expandPattern.simps) (simp add: slice_def)

theorem expandPattern_panics_witness: "expandPattern ''a)b(c'' = None"
  by (rule expandPattern_panics [of _ 3 1]) simp_all

end
