(* ===== verification/IP_Pool.thy ===== *)
theory IP_Pool
  imports Dst Go_Time Pattern Complex_Main "HOL-Library.Product_Lexorder"
begin

text \<open>
  \<^verbatim>\<open>internal/core/ippool.go\<close>: pools of addresses that are tested from time to time; a
  connection gets the addresses that answered fastest, or one of them in weighted turns.
  Resolving a name in the list of addresses is a call outside the program and a parameter;
  the outcomes of the connection tests are an input. The computations in \<^verbatim>\<open>float64\<close> are
  done exactly, in rational numbers.
\<close>

section \<open>Pools\<close>

record ip_pool =
  poolWaitScan :: bool
  poolMulti :: bool
  poolIps :: "addr list"
  fallbackIP :: dst
  poolPort :: nat
  topIPCount :: nat
  poolAttempts :: nat
  poolTimeout :: int
  updateInterval :: int
  bestIndexes :: "nat list"
  bestWeights :: "nat list"
  totalWeight :: nat
  curValidIPs :: nat
  poolConcurrency :: nat
  poolCounter :: "32 word"

record ip_pool_options =
  optWaitScan :: bool
  optMulti :: bool
  optFallback :: dst
  optIPs :: "string list"
  optExcluded :: "string list"
  optPort :: nat
  optTopIPCount :: int
  optMaxConcurrency :: int
  optTimeout :: string
  optUpdateInterval :: string
  optAttempts :: int

definition maxIPPoolSize :: nat where
  "maxIPPoolSize = 1000"

section \<open>The list of addresses\<close>

text \<open>\<^verbatim>\<open>Addr.Next\<close>: one more, \<open>None\<close> past the last address.\<close>

fun incr_bytes :: "bytes \<Rightarrow> bytes option" where
  "incr_bytes [] = None"
| "incr_bytes (b # bs) =
     (case incr_bytes bs of
        Some bs' \<Rightarrow> Some (b # bs')
      | None \<Rightarrow> if b = 255 then None else Some ((b + 1) # replicate (length bs) 0))"

definition addr_next :: "addr \<Rightarrow> addr option" where
  "addr_next a =
     (case a of IP4 b \<Rightarrow> map_option IP4 (incr_bytes b)
      | IP6 b z \<Rightarrow> map_option (\<lambda>b. IP6 b z) (incr_bytes b))"

fun bytes_val :: "bytes \<Rightarrow> nat" where
  "bytes_val [] = 0"
| "bytes_val (b # bs) = unat b * 256 ^ length bs + bytes_val bs"

definition addr_bytes :: "addr \<Rightarrow> bytes" where
  "addr_bytes a = (case a of IP4 b \<Rightarrow> b | IP6 b _ \<Rightarrow> b)"

lemma bytes_val_less: "bytes_val bs < 256 ^ length bs"
proof (induction bs)
  case (Cons b bs)
  have "Suc (unat b) \<le> 256" using unat_byte_less [of b] by linarith
  then have "Suc (unat b) * 256 ^ length bs \<le> 256 * 256 ^ length bs" by (rule mult_right_mono) simp
  then show ?case using Cons by (simp only: bytes_val.simps list.size mult_Suc power_Suc add_0 add_Suc add_0_right add_Suc_right)
qed simp

lemma bytes_val_max: "incr_bytes bs = None \<Longrightarrow> Suc (bytes_val bs) = 256 ^ length bs"
proof (induction bs)
  case (Cons b bs)
  then have "b = 255" "incr_bytes bs = None" by (auto split: option.splits if_splits)
  moreover have "unat (255 :: byte) = 255" by simp
  ultimately show ?case using Cons.IH by (simp only: bytes_val.simps list.size) simp
qed simp

lemma incr_bytes_Some: "incr_bytes bs = Some bs' \<Longrightarrow> length bs' = length bs \<and> bytes_val bs' = Suc (bytes_val bs)"
proof (induction bs arbitrary: bs')
  case (Cons b bs)
  show ?case
  proof (cases "incr_bytes bs")
    case None
    then have b: "b \<noteq> 255" "bs' = (b + 1) # replicate (length bs) 0" using Cons.prems by (auto split: if_splits)
    have "unat b \<noteq> 255" using b(1) by (auto simp: word_unat_eq_iff)
    then have "unat b + 1 < 256" using unat_byte_less [of b] by linarith
    then have "unat (b + 1) = Suc (unat b)" by (simp add: unat_word_ariths)
    moreover have "bytes_val (replicate n 0) = 0" for n by (induction n) simp_all
    ultimately show ?thesis using b bytes_val_max [OF None] by simp
  qed (use Cons in auto)
qed simp

text \<open>\<open>ips\<close> is what has been collected; an error if the pool would grow past its limit.\<close>

definition add_ip :: "string \<Rightarrow> (addr \<Rightarrow> bool) \<Rightarrow> addr \<Rightarrow> addr list \<Rightarrow> error + addr list" where
  "add_ip msg isExcluded a ips =
     (if isExcluded a then Inr ips
      else if maxIPPoolSize \<le> length ips then Inl (LibError msg)
      else Inr (ips @ [a]))"

function cidr_loop :: "string \<Rightarrow> (addr \<Rightarrow> bool) \<Rightarrow> prefix \<Rightarrow> addr \<Rightarrow> addr list \<Rightarrow> error + addr list" where
  "cidr_loop s isExcluded pfx a ips =
     (if \<not> contains pfx a then Inr ips
      else (case add_ip (''cidr '' @ s @ '' exceeds max pool size (1000)'') isExcluded (unmap a) ips of
              Inl e \<Rightarrow> Inl e
            | Inr ips \<Rightarrow>
                (case addr_next a of
                   None \<Rightarrow> Inr ips
                 | Some a' \<Rightarrow> if \<not> contains pfx a' then Inr ips else cidr_loop s isExcluded pfx a' ips)))"
  by auto
termination
proof (relation "measure (\<lambda>(s, e, p, a, ips). 256 ^ length (addr_bytes a) - bytes_val (addr_bytes a))")
  fix a a' :: addr
  assume "addr_next a = Some a'"
  then have "length (addr_bytes a') = length (addr_bytes a)" "bytes_val (addr_bytes a') = Suc (bytes_val (addr_bytes a))"
    by (auto simp: addr_next_def addr_bytes_def split: addr.splits dest: incr_bytes_Some)
  then show "((s, e, p, a', i'), (s, e, p, a, i)) \<in> measure (\<lambda>(s, e, p, a, ips). 256 ^ length (addr_bytes a) - bytes_val (addr_bytes a))"
    for s :: string and e :: "addr \<Rightarrow> bool" and p :: prefix and i i' :: "addr list"
    using bytes_val_less [of "addr_bytes a"] by simp
qed simp

declare cidr_loop.simps [simp del]

fun lookup_loop :: "string \<Rightarrow> (addr \<Rightarrow> bool) \<Rightarrow> bytes list \<Rightarrow> addr list \<Rightarrow> error + addr list" where
  "lookup_loop s isExcluded [] ips = Inr ips"
| "lookup_loop s isExcluded (b # bs) ips =
     (case addr_from_slice b of
        None \<Rightarrow> lookup_loop s isExcluded bs ips
      | Some a \<Rightarrow>
          (case add_ip (''dns resolution for '' @ s @ '' exceeds max pool size'') isExcluded (unmap a) ips of
             Inl e \<Rightarrow> Inl e | Inr ips \<Rightarrow> lookup_loop s isExcluded bs ips))"

text \<open>One text of the list: an address, a prefix, or a name to look up.\<close>

definition source_item ::
  "(string \<Rightarrow> error + bytes list) \<Rightarrow> (addr \<Rightarrow> bool) \<Rightarrow> string \<Rightarrow> addr list \<Rightarrow> error + addr list" where
  "source_item lookupIP isExcluded s ips =
     (if maxIPPoolSize \<le> length ips
      then Inl (LibError ''ip pool exceeds maximum size (1000) during parsing'')
      else (case parse_addr s of
              Some a \<Rightarrow> Inr (if isExcluded (unmap a) then ips else ips @ [unmap a])
            | None \<Rightarrow>
                (case parse_prefix s of
                   Some pfx \<Rightarrow> cidr_loop s isExcluded pfx (fst pfx) ips
                 | None \<Rightarrow>
                     (case lookupIP s of
                        Inl e \<Rightarrow> Inl e
                      | Inr bs \<Rightarrow> lookup_loop s isExcluded bs ips))))"

definition excluded_item :: "string \<Rightarrow> string \<Rightarrow> addr list \<times> prefix list \<Rightarrow> error + addr list \<times> prefix list" where
  "excluded_item pattern s x =
     (case parse_addr s of
        Some a \<Rightarrow> Inr (unmap a # fst x, snd x)
      | None \<Rightarrow>
          (case parse_prefix s of
             Some pfx \<Rightarrow> Inr (fst x, snd x @ [pfx])
           | None \<Rightarrow> Inl (LibError (''excluded item '' @ pattern @ '' is invalid''))))"

text \<open>A loop over texts that stops at the first error, and one over patterns (\<open>None\<close>: panic).\<close>

fun each_text :: "(string \<Rightarrow> 'a \<Rightarrow> error + 'a) \<Rightarrow> string list \<Rightarrow> 'a \<Rightarrow> error + 'a" where
  "each_text f [] x = Inr x"
| "each_text f (s # ss) x = (case f s x of Inl e \<Rightarrow> Inl e | Inr x \<Rightarrow> each_text f ss x)"

fun each_pattern :: "(string \<Rightarrow> string \<Rightarrow> 'a \<Rightarrow> error + 'a) \<Rightarrow> string list \<Rightarrow> 'a \<Rightarrow> (error + 'a) option" where
  "each_pattern f [] x = Some (Inr x)"
| "each_pattern f (p # ps) x =
     do {
       ss \<leftarrow> expandPattern p;
       (case each_text (f p) ss x of Inl e \<Rightarrow> Some (Inl e) | Inr x \<Rightarrow> each_pattern f ps x)
     }"

definition is_excluded :: "addr list \<times> prefix list \<Rightarrow> addr \<Rightarrow> bool" where
  "is_excluded x a \<longleftrightarrow> a \<in> set (fst x) \<or> list_ex (\<lambda>pfx. contains pfx a) (snd x)"

definition parseIPList ::
  "(string \<Rightarrow> error + bytes list) \<Rightarrow> string list \<Rightarrow> string list \<Rightarrow> (error + addr list) option" where
  "parseIPList lookupIP sources excluded =
     do {
       r \<leftarrow> each_pattern excluded_item excluded ([], []);
       (case r of
          Inl e \<Rightarrow> Some (Inl e)
        | Inr x \<Rightarrow> each_pattern (\<lambda>_. source_item lookupIP (is_excluded x)) sources [])
     }"

section \<open>Construction\<close>

definition positive_duration :: "string \<Rightarrow> string \<Rightarrow> int \<Rightarrow> error + int" where
  "positive_duration name s d =
     (if s = [] then Inr d
      else (case parse_duration s of
              Inr d \<Rightarrow> if d \<le> 0 then Inl (LibError (''invalid '' @ name @ '' '' @ s)) else Inr d
            | Inl e \<Rightarrow> Inl (LibError (''invalid '' @ name @ '' '' @ s))))"

definition check_fallback :: "dst \<Rightarrow> error option option" where
  "check_fallback d =
     (if dst_is_zero (Some d) then Some (Some (NewError ''fallback_ip cannot be empty''))
      else if is_multi (Some d) then Some None
      else do {
        s \<leftarrow> dst_single (Some d);
        (if s = [] then Some (Some (NewError ''fallback_ip cannot be empty''))
         else if hd s = CHR ''?'' \<or> hd s = CHR ''^'' \<or> hd s = CHR ''$''
         then Some (Some (LibError (''invalid fallback_ip '' @ s)))
         else Some None)
      })"

definition newIPPool :: "(string \<Rightarrow> error + bytes list) \<Rightarrow> ip_pool_options \<Rightarrow> (error + ip_pool) option" where
  "newIPPool lookupIP o' =
     (if optPort o' = 0 then Some (Inl (NewError ''port cannot be 0 or empty''))
      else
        let concurrency = (if optMaxConcurrency o' = 0 then 100 else optMaxConcurrency o');
            attempts = (if optAttempts o' = 0 then 4 else optAttempts o')
        in if concurrency < 1
           then Some (Inl (LibError (''invalid max_concurrency: '' @ show_int concurrency)))
           else if attempts \<le> 0 \<or> 255 < attempts
           then Some (Inl (LibError (''invalid attempts: '' @ show_int attempts)))
           else (case positive_duration ''timeout'' (optTimeout o') second of
             Inl e \<Rightarrow> Some (Inl e)
           | Inr timeout \<Rightarrow>
           (case positive_duration ''update_interval'' (optUpdateInterval o') (30 * minute) of
             Inl e \<Rightarrow> Some (Inl e)
           | Inr interval \<Rightarrow> do {
               err \<leftarrow> check_fallback (optFallback o');
               (case err of
                  Some e \<Rightarrow> Some (Inl e)
                | None \<Rightarrow> do {
                    r \<leftarrow> parseIPList lookupIP (optIPs o') (optExcluded o');
                    (case r of
                       Inl e \<Rightarrow> Some (Inl (OpError ''parse ips'' e))
                     | Inr ips \<Rightarrow>
                         let topCount = (if optTopIPCount o' = 0 then 3 else optTopIPCount o')
                         in if ips = [] then Some (Inl (NewError ''no valid ips after parsing''))
                            else if maxIPPoolSize < length ips
                            then Some (Inl (LibError ''ip pool exceeds maximum size (1000)''))
                            else if int (length ips) < optTopIPCount o'
                            then Some (Inl (LibError ''ip count less than top_ip_count''))
                            else if optTopIPCount o' \<noteq> 0 \<and> (topCount \<le> 0 \<or> 255 < topCount \<or> int (length ips) < topCount)
                            then Some (Inl (LibError (''invalid top_ip_count: '' @ show_int topCount)))
                            else Some (Inr \<lparr>poolWaitScan = optWaitScan o', poolMulti = optMulti o',
                              poolIps = ips, fallbackIP = optFallback o', poolPort = optPort o',
                              topIPCount = nat topCount mod 256, poolAttempts = nat attempts mod 256,
                              poolTimeout = timeout, updateInterval = interval,
                              bestIndexes = replicate (nat topCount) 0,
                              bestWeights = replicate (nat topCount) 0, totalWeight = 0,
                              curValidIPs = 0, poolConcurrency = nat concurrency, poolCounter = 0\<rparr>))
                  })
             })))"

section \<open>Testing and choosing\<close>

text \<open>
  \<^verbatim>\<open>testIP\<close>: the outcome of each attempt is the time it took to connect, if it did. The
  loss is a fraction of the attempts.
\<close>

definition maxInt64 :: int where
  "maxInt64 = 2 ^ 63 - 1"

definition testIP :: "int option list \<Rightarrow> int \<times> rat" where
  "testIP outcomes =
     (let done' = map the (filter (\<lambda>r. r \<noteq> None) outcomes);
          lossRate = 1 - of_nat (length done') / of_nat (length outcomes)
      in if done' = [] then (maxInt64, lossRate)
         else (sum_list done' div int (length done'), lossRate))"

record ip_result =
  ipIndex :: nat
  latency :: int
  loss :: rat

text \<open>\<^verbatim>\<open>scan\<close> up to \<^verbatim>\<open>updateBest\<close>: the results come in the order in which the tests end.\<close>

definition scan_results :: "(nat \<times> int option list) list \<Rightarrow> ip_result list" where
  "scan_results tests =
     filter (\<lambda>r. loss r < 1)
       (map (\<lambda>(i, outcomes). \<lparr>ipIndex = i, latency = fst (testIP outcomes), loss = snd (testIP outcomes)\<rparr>) tests)"

definition ip_weight :: "ip_result \<Rightarrow> nat" where
  "ip_weight r =
     (let latencyMs = of_int (latency r) / 1000000 :: rat;
          weightVal = 10000 / (latencyMs * (1 + loss r) + 1 / 100000);
          weightVal = (if weightVal < 1 then 1 else if 10000 < weightVal then 10000 else weightVal)
      in nat \<lfloor>weightVal\<rfloor>)"

definition set_at :: "nat \<Rightarrow> 'a \<Rightarrow> 'a list \<Rightarrow> 'a list option" where
  "set_at i v xs = (if i < length xs then Some (xs[i := v]) else None)"

fun best_loop :: "nat \<Rightarrow> ip_result list \<Rightarrow> nat list \<times> nat list \<times> nat \<Rightarrow> (nat list \<times> nat list \<times> nat) option" where
  "best_loop i [] s = Some s"
| "best_loop i (r # rs) (bi, bw, tw) =
     do {
       bi \<leftarrow> set_at i (ipIndex r) bi;
       bw \<leftarrow> set_at i (ip_weight r) bw;
       best_loop (Suc i) rs (bi, bw, tw + ip_weight r)
     }"

fun clear_weights :: "nat list \<Rightarrow> nat list \<Rightarrow> nat list option" where
  "clear_weights [] bw = Some bw"
| "clear_weights (i # is) bw = do { bw \<leftarrow> set_at i 0 bw; clear_weights is bw }"

fun get_all :: "'a list \<Rightarrow> nat list \<Rightarrow> 'a list option" where
  "get_all xs [] = Some []"
| "get_all xs (i # is) = do { x \<leftarrow> idx xs i; ys \<leftarrow> get_all xs is; Some (x # ys) }"

text \<open>\<^verbatim>\<open>updateBest\<close>; the addresses are read once more for the log line.\<close>

definition updateBest :: "ip_result list \<Rightarrow> ip_pool \<Rightarrow> ip_pool option" where
  "updateBest results p =
     (if results = [] then Some p
      else
        let top = take (topIPCount p) (sort_key (\<lambda>r. (loss r, latency r)) results)
        in do {
          (bi, bw, tw) \<leftarrow> best_loop 0 top (bestIndexes p, bestWeights p, 0);
          bw \<leftarrow> clear_weights [length top..<topIPCount p] bw;
          shown \<leftarrow> slice bi 0 (length top);
          _ \<leftarrow> get_all (poolIps p) shown;
          Some (p\<lparr>bestIndexes := bi, bestWeights := bw, curValidIPs := length top, totalWeight := tw\<rparr>)
        })"

fun pick_weighted :: "nat \<Rightarrow> nat \<Rightarrow> (nat \<times> 'a) list \<Rightarrow> 'a option" where
  "pick_weighted acc target [] = None"
| "pick_weighted acc target ((w, x) # ws) =
     (if target < acc + w then Some x else pick_weighted (acc + w) target ws)"

text \<open>
  \<^verbatim>\<open>Get\<close>; the counter of the pool is the only thing it changes. The remainder by a total
  weight of zero panics.
\<close>

definition pool_get :: "ip_pool \<Rightarrow> (dst \<times> ip_pool) option" where
  "pool_get p =
     (if curValidIPs p = 0 then Some (fallbackIP p, p)
      else do {
        indexes \<leftarrow> slice (bestIndexes p) 0 (curValidIPs p);
        (if poolMulti p then do {
           as \<leftarrow> get_all (poolIps p) indexes;
           Some (new_dst_from_addrs as, p)
         } else do {
           weights \<leftarrow> slice (bestWeights p) 0 (curValidIPs p);
           (if totalWeight p = 0 then None
            else
              let p' = p\<lparr>poolCounter := poolCounter p + 1\<rparr>;
                  target = unat (poolCounter p) mod totalWeight p
              in (case pick_weighted 0 target (zip weights indexes) of
                    None \<Rightarrow> Some (fallbackIP p, p')
                  | Some i \<Rightarrow> do {
                      a \<leftarrow> idx (poolIps p) i;
                      Some (new_single_dst (addr_string a), p')
                    }))
         })
      })"

text \<open>The manager: the pools by their tags.\<close>

type_synonym ip_pools = "string \<Rightarrow> ip_pool option"

definition getDstFrom :: "string \<Rightarrow> ip_pools \<Rightarrow> ((error + dst) \<times> ip_pools) option" where
  "getDstFrom tag pools =
     (case pools tag of
        None \<Rightarrow> Some (Inl (NewError (''ip pool '' @ tag @ '' does not exist'')), pools)
      | Some p \<Rightarrow> do { (d, p) \<leftarrow> pool_get p; Some (Inr d, pools(tag \<mapsto> p)) })"

section \<open>Invariant\<close>

definition pool_ok :: "ip_pool \<Rightarrow> bool" where
  "pool_ok p \<longleftrightarrow> 0 < topIPCount p \<and> length (bestIndexes p) = topIPCount p \<and>
     length (bestWeights p) = topIPCount p \<and> curValidIPs p \<le> topIPCount p \<and>
     (\<forall>i \<in> set (take (curValidIPs p) (bestIndexes p)). i < length (poolIps p)) \<and>
     (\<forall>w \<in> set (take (curValidIPs p) (bestWeights p)). 1 \<le> w \<and> w \<le> 10000) \<and>
     totalWeight p = sum_list (take (curValidIPs p) (bestWeights p)) \<and>
     poolIps p \<noteq> [] \<and> list_all wf_addr (poolIps p)"

lemma ip_weight_bounds: "1 \<le> ip_weight r \<and> ip_weight r \<le> 10000"
proof -
  have "1 \<le> nat \<lfloor>v\<rfloor> \<and> nat \<lfloor>v\<rfloor> \<le> 10000" if "1 \<le> v" "v \<le> 10000" for v :: rat
    using that by (simp add: le_nat_iff nat_le_iff le_floor_iff floor_le_iff)
  then show ?thesis unfolding ip_weight_def Let_def by simp
qed

lemma get_all_Some: "(\<forall>i \<in> set is. i < length xs) \<Longrightarrow> get_all xs is = Some (map ((!) xs) is)"
  by (induction "is") (auto simp: idx_def)

lemma best_loop_Some:
  assumes "i + length rs \<le> length bi" and "length bw = length bi"
  shows "best_loop i rs (bi, bw, tw) =
    Some (take i bi @ map ipIndex rs @ drop (i + length rs) bi,
          take i bw @ map ip_weight rs @ drop (i + length rs) bw, tw + sum_list (map ip_weight rs))"
  using assms
proof (induction rs arbitrary: i bi bw tw)
  case (Cons r rs)
  have upd: "take (Suc i) (xs[i := v]) = take i xs @ [v]" if "i < length xs" for xs :: "nat list" and v
    using that by (simp add: take_Suc_conv_app_nth)
  have "i < length bi" "i < length bw" using Cons.prems by simp_all
  then show ?case
    using Cons.prems Cons.IH [of "Suc i" "bi[i := ipIndex r]" "bw[i := ip_weight r]" "tw + ip_weight r"]
    by (simp add: set_at_def upd)
qed simp

lemma clear_weights_Some:
  assumes "\<forall>i \<in> set is. n \<le> i \<and> i < length bw"
  shows "\<exists>bw'. clear_weights is bw = Some bw' \<and> length bw' = length bw \<and> take n bw' = take n bw"
  using assms
proof (induction "is" arbitrary: bw)
  case (Cons i "is")
  then have "\<exists>bw'. clear_weights is (bw[i := 0]) = Some bw' \<and> length bw' = length (bw[i := 0]) \<and>
      take n bw' = take n (bw[i := 0])"
    by (intro Cons.IH) simp
  then show ?case using Cons.prems by (auto simp: set_at_def)
qed simp

section \<open>The collected addresses\<close>

definition ips_ok :: "(addr \<Rightarrow> bool) \<Rightarrow> addr list \<Rightarrow> bool" where
  "ips_ok isExcluded ips \<longleftrightarrow> length ips \<le> 1000 \<and> (\<forall>a \<in> set ips. wf_addr a \<and> \<not> isExcluded a)"

lemma ips_ok_Nil [simp]: "ips_ok e []"
  by (simp add: ips_ok_def)

lemma add_ip_ok: "add_ip msg e a ips = Inr r \<Longrightarrow> ips_ok e ips \<Longrightarrow> wf_addr a \<Longrightarrow> ips_ok e r"
  by (auto simp: add_ip_def ips_ok_def maxIPPoolSize_def split: if_splits)

lemma addr_next_wf: "wf_addr a \<Longrightarrow> addr_next a = Some a' \<Longrightarrow> wf_addr a'"
  by (auto simp: wf_addr_def addr_next_def dest: incr_bytes_Some split: addr.splits)

lemma addr_from_slice_wf: "addr_from_slice b = Some a \<Longrightarrow> wf_addr a"
  by (auto simp: addr_from_slice_def wf_addr_def split: if_splits)

lemma cidr_loop_ok: "cidr_loop s e pfx a ips = Inr r \<Longrightarrow> ips_ok e ips \<Longrightarrow> wf_addr a \<Longrightarrow> ips_ok e r"
proof (induction s e pfx a ips rule: cidr_loop.induct)
  case (1 s e pfx a ips)
  note IH = "1.IH" and prems = "1.prems"
  show ?case
  proof (cases "contains pfx a")
    case True
    then obtain ips' where ips': "add_ip (''cidr '' @ s @ '' exceeds max pool size (1000)'') e (unmap a) ips = Inr ips'"
      using prems(1) by (subst (asm) cidr_loop.simps) (auto split: sum.splits)
    then have ok: "ips_ok e ips'" using add_ip_ok prems(2,3) wf_unmap by blast
    show ?thesis
    proof (cases "addr_next a")
      case None
      then show ?thesis using prems(1) True ips' ok by (subst (asm) cidr_loop.simps) simp
    next
      case (Some a')
      then show ?thesis
        using prems(1) True ips' ok IH [OF _ ips' Some] addr_next_wf [OF prems(3) Some]
        by (subst (asm) cidr_loop.simps) (auto split: if_splits)
    qed
  next
    case False
    then show ?thesis using prems by (subst (asm) cidr_loop.simps) simp
  qed
qed

lemma lookup_loop_ok: "lookup_loop s e bs ips = Inr r \<Longrightarrow> ips_ok e ips \<Longrightarrow> ips_ok e r"
proof (induction bs arbitrary: ips)
  case (Cons b bs)
  show ?case
  proof (cases "addr_from_slice b")
    case (Some a)
    then have "wf_addr (unmap a)" using addr_from_slice_wf wf_unmap by blast
    then show ?thesis using Cons Some add_ip_ok by (auto split: sum.splits)
  qed (use Cons in auto)
qed simp

lemma source_item_ok:
  assumes "source_item lookupIP e s ips = Inr r" and "ips_ok e ips"
  shows "ips_ok e r"
proof -
  have small: "length ips < 1000"
    using assms(1) by (auto simp: source_item_def maxIPPoolSize_def not_le split: if_splits)
  show ?thesis
  proof (cases "parse_addr s")
    case (Some a)
    then have "wf_addr (unmap a)" using parse_addr_wf wf_unmap by blast
    then show ?thesis
      using assms small Some by (auto simp: source_item_def maxIPPoolSize_def ips_ok_def split: if_splits)
  next
    case None
    then consider pfx where "parse_prefix s = Some pfx" "cidr_loop s e pfx (fst pfx) ips = Inr r"
      | bs where "lookup_loop s e bs ips = Inr r"
      using assms(1) by (auto simp: source_item_def split: if_splits option.splits sum.splits)
    then show ?thesis
    proof cases
      case (1 pfx)
      then show ?thesis using cidr_loop_ok assms(2) parse_prefix_wf [of s "fst pfx" "snd pfx"] by (cases pfx) auto
    qed (use lookup_loop_ok assms(2) in blast)
  qed
qed

lemma each_text_keeps:
  assumes "\<And>s x y. f s x = Inr y \<Longrightarrow> P x \<Longrightarrow> P y"
  shows "each_text f ss x = Inr y \<Longrightarrow> P x \<Longrightarrow> P y"
  using assms by (induction ss arbitrary: x) (auto split: sum.splits)

lemma each_pattern_keeps:
  assumes "\<And>p s x y. f p s x = Inr y \<Longrightarrow> P x \<Longrightarrow> P y"
  shows "each_pattern f ps x = Some (Inr y) \<Longrightarrow> P x \<Longrightarrow> P y"
proof (induction ps arbitrary: x)
  case (Cons p ps)
  then obtain ss z where "each_text (f p) ss x = Inr z" "each_pattern f ps z = Some (Inr y)"
    by (auto split: sum.splits bind_splits)
  then show ?case using Cons.IH Cons.prems(2) each_text_keeps [of "f p" P] assms by blast
qed simp

lemma each_pattern_succeeds:
  assumes "\<And>p. p \<in> set ps \<Longrightarrow> expandPattern p \<noteq> None"
  shows "each_pattern f ps x \<noteq> None"
  using assms
proof (induction ps arbitrary: x)
  case (Cons p ps)
  then obtain ss where "expandPattern p = Some ss" by fastforce
  then show ?case using Cons by (auto split: sum.splits)
qed simp

lemma parseIPList_addrs:
  assumes "parseIPList lookupIP sources excluded = Some (Inr ips)"
  shows "\<exists>x. each_pattern excluded_item excluded ([], []) = Some (Inr x) \<and> length ips \<le> 1000 \<and>
    (\<forall>a \<in> set ips. wf_addr a \<and> \<not> is_excluded x a)"
proof -
  obtain x where x: "each_pattern excluded_item excluded ([], []) = Some (Inr x)"
    and r: "each_pattern (\<lambda>_. source_item lookupIP (is_excluded x)) sources [] = Some (Inr ips)"
    using assms by (auto simp: parseIPList_def split: sum.splits bind_splits)
  have "ips_ok (is_excluded x) ips"
    by (rule each_pattern_keeps [of "\<lambda>_. source_item lookupIP (is_excluded x)", OF source_item_ok r]) simp_all
  then show ?thesis using x by (auto simp: ips_ok_def)
qed

text \<open>
  The addresses of a pool are at most 1000 valid ones, and none of them is excluded: for
  some sets of single addresses and prefixes that the excluded patterns give, no address of
  the result is in them.
\<close>

theorem parseIPList_ok:
  assumes "parseIPList lookupIP sources excluded = Some (Inr ips)"
  shows "\<exists>x. each_pattern excluded_item excluded ([], []) = Some (Inr x) \<and> length ips \<le> 1000 \<and>
    (\<forall>a \<in> set ips. wf_addr a \<and> \<not> is_excluded x a)"
  using assms by (rule parseIPList_addrs)

theorem parseIPList_ok_witness:
  "parseIPList (\<lambda>_. Inl (LibError ''no such host'')) [''(::1|::2)''] [''::2''] =
     Some (Inr [IP6 (replicate 15 0 @ [1]) []]) \<and> \<not> is_excluded ([IP6 (replicate 15 0 @ [2]) []], []) (IP6 (replicate 15 0 @ [1]) [])"
proof -
  have r: "parseIPList (\<lambda>_. Inl (LibError ''no such host'')) [''(::1|::2)''] [''::2''] =
     Some (Inr [IP6 (replicate 15 0 @ [1]) []])"
    by code_simp
  have "each_pattern excluded_item [''::2''] ([], []) = Some (Inr ([IP6 (replicate 15 0 @ [2]) []], []))"
    by code_simp
  then show ?thesis using parseIPList_ok [OF r] r by auto
qed

section \<open>Pools that are in order\<close>

lemma newIPPool_ok:
  assumes "newIPPool lookupIP o' = Some (Inr p)"
  shows "pool_ok p \<and> length (poolIps p) \<le> 1000 \<and> curValidIPs p = 0 \<and> poolMulti p = optMulti o'"
proof -
  let ?top = "if optTopIPCount o' = 0 then 3 else optTopIPCount o'"
  obtain ips where ips: "parseIPList lookupIP (optIPs o') (optExcluded o') = Some (Inr ips)" "ips \<noteq> []"
    and p: "poolIps p = ips" "topIPCount p = nat ?top mod 256" "bestIndexes p = replicate (nat ?top) 0"
      "bestWeights p = replicate (nat ?top) 0" "totalWeight p = 0" "curValidIPs p = 0" "poolMulti p = optMulti o'"
    and top: "0 < ?top" "?top \<le> 255"
    using assms unfolding newIPPool_def Let_def
    by (auto simp: not_le not_less split: if_splits sum.splits option.splits bind_splits)
  obtain x where "\<forall>a \<in> set ips. wf_addr a \<and> \<not> is_excluded x a" "length ips \<le> 1000"
    using parseIPList_addrs [OF ips(1)] by blast
  then show ?thesis using p ips(2) top by (simp add: pool_ok_def list_all_iff)
qed

lemma sort_key_set [simp]: "set (take n (sort_key f xs)) \<subseteq> set xs"
  by (metis set_sort set_take_subset)

lemma updateBest_pool_ok:
  assumes "pool_ok p" and "\<forall>r \<in> set results. ipIndex r < length (poolIps p)"
  shows "\<exists>p'. updateBest results p = Some p' \<and> pool_ok p' \<and>
    (results \<noteq> [] \<longrightarrow> take (curValidIPs p') (bestIndexes p') =
       map ipIndex (take (topIPCount p) (sort_key (\<lambda>r. (loss r, latency r)) results)))"
proof (cases "results = []")
  case False
  let ?top = "take (topIPCount p) (sort_key (\<lambda>r. (loss r, latency r)) results)"
  let ?n = "length ?top"
  let ?bi = "map ipIndex ?top @ drop ?n (bestIndexes p)"
  let ?bw = "map ip_weight ?top @ drop ?n (bestWeights p)"
  have n: "?n \<le> topIPCount p" "length (bestIndexes p) = topIPCount p" "length (bestWeights p) = topIPCount p"
    using assms(1) by (simp_all add: pool_ok_def)
  have bl: "best_loop 0 ?top (bestIndexes p, bestWeights p, 0) = Some (?bi, ?bw, sum_list (map ip_weight ?top))"
    using best_loop_Some [of 0 ?top "bestIndexes p" "bestWeights p" 0] n by simp
  obtain bw where bw: "clear_weights [?n..<topIPCount p] ?bw = Some bw" "length bw = length ?bw"
    "take ?n bw = take ?n ?bw"
    using clear_weights_Some [of "[?n..<topIPCount p]" ?n ?bw] n by fastforce
  have len: "length ?bi = topIPCount p" "length ?bw = topIPCount p" using n by simp_all
  have "slice ?bi 0 ?n = Some (map ipIndex ?top)" by (simp add: slice_def)
  moreover have "set ?top \<subseteq> set results" by simp
  then have inb: "\<forall>i \<in> set (map ipIndex ?top). i < length (poolIps p)" using assms(2) by (auto dest!: in_set_takeD)
  ultimately have eq: "updateBest results p =
      Some (p\<lparr>bestIndexes := ?bi, bestWeights := bw, curValidIPs := ?n, totalWeight := sum_list (map ip_weight ?top)\<rparr>)"
    using False unfolding updateBest_def Let_def bl
    by (simp only: if_False bind.bind_lunit prod.case bw(1) get_all_Some [OF inb])
  have tk: "take ?n ?bi = map ipIndex ?top" "take ?n bw = map ip_weight ?top" using bw(3) by simp_all
  have "pool_ok (p\<lparr>bestIndexes := ?bi, bestWeights := bw, curValidIPs := ?n, totalWeight := sum_list (map ip_weight ?top)\<rparr>)"
    unfolding pool_ok_def
    using assms(1) n(1) len bw(2) tk inb ip_weight_bounds by (simp add: pool_ok_def)
  then show ?thesis using eq tk(1) by simp
qed (use assms in \<open>simp add: updateBest_def\<close>)

lemma pick_weighted_sum:
  assumes "target < acc + sum_list ws" and "acc \<le> target" and "length xs = length ws"
  shows "\<exists>k < length ws. pick_weighted acc target (zip ws xs) = Some (xs ! k) \<and>
    acc + sum_list (take k ws) \<le> target \<and> target < acc + sum_list (take (Suc k) ws)"
  using assms
proof (induction ws arbitrary: acc xs)
  case (Cons w ws)
  then obtain x xs' where xs: "xs = x # xs'" by (cases xs) auto
  show ?case
  proof (cases "target < acc + w")
    case True
    then show ?thesis using Cons.prems xs by (intro exI [of _ 0]) simp
  next
    case False
    then obtain k where "k < length ws" "pick_weighted (acc + w) target (zip ws xs') = Some (xs' ! k)"
      "acc + w + sum_list (take k ws) \<le> target" "target < acc + w + sum_list (take (Suc k) ws)"
      using Cons.IH [of "acc + w" xs'] Cons.prems xs by (auto simp: add.assoc)
    then show ?thesis using False xs by (intro exI [of _ "Suc k"]) simp
  qed
qed simp

text \<open>The position the counter selects.\<close>

definition chosen :: "ip_pool \<Rightarrow> nat \<Rightarrow> nat option" where
  "chosen p c = pick_weighted 0 (c mod totalWeight p)
     (zip (take (curValidIPs p) (bestWeights p)) [0..<curValidIPs p])"

lemma pick_weighted_map: "pick_weighted acc t (zip ws (map f xs)) = map_option f (pick_weighted acc t (zip ws xs))"
  by (induction ws arbitrary: acc xs) (auto simp: zip_Cons1 split: list.splits)

lemma pick_weighted_unique:
  assumes "length xs = length ws" and "k < length ws" and "distinct xs" and "target < acc + sum_list ws" and "acc \<le> target"
  shows "pick_weighted acc target (zip ws xs) = Some (xs ! k) \<longleftrightarrow>
    acc + sum_list (take k ws) \<le> target \<and> target < acc + sum_list (take (Suc k) ws)"
proof -
  obtain j where j: "j < length ws" "pick_weighted acc target (zip ws xs) = Some (xs ! j)"
    "acc + sum_list (take j ws) \<le> target" "target < acc + sum_list (take (Suc j) ws)"
    using pick_weighted_sum assms by blast
  have mono: "sum_list (take a ws) \<le> sum_list (take b ws)" if "a \<le> b" for a b
    using that by (metis le_add1 le_add_diff_inverse sum_list_append take_add)
  show ?thesis
  proof
    assume "pick_weighted acc target (zip ws xs) = Some (xs ! k)"
    then have "j = k" using j assms nth_eq_iff_index_eq by fastforce
    then show "acc + sum_list (take k ws) \<le> target \<and> target < acc + sum_list (take (Suc k) ws)" using j by simp
  next
    assume k: "acc + sum_list (take k ws) \<le> target \<and> target < acc + sum_list (take (Suc k) ws)"
    have "j = k"
    proof (rule linorder_cases [of j k])
      assume "j < k"
      then show ?thesis using mono [of "Suc j" k] j(4) k by simp
    next
      assume "k < j"
      then show ?thesis using mono [of "Suc k" j] j(3) k by simp
    qed simp
    then show "pick_weighted acc target (zip ws xs) = Some (xs ! k)" using j by simp
  qed
qed

lemma pool_get_all: "pool_ok p \<Longrightarrow> get_all (poolIps p) (take (curValidIPs p) (bestIndexes p)) =
    Some (map ((!) (poolIps p)) (take (curValidIPs p) (bestIndexes p)))"
  by (rule get_all_Some) (simp add: pool_ok_def)

lemma pool_get_turn:
  assumes ok: "pool_ok p" and "0 < curValidIPs p" and "\<not> poolMulti p"
  shows "\<exists>k < curValidIPs p. chosen p (unat (poolCounter p)) = Some k \<and>
    pool_get p = Some (new_single_dst (addr_string (poolIps p ! (bestIndexes p ! k))), p\<lparr>poolCounter := poolCounter p + 1\<rparr>)"
proof -
  let ?n = "curValidIPs p" and ?ws = "take (curValidIPs p) (bestWeights p)" and ?is = "take (curValidIPs p) (bestIndexes p)"
  have len: "length ?ws = ?n" "length ?is = ?n" and sum: "totalWeight p = sum_list ?ws"
    and w: "\<forall>w \<in> set ?ws. 1 \<le> w" and i: "\<forall>i \<in> set ?is. i < length (poolIps p)"
    using ok by (auto simp: pool_ok_def)
  have hd: "hd ?ws \<in> set ?ws" using assms(2) len(1) by (intro hd_in_set) auto
  have "sum_list ?ws \<noteq> 0" using hd bspec [OF w hd] by (auto simp: sum_list_eq_0_iff intro!: bexI [of _ "hd ?ws"])
  then have pos: "0 < totalWeight p" unfolding sum by (rule neq0_conv [THEN iffD1])
  let ?t = "unat (poolCounter p) mod totalWeight p"
  have "?t < 0 + sum_list ?ws" using pos sum by (metis add_0 mod_less_divisor)
  then obtain k where k: "k < ?n" "pick_weighted 0 ?t (zip ?ws [0..<?n]) = Some ([0..<?n] ! k)"
    using pick_weighted_sum [of ?t 0 ?ws "[0..<?n]"] len(1) by auto
  have "?is = map ((!) ?is) [0..<?n]" using map_nth [of ?is] len(2) by metis
  then have pick: "pick_weighted 0 ?t (zip ?ws ?is) = Some (?is ! k)"
    using pick_weighted_map [of 0 ?t ?ws "(!) ?is" "[0..<?n]"] k by simp
  have ik: "?is ! k = bestIndexes p ! k" "bestIndexes p ! k < length (poolIps p)"
    using k(1) i len(2) nth_mem [of k ?is] by auto
  have "slice (bestIndexes p) 0 ?n = Some ?is" "slice (bestWeights p) 0 ?n = Some ?ws"
    using ok by (simp_all add: slice_def pool_ok_def)
  then have "pool_get p = Some (new_single_dst (addr_string (poolIps p ! (bestIndexes p ! k))), p\<lparr>poolCounter := poolCounter p + 1\<rparr>)"
    using assms(2,3) pos pick ik by (simp add: pool_get_def idx_def Let_def)
  moreover have "chosen p (unat (poolCounter p)) = Some k" using k by (simp add: chosen_def)
  ultimately show ?thesis using k(1) by blast
qed

text \<open>What a pool may answer: its fallback, all the best addresses, or one of its addresses.\<close>

definition pool_answer :: "ip_pool \<Rightarrow> dst \<Rightarrow> bool" where
  "pool_answer p d \<longleftrightarrow> d = fallbackIP p \<or>
     (\<exists>as. as \<noteq> [] \<and> set as \<subseteq> set (poolIps p) \<and> d = new_dst_from_addrs as) \<or>
     (\<exists>a \<in> set (poolIps p). d = new_single_dst (addr_string a))"

lemma pool_get_ok:
  assumes ok: "pool_ok p"
  shows "\<exists>d p'. pool_get p = Some (d, p') \<and> pool_ok p' \<and> pool_answer p d \<and>
    poolIps p' = poolIps p \<and> fallbackIP p' = fallbackIP p \<and> poolMulti p' = poolMulti p"
proof (cases "curValidIPs p = 0")
  case True
  then show ?thesis using ok by (simp add: pool_get_def pool_answer_def)
next
  case False
  have inb: "\<forall>i \<in> set (take (curValidIPs p) (bestIndexes p)). i < length (poolIps p)"
    "slice (bestIndexes p) 0 (curValidIPs p) = Some (take (curValidIPs p) (bestIndexes p))"
    using ok by (simp_all add: pool_ok_def slice_def)
  show ?thesis
  proof (cases "poolMulti p")
    case True
    let ?as = "map ((!) (poolIps p)) (take (curValidIPs p) (bestIndexes p))"
    have "bestIndexes p \<noteq> []" using ok by (auto simp: pool_ok_def)
    then have "?as \<noteq> []" "set ?as \<subseteq> set (poolIps p)" using inb(1) False by auto
    then have "pool_answer p (new_dst_from_addrs ?as)" unfolding pool_answer_def by blast
    then show ?thesis using False True ok inb(2) pool_get_all [OF ok] by (simp add: pool_get_def)
  next
    case multi: False
    obtain k where k: "k < curValidIPs p"
      "pool_get p = Some (new_single_dst (addr_string (poolIps p ! (bestIndexes p ! k))), p\<lparr>poolCounter := poolCounter p + 1\<rparr>)"
      using pool_get_turn [OF ok] False multi by blast
    have "bestIndexes p ! k \<in> set (take (curValidIPs p) (bestIndexes p))"
      using k(1) ok by (auto simp: pool_ok_def in_set_conv_nth intro!: exI [of _ k])
    then have "poolIps p ! (bestIndexes p ! k) \<in> set (poolIps p)" using inb(1) by auto
    then have "pool_answer p (new_single_dst (addr_string (poolIps p ! (bestIndexes p ! k))))"
      unfolding pool_answer_def by blast
    moreover have "pool_ok (p\<lparr>poolCounter := poolCounter p + 1\<rparr>)" using ok by (simp add: pool_ok_def)
    ultimately show ?thesis using k(2) by simp
  qed
qed

section \<open>Sequences of scans and connections\<close>

datatype pool_op = PoolScan "ip_result list" | PoolGet

fun pool_run :: "pool_op list \<Rightarrow> ip_pool \<Rightarrow> (dst list \<times> ip_pool) option" where
  "pool_run [] p = Some ([], p)"
| "pool_run (PoolScan rs # ops) p = do { p \<leftarrow> updateBest rs p; pool_run ops p }"
| "pool_run (PoolGet # ops) p = do { (d, p) \<leftarrow> pool_get p; (ds, p) \<leftarrow> pool_run ops p; Some (d # ds, p) }"

definition op_ok :: "nat \<Rightarrow> pool_op \<Rightarrow> bool" where
  "op_ok n op' \<longleftrightarrow> (case op' of PoolScan rs \<Rightarrow> \<forall>r \<in> set rs. ipIndex r < n | PoolGet \<Rightarrow> True)"

lemma updateBest_keeps: "updateBest rs p = Some p' \<Longrightarrow> poolIps p' = poolIps p \<and> fallbackIP p' = fallbackIP p"
  by (auto simp: updateBest_def Let_def split: if_splits bind_splits)

lemma pool_answer_cong: "poolIps p' = poolIps p \<Longrightarrow> fallbackIP p' = fallbackIP p \<Longrightarrow> pool_answer p' = pool_answer p"
  by (simp add: pool_answer_def fun_eq_iff)

lemma pool_run_ok:
  assumes "pool_ok p" and "list_all (op_ok (length (poolIps p))) ops"
  shows "\<exists>ds p'. pool_run ops p = Some (ds, p') \<and> pool_ok p' \<and> list_all (pool_answer p) ds"
  using assms
proof (induction ops arbitrary: p)
  case (Cons op' ops)
  show ?case
  proof (cases op')
    case (PoolScan rs)
    then have "\<forall>r \<in> set rs. ipIndex r < length (poolIps p)" using Cons.prems(2) by (simp add: op_ok_def)
    then obtain p1 where p1: "updateBest rs p = Some p1" "pool_ok p1"
      using updateBest_pool_ok [OF Cons.prems(1)] by blast
    then show ?thesis
      using Cons.IH [OF p1(2)] Cons.prems(2) PoolScan updateBest_keeps [OF p1(1)] pool_answer_cong [of p1 p] by simp
  next
    case PoolGet
    obtain d p1 where p1: "pool_get p = Some (d, p1)" "pool_ok p1" "pool_answer p d"
      "poolIps p1 = poolIps p" "fallbackIP p1 = fallbackIP p"
      using pool_get_ok [OF Cons.prems(1)] by blast
    then obtain ds p2 where "pool_run ops p1 = Some (ds, p2)" "pool_ok p2" "list_all (pool_answer p1) ds"
      using Cons.IH [OF p1(2)] Cons.prems(2) by auto
    then show ?thesis using PoolGet p1 pool_answer_cong [of p1 p] by auto
  qed
qed simp

text \<open>
  C0. A pool that \<^verbatim>\<open>newIPPool\<close> accepts never panics, however scans and connections alternate:
  every index and slice is in range and no remainder is taken by a total weight of zero. Each
  answer is the fallback, a non-empty list of addresses of the pool, or one of its addresses.
\<close>

theorem pool_sequence_ok:
  assumes "newIPPool lookupIP o' = Some (Inr p)" and "list_all (op_ok (length (poolIps p))) ops"
  shows "\<exists>ds p'. pool_run ops p = Some (ds, p') \<and> list_all (pool_answer p) ds"
  using pool_run_ok [of p ops] newIPPool_ok [OF assms(1)] assms(2) by blast

text \<open>
  C0. The single-address mode takes weighted turns: the address at position \<open>k\<close> of the best
  ones is chosen by exactly as many of \<open>totalWeight\<close> consecutive counter values as its weight says.
\<close>

theorem pool_get_fair:
  assumes "pool_ok p" and "0 < curValidIPs p" and "\<not> poolMulti p"
  shows "(\<exists>k < curValidIPs p. chosen p (unat (poolCounter p)) = Some k \<and>
      pool_get p = Some (new_single_dst (addr_string (poolIps p ! (bestIndexes p ! k))), p\<lparr>poolCounter := poolCounter p + 1\<rparr>)) \<and>
    (\<forall>k < curValidIPs p. card {c. c < totalWeight p \<and> chosen p c = Some k} = bestWeights p ! k)"
proof (intro conjI allI impI)
  fix k assume k: "k < curValidIPs p"
  let ?ws = "take (curValidIPs p) (bestWeights p)"
  have len: "length ?ws = curValidIPs p" and sum: "totalWeight p = sum_list ?ws"
    using assms(1) by (simp_all add: pool_ok_def)
  have "{c. c < totalWeight p \<and> chosen p c = Some k} = {sum_list (take k ?ws)..<sum_list (take (Suc k) ?ws)}"
  proof -
    have "sum_list (take (Suc k) ?ws) \<le> totalWeight p"
      unfolding sum by (metis append_take_drop_id le_add1 sum_list_append)
    moreover have "chosen p c = Some k \<longleftrightarrow> sum_list (take k ?ws) \<le> c \<and> c < sum_list (take (Suc k) ?ws)"
      if "c < totalWeight p" for c
      using pick_weighted_unique [of "[0..<curValidIPs p]" ?ws k c 0] len k that sum
      by (simp add: chosen_def)
    ultimately show ?thesis by (auto simp del: take_take)
  qed
  moreover have "sum_list (take (Suc k) ?ws) = sum_list (take k ?ws) + ?ws ! k"
    using k len by (simp add: take_Suc_conv_app_nth del: take_take)
  ultimately show "card {c. c < totalWeight p \<and> chosen p c = Some k} = bestWeights p ! k" using k by simp
qed (rule pool_get_turn [OF assms])

definition small_pool :: ip_pool where
  "small_pool = \<lparr>poolWaitScan = False, poolMulti = False, poolIps = [IP4 [1, 1, 1, 1], IP4 [8, 8, 8, 8]],
     fallbackIP = new_single_dst ''h'', poolPort = 443, topIPCount = 2, poolAttempts = 4, poolTimeout = second,
     updateInterval = minute, bestIndexes = [1, 0], bestWeights = [3, 2], totalWeight = 5, curValidIPs = 2,
     poolConcurrency = 100, poolCounter = 4\<rparr>"

theorem pool_get_fair_witness:
  "(\<exists>d. pool_get small_pool = Some (d, small_pool\<lparr>poolCounter := 5\<rparr>)) \<and>
   card {c. c < totalWeight small_pool \<and> chosen small_pool c = Some 0} = 3"
proof -
  have "pool_ok small_pool" by (auto simp: pool_ok_def small_pool_def wf_addr_def)
  then show ?thesis
    using pool_get_fair [of small_pool] by (auto simp: small_pool_def)
qed

theorem pool_sequence_ok_witness:
  "\<exists>p ds p'. newIPPool (\<lambda>_. Inl (LibError ''no such host''))
       \<lparr>optWaitScan = False, optMulti = False, optFallback = new_single_dst ''h'', optIPs = [''::1''],
        optExcluded = [], optPort = 443, optTopIPCount = 1, optMaxConcurrency = 0, optTimeout = [],
        optUpdateInterval = [], optAttempts = 0\<rparr> = Some (Inr p) \<and>
     pool_run [PoolGet, PoolScan [\<lparr>ipIndex = 0, latency = 5, loss = 0\<rparr>], PoolGet] p = Some (ds, p') \<and>
     list_all (pool_answer p) ds"
proof -
  let ?o = "\<lparr>optWaitScan = False, optMulti = False, optFallback = new_single_dst ''h'', optIPs = [''::1''],
        optExcluded = [], optPort = 443, optTopIPCount = 1, optMaxConcurrency = 0, optTimeout = [],
        optUpdateInterval = [], optAttempts = 0\<rparr>"
  have "parseIPList (\<lambda>_. Inl (LibError ''no such host'')) [''::1''] [] = Some (Inr [IP6 (replicate 15 0 @ [1]) []])"
    by code_simp
  then obtain p where p: "newIPPool (\<lambda>_. Inl (LibError ''no such host'')) ?o = Some (Inr p)" "length (poolIps p) = 1"
    by (simp add: newIPPool_def check_fallback_def positive_duration_def maxIPPoolSize_def)
  then have "list_all (op_ok (length (poolIps p))) [PoolGet, PoolScan [\<lparr>ipIndex = 0, latency = 5, loss = 0\<rparr>], PoolGet]"
    by (simp add: op_ok_def)
  from pool_sequence_ok [OF p(1) this] p(1) show ?thesis by blast
qed

end
