(* ===== verification/Log_Level.thy ===== *)
theory Log_Level
  imports Dst
begin

text \<open>
  \<^verbatim>\<open>internal/log\<close>: the levels, their names, and a line of the console logger. What is written
  is the line itself; the clock's text is an argument. \<open>None\<close> is a panic, here also the panic of
  an argument that cannot be printed, which happens only when the line is written at all.
\<close>

datatype level = LevelUnset | LevelTrace | LevelDebug | LevelInfo | LevelWarn | LevelError | Disabled

fun level_rank :: "level \<Rightarrow> nat" where
  "level_rank LevelUnset = 0"
| "level_rank LevelTrace = 1"
| "level_rank LevelDebug = 2"
| "level_rank LevelInfo = 3"
| "level_rank LevelWarn = 4"
| "level_rank LevelError = 5"
| "level_rank Disabled = 6"

lemma level_rank_inj: "level_rank a = level_rank b \<Longrightarrow> a = b"
  by (cases a; cases b) simp_all

text \<open>The levels are compared as the integers they are in Go.\<close>

instantiation level :: linorder
begin

definition less_eq_level :: "level \<Rightarrow> level \<Rightarrow> bool" where
  "less_eq_level a b \<longleftrightarrow> level_rank a \<le> level_rank b"

definition less_level :: "level \<Rightarrow> level \<Rightarrow> bool" where
  "less_level a b \<longleftrightarrow> level_rank a < level_rank b"

instance
  by intro_classes (auto simp: less_eq_level_def less_level_def level_rank_inj)

end

fun level_string :: "level \<Rightarrow> string" where
  "level_string LevelUnset = ''unknown''"
| "level_string LevelTrace = ''trace''"
| "level_string LevelDebug = ''debug''"
| "level_string LevelInfo = ''info''"
| "level_string LevelWarn = ''warn''"
| "level_string LevelError = ''error''"
| "level_string Disabled = ''disabled''"

definition parse_level :: "string \<Rightarrow> error + level" where
  "parse_level s =
     (if s = ''TRACE'' \<or> s = ''trace'' then Inr LevelTrace
      else if s = ''DEBUG'' \<or> s = ''debug'' then Inr LevelDebug
      else if s = ''INFO'' \<or> s = ''info'' then Inr LevelInfo
      else if s = ''WARN'' \<or> s = ''warn'' \<or> s = ''WARNING'' \<or> s = ''warning'' then Inr LevelWarn
      else if s = ''ERROR'' \<or> s = ''error'' then Inr LevelError
      else if s = ''NONE'' \<or> s = ''none'' then Inr Disabled
      else Inl (NewError (''unknown log level: '' @ s)))"

text \<open>\<^verbatim>\<open>Set\<close> and \<^verbatim>\<open>UnmarshalJSON\<close> keep the old level on an error.\<close>

definition level_set :: "string \<Rightarrow> level \<Rightarrow> error option \<times> level" where
  "level_set s l = (case parse_level s of Inl e \<Rightarrow> (Some e, l) | Inr l' \<Rightarrow> (None, l'))"

definition level_unmarshal :: "jval \<Rightarrow> level \<Rightarrow> error option \<times> level" where
  "level_unmarshal j l = (case unmarshal_string [] j of Inl e \<Rightarrow> (Some e, l) | Inr s \<Rightarrow> level_set s l)"

definition append_level :: "string \<Rightarrow> level \<Rightarrow> string option" where
  "append_level b lvl =
     (case lvl of
        LevelTrace \<Rightarrow> Some (b @ ''TRACE'')
      | LevelDebug \<Rightarrow> Some (b @ ''DEBUG'')
      | LevelInfo \<Rightarrow> Some (b @ ''INFO'')
      | LevelWarn \<Rightarrow> Some (b @ ''WARN'')
      | LevelError \<Rightarrow> Some (b @ ''ERROR'')
      | LevelUnset \<Rightarrow> None
      | Disabled \<Rightarrow> None)"

record logger =
  logLevel :: level
  logPrefix :: string

text \<open>The texts of the arguments; \<open>None\<close> is an argument whose \<^verbatim>\<open>String\<close> panics.\<close>

fun args_text :: "string option list \<Rightarrow> string option" where
  "args_text [] = Some []"
| "args_text (a # as) = do { s \<leftarrow> a; t \<leftarrow> args_text as; Some (s @ t) }"

definition log_output :: "string \<Rightarrow> logger \<Rightarrow> level \<Rightarrow> string option list \<Rightarrow> string option option" where
  "log_output clock lg lvl args =
     (if lvl < logLevel lg then Some None
      else do {
        let b = (if logPrefix lg \<noteq> [] then logPrefix lg @ '' '' else []);
        let b = b @ clock @ '' '';
        b \<leftarrow> append_level b lvl;
        t \<leftarrow> args_text args;
        Some (Some (b @ '' '' @ t @ [char_of (10 :: nat)]))
      })"

text \<open>
  The five methods, for callers that only need to know whether the call returns: the text
  itself does not influence the program. A nil logger is \<open>None\<close>.
\<close>

definition log_at :: "level \<Rightarrow> logger option \<Rightarrow> string option list \<Rightarrow> unit option" where
  "log_at lvl lg args =
     (case lg of None \<Rightarrow> None | Some lg \<Rightarrow> map_option (\<lambda>_. ()) (log_output [] lg lvl args))"

definition log_info :: "logger option \<Rightarrow> string option list \<Rightarrow> unit option" where
  "log_info = log_at LevelInfo"

definition log_error :: "logger option \<Rightarrow> string option list \<Rightarrow> unit option" where
  "log_error = log_at LevelError"

lemma args_text_Some: "args_text as \<noteq> None \<longleftrightarrow> None \<notin> set as"
  by (induction as) (auto split: bind_splits)

lemma args_texts: "args_text (map Some ss) = Some (concat ss)"
  by (induction ss) simp_all

lemma log_at_ok:
  assumes "lvl \<in> {LevelTrace, LevelDebug, LevelInfo, LevelWarn, LevelError}"
  shows "log_at lvl (Some lg) args = (if lvl < logLevel lg \<or> None \<notin> set args then Some () else None)"
proof -
  obtain b where "append_level (if logPrefix lg \<noteq> [] then (logPrefix lg @ '' '') @ '' '' else '' '') lvl = Some b"
    using assms by (auto simp: append_level_def)
  moreover have "args_text args = None \<longleftrightarrow> None \<in> set args" using args_text_Some by blast
  ultimately show ?thesis
    by (cases "args_text args") (auto simp: log_at_def log_output_def Let_def)
qed

lemma log_text_ok [simp]:
  "log_info (Some lg) (map Some ss) = Some ()" "log_error (Some lg) (map Some ss) = Some ()"
  by (auto simp: log_info_def log_error_def log_at_ok)

text \<open>
  A line of a logger appears exactly when its level is at least the logger's, and a
  logger that is disabled writes nothing; the names of the levels that can be set read back.
\<close>

theorem log_level_filter:
  "(log_output clock lg lvl (map Some ss) \<noteq> Some None \<longleftrightarrow> logLevel lg \<le> lvl) \<and>
   (l \<in> {LevelUnset, Disabled} \<or> parse_level (level_string l) = Inr l)"
proof
  show "log_output clock lg lvl (map Some ss) \<noteq> Some None \<longleftrightarrow> logLevel lg \<le> lvl"
    by (cases lvl) (auto simp: args_texts log_output_def append_level_def Let_def not_less)
  show "l \<in> {LevelUnset, Disabled} \<or> parse_level (level_string l) = Inr l"
    by (cases l) (simp_all add: parse_level_def)
qed

end
