(* ===== verification/Route.thy ===== *)
theory Route
  imports Domain_Matcher IP_Trie Policy IP_Pool Log_Level
begin

text \<open>
  The routing of \<^verbatim>\<open>internal/core/policy.go\<close>: which policy and which destination a host
  gets. \<open>transformIP\<close> moves an address into another network, \<open>ipRedirect\<close> applies the
  policy of an address, \<open>genPolicy\<close> goes from a host name over the hosts table, the resolver
  and the pools to the final destination. The resolver is an argument here; its model is in
  the theory of the DNS resolver. \<open>None\<close> is a panic.
\<close>

section \<open>Moving an address into a network\<close>

definition transform_byte :: "nat \<Rightarrow> byte \<Rightarrow> byte \<Rightarrow> nat \<Rightarrow> byte" where
  "transform_byte bits ipByte netByte bitPos =
     (if bitPos + 8 \<le> bits then netByte
      else if bits \<le> bitPos then ipByte
      else
        let mask = push_bit (8 - (bits - bitPos)) 255
        in or (and netByte mask) (and ipByte (not mask)))"

definition transform_bytes :: "nat \<Rightarrow> nat \<Rightarrow> bytes \<Rightarrow> bytes \<Rightarrow> bytes" where
  "transform_bytes n bits ipBytes netBytes =
     map (\<lambda>i. transform_byte bits (ipBytes ! i) (netBytes ! i) (8 * i)) [0..<n]"

definition transformIP :: "addr \<Rightarrow> string \<Rightarrow> (error + string) option" where
  "transformIP ip targetNetStr =
     (case parse_prefix targetNetStr of
        None \<Rightarrow> Some (Inl (OpError ''invalid target network'' (LibError ''netip.ParsePrefix'')))
      | Some pfx \<Rightarrow>
          if is4 ip \<noteq> is4 (fst pfx)
          then Some (Inl (NewError ''IP version mismatch between source IP and target network''))
          else if is4 ip then do {
            ipBytes \<leftarrow> as4 ip;
            netBytes \<leftarrow> as4 (masked pfx);
            Some (Inr (addr_string (IP4 (transform_bytes 4 (snd pfx) ipBytes netBytes))))
          }
          else Some (Inr (addr_string (IP6 (transform_bytes 16 (snd pfx) (as16 ip) (as16 (masked pfx))) []))))"

lemma byte_bits_transform:
  "byte_bits (transform_byte bits a b pos) = take (bits - pos) (byte_bits b) @ drop (bits - pos) (byte_bits a)"
proof (rule nth_equalityI)
  show "length (byte_bits (transform_byte bits a b pos)) = length (take (bits - pos) (byte_bits b) @ drop (bits - pos) (byte_bits a))"
    by simp
  fix j assume "j < length (byte_bits (transform_byte bits a b pos))"
  then have j: "j < 8" by simp
  define w :: byte where "w = 255"
  have m: "bit w k \<longleftrightarrow> k < 8" for k
  proof -
    have "w = mask 8" by (simp add: w_def mask_eq_exp_minus_1)
    then show ?thesis by (simp only: bit_mask_iff) auto
  qed
  have "bit (transform_byte bits a b pos) (7 - j) = (if j < bits - pos then bit b (7 - j) else bit a (7 - j))"
    using j unfolding transform_byte_def Let_def w_def [symmetric]
    by (auto simp: bit_or_iff bit_and_iff bit_not_iff bit_push_bit_iff m)
  then show "byte_bits (transform_byte bits a b pos) ! j = (take (bits - pos) (byte_bits b) @ drop (bits - pos) (byte_bits a)) ! j"
    using j by (auto simp: byte_bits_nth nth_append min_def not_less)
qed

lemma bits_of_transform_from:
  assumes "length as = length bs"
  shows "bits_of (map (\<lambda>i. transform_byte bits (as ! i) (bs ! i) (8 * (k + i))) [0..<length bs]) =
    take (bits - 8 * k) (bits_of bs) @ drop (bits - 8 * k) (bits_of as)"
  using assms
proof (induction bs arbitrary: as k)
  case (Cons b bs)
  then obtain a as' where as: "as = a # as'" by (cases as) auto
  have eq: "map (\<lambda>i. transform_byte bits (as ! i) ((b # bs) ! i) (8 * (k + i))) [0..<length (b # bs)] =
      transform_byte bits a b (8 * k) # map (\<lambda>i. transform_byte bits (as' ! i) (bs ! i) (8 * (Suc k + i))) [0..<length bs]"
    unfolding as by (simp only: list.size upt_conv_Cons add_0_right add_Suc_right map_Suc_upt [symmetric])
      (simp del: upt_Suc add: upt_conv_Cons map_Suc_upt [symmetric] algebra_simps del: map_Suc_upt)
  have "length as' = length bs" using Cons.prems as by simp
  then show ?case
    unfolding eq using Cons.IH [of as' "Suc k"] as
    by (cases "8 * k + 8 \<le> bits") (simp_all add: byte_bits_transform add.commute [of 8])
qed simp

lemma bits_of_transform:
  assumes "length as = n" and "length bs = n"
  shows "bits_of (transform_bytes n bits as bs) = take bits (bits_of bs) @ drop bits (bits_of as)"
  using bits_of_transform_from [of as bs bits 0] assms by (simp add: transform_bytes_def)

text \<open>Masking keeps the bits of the prefix.\<close>

lemma byte_bits_mask: "take k (byte_bits (and b (mask_byte k))) = take k (byte_bits b)"
proof (rule nth_equalityI)
  fix j assume "j < length (take k (byte_bits (and b (mask_byte k))))"
  then have j: "j < k" "j < 8" by auto
  have m: "(255 :: byte) = mask 8" by (simp add: mask_eq_exp_minus_1)
  have "bit (mask_byte k) (7 - j)"
    using j unfolding mask_byte_def m by (auto simp: bit_push_bit_iff bit_mask_iff simp del: mask_numeral)
  then show "take k (byte_bits (and b (mask_byte k))) ! j = take k (byte_bits b) ! j"
    using j by (simp add: byte_bits_nth bit_and_iff)
qed simp

lemma take_mask_bytes: "take k (bits_of (mask_bytes k bs)) = take k (bits_of bs)"
proof (rule nth_equalityI)
  show "length (take k (bits_of (mask_bytes k bs))) = length (take k (bits_of bs))" by (simp add: mask_bytes_def)
  fix i assume "i < length (take k (bits_of (mask_bytes k bs)))"
  then have i: "i < k" "i < 8 * length bs" by (simp_all add: mask_bytes_def)
  then have d: "i div 8 < length bs" "i mod 8 < 8" "i mod 8 < k - 8 * (i div 8)"
    using mult_div_mod_eq [of 8 i] by (simp_all add: less_mult_imp_div_less, linarith)
  have "take (k - 8 * (i div 8)) (byte_bits (and (bs ! (i div 8)) (mask_byte (k - 8 * (i div 8))))) ! (i mod 8) =
      take (k - 8 * (i div 8)) (byte_bits (bs ! (i div 8))) ! (i mod 8)"
    by (simp only: byte_bits_mask)
  then have "bit (mask_bytes k bs ! (i div 8)) (7 - i mod 8) = bit (bs ! (i div 8)) (7 - i mod 8)"
    using d by (simp add: byte_bits_nth mask_bytes_def)
  then show "take k (bits_of (mask_bytes k bs)) ! i = take k (bits_of bs) ! i"
    using i by (simp add: bits_of_nth mask_bytes_def)
qed

section \<open>Matching\<close>

record route_matcher =
  defaultPolicy :: policy
  domainPolicies :: "policy domain_matcher"
  ipv4Policies :: "policy bit_node"
  ipv6Policies :: "policy bit_node"
  hosts :: "dst domain_matcher"

definition getIPPolicy :: "route_matcher \<Rightarrow> addr \<Rightarrow> policy option option" where
  "getIPPolicy m ip =
     (if \<not> is4 (unmap ip) then Some (ipv6_find (ipv6Policies m) ip) else ipv4_find (ipv4Policies m) ip)"

definition getDomainPolicy :: "route_matcher \<Rightarrow> string \<Rightarrow> policy option" where
  "getDomainPolicy m domain = domain_find (domainPolicies m) domain"

definition getHosts :: "route_matcher \<Rightarrow> string \<Rightarrow> dst option" where
  "getHosts m domain = domain_find (hosts m) domain"

definition stripNoRedirectPrefix :: "string \<Rightarrow> string \<times> bool" where
  "stripNoRedirectPrefix s = (if has_prefix s ''^'' then (tl s, True) else (s, False))"

section \<open>Redirecting an address\<close>

text \<open>
  The address of the DoH server: the address that \<^verbatim>\<open>transformIP\<close> returns is not used, the
  destination is always the \<^verbatim>\<open>map_to\<close> of the policy.
\<close>

definition preMapIP :: "addr \<Rightarrow> dst \<Rightarrow> (error + dst \<times> bool) option" where
  "preMapIP ip mapTo =
     (if dst_is_zero (Some mapTo) then Some (Inr (new_single_dst (addr_string ip), False))
      else if is_multi (Some mapTo) then Some (Inr (mapTo, False))
      else do {
        s \<leftarrow> dst_single (Some mapTo);
        (if has_prefix s ''$'' then Some (Inr (mapTo, True))
         else if last_index_byte (CHR ''/'') s \<noteq> None then do {
           r \<leftarrow> transformIP ip s;
           (case r of Inl e \<Rightarrow> Some (Inl e) | Inr _ \<Rightarrow> Some (Inr (mapTo, False)))
         }
         else Some (Inr (mapTo, False)))
      })"

definition ipRedirect ::
  "logger option \<Rightarrow> string \<Rightarrow> route_matcher \<Rightarrow> ip_pools \<Rightarrow> ((error + dst \<times> policy option) \<times> ip_pools) option" where
  "ipRedirect lg host rm pools =
     (case parse_addr host of
        None \<Rightarrow> Some (Inr (new_single_dst host, None), pools)
      | Some ip \<Rightarrow> do {
          found \<leftarrow> getIPPolicy rm ip;
          (case found of
             None \<Rightarrow> Some (Inr (new_single_dst host, None), pools)
           | Some p \<Rightarrow>
               if dst_is_zero (Some (pMapTo p)) then Some (Inr (new_single_dst host, Some p), pools)
               else if is_multi (Some (pMapTo p)) then Some (Inr (pMapTo p, Some p), pools)
               else do {
                 mapTo \<leftarrow> dst_single (Some (pMapTo p));
                 (if mapTo = [] then Some (Inr (new_single_dst host, Some p), pools)
                  else if has_prefix mapTo ''$'' then do {
                    (r, pools) \<leftarrow> getDstFrom (tl mapTo) pools;
                    (case r of
                       Inl e \<Rightarrow> Some (Inl e, pools)
                     | Inr cur \<Rightarrow> do {
                         _ \<leftarrow> (if lg \<noteq> None then log_info lg [Some ''Redirect: '', Some host, Some '' -> '',
                                 Some mapTo, Some '' -> '', dst_string (Some cur)] else Some ());
                         Some (Inr (cur, Some p), pools)
                       })
                  }
                  else do {
                    r \<leftarrow> (if last_index_byte (CHR ''/'') mapTo \<noteq> None then transformIP ip mapTo else Some (Inr mapTo));
                    (case r of
                       Inl e \<Rightarrow> Some (Inl e, pools)
                     | Inr mapTo \<Rightarrow> do {
                         _ \<leftarrow> (if lg \<noteq> None \<and> host \<noteq> mapTo
                               then log_info lg [Some ''Redirect: '', Some host, Some '' -> '', Some mapTo] else Some ());
                         Some (Inr (new_single_dst mapTo, Some p), pools)
                       })
                  })
               })
        })"

section \<open>The policy of a host\<close>

text \<open>The five results of \<^verbatim>\<open>genPolicy\<close>.\<close>

record verdict =
  vHost :: "dst option"
  vPolicy :: "policy option"
  vFailed :: bool
  vBlocked :: bool
  vNotFound :: bool

definition failed_verdict :: verdict where
  "failed_verdict = \<lparr>vHost = None, vPolicy = None, vFailed = True, vBlocked = False, vNotFound = False\<rparr>"

definition blocked_verdict :: verdict where
  "blocked_verdict = \<lparr>vHost = None, vPolicy = None, vFailed = False, vBlocked = True, vNotFound = False\<rparr>"

definition not_found_verdict :: verdict where
  "not_found_verdict = \<lparr>vHost = None, vPolicy = None, vFailed = False, vBlocked = False, vNotFound = True\<rparr>"

definition routed :: "dst \<Rightarrow> policy \<Rightarrow> verdict" where
  "routed host p = \<lparr>vHost = Some host, vPolicy = Some p, vFailed = False, vBlocked = False, vNotFound = False\<rparr>"

text \<open>\<^verbatim>\<open>net.ParseIP\<close>: an address without a zone.\<close>

definition net_parse_ip :: "string \<Rightarrow> bool" where
  "net_parse_ip s = (case parse_addr s of None \<Rightarrow> False | Some (IP4 _) \<Rightarrow> True | Some (IP6 _ z) \<Rightarrow> z = [])"

text \<open>The resolver: the name, the mode and the lifetime in the cache; a nil destination is \<open>None\<close>.\<close>

type_synonym 'r resolver = "string \<Rightarrow> dns_mode \<Rightarrow> int \<Rightarrow> 'r \<Rightarrow> ((error + dst option \<times> bool) \<times> 'r) option"

type_synonym 'r routing = "ip_pools \<times> 'r"

definition gen_ip :: "logger option \<Rightarrow> route_matcher \<Rightarrow> string \<Rightarrow> 'r routing \<Rightarrow> (verdict \<times> 'r routing) option" where
  "gen_ip lg rm originHost st =
     do {
       (r, pools) \<leftarrow> ipRedirect lg originHost rm (fst st);
       (case r of
          Inl e \<Rightarrow> do { _ \<leftarrow> log_error lg [Some ''IP redirect: '', Some (error_text e)]; Some (failed_verdict, pools, snd st) }
        | Inr (host, ipPolicy) \<Rightarrow>
            let p = (case ipPolicy of None \<Rightarrow> defaultPolicy rm | Some ip \<Rightarrow> mergePolicies [ip, defaultPolicy rm])
            in Some (if pMode p = ModeBlock then blocked_verdict else routed host p, pools, snd st))
     }"

text \<open>From the address text found for the name to the verdict.\<close>

definition gen_final ::
  "logger option \<Rightarrow> route_matcher \<Rightarrow> policy option \<Rightarrow> policy \<Rightarrow> bool \<Rightarrow> string \<Rightarrow> 'r routing \<Rightarrow> (verdict \<times> 'r routing) option" where
  "gen_final lg rm domainPolicy p noRedirect s st =
     (if noRedirect then Some (routed (new_single_dst s) p, st)
      else do {
        (r, pools) \<leftarrow> ipRedirect lg s rm (fst st);
        (case r of
           Inl e \<Rightarrow> do { _ \<leftarrow> log_error lg [Some ''IP redirect: '', Some (error_text e)]; Some (failed_verdict, pools, snd st) }
         | Inr (mapped, ipPolicy) \<Rightarrow>
             (case ipPolicy of
                None \<Rightarrow> Some (routed mapped p, pools, snd st)
              | Some ip \<Rightarrow>
                  let p = (case domainPolicy of
                             Some d \<Rightarrow> mergePolicies [d, ip, defaultPolicy rm]
                           | None \<Rightarrow> mergePolicies [ip, defaultPolicy rm])
                  in Some (if pMode p = ModeBlock then blocked_verdict else routed mapped p, pools, snd st)))
      })"

text \<open>One call of the resolver with its log line; \<open>k\<close> continues with a single answer.\<close>

definition gen_lookup ::
  "logger option \<Rightarrow> 'r resolver \<Rightarrow> policy \<Rightarrow> string \<Rightarrow> string option list \<Rightarrow> string \<Rightarrow>
   (string \<Rightarrow> 'r routing \<Rightarrow> (verdict \<times> 'r routing) option) \<Rightarrow> 'r routing \<Rightarrow> (verdict \<times> 'r routing) option" where
  "gen_lookup lg resolve p originHost shown name k st =
     do {
       (r, rs) \<leftarrow> resolve name (pDNSMode p) (pDNSCacheTTL p) (snd st);
       let st = (fst st, rs);
       (case r of
          Inl e \<Rightarrow> do {
            _ \<leftarrow> log_error lg [Some ''Resolve '', Some originHost, Some '' failed: '', Some (error_text e)];
            Some (failed_verdict, st)
          }
        | Inr (resolved, cached) \<Rightarrow> do {
            _ \<leftarrow> log_info lg ([Some (if cached then ''DNS (cached): '' else ''DNS: '')] @ shown @ [Some '' -> '', dst_string resolved]);
            (if is_multi resolved then Some (routed (the resolved) p, st)
             else do { s \<leftarrow> dst_single resolved; k s st })
          })
     }"

text \<open>After the name is known not to be resolved: a pool, or the text as it is.\<close>

definition gen_pool ::
  "logger option \<Rightarrow> string \<Rightarrow> string \<Rightarrow> policy \<Rightarrow> string \<Rightarrow>
   (string \<Rightarrow> 'r routing \<Rightarrow> (verdict \<times> 'r routing) option) \<Rightarrow> 'r routing \<Rightarrow> (verdict \<times> 'r routing) option" where
  "gen_pool lg prefix' originHost p s k st =
     (if has_prefix s ''$'' then do {
        (r, pools) \<leftarrow> getDstFrom (tl s) (fst st);
        (case r of
           Inl e \<Rightarrow> do { _ \<leftarrow> log_error lg [Some (error_text e)]; Some (failed_verdict, pools, snd st) }
         | Inr cur \<Rightarrow> do {
             _ \<leftarrow> log_info lg [Some prefix', Some originHost, Some '' -> '', Some s, Some '' -> '', dst_string (Some cur)];
             (if is_multi (Some cur) then Some (routed cur p, pools, snd st)
              else do { s \<leftarrow> dst_single (Some cur); k s (pools, snd st) })
           })
      }
      else do {
        _ \<leftarrow> log_info lg [Some prefix', Some originHost, Some '' -> '', Some s];
        k s st
      })"

text \<open>The name once its \<^verbatim>\<open>host\<close> text is known: resolving, a name to resolve instead, a pool or an address.\<close>

definition gen_single ::
  "logger option \<Rightarrow> route_matcher \<Rightarrow> 'r resolver \<Rightarrow> policy option \<Rightarrow> policy \<Rightarrow> string \<Rightarrow> bool \<Rightarrow> bool \<Rightarrow> string \<Rightarrow>
   'r routing \<Rightarrow> (verdict \<times> 'r routing) option" where
  "gen_single lg rm resolve domainPolicy p originHost fromHosts noRedirect s st =
     (let final = gen_final lg rm domainPolicy p noRedirect;
          cname = (\<lambda>s. gen_lookup lg resolve p originHost [Some originHost, Some '' -> '', Some (tl s)] (tl s) final)
      in if s = ''self'' then Some (routed (new_single_dst originHost) p, st)
         else if s = []
         then gen_lookup lg resolve p originHost [Some originHost] originHost
                (\<lambda>s. if has_prefix s ''?'' then cname s else final s) st
         else if has_prefix s ''?'' then cname s st
         else gen_pool lg (if fromHosts then ''Host (from hosts): '' else ''Host: '') originHost p s final st)"

definition genPolicy ::
  "logger option \<Rightarrow> route_matcher \<Rightarrow> 'r resolver \<Rightarrow> string \<Rightarrow> bool \<Rightarrow> bool \<Rightarrow> 'r routing \<Rightarrow> (verdict \<times> 'r routing) option" where
  "genPolicy lg rm resolve originHost isIP returnWhenDomainNotFound st =
     (if isIP \<or> net_parse_ip originHost then gen_ip lg rm originHost st
      else
        let domainPolicy = getDomainPolicy rm originHost in
        if (case domainPolicy of Some d \<Rightarrow> pMode d = ModeBlock | None \<Rightarrow> False) then Some (blocked_verdict, st)
        else
          let p = (case domainPolicy of Some d \<Rightarrow> mergePolicies [d, defaultPolicy rm] | None \<Rightarrow> defaultPolicy rm);
              host = pHost p
          in if is_multi (Some host) then Some (routed host p, st)
             else do {
               text \<leftarrow> dst_single (Some host);
               let (s, noRedirect) = stripNoRedirectPrefix text;
               (if dst_is_zero (Some host) \<or> s = [] then
                  (case getHosts rm originHost of
                     Some h \<Rightarrow>
                       if is_multi (Some h) then Some (routed h p, st)
                       else do {
                         text \<leftarrow> dst_single (Some h);
                         let (s, noRedirect) = stripNoRedirectPrefix text;
                         gen_single lg rm resolve domainPolicy p originHost True noRedirect s st
                       }
                   | None \<Rightarrow>
                       if returnWhenDomainNotFound then Some (not_found_verdict, st)
                       else gen_single lg rm resolve domainPolicy p originHost False noRedirect s st)
                else gen_single lg rm resolve domainPolicy p originHost False noRedirect s st)
             })"

end
