(* ===== verification/Route_Spec.thy ===== *)
theory Route_Spec
  imports Route
begin

text \<open>
  What the routing decides and that it never panics. The resolver is an interface here: a
  locale with the one law the routing needs of it, interpreted on the model of the resolver.
\<close>

section \<open>Moving an address\<close>

lemma transform_bytes_length [simp]: "length (transform_bytes n bits as bs) = n"
  by (simp add: transform_bytes_def)

lemma mask_bytes_length [simp]: "length (mask_bytes k bs) = length bs"
  by (simp add: mask_bytes_def)

definition moved :: "addr \<Rightarrow> prefix \<Rightarrow> addr \<Rightarrow> bool" where
  "moved ip pfx new \<longleftrightarrow> wf_addr new \<and> is4 new = is4 ip \<and>
     bits_of (addr_bytes new) = take (snd pfx) (bits_of (addr_bytes (fst pfx))) @ drop (snd pfx) (bits_of (addr_bytes ip))"

lemma transformIP_cases:
  assumes "wf_addr ip"
  shows "transformIP ip t =
      (case parse_prefix t of
         None \<Rightarrow> Some (Inl (OpError ''invalid target network'' (LibError ''netip.ParsePrefix'')))
       | Some pfx \<Rightarrow>
           if is4 ip \<noteq> is4 (fst pfx) then Some (Inl (NewError ''IP version mismatch between source IP and target network''))
           else transformIP ip t) \<and>
    (\<forall>pfx. parse_prefix t = Some pfx \<longrightarrow> is4 ip = is4 (fst pfx) \<longrightarrow>
       (\<exists>new. transformIP ip t = Some (Inr (addr_string new)) \<and> moved ip pfx new))"
proof (cases "parse_prefix t")
  case None
  then show ?thesis by (simp add: transformIP_def)
next
  case (Some pfx)
  have wf: "wf_addr (fst pfx)" using parse_prefix_wf [of t "fst pfx" "snd pfx"] Some by simp
  have "\<exists>new. transformIP ip t = Some (Inr (addr_string new)) \<and> moved ip pfx new" if "is4 ip = is4 (fst pfx)"
  proof (cases ip)
    case (IP4 a)
    note family = that
    from IP4 obtain b where b: "fst pfx = IP4 b" using family by (cases "fst pfx") (auto simp: is4_def)
    have l: "length a = 4" "length b = 4" using assms wf IP4 b by (simp_all add: wf_addr_def)
    have "transformIP ip t = Some (Inr (addr_string (IP4 (transform_bytes 4 (snd pfx) a (mask_bytes (snd pfx) b)))))"
      using Some IP4 b by (simp add: transformIP_def is4_def as4_def masked_def unmap_def)
    moreover have "moved ip pfx (IP4 (transform_bytes 4 (snd pfx) a (mask_bytes (snd pfx) b)))"
      using l IP4 b by (simp add: moved_def wf_addr_def is4_def addr_bytes_def bits_of_transform take_mask_bytes)
    ultimately show ?thesis by blast
  next
    case (IP6 a z)
    note family = that
    from IP6 obtain b y where b: "fst pfx = IP6 b y" using family by (cases "fst pfx") (auto simp: is4_def)
    have l: "length a = 16" "length b = 16" using assms wf IP6 b by (simp_all add: wf_addr_def)
    have "transformIP ip t = Some (Inr (addr_string (IP6 (transform_bytes 16 (snd pfx) a (mask_bytes (snd pfx) b)) [])))"
      using Some IP6 b by (simp add: transformIP_def is4_def as16_def masked_def)
    moreover have "moved ip pfx (IP6 (transform_bytes 16 (snd pfx) a (mask_bytes (snd pfx) b)) [])"
      using l IP6 b by (simp add: moved_def wf_addr_def is4_def addr_bytes_def bits_of_transform take_mask_bytes)
    ultimately show ?thesis by blast
  qed
  then show ?thesis using Some by (simp add: transformIP_def)
qed

lemma transformIP_Some: "wf_addr ip \<Longrightarrow> transformIP ip t \<noteq> None"
  using transformIP_cases [of ip t] by (auto split: option.splits if_splits)

text \<open>
  C32. An address moved into a network of its family has the network's bits up to the length of
  the prefix and its own bits after it; a text that is no prefix and a network of the other
  family are errors, and nothing panics.
\<close>

theorem transformIP_bits:
  assumes "wf_addr ip"
  shows "case parse_prefix t of
      None \<Rightarrow> \<exists>e. transformIP ip t = Some (Inl e)
    | Some pfx \<Rightarrow>
        if is4 ip \<noteq> is4 (fst pfx) then \<exists>e. transformIP ip t = Some (Inl e)
        else \<exists>new. transformIP ip t = Some (Inr (addr_string new)) \<and> wf_addr new \<and> is4 new = is4 ip \<and>
          bits_of (addr_bytes new) = take (snd pfx) (bits_of (addr_bytes (fst pfx))) @ drop (snd pfx) (bits_of (addr_bytes ip))"
  using transformIP_cases [OF assms, of t] unfolding moved_def by (auto split: option.splits)

theorem transformIP_bits_witness:
  "\<exists>new. transformIP (IP6 (replicate 15 0 @ [7]) []) ''fd::/8'' = Some (Inr (addr_string new)) \<and>
     bits_of (addr_bytes new) = take 8 (bits_of (addr_bytes (IP6 (0 # 0xfd # replicate 14 0) []))) @ drop 8 (bits_of (addr_bytes (IP6 (replicate 15 0 @ [7]) [])))"
proof -
  have p: "parse_prefix ''fd::/8'' = Some (IP6 (0 # 0xfd # replicate 14 0) [], 8)" by code_simp
  have "wf_addr (IP6 (replicate 15 0 @ [7]) [])" by (simp add: wf_addr_def)
  from transformIP_bits [OF this, of "''fd::/8''"] show ?thesis by (auto simp: p is4_def)
qed

text \<open>
  C0. The address of a DoH server is checked against a network \<^verbatim>\<open>map_to\<close>, but never moved: the
  destination is the text of the network itself, whatever address it would give.
\<close>

theorem preMapIP_keeps_network:
  assumes "wf_addr ip" and "parse_prefix net = Some pfx" and "is4 (fst pfx) = is4 ip" and "\<not> has_prefix net ''$''"
  shows "preMapIP ip (new_single_dst net) = Some (Inr (new_single_dst net, False))"
proof -
  have "last_index_byte (CHR ''/'') net \<noteq> None"
    using assms(2) by (auto simp: parse_prefix_def split: option.splits)
  moreover obtain new where "transformIP ip net = Some (Inr (addr_string new))"
    using transformIP_cases [OF assms(1), of net] assms(2,3) by auto
  ultimately show ?thesis
    using assms(4) by (auto simp: preMapIP_def)
qed

theorem preMapIP_keeps_network_witness:
  "preMapIP (IP6 (replicate 15 0 @ [7]) []) (new_single_dst ''fd::/8'') = Some (Inr (new_single_dst ''fd::/8'', False))"
proof (rule preMapIP_keeps_network)
  show "parse_prefix ''fd::/8'' = Some (IP6 (0 # 0xfd # replicate 14 0) [], 8)" by code_simp
qed (simp_all add: wf_addr_def is4_def has_prefix_def)

section \<open>Destinations, policies and pools that are in order\<close>

definition dst_ok :: "dst \<Rightarrow> bool" where
  "dst_ok d \<longleftrightarrow> wf_dst d \<and> dst_string (Some d) \<noteq> None"

definition policy_ok :: "dns_mode set \<Rightarrow> policy \<Rightarrow> bool" where
  "policy_ok modes p \<longleftrightarrow> wf_policy p \<and> dst_ok (pHost p) \<and> dst_ok (pMapTo p) \<and> pDNSMode p \<in> modes"

definition pools_ok :: "ip_pools \<Rightarrow> bool" where
  "pools_ok pools \<longleftrightarrow> (\<forall>tag p. pools tag = Some p \<longrightarrow> pool_ok p \<and> dst_ok (fallbackIP p))"

text \<open>Everything stored in the tables is in order.\<close>

definition route_ok :: "dns_mode set \<Rightarrow> route_matcher \<Rightarrow> bool" where
  "route_ok modes rm \<longleftrightarrow> policy_ok modes (defaultPolicy rm) \<and>
     (\<forall>ls p. exact_at (domainPolicies rm) ls = Some p \<or> wildcard_at (domainPolicies rm) ls = Some p \<longrightarrow> policy_ok modes p) \<and>
     (\<forall>k p. trie_at (ipv4Policies rm) k = Some p \<or> trie_at (ipv6Policies rm) k = Some p \<longrightarrow> policy_ok modes p) \<and>
     (\<forall>ls d. exact_at (hosts rm) ls = Some d \<or> wildcard_at (hosts rm) ls = Some d \<longrightarrow> dst_ok d)"

lemma dst_ok_simps [simp]: "dst_ok zero_dst" "dst_ok (new_single_dst s)"
  by (simp_all add: dst_ok_def dst_string_def new_single_dst_def zero_dst_def wf_dst_def)

lemma dst_ok_addrs: "as \<noteq> [] \<Longrightarrow> dst_ok (new_dst_from_addrs as)"
  by (cases as; cases "tl as") (auto simp: dst_ok_def dst_string_def new_dst_from_addrs_def idx_def wf_dst_def)

lemma dst_ok_single: "dst_ok d \<Longrightarrow> \<exists>s. dst_single (Some d) = Some s"
  by (simp add: dst_ok_def wf_dst_single)

lemma policy_okD:
  assumes "policy_ok modes p"
  shows "wf_policy p" "dst_ok (pHost p)" "dst_ok (pMapTo p)" "pDNSMode p \<in> modes"
  using assms by (simp_all add: policy_ok_def)

lemma policy_ok_merge:
  assumes "\<forall>p \<in> set ps. policy_ok modes p" and "DNSModeDefault \<in> modes"
  shows "policy_ok modes (mergePolicies ps)"
proof -
  have "wf_policy (mergePolicies ps)" using assms(1) by (intro mergePolicies_wf) (simp add: policy_ok_def)
  moreover have "dst_ok (pHost (mergePolicies ps))" "dst_ok (pMapTo (mergePolicies ps))"
    unfolding merged_simps using assms(1)
    by (auto simp: policy_ok_def intro!: first_set_keeps [where P = dst_ok])
  moreover have "pDNSMode (mergePolicies ps) \<in> modes"
    unfolding merged_simps using assms
    by (auto simp: policy_ok_def intro!: first_set_keeps [where P = "\<lambda>m. m \<in> modes"])
  ultimately show ?thesis by (simp add: policy_ok_def)
qed

lemma merge_not_block:
  assumes "\<forall>p \<in> set ps. pMode p \<noteq> ModeBlock"
  shows "pMode (mergePolicies ps) \<noteq> ModeBlock"
  unfolding merged_Mode
  by (rule first_set_keeps [where P = "\<lambda>m. m \<noteq> ModeBlock"]) (use assms in \<open>auto simp: ModeDefault_def\<close>)

lemma getIPPolicy_ok:
  assumes "route_ok modes rm" and "wf_addr a"
  shows "\<exists>r. getIPPolicy rm a = Some r \<and> (\<forall>p. r = Some p \<longrightarrow> policy_ok modes p)"
proof (cases "is4 (unmap a)")
  case False
  then show ?thesis
    using assms v6.find_stored [of a "ipv6Policies rm"] by (auto simp: getIPPolicy_def route_ok_def)
next
  case True
  then obtain b where b: "unmap a = IP4 b" by (cases "unmap a") (auto simp: is4_def)
  have "ipv4_find (ipv4Policies rm) a = Some (ipv4_lookup (ipv4Policies rm) a)"
    by (simp add: ipv4_lookup_def ipv4_find_def as4_def b)
  moreover have "policy_ok modes p" if "ipv4_lookup (ipv4Policies rm) a = Some p" for p
    using v4.find_stored [of a "ipv4Policies rm" p] that assms True by (auto simp: route_ok_def)
  ultimately show ?thesis using True by (simp add: getIPPolicy_def)
qed

lemma pool_answer_dst_ok: "pool_answer p d \<Longrightarrow> dst_ok (fallbackIP p) \<Longrightarrow> dst_ok d"
  by (auto simp: pool_answer_def dst_ok_addrs)

lemma getDstFrom_ok:
  assumes "pools_ok pools"
  shows "\<exists>r pools'. getDstFrom tag pools = Some (r, pools') \<and> pools_ok pools' \<and> (\<forall>d. r = Inr d \<longrightarrow> dst_ok d)"
proof (cases "pools tag")
  case None
  then show ?thesis using assms by (simp add: getDstFrom_def)
next
  case (Some p)
  then have p: "pool_ok p" "dst_ok (fallbackIP p)" using assms by (auto simp: pools_ok_def)
  obtain d p' where "pool_get p = Some (d, p')" "pool_ok p'" "pool_answer p d" "fallbackIP p' = fallbackIP p"
    using pool_get_ok [OF p(1)] by blast
  then show ?thesis
    using Some assms p pool_answer_dst_ok by (auto simp: getDstFrom_def pools_ok_def)
qed

lemma log_info_ok: "None \<notin> set args \<Longrightarrow> log_info (Some lg) args = Some ()"
  by (simp add: log_info_def log_at_ok)

lemma log_error_ok: "None \<notin> set args \<Longrightarrow> log_error (Some lg) args = Some ()"
  by (simp add: log_error_def log_at_ok)

lemma log_info_opt: "None \<notin> set args \<Longrightarrow> (if lg \<noteq> None \<and> b then log_info lg args else Some ()) = Some ()"
  by (cases lg) (simp_all add: log_info_ok)

lemma ipRedirect_ok:
  assumes rm: "route_ok modes rm" and pools: "pools_ok pools"
  shows "\<exists>r pools'. ipRedirect lg host rm pools = Some (r, pools') \<and> pools_ok pools' \<and>
    (\<forall>d p. r = Inr (d, p) \<longrightarrow> dst_ok d \<and> (\<forall>q. p = Some q \<longrightarrow> policy_ok modes q))"
proof (cases "parse_addr host")
  case None
  then show ?thesis using pools by (simp add: ipRedirect_def)
next
  case (Some ip)
  then have wf: "wf_addr ip" by (rule parse_addr_wf)
  obtain found where found: "getIPPolicy rm ip = Some found" "\<forall>p. found = Some p \<longrightarrow> policy_ok modes p"
    using getIPPolicy_ok [OF rm wf] by blast
  show ?thesis
  proof (cases found)
    case None
    then show ?thesis using Some found pools by (simp add: ipRedirect_def)
  next
    case p: (Some p)
    then have pol: "policy_ok modes p" using found by blast
    note map_ok = policy_okD(3) [OF pol]
    obtain t where t: "dst_single (Some (pMapTo p)) = Some t" using dst_ok_single [OF map_ok] by blast
    obtain r pools' where g: "getDstFrom (tl t) pools = Some (r, pools')" "pools_ok pools'" "\<forall>d. r = Inr d \<longrightarrow> dst_ok d"
      using getDstFrom_ok [OF pools] by blast
    obtain r2 where r2: "(if last_index_byte (CHR ''/'') t \<noteq> None then transformIP ip t else Some (Inr t)) = Some r2"
      using transformIP_Some [OF wf, of t] by fastforce
    consider "dst_is_zero (Some (pMapTo p)) \<or> is_multi (Some (pMapTo p)) \<or> t = []"
      | "\<not> dst_is_zero (Some (pMapTo p))" "\<not> is_multi (Some (pMapTo p))" "t \<noteq> []" "has_prefix t ''$''"
      | "\<not> dst_is_zero (Some (pMapTo p))" "\<not> is_multi (Some (pMapTo p))" "t \<noteq> []" "\<not> has_prefix t ''$''" by blast
    then show ?thesis
    proof cases
      case 1
      then show ?thesis using Some found(1) p pol pools t map_ok by (auto simp: ipRedirect_def)
    next
      case 2
      have "dst_string (Some d) \<noteq> None" if "r = Inr d" for d using g(3) that by (simp add: dst_ok_def)
      then have "(if lg \<noteq> None then log_info lg [Some ''Redirect: '', Some host, Some '' -> '',
          Some t, Some '' -> '', dst_string (Some d)] else Some ()) = Some ()" if "r = Inr d" for d
        using that log_info_opt [of "[Some ''Redirect: '', Some host, Some '' -> '', Some t, Some '' -> '', dst_string (Some d)]" lg True]
        by auto
      then show ?thesis using 2 Some found(1) p pol t g by (cases r) (simp_all add: ipRedirect_def)
    next
      case 3
      have "(if lg \<noteq> None \<and> b then log_info lg [Some ''Redirect: '', Some host, Some '' -> '', Some x] else Some ()) = Some ()" for b x
        by (rule log_info_opt) simp
      then show ?thesis using 3 Some found(1) p pol t r2 pools by (cases r2) (simp_all add: ipRedirect_def)
    qed
  qed
qed

section \<open>The verdict\<close>

text \<open>
  A verdict is a failure, a block, an unknown name, or a route: then the destination can be
  printed and dialled, the policy is in order, and its mode is not \<^verbatim>\<open>block\<close> unless that is the mode of
  the default policy.
\<close>

definition policy_routed :: "dns_mode set \<Rightarrow> route_matcher \<Rightarrow> policy \<Rightarrow> bool" where
  "policy_routed modes rm p \<longleftrightarrow> policy_ok modes p \<and> (pMode (defaultPolicy rm) \<noteq> ModeBlock \<longrightarrow> pMode p \<noteq> ModeBlock)"

definition verdict_ok :: "dns_mode set \<Rightarrow> route_matcher \<Rightarrow> verdict \<Rightarrow> bool" where
  "verdict_ok modes rm v \<longleftrightarrow> v \<in> {failed_verdict, blocked_verdict, not_found_verdict} \<or>
     (\<exists>h p. v = routed h p \<and> dst_ok h \<and> policy_routed modes rm p)"

lemma verdict_ok_simps [simp]:
  "verdict_ok modes rm failed_verdict" "verdict_ok modes rm blocked_verdict" "verdict_ok modes rm not_found_verdict"
  by (simp_all add: verdict_ok_def)

lemma verdict_ok_routed: "dst_ok h \<Longrightarrow> policy_routed modes rm p \<Longrightarrow> verdict_ok modes rm (routed h p)"
  unfolding verdict_ok_def by blast

text \<open>What the routing relies on: the resolver returns, and what it returns can be printed.\<close>

locale name_resolver =
  fixes resolve :: "'r resolver"
    and inv :: "'r \<Rightarrow> bool"
    and modes :: "dns_mode set"
  assumes resolve_law: "inv r \<Longrightarrow> mode \<in> modes \<Longrightarrow> \<exists>x r'. resolve name mode ttl r = Some (x, r') \<and> inv r' \<and>
      (\<forall>d cached. x = Inr (Some d, cached) \<longrightarrow> dst_ok d)"
    and default_mode: "DNSModeDefault \<in> modes"
begin

definition returns_verdict :: "route_matcher \<Rightarrow> (verdict \<times> 'r routing) option \<Rightarrow> bool" where
  "returns_verdict rm m \<longleftrightarrow> succeeds m (\<lambda>(v, pools, r). pools_ok pools \<and> inv r \<and> verdict_ok modes rm v)"

definition state_ok :: "'r routing \<Rightarrow> bool" where
  "state_ok st \<longleftrightarrow> pools_ok (fst st) \<and> inv (snd st)"

lemma returns_routed:
  "state_ok st \<Longrightarrow> dst_ok h \<Longrightarrow> policy_routed modes rm p \<Longrightarrow> returns_verdict rm (Some (routed h p, st))"
  by (auto simp: returns_verdict_def state_ok_def succeeds_Some verdict_ok_routed split: prod.splits)

lemma returns_other:
  "state_ok st \<Longrightarrow> v \<in> {failed_verdict, blocked_verdict, not_found_verdict} \<Longrightarrow> returns_verdict rm (Some (v, st))"
  by (auto simp: returns_verdict_def state_ok_def succeeds_Some split: prod.splits)

lemma merged_routed:
  assumes "\<forall>p \<in> set ps. policy_ok modes p"
    and "pMode (mergePolicies ps) \<noteq> ModeBlock \<or> (\<forall>p \<in> set ps. pMode p = ModeBlock \<longrightarrow> pMode (defaultPolicy rm) = ModeBlock)"
  shows "policy_routed modes rm (mergePolicies ps)"
  using policy_ok_merge [OF assms(1) default_mode] assms(2) merge_not_block [of ps]
  by (auto simp: policy_routed_def)

lemma gen_final_ok:
  assumes rm: "route_ok modes rm" and st: "state_ok st" and p: "policy_routed modes rm p"
    and d: "\<forall>q. d = Some q \<longrightarrow> policy_ok modes q"
  shows "returns_verdict rm (gen_final (Some lg) rm d p noRedirect s st)"
proof (cases noRedirect)
  case True
  then show ?thesis using returns_routed [OF st _ p] by (simp add: gen_final_def)
next
  case False
  obtain r pools where r: "ipRedirect (Some lg) s rm (fst st) = Some (r, pools)" "pools_ok pools"
    "\<forall>h q. r = Inr (h, q) \<longrightarrow> dst_ok h \<and> (\<forall>x. q = Some x \<longrightarrow> policy_ok modes x)"
    using ipRedirect_ok [OF rm] st unfolding state_ok_def by blast
  have st': "state_ok (pools, snd st)" using st r(2) by (simp add: state_ok_def)
  show ?thesis
  proof (cases r)
    case (Inl e)
    then show ?thesis using False r(1) returns_other [OF st', of failed_verdict]
      by (simp add: gen_final_def log_error_ok)
  next
    case (Inr hq)
    obtain h q where hq: "hq = (h, q)" by (cases hq)
    then have h: "dst_ok h" using r(3) Inr by blast
    show ?thesis
    proof (cases q)
      case None
      then show ?thesis using False r(1) Inr hq returns_routed [OF st' h p] by (simp add: gen_final_def)
    next
      case (Some ip)
      let ?p = "case d of Some d \<Rightarrow> mergePolicies [d, ip, defaultPolicy rm] | None \<Rightarrow> mergePolicies [ip, defaultPolicy rm]"
      have "policy_ok modes ip" "policy_ok modes (defaultPolicy rm)"
        using r(3) Inr hq Some rm by (auto simp: route_ok_def)
      then have "policy_routed modes rm ?p" if "pMode ?p \<noteq> ModeBlock"
        using that d by (cases d) (auto intro!: merged_routed)
      then have "returns_verdict rm (Some (if pMode ?p = ModeBlock then blocked_verdict else routed h ?p, pools, snd st))"
        using returns_other [OF st', of blocked_verdict] returns_routed [OF st' h] by auto
      then show ?thesis using False r(1) Inr hq Some by (simp add: gen_final_def Let_def)
    qed
  qed
qed

lemma gen_ip_ok:
  assumes rm: "route_ok modes rm" and st: "state_ok st"
  shows "returns_verdict rm (gen_ip (Some lg) rm host st)"
proof -
  obtain r pools where r: "ipRedirect (Some lg) host rm (fst st) = Some (r, pools)" "pools_ok pools"
    "\<forall>h q. r = Inr (h, q) \<longrightarrow> dst_ok h \<and> (\<forall>x. q = Some x \<longrightarrow> policy_ok modes x)"
    using ipRedirect_ok [OF rm] st unfolding state_ok_def by blast
  have st': "state_ok (pools, snd st)" using st r(2) by (simp add: state_ok_def)
  have def': "policy_ok modes (defaultPolicy rm)" using rm by (simp add: route_ok_def)
  show ?thesis
  proof (cases r)
    case (Inl e)
    then show ?thesis using r(1) returns_other [OF st', of failed_verdict] by (simp add: gen_ip_def log_error_ok)
  next
    case (Inr hq)
    obtain h q where hq: "hq = (h, q)" by (cases hq)
    then have h: "dst_ok h" using r(3) Inr by blast
    let ?p = "case q of None \<Rightarrow> defaultPolicy rm | Some ip \<Rightarrow> mergePolicies [ip, defaultPolicy rm]"
    have "policy_routed modes rm ?p" if "pMode ?p \<noteq> ModeBlock"
      using that def' r(3) Inr hq by (cases q) (auto simp: policy_routed_def intro!: policy_ok_merge default_mode)
    then have "returns_verdict rm (Some (if pMode ?p = ModeBlock then blocked_verdict else routed h ?p, pools, snd st))"
      using returns_other [OF st', of blocked_verdict] returns_routed [OF st' h] by auto
    then show ?thesis using r(1) Inr hq by (simp add: gen_ip_def Let_def)
  qed
qed

lemma gen_lookup_ok:
  assumes st: "state_ok st" and p: "policy_routed modes rm p" and shown: "None \<notin> set shown"
    and k: "\<And>s st. state_ok st \<Longrightarrow> returns_verdict rm (k s st)"
  shows "returns_verdict rm (gen_lookup (Some lg) resolve p host shown name k st)"
proof -
  have "pDNSMode p \<in> modes" using p by (simp add: policy_routed_def policy_ok_def)
  then obtain x r' where x: "resolve name (pDNSMode p) (pDNSCacheTTL p) (snd st) = Some (x, r')" "inv r'"
    "\<forall>d cached. x = Inr (Some d, cached) \<longrightarrow> dst_ok d"
    using resolve_law st unfolding state_ok_def by blast
  have st': "state_ok (fst st, r')" using st x(2) by (simp add: state_ok_def)
  show ?thesis
  proof (cases x)
    case (Inl e)
    then show ?thesis using x(1) returns_other [OF st', of failed_verdict] by (simp add: gen_lookup_def log_error_ok)
  next
    case (Inr dc)
    obtain d cached where dc: "dc = (d, cached)" by (cases dc)
    have d: "dst_string d \<noteq> None" "\<exists>s. dst_single d = Some s" "is_multi d \<Longrightarrow> dst_ok (the d)"
      using x(3) Inr dc dst_ok_single by (cases d; auto simp: dst_string_def dst_ok_def is_multi_def)+
    obtain s where s: "dst_single d = Some s" using d(2) by blast
    have lg: "log_info (Some lg) ([Some pre] @ shown @ [Some '' -> '', dst_string d]) = Some ()" for pre
      by (rule log_info_ok) (use shown d(1) in auto)
    show ?thesis
      using x(1) Inr dc s lg returns_routed [OF st' d(3) p] k [OF st'] by (simp add: gen_lookup_def Let_def)
  qed
qed

lemma gen_pool_ok:
  assumes st: "state_ok st" and p: "policy_routed modes rm p"
    and k: "\<And>s st. state_ok st \<Longrightarrow> returns_verdict rm (k s st)"
  shows "returns_verdict rm (gen_pool (Some lg) pre host p s k st)"
proof (cases "has_prefix s ''$''")
  case True
  obtain r pools where r: "getDstFrom (tl s) (fst st) = Some (r, pools)" "pools_ok pools" "\<forall>d. r = Inr d \<longrightarrow> dst_ok d"
    using getDstFrom_ok [of "fst st" "tl s"] st unfolding state_ok_def by blast
  have st': "state_ok (pools, snd st)" using st r(2) by (simp add: state_ok_def)
  show ?thesis
  proof (cases r)
    case (Inl e)
    then show ?thesis using True r(1) returns_other [OF st', of failed_verdict] by (simp add: gen_pool_def log_error_ok)
  next
    case (Inr d)
    then have d: "dst_ok d" using r(3) by blast
    obtain t where t: "dst_single (Some d) = Some t" using dst_ok_single [OF d] by blast
    have "log_info (Some lg) [Some pre, Some host, Some '' -> '', Some s, Some '' -> '', dst_string (Some d)] = Some ()"
      by (rule log_info_ok) (use d in \<open>auto simp: dst_ok_def\<close>)
    then show ?thesis
      using True r(1) Inr t returns_routed [OF st' d p] k [OF st'] by (simp add: gen_pool_def)
  qed
next
  case False
  then show ?thesis using k [OF st] by (simp add: gen_pool_def log_info_ok)
qed

lemma gen_single_ok:
  assumes rm: "route_ok modes rm" and st: "state_ok st" and p: "policy_routed modes rm p"
    and d: "\<forall>q. d = Some q \<longrightarrow> policy_ok modes q"
  shows "returns_verdict rm (gen_single (Some lg) rm resolve d p host fromHosts noRedirect s st)"
proof -
  note final = gen_final_ok [OF rm _ p d]
  have cname: "returns_verdict rm (gen_lookup (Some lg) resolve p host [Some host, Some '' -> '', Some (tl s)] (tl s)
      (gen_final (Some lg) rm d p noRedirect) st)" if "state_ok st" for s st
    using that by (rule gen_lookup_ok [OF _ p _ final]) simp_all
  have "returns_verdict rm (gen_lookup (Some lg) resolve p host [Some host] host
      (\<lambda>s. if has_prefix s ''?'' then gen_lookup (Some lg) resolve p host [Some host, Some '' -> '', Some (tl s)] (tl s)
             (gen_final (Some lg) rm d p noRedirect) else gen_final (Some lg) rm d p noRedirect s) st)"
    by (rule gen_lookup_ok [OF st p]) (simp_all add: cname final)
  then show ?thesis
    using cname [OF st] gen_pool_ok [OF st p final] returns_routed [OF st _ p]
    unfolding gen_single_def Let_def by simp
qed

lemma genPolicy_ok:
  assumes rm: "route_ok modes rm" and st: "state_ok st"
  shows "returns_verdict rm (genPolicy (Some lg) rm resolve host isIP ret st)"
proof (cases "isIP \<or> net_parse_ip host")
  case True
  then show ?thesis using gen_ip_ok [OF rm st] by (simp add: genPolicy_def)
next
  case False
  let ?d = "getDomainPolicy rm host"
  have d: "\<forall>q. ?d = Some q \<longrightarrow> policy_ok modes q"
    using dm.find_stored [of "domainPolicies rm" host] rm unfolding getDomainPolicy_def route_ok_def by blast
  have hosts: "\<forall>h. getHosts rm host = Some h \<longrightarrow> dst_ok h"
    using dm.find_stored [of "hosts rm" host] rm unfolding getHosts_def route_ok_def by blast
  have def': "policy_ok modes (defaultPolicy rm)" using rm by (simp add: route_ok_def)
  let ?p = "case ?d of Some d \<Rightarrow> mergePolicies [d, defaultPolicy rm] | None \<Rightarrow> defaultPolicy rm"
  show ?thesis
  proof (cases "case ?d of Some d \<Rightarrow> pMode d = ModeBlock | None \<Rightarrow> False")
    case True
    then show ?thesis using False returns_other [OF st, of blocked_verdict] by (simp add: genPolicy_def)
  next
    case nb: False
    then have p: "policy_routed modes rm ?p"
      using d def' by (auto simp: policy_routed_def split: option.splits intro!: merged_routed [unfolded policy_routed_def])
    then have h: "dst_ok (pHost ?p)" by (simp add: policy_routed_def policy_ok_def)
    obtain t where t: "dst_single (Some (pHost ?p)) = Some t" using dst_ok_single [OF h] by blast
    note single = gen_single_ok [OF rm st p d]
    have hosts': "returns_verdict rm (case getHosts rm host of
        Some h \<Rightarrow> if is_multi (Some h) then Some (routed h ?p, st)
          else do { text \<leftarrow> dst_single (Some h); let (s, noRedirect) = stripNoRedirectPrefix text;
            gen_single (Some lg) rm resolve ?d ?p host True noRedirect s st }
      | None \<Rightarrow> if ret then Some (not_found_verdict, st) else gen_single (Some lg) rm resolve ?d ?p host False nr s st)" for nr s
    proof (cases "getHosts rm host")
      case None
      then show ?thesis using single returns_other [OF st, of not_found_verdict] by simp
    next
      case (Some x)
      then obtain t where "dst_single (Some x) = Some t" using hosts dst_ok_single by blast
      then show ?thesis
        using Some hosts single returns_routed [OF st _ p, of x] by (simp add: Let_def split: prod.split)
    qed
    show ?thesis
      using False nb t single hosts' returns_routed [OF st h p]
      unfolding genPolicy_def Let_def by (simp split: prod.split)
  qed
qed

end

end
