(* ===== verification/Dns_Spec.thy ===== *)
theory Dns_Spec
  imports Dns Route_Spec
begin

text \<open>
  The resolver keeps its contract with the routing for the modes that give one address, its
  answers come from records of the right type, a cached answer is given back, and what the
  modes that give several addresses do with an answer that has none.
\<close>

section \<open>The contract with the routing\<close>

definition resolver_modes :: "dns_mode set" where
  "resolver_modes = {DNSModeUnset, DNSModeIPv4Only, DNSModeIPv6Only, DNSModePreferIPv4, DNSModePreferIPv6}"

text \<open>The cache keeps its own contract, and every destination in it can be printed.\<close>

definition dns_inv :: "'n dns_state \<Rightarrow> bool" where
  "dns_inv st \<longleftrightarrow> (\<forall>c. dnsCache st = Some c \<longrightarrow>
     (\<exists>M. sharded_holds c M \<and> (\<forall>k d x. M k = Some (Some d, x) \<longrightarrow> dst_ok d)))"

lemma dns_inv_net [simp]: "dns_inv (st\<lparr>dnsNet := n\<rparr>) = dns_inv st"
  by (simp add: dns_inv_def)

lemma cache_lookup_ok:
  assumes "dns_inv st"
  shows "\<exists>v st'. cache_lookup ops k st = Some (v, st') \<and> dns_inv st' \<and> (\<forall>d. v = Some (Some d) \<longrightarrow> dst_ok d)"
proof (cases "dnsCache st")
  case None
  then show ?thesis using assms by (simp add: cache_lookup_def)
next
  case (Some c)
  obtain M where M: "sharded_holds c M" "\<forall>k d x. M k = Some (Some d, x) \<longrightarrow> dst_ok d"
    using assms Some by (auto simp: dns_inv_def)
  obtain now n where now: "dnsNow ops (dnsNet st) = (now, n)" by (cases "dnsNow ops (dnsNet st)")
  obtain c' where c': "Sharded_Get now k c = Some (fresh_value now (M k), c')"
    "sharded_holds c' (if fresh_value now (M k) = None then M(k := None) else M)"
    using sharded.get_law [OF M(1)] by blast
  have "dns_inv \<lparr>dnsCache = Some c', dnsNet = n\<rparr>"
    using c'(2) M(2) unfolding dns_inv_def
    by (intro allI impI exI [of _ "if fresh_value now (M k) = None then M(k := None) else M"]) auto
  moreover have "\<forall>d. fresh_value now (M k) = Some (Some d) \<longrightarrow> dst_ok d"
    using M(2) by (auto simp: fresh_value_def split: option.splits if_splits)
  ultimately show ?thesis using Some now c'(1) by (simp add: cache_lookup_def)
qed

lemma cache_answer_ok:
  assumes "dns_inv st" and "\<forall>x. d = Some x \<longrightarrow> dst_ok x"
  shows "\<exists>st'. cache_answer ops domain d ttl st = Some st' \<and> dns_inv st'"
proof (cases "dnsCache st")
  case None
  then show ?thesis using assms by (simp add: cache_answer_def)
next
  case (Some c)
  obtain M where M: "sharded_holds c M" "\<forall>k d x. M k = Some (Some d, x) \<longrightarrow> dst_ok d"
    using assms(1) Some by (auto simp: dns_inv_def)
  obtain now n where now: "dnsNow ops (dnsNet st) = (now, n)" by (cases "dnsNow ops (dnsNet st)")
  obtain ev c' M' where c': "Sharded_AddWithLifetime now domain d ttl c = Some (ev, c')" "sharded_holds c' M'"
    "M' \<subseteq>\<^sub>m M(domain \<mapsto> (d, expire_at now ttl))"
    using sharded.add_law [OF M(1)] by blast
  have "dst_ok x" if m: "M' k = Some (Some x, t)" for k x t
  proof -
    have "(M(domain \<mapsto> (d, expire_at now ttl))) k = Some (Some x, t)"
      using c'(3) m by (metis domI map_le_def)
    then show ?thesis using M(2) assms(2) by (auto split: if_splits)
  qed
  then have "dns_inv \<lparr>dnsCache = Some c', dnsNet = n\<rparr>" using c'(2) by (auto simp: dns_inv_def)
  then show ?thesis using assms Some now c'(1) by (auto simp: cache_answer_def)
qed

lemma answer_dst_ok:
  assumes "mode \<in> resolver_modes"
  shows "\<exists>y n'. answer_dst ops r fqdn mode msg resp n = Some (y, n') \<and> (\<forall>d. y = Inr (Some d) \<longrightarrow> dst_ok d)"
  using assms by (auto simp: answer_dst_def resolver_modes_def is_single_mode_def split: prod.split sum.split)

lemma finish_resolve_ok:
  assumes "dns_inv st" and "mode \<in> resolver_modes"
  shows "\<exists>y st'. finish_resolve ops r domain mode ttl msg x st = Some (y, st') \<and> dns_inv st' \<and>
    (\<forall>d. y = Inr (Some d) \<longrightarrow> dst_ok d)"
proof (cases x)
  case (Inl e)
  then show ?thesis using assms(1) by (simp add: finish_resolve_def)
next
  case (Inr resp)
  obtain y n' where y: "answer_dst ops r (dnsFqdn ops domain) mode msg resp (dnsNet st) = Some (y, n')"
    "\<forall>d. y = Inr (Some d) \<longrightarrow> dst_ok d"
    using answer_dst_ok [OF assms(2), of ops r "dnsFqdn ops domain" msg resp "dnsNet st"] by (elim exE conjE) (rule that)
  show ?thesis
  proof (cases y)
    case (Inl e)
    then show ?thesis using Inr y assms(1) by (simp add: finish_resolve_def)
  next
    case d: (Inr d)
    have "dns_inv (st\<lparr>dnsNet := n'\<rparr>)" "\<forall>x. d = Some x \<longrightarrow> dst_ok x" using assms(1) y(2) d by simp_all
    then obtain st' where st': "cache_answer ops domain d ttl (st\<lparr>dnsNet := n'\<rparr>) = Some st'" "dns_inv st'"
      using cache_answer_ok by blast
    have "finish_resolve ops r domain mode ttl msg x st = (if rcode resp \<noteq> 0 then Some (Inl (bad_rcode ops resp), st) else Some (Inr d, st'))"
      using Inr y(1) d st'(1) by (simp add: finish_resolve_def)
    then show ?thesis using y(2) d st'(2) assms(1) by simp
  qed
qed

lemma doResolve_ok:
  assumes "dns_inv st" and "mode \<in> resolver_modes"
  shows "\<exists>y st'. doResolve ops r domain mode ttl st = Some (y, st') \<and> dns_inv st' \<and> (\<forall>d. y = Inr (Some d) \<longrightarrow> dst_ok d)"
proof -
  obtain msg n x n' where "first_query ops r (dnsFqdn ops domain) mode (dnsNet st) = (msg, n)"
    "dnsExchange ops msg n = (x, n')"
    by (metis prod.exhaust)
  then show ?thesis
    using finish_resolve_ok [of "st\<lparr>dnsNet := n'\<rparr>" mode ops r domain ttl msg x] assms by (simp add: doResolve_def)
qed

lemma Resolve_ok:
  assumes "dns_inv st" and "mode \<in> resolver_modes"
  shows "\<exists>x st'. Resolve ops r domain mode ttl st = Some (x, st') \<and> dns_inv st' \<and>
    (\<forall>d cached. x = Inr (Some d, cached) \<longrightarrow> dst_ok d)"
proof -
  obtain v st1 where v: "cache_lookup ops domain st = Some (v, st1)" "dns_inv st1" "\<forall>d. v = Some (Some d) \<longrightarrow> dst_ok d"
    using cache_lookup_ok [OF assms(1)] by blast
  obtain y st2 where y: "doResolve ops r domain mode ttl st1 = Some (y, st2)" "dns_inv st2"
    "\<forall>d. y = Inr (Some d) \<longrightarrow> dst_ok d" using doResolve_ok [OF v(2) assms(2)] by blast
  show ?thesis
  proof (cases v)
    case (Some d)
    then show ?thesis using v by (simp add: Resolve_def)
  next
    case None
    then show ?thesis using v(1) y by (cases y) (simp_all add: Resolve_def)
  qed
qed

interpretation dns: name_resolver "Resolve ops r" dns_inv resolver_modes
proof unfold_locales
  fix st :: "'a dns_state" and mode name ttl
  show "dns_inv st \<Longrightarrow> mode \<in> resolver_modes \<Longrightarrow> \<exists>x r'. Resolve ops r name mode ttl st = Some (x, r') \<and> dns_inv r' \<and>
      (\<forall>d cached. x = Inr (Some d, cached) \<longrightarrow> dst_ok d)"
    by (rule Resolve_ok)
qed (simp add: resolver_modes_def DNSModeDefault_def)

text \<open>
  C0. With tables in order and DNS modes that give one address, \<^verbatim>\<open>genPolicy\<close> over the
  modelled resolver and pools never panics, whatever the name, the answers and the logger. It
  fails, blocks, does not know the name, or returns a destination that can be printed with a
  policy within its bounds, whose mode is \<^verbatim>\<open>block\<close> only if the default policy's is.
\<close>

theorem genPolicy_safe:
  assumes "route_ok resolver_modes rm" and "pools_ok pools" and "dns_inv st"
  shows "\<exists>v pools' st'. genPolicy (Some lg) rm (Resolve ops r) host isIP ret (pools, st) = Some (v, pools', st') \<and>
    pools_ok pools' \<and> dns_inv st' \<and>
    (v \<in> {failed_verdict, blocked_verdict, not_found_verdict} \<or>
     (\<exists>h p. v = routed h p \<and> dst_string (Some h) \<noteq> None \<and> dst_single (Some h) \<noteq> None \<and> wf_policy p \<and>
        (pMode p = ModeBlock \<longrightarrow> pMode (defaultPolicy rm) = ModeBlock)))"
proof -
  have st: "dns.state_ok (pools, st)" using assms(2,3) by (simp add: dns.state_ok_def)
  obtain v pools' st' where v: "genPolicy (Some lg) rm (Resolve ops r) host isIP ret (pools, st) = Some (v, pools', st')"
    "pools_ok pools'" "dns_inv st'" "verdict_ok resolver_modes rm v"
    using dns.genPolicy_ok [OF assms(1) st, of lg ops r host isIP ret]
    by (auto simp: dns.returns_verdict_def succeeds_def)
  have "v \<in> {failed_verdict, blocked_verdict, not_found_verdict} \<or>
     (\<exists>h p. v = routed h p \<and> dst_string (Some h) \<noteq> None \<and> dst_single (Some h) \<noteq> None \<and> wf_policy p \<and>
        (pMode p = ModeBlock \<longrightarrow> pMode (defaultPolicy rm) = ModeBlock))"
    using v(4) wf_dst_single unfolding verdict_ok_def policy_routed_def policy_ok_def dst_ok_def by fastforce
  then show ?thesis using v(1,2,3) by blast
qed

section \<open>Where an answer comes from\<close>

text \<open>A reply of the network to a question for a name and a type.\<close>

definition replied :: "'n dns_ops \<Rightarrow> string \<Rightarrow> nat \<Rightarrow> dns_msg \<Rightarrow> bool" where
  "replied ops fqdn q resp \<longleftrightarrow>
     (\<exists>msg n. fst (dnsExchange ops msg n) = Inr resp \<and> hd (question msg) = (fqdn, q)) \<and> rcode resp = 0"

lemma pickFirstARecord_mem: "pickFirstARecord rs = ip \<Longrightarrow> ip \<noteq> [] \<Longrightarrow> RR_A ip \<in> set rs"
  by (induction rs) (auto split: rr.splits)

lemma pickFirstAAAARecord_mem: "pickFirstAAAARecord rs = ip \<Longrightarrow> ip \<noteq> [] \<Longrightarrow> RR_AAAA ip \<in> set rs"
  by (induction rs) (auto split: rr.splits)

lemma dnsMsgSetQuestion_head: "hd (question (fst (dnsMsgSetQuestion ops r msg fqdn q n))) = (fqdn, q)"
  by (simp add: dnsMsgSetQuestion_def split: prod.split)

lemma ask_other_replied:
  assumes "ask_other ops r domain q msg err n = (Inr ans, n')"
  shows "\<exists>resp. replied ops domain q resp \<and> answer resp = ans"
proof -
  obtain m k where m: "dnsMsgSetQuestion ops r msg domain q n = (m, k)" by fastforce
  obtain x l where x: "dnsExchange ops m k = (x, l)" by fastforce
  have "hd (question m) = (domain, q)" using dnsMsgSetQuestion_head [of ops r msg domain q n] m by simp
  moreover obtain resp where "x = Inr resp" "rcode resp = 0" "answer resp = ans"
    using assms m x by (cases x) (auto simp: ask_other_def split: if_splits)
  ultimately show ?thesis using x unfolding replied_def by (intro exI [of _ resp]) (auto intro!: exI [of _ m] exI [of _ k])
qed

lemma first_query_head:
  assumes "first_query ops r fqdn mode n = (msg, n')" and "first_qtype mode = Some q"
  shows "hd (question msg) = (fqdn, q)"
  using assms dnsMsgSetQuestion_head [of ops r new_msg fqdn q n]
  by (auto simp: first_query_def split: option.splits prod.splits)

definition address_of :: "'n dns_ops \<Rightarrow> string \<Rightarrow> dns_mode \<Rightarrow> bytes \<Rightarrow> bool" where
  "address_of ops fqdn mode ip \<longleftrightarrow> ip \<noteq> [] \<and>
     (mode \<noteq> DNSModeIPv6Only \<and> (\<exists>resp. replied ops fqdn TypeA resp \<and> RR_A ip \<in> set (answer resp)) \<or>
      mode \<noteq> DNSModeIPv4Only \<and> (\<exists>resp. replied ops fqdn TypeAAAA resp \<and> RR_AAAA ip \<in> set (answer resp)))"

lemma one_record_Inr: "one_record m sel x = Inr ip \<longleftrightarrow> (\<exists>ans. x = Inr ans \<and> sel ans = ip \<and> ip \<noteq> [])"
  by (auto simp: one_record_def split: sum.splits)

lemma resolveSingle_address:
  assumes "resolveSingle ops r fqdn mode (answer resp) msg err n = (Inr ip, n')"
    and "is_single_mode mode" and "first_qtype mode = Some q" and "replied ops fqdn q resp"
  shows "address_of ops fqdn mode ip"
proof -
  note mem = pickFirstARecord_mem pickFirstAAAARecord_mem
  have second: "\<exists>resp. replied ops fqdn q' resp \<and> answer resp = ans"
    if "ask_other ops r fqdn q' msg err n = (Inr ans, n')" for q' ans n'
    using ask_other_replied [OF that] .
  consider "mode = DNSModeIPv4Only" | "mode = DNSModeIPv6Only" | "mode = DNSModePreferIPv4" | "mode = DNSModePreferIPv6"
    using assms(2) by (auto simp: is_single_mode_def)
  then show ?thesis
  proof cases
    case 1
    then show ?thesis
      using assms mem(1) by (auto simp: resolveSingle_def one_record_Inr address_of_def first_qtype_def)
  next
    case 2
    then show ?thesis
      using assms mem(2) by (auto simp: resolveSingle_def one_record_Inr address_of_def first_qtype_def)
  next
    case 3
    then have q: "q = TypeA" using assms(3) by (simp add: first_qtype_def)
    show ?thesis
    proof (cases "pickFirstARecord (answer resp) = []")
      case False
      then show ?thesis using 3 q assms(1,4) mem(1) by (auto simp: resolveSingle_def address_of_def)
    next
      case True
      then obtain ans where "ask_other ops r fqdn TypeAAAA msg err n = (Inr ans, n')" "pickFirstAAAARecord ans = ip" "ip \<noteq> []"
        using 3 assms(1) by (auto simp: resolveSingle_def one_record_Inr split: prod.splits)
      then show ?thesis using 3 second mem(2) by (fastforce simp: address_of_def)
    qed
  next
    case 4
    then have q: "q = TypeAAAA" using assms(3) by (simp add: first_qtype_def)
    show ?thesis
    proof (cases "pickFirstAAAARecord (answer resp) = []")
      case False
      then show ?thesis using 4 q assms(1,4) mem(2) by (auto simp: resolveSingle_def address_of_def)
    next
      case True
      then obtain ans where "ask_other ops r fqdn TypeA msg err n = (Inr ans, n')" "pickFirstARecord ans = ip" "ip \<noteq> []"
        using 4 assms(1) by (auto simp: resolveSingle_def one_record_Inr split: prod.splits)
      then show ?thesis using 4 second mem(1) by (fastforce simp: address_of_def)
    qed
  qed
qed

lemma doResolveE:
  assumes "doResolve ops r domain mode ttl st = Some (Inr d, st')" and "first_qtype mode = Some q"
  obtains msg resp n y where "replied ops (dnsFqdn ops domain) q resp"
    "answer_dst ops r (dnsFqdn ops domain) mode msg resp n = Some (Inr d, y)"
    "cache_answer ops domain d ttl (st\<lparr>dnsNet := y\<rparr>) = Some st'"
proof -
  obtain msg n x n' where q: "first_query ops r (dnsFqdn ops domain) mode (dnsNet st) = (msg, n)"
    and x: "dnsExchange ops msg n = (x, n')"
    by (metis prod.exhaust)
  have fin: "finish_resolve ops r domain mode ttl msg x (st\<lparr>dnsNet := n'\<rparr>) = Some (Inr d, st')"
    using assms(1) q x by (simp add: doResolve_def)
  then obtain resp where resp: "x = Inr resp" "rcode resp = 0"
    by (auto simp: finish_resolve_def split: sum.splits if_splits)
  then obtain y where "answer_dst ops r (dnsFqdn ops domain) mode msg resp n' = Some (Inr d, y)"
    "cache_answer ops domain d ttl (st\<lparr>dnsNet := y\<rparr>) = Some st'"
    using fin by (auto simp: finish_resolve_def split: sum.splits bind_splits)
  moreover have "replied ops (dnsFqdn ops domain) q resp"
    using first_query_head [OF q assms(2)] x resp unfolding replied_def
    by (auto intro!: exI [of _ msg] exI [of _ n])
  ultimately show thesis using that by blast
qed

text \<open>
  C33. In the modes for one address, the destination of an uncached answer is the text of an
  address that a server sent for this very name: from an A record of a reply to an A question,
  or an AAAA record of a reply to an AAAA question, and never of the family the mode excludes.
\<close>

theorem resolve_from_record:
  assumes "is_single_mode mode" and "doResolve ops r domain mode ttl st = Some (Inr d, st')"
  shows "\<exists>ip. d = Some (new_single_dst (net_ip_string ip)) \<and> ip \<noteq> [] \<and>
    (mode \<noteq> DNSModeIPv6Only \<and> (\<exists>resp. replied ops (dnsFqdn ops domain) TypeA resp \<and> RR_A ip \<in> set (answer resp)) \<or>
     mode \<noteq> DNSModeIPv4Only \<and> (\<exists>resp. replied ops (dnsFqdn ops domain) TypeAAAA resp \<and> RR_AAAA ip \<in> set (answer resp)))"
proof -
  obtain q where q: "first_qtype mode = Some q" using assms(1) by (auto simp: is_single_mode_def first_qtype_def)
  obtain msg resp n y where *: "replied ops (dnsFqdn ops domain) q resp"
    "answer_dst ops r (dnsFqdn ops domain) mode msg resp n = Some (Inr d, y)"
    "cache_answer ops domain d ttl (st\<lparr>dnsNet := y\<rparr>) = Some st'"
    by (rule doResolveE [OF assms(2) q])
  then obtain ip where ip: "resolveSingle ops r (dnsFqdn ops domain) mode (answer resp) msg None n = (Inr ip, y)"
    "d = Some (new_single_dst (net_ip_string ip))"
    using assms(1) by (auto simp: answer_dst_def split: prod.splits sum.splits)
  from resolveSingle_address [OF ip(1) assms(1) q *(1)] ip(2) show ?thesis by (auto simp: address_of_def)
qed

text \<open>A resolver to evaluate: a server that answers every question with one A record.\<close>

definition one_answer_ops :: "bytes \<Rightarrow> unit dns_ops" where
  "one_answer_ops ip = \<lparr>dnsExchange = (\<lambda>m n. (Inr (m\<lparr>answer := [RR_A ip]\<rparr>), n)), dnsId = (\<lambda>n. (7, n)),
     dnsNow = (\<lambda>n. (0, n)), dnsFqdn = (\<lambda>s. s @ ''.''), rcodeToString = (\<lambda>_. ''code'')\<rparr>"

definition plain_resolver :: dns_resolver where
  "plain_resolver = \<lparr>edns0SubnetOpt = None, qtype2 = 0, singleFlight = False\<rparr>"

lemma one_answer_resolve:
  "doResolve (one_answer_ops [1, 1, 1, 1]) plain_resolver ''a.b'' DNSModeIPv4Only 0 \<lparr>dnsCache = None, dnsNet = ()\<rparr> =
     Some (Inr (Some (new_single_dst (net_ip_string [1, 1, 1, 1]))), \<lparr>dnsCache = None, dnsNet = ()\<rparr>)"
  by (simp add: doResolve_def first_query_def first_qtype_def dnsMsgSetQuestion_def one_answer_ops_def plain_resolver_def
      finish_resolve_def answer_dst_def is_single_mode_def resolveSingle_def one_record_def cache_answer_def new_msg_def)

theorem resolve_from_record_witness:
  "\<exists>ip resp. net_ip_string [1, 1, 1, 1] = net_ip_string ip \<and>
     replied (one_answer_ops [1, 1, 1, 1]) ''a.b.'' TypeA resp \<and> RR_A ip \<in> set (answer resp)"
proof -
  have f: "dnsFqdn (one_answer_ops [1, 1, 1, 1]) ''a.b'' = ''a.b.''" by (simp add: one_answer_ops_def)
  show ?thesis
    using resolve_from_record [OF _ one_answer_resolve] unfolding f
    by (auto simp: is_single_mode_def new_single_dst_def)
qed

theorem genPolicy_safe_witness:
  "\<exists>v st'. genPolicy (Some \<lparr>logLevel = LevelInfo, logPrefix = []\<rparr>)
       \<lparr>defaultPolicy = mergePolicies [], domainPolicies = new_domain_matcher, ipv4Policies = new_bit_node,
        ipv6Policies = new_bit_node, hosts = new_domain_matcher\<rparr>
       (Resolve (one_answer_ops [1, 1, 1, 1]) plain_resolver) ''a.b'' False False
       (Map.empty, \<lparr>dnsCache = None, dnsNet = ()\<rparr>) = Some (v, st')"
proof -
  let ?rm = "\<lparr>defaultPolicy = mergePolicies [], domainPolicies = new_domain_matcher, ipv4Policies = new_bit_node,
        ipv6Policies = new_bit_node, hosts = new_domain_matcher\<rparr>"
  have "policy_ok resolver_modes (mergePolicies [])"
    by (rule policy_ok_merge) (simp_all add: resolver_modes_def DNSModeDefault_def)
  then have "route_ok resolver_modes ?rm"
    by (simp add: route_ok_def new_domain_matcher_def trie_at_new)
  moreover have "pools_ok Map.empty" "dns_inv \<lparr>dnsCache = None, dnsNet = ()\<rparr>"
    by (simp_all add: pools_ok_def dns_inv_def)
  ultimately show ?thesis using genPolicy_safe by blast
qed

section \<open>Cached answers\<close>

text \<open>What a call leaves in the cache: what was there, and the answer it has stored, if any.\<close>

lemma map_leD: "f \<subseteq>\<^sub>m g \<Longrightarrow> f k = Some e \<Longrightarrow> g k = Some e"
  by (metis domI map_le_def)

lemma doResolve_stores:
  assumes "doResolve ops r domain mode ttl st = Some (x, st')" and "dnsCache st = Some c" and "sharded_holds c M"
  shows "\<exists>c' M'. dnsCache st' = Some c' \<and> sharded_holds c' M' \<and>
    (\<forall>k e. M' k = Some e \<longrightarrow> M k = Some e \<or> k = domain \<and> x = Inr (fst e)) \<and>
    (\<forall>d. x = Inr d \<longrightarrow> ttl \<noteq> 0 \<longrightarrow> ttl \<noteq> unsetInt \<longrightarrow>
      (\<exists>now n. dnsNow ops n = (now, dnsNet st') \<and> M' domain = Some (d, expire_at now ttl)))"
proof -
  have same: ?thesis if "dnsCache st' = Some c" "\<And>d. x = Inr d \<Longrightarrow> ttl = 0 \<or> ttl = unsetInt"
    using that assms(3) by (intro exI [of _ c] exI [of _ M]) auto
  show ?thesis
  proof (cases x)
    case (Inl e)
    then have "dnsCache st' = dnsCache st"
      using assms(1) by (auto simp: doResolve_def finish_resolve_def split: prod.splits sum.splits if_splits bind_splits)
    then show ?thesis using same assms(2) Inl by simp
  next
    case (Inr d)
    then obtain y where y: "cache_answer ops domain d ttl (st\<lparr>dnsNet := y\<rparr>) = Some st'"
      using assms(1) by (auto simp: doResolve_def finish_resolve_def split: prod.splits sum.splits if_splits bind_splits)
    show ?thesis
    proof (cases "ttl = 0 \<or> ttl = unsetInt")
      case True
      then have "st' = st\<lparr>dnsNet := y\<rparr>" using y assms(2) by (auto simp: cache_answer_def)
      then show ?thesis using same assms(2) True by simp
    next
      case False
      obtain now n where now: "dnsNow ops y = (now, n)" by (cases "dnsNow ops y")
      obtain ev c1 M1 where a: "Sharded_AddWithLifetime now domain d ttl c = Some (ev, c1)" "sharded_holds c1 M1"
        "M1 domain = Some (d, expire_at now ttl)" "M1 \<subseteq>\<^sub>m M(domain \<mapsto> (d, expire_at now ttl))"
        using sharded.add_law [OF assms(3), of now domain d ttl] by blast
      have st': "st' = \<lparr>dnsCache = Some c1, dnsNet = n\<rparr>" using y assms(2) now a(1) False by (simp add: cache_answer_def)
      have "M k = Some e \<or> k = domain \<and> x = Inr (fst e)" if "M1 k = Some e" for k e
        using map_leD [OF a(4) that] Inr by (auto split: if_splits)
      then show ?thesis using st' a(2,3) now Inr
        by (intro exI [of _ c1] exI [of _ M1]) auto
    qed
  qed
qed

lemma Resolve_stores:
  assumes "Resolve ops r domain mode ttl st = Some (x, st')" and "dnsCache st = Some c" and "sharded_holds c M"
  shows "\<exists>c' M'. dnsCache st' = Some c' \<and> sharded_holds c' M' \<and>
    (\<forall>k e. M' k = Some e \<longrightarrow> M k = Some e \<or> k = domain \<and> x = Inr (fst e, False)) \<and>
    (\<forall>d. x = Inr (d, True) \<longrightarrow> M' = M \<and> fresh_value (fst (dnsNow ops (dnsNet st))) (M domain) = Some d)"
proof -
  obtain now n where now: "dnsNow ops (dnsNet st) = (now, n)" by (cases "dnsNow ops (dnsNet st)")
  obtain c1 where g: "Sharded_Get now domain c = Some (fresh_value now (M domain), c1)"
    "sharded_holds c1 (if fresh_value now (M domain) = None then M(domain := None) else M)"
    using sharded.get_law [OF assms(3), of now domain] by blast
  show ?thesis
  proof (cases "fresh_value now (M domain)")
    case (Some d)
    then have "x = Inr (d, True)" "st' = \<lparr>dnsCache = Some c1, dnsNet = n\<rparr>"
      using assms(1,2) now g(1) by (simp_all add: Resolve_def cache_lookup_def)
    then show ?thesis using g(2) Some now by (intro exI [of _ c1] exI [of _ M]) simp
  next
    case None
    then obtain y where y: "doResolve ops r domain mode ttl \<lparr>dnsCache = Some c1, dnsNet = n\<rparr> = Some (y, st')"
      "x = (case y of Inl e \<Rightarrow> Inl e | Inr d \<Rightarrow> Inr (d, False))"
      using assms(1,2) now g(1) by (auto simp: Resolve_def cache_lookup_def split: bind_splits)
    have h: "sharded_holds c1 (M(domain := None))" using g(2) None by simp
    obtain c' M' where s: "dnsCache st' = Some c'" "sharded_holds c' M'"
      "\<forall>k e. M' k = Some e \<longrightarrow> (M(domain := None)) k = Some e \<or> k = domain \<and> y = Inr (fst e)"
      using doResolve_stores [OF y(1) _ h] by auto
    have "M k = Some e \<or> k = domain \<and> x = Inr (fst e, False)" if "M' k = Some e" for k e
      using s(3) [rule_format, OF that] y(2) by (auto split: if_splits)
    moreover have "x \<noteq> Inr (d, True)" for d using y(2) by (cases y) simp_all
    ultimately show ?thesis using s(1,2) by blast
  qed
qed

text \<open>
  Later calls, each with the network it finds, its clock included, and what they answer. A call answers
  anew when it has asked.
\<close>

fun resolve_calls ::
  "'n dns_ops \<Rightarrow> dns_resolver \<Rightarrow> (string \<times> dns_mode \<times> int \<times> 'n) list \<Rightarrow> 'n dns_state \<Rightarrow>
   ((string \<times> (error + dst option \<times> bool)) list \<times> 'n dns_state) option" where
  "resolve_calls ops r [] st = Some ([], st)"
| "resolve_calls ops r ((name, mode, ttl, n) # cs) st = do {
     (x, st) \<leftarrow> Resolve ops r name mode ttl (st\<lparr>dnsNet := n\<rparr>);
     (xs, st) \<leftarrow> resolve_calls ops r cs st;
     Some ((name, x) # xs, st)
   }"

definition hit :: "string \<times> (error + dst option \<times> bool) \<Rightarrow> bool" where
  "hit a \<longleftrightarrow> (\<exists>d. snd a = Inr (d, True))"

lemma resolve_calls_stores:
  assumes "resolve_calls ops r cs st = Some (as, st')" and "dnsCache st = Some c" and "sharded_holds c M"
  shows "\<exists>c' M'. dnsCache st' = Some c' \<and> sharded_holds c' M' \<and>
    (\<forall>k e. M' k = Some e \<longrightarrow> M k = Some e \<or> (k, Inr (fst e, False)) \<in> set as) \<and> ((\<forall>a \<in> set as. hit a) \<longrightarrow> M' = M)"
  using assms
proof (induction ops r cs st arbitrary: as c M rule: resolve_calls.induct)
  case (1 ops r st)
  then show ?case by (intro exI [of _ c] exI [of _ M]) simp
next
  case (2 ops r name mode ttl n cs st)
  obtain x s1 bs where s: "Resolve ops r name mode ttl (st\<lparr>dnsNet := n\<rparr>) = Some (x, s1)"
    "resolve_calls ops r cs s1 = Some (bs, st')" "as = (name, x) # bs"
    using 2(2) by (auto split: bind_splits)
  obtain c1 M1 where 1: "dnsCache s1 = Some c1" "sharded_holds c1 M1"
    "\<And>k e. M1 k = Some e \<Longrightarrow> M k = Some e \<or> k = name \<and> x = Inr (fst e, False)" "\<And>d. x = Inr (d, True) \<Longrightarrow> M1 = M"
    using Resolve_stores [OF s(1) _ 2(4)] 2(3) by auto
  obtain c2 M2 where "dnsCache st' = Some c2" "sharded_holds c2 M2"
    "\<And>k e. M2 k = Some e \<Longrightarrow> M1 k = Some e \<or> (k, Inr (fst e, False)) \<in> set bs" "(\<forall>a \<in> set bs. hit a) \<Longrightarrow> M2 = M1"
    using 2(1) [OF s(1) refl s(2) 1(1,2)] by blast
  then show ?case using 1(3,4) s(3) by (intro exI [of _ c2] exI [of _ M2]) (fastforce simp: hit_def)
qed

text \<open>
  C34. An answer stored for a name with a lifetime, at the time the clock shows then, is what later calls
  for that name get from the cache, for every mode, also one that excludes the family of the
  address: as long as the calls in between were all answered from the cache it is given
  whenever the clock shows that its lifetime has not passed. And whatever other calls come in between, an
  answer from the cache is this one within its lifetime, or one that a call for the same name has got
  anew since then.
\<close>

theorem resolve_cached:
  assumes "dns_inv st" and "dnsCache st \<noteq> None" and "ttl \<noteq> 0" and "ttl \<noteq> unsetInt"
    and "doResolve ops r domain mode ttl st = Some (Inr d, st1)"
  shows "\<exists>now n. dnsNow ops n = (now, dnsNet st1) \<and>
    (\<forall>cs as st2 n2 mode' ttl'. resolve_calls ops r cs st1 = Some (as, st2) \<longrightarrow>
      ((\<forall>a \<in> set as. hit a) \<and> \<not> stale (fst (dnsNow ops n2)) (expire_at now ttl) \<longrightarrow>
        (\<exists>st3. Resolve ops r domain mode' ttl' (st2\<lparr>dnsNet := n2\<rparr>) = Some (Inr (d, True), st3))) \<and>
      (\<forall>d' st3. Resolve ops r domain mode' ttl' (st2\<lparr>dnsNet := n2\<rparr>) = Some (Inr (d', True), st3) \<longrightarrow>
        d' = d \<and> \<not> stale (fst (dnsNow ops n2)) (expire_at now ttl) \<or> (domain, Inr (d', False)) \<in> set as))"
proof -
  obtain c M where c: "dnsCache st = Some c" "sharded_holds c M" using assms(1,2) by (auto simp: dns_inv_def)
  obtain c1 M1 now n where s: "dnsCache st1 = Some c1" "sharded_holds c1 M1" "dnsNow ops n = (now, dnsNet st1)"
    "M1 domain = Some (d, expire_at now ttl)"
    using doResolve_stores [OF assms(5) c] assms(3,4) by blast
  have "((\<forall>a \<in> set as. hit a) \<and> \<not> stale (fst (dnsNow ops n2)) (expire_at now ttl) \<longrightarrow>
        (\<exists>st3. Resolve ops r domain mode' ttl' (st2\<lparr>dnsNet := n2\<rparr>) = Some (Inr (d, True), st3))) \<and>
      (\<forall>d' st3. Resolve ops r domain mode' ttl' (st2\<lparr>dnsNet := n2\<rparr>) = Some (Inr (d', True), st3) \<longrightarrow>
        d' = d \<and> \<not> stale (fst (dnsNow ops n2)) (expire_at now ttl) \<or> (domain, Inr (d', False)) \<in> set as)"
    if run: "resolve_calls ops r cs st1 = Some (as, st2)" for cs as st2 n2 mode' ttl'
  proof -
    let ?t = "fst (dnsNow ops n2)"
    obtain c2 M2 where 2: "dnsCache st2 = Some c2" "sharded_holds c2 M2"
      "\<And>k e. M2 k = Some e \<Longrightarrow> M1 k = Some e \<or> (k, Inr (fst e, False)) \<in> set as" "(\<forall>a \<in> set as. hit a) \<Longrightarrow> M2 = M1"
      using resolve_calls_stores [OF run s(1,2)] by blast
    have net: "dnsCache (st2\<lparr>dnsNet := n2\<rparr>) = Some c2" using 2(1) by simp
    have "\<exists>st3. Resolve ops r domain mode' ttl' (st2\<lparr>dnsNet := n2\<rparr>) = Some (Inr (d, True), st3)"
      if "\<forall>a \<in> set as. hit a" "\<not> stale ?t (expire_at now ttl)"
    proof -
      have f: "fresh_value ?t (M2 domain) = Some d" using 2(4) that s(4) by (simp add: fresh_value_def)
      then show ?thesis using sharded.get_law [OF 2(2), of ?t domain] 2(1)
        by (auto simp: Resolve_def cache_lookup_def split: prod.split)
    qed
    moreover have "d' = d \<and> \<not> stale ?t (expire_at now ttl) \<or> (domain, Inr (d', False)) \<in> set as"
      if "Resolve ops r domain mode' ttl' (st2\<lparr>dnsNet := n2\<rparr>) = Some (Inr (d', True), st3)" for d' st3
    proof -
      have "fresh_value ?t (M2 domain) = Some d'" using Resolve_stores [OF that net 2(2)] by auto
      then obtain x where "M2 domain = Some (d', x)" "\<not> stale ?t x"
        by (auto simp: fresh_value_def split: option.splits if_splits)
      then show ?thesis using 2(3) [of domain "(d', x)"] s(4) by auto
    qed
    ultimately show ?thesis by blast
  qed
  then show ?thesis using s(3) by blast
qed

text \<open>A server that answers every question, and a clock that ticks with every look at it.\<close>

definition ticking_ops :: "bytes \<Rightarrow> int dns_ops" where
  "ticking_ops ip = \<lparr>dnsExchange = (\<lambda>m n. (Inr (m\<lparr>answer := [RR_A ip]\<rparr>), n)), dnsId = (\<lambda>n. (7, n)),
     dnsNow = (\<lambda>n. (n, n + 1)), dnsFqdn = (\<lambda>s. s @ ''.''), rcodeToString = (\<lambda>_. ''code'')\<rparr>"

theorem resolve_cached_witness:
  "\<exists>c st1 st2 st3 d as. new_sharded [] None 1 8 (\<lambda>_. 0) = Inr c \<and>
     doResolve (ticking_ops [1, 1, 1, 1]) plain_resolver ''a.b'' DNSModeIPv4Only 5000000 \<lparr>dnsCache = Some c, dnsNet = 1000\<rparr> =
       Some (Inr d, st1) \<and>
     resolve_calls (ticking_ops [1, 1, 1, 1]) plain_resolver [(''a.b'', DNSModeIPv4Only, 0, 1002)] st1 = Some ([(''a.b'', Inr (d, True))], st2) \<and>
     Resolve (ticking_ops [1, 1, 1, 1]) plain_resolver ''a.b'' DNSModeIPv6Only 0 (st2\<lparr>dnsNet := 1004\<rparr>) = Some (Inr (d, True), st3) \<and>
     (\<forall>d' st. Resolve (ticking_ops [1, 1, 1, 1]) plain_resolver ''a.b'' DNSModeIPv6Only 0 (st2\<lparr>dnsNet := 1005\<rparr>) \<noteq> Some (Inr (d', True), st))"
proof -
  let ?ops = "ticking_ops [1, 1, 1, 1]" and ?d = "Some (new_single_dst (net_ip_string [1, 1, 1, 1]))"
  obtain c :: "(string, dst option) sharded" where c: "new_sharded [] None 1 8 (\<lambda>_. 0) = Inr c" "sharded_holds c Map.empty"
    unfolding new_sharded_def by (rule new_sharded_holds [of 8 "8 * 5 div 4" "1 * 16 mod 2 ^ 32"]) simp_all
  let ?st = "\<lparr>dnsCache = Some c, dnsNet = 1000\<rparr>"
  have inv: "dns_inv ?st" using c(2) by (auto simp: dns_inv_def)
  have "doResolve ?ops plain_resolver ''a.b'' DNSModeIPv4Only 5000000 ?st =
      do { st \<leftarrow> cache_answer ?ops ''a.b'' ?d 5000000 ?st; Some (Inr ?d, st) }"
    by (simp add: doResolve_def first_query_def first_qtype_def dnsMsgSetQuestion_def ticking_ops_def plain_resolver_def
      finish_resolve_def answer_dst_def is_single_mode_def resolveSingle_def one_record_def new_msg_def)
  moreover obtain st1 where st1: "cache_answer ?ops ''a.b'' ?d 5000000 ?st = Some st1"
    using cache_answer_ok [OF inv, of ?d ?ops "''a.b''" 5000000] by auto
  ultimately have r: "doResolve ?ops plain_resolver ''a.b'' DNSModeIPv4Only 5000000 ?st = Some (Inr ?d, st1)" by simp
  have "dnsNet st1 = 1001"
    using st1 by (auto simp: cache_answer_def ticking_ops_def unsetInt_def split: bind_splits)
  moreover have clock: "dnsNow ?ops n = (n, n + 1)" for n by (simp add: ticking_ops_def)
  ultimately have now: "now = 1000" if "dnsNow ?ops n = (now, dnsNet st1)" for now n using that by auto
  have e: "\<not> stale 1002 (expire_at 1000 5000000)" "\<not> stale 1004 (expire_at 1000 5000000)" "stale 1005 (expire_at 1000 5000000)"
    by (simp_all add: stale_def expire_at_def)
  have law: "((\<forall>a \<in> set as. hit a) \<and> \<not> stale n2 (expire_at 1000 5000000) \<longrightarrow>
        (\<exists>st3. Resolve ?ops plain_resolver ''a.b'' mode' 0 (st2\<lparr>dnsNet := n2\<rparr>) = Some (Inr (?d, True), st3))) \<and>
      (\<forall>d' st3. Resolve ?ops plain_resolver ''a.b'' mode' 0 (st2\<lparr>dnsNet := n2\<rparr>) = Some (Inr (d', True), st3) \<longrightarrow>
        d' = ?d \<and> \<not> stale n2 (expire_at 1000 5000000) \<or> (''a.b'', Inr (d', False)) \<in> set as)"
    if "resolve_calls ?ops plain_resolver cs st1 = Some (as, st2)" for cs as st2 n2 mode'
    using resolve_cached [OF inv _ _ _ r] that now by (simp add: unsetInt_def clock) blast
  obtain st2 where st2: "Resolve ?ops plain_resolver ''a.b'' DNSModeIPv4Only 0 (st1\<lparr>dnsNet := 1002\<rparr>) = Some (Inr (?d, True), st2)"
    using law [of "[]" "[]" st1 1002 DNSModeIPv4Only] e(1) by auto
  then have run: "resolve_calls ?ops plain_resolver [(''a.b'', DNSModeIPv4Only, 0, 1002)] st1 = Some ([(''a.b'', Inr (?d, True))], st2)"
    by simp
  show ?thesis
    using c(1) r run law [OF run, of 1004 DNSModeIPv6Only] law [OF run, of 1005 DNSModeIPv6Only] e
    by (auto simp: hit_def)
qed

section \<open>Answers without addresses\<close>

text \<open>
  In the modes for several IPv4 addresses, an answer without A records gives an empty list,
  never an error and never a second question, and printing that destination panics; an A
  record without data makes the resolver itself panic.
\<close>

theorem resolve_multi_without_records:
  assumes "mode \<in> {DNSModeMultiIPv4Only, DNSModeMultiPreferIPv4}"
    and "first_query ops r (dnsFqdn ops domain) mode (dnsNet st) = (msg, n)"
    and "dnsExchange ops msg n = (Inr resp, n')" and "rcode resp = 0"
  shows "(pickARecords (answer resp) = [] \<longrightarrow>
      doResolve ops r domain mode 0 st = Some (Inr (Some (new_dst_from_addrs [])), st\<lparr>dnsNet := n'\<rparr>) \<and>
      dst_string (Some (new_dst_from_addrs [])) = None) \<and>
    (RR_A [] \<in> set (answer resp) \<longrightarrow> doResolve ops r domain mode 0 st = None)"
proof -
  have multi: "resolveMulti ops r (dnsFqdn ops domain) mode (answer resp) msg None n' = (Inr (pickARecords (answer resp)), n')"
    using assms(1) by (auto simp: resolveMulti_def many_records_def is_nil_slice_def)
  then have "doResolve ops r domain mode 0 st =
      do { d \<leftarrow> new_dst_from_ips (pickARecords (answer resp)); Some (Inr (Some d), st\<lparr>dnsNet := n'\<rparr>) }"
    using assms by (auto simp: doResolve_def finish_resolve_def answer_dst_def is_single_mode_def cache_answer_def
        split: option.split bind_splits)
  moreover have "addrs_from_slices ips = None" if "[] \<in> set ips" for ips
    using that by (induction ips) (auto simp: addr_from_slice_def)
  moreover have "RR_A [] \<in> set rs \<Longrightarrow> [] \<in> set (pickARecords rs)" for rs
    by (induction rs) (auto split: rr.splits)
  ultimately show ?thesis
    by (auto simp: new_dst_from_ips_def new_dst_from_addrs_def dst_string_def idx_def)
qed

theorem resolve_multi_without_records_witness:
  "doResolve (one_answer_ops []) plain_resolver ''a.b'' DNSModeMultiIPv4Only 0 \<lparr>dnsCache = None, dnsNet = ()\<rparr> = None"
proof -
  let ?m = "new_msg\<lparr>msgId := 7, recursionDesired := True, question := [(''a.b.'', TypeA)]\<rparr>"
  have q: "first_query (one_answer_ops []) plain_resolver (dnsFqdn (one_answer_ops []) ''a.b'') DNSModeMultiIPv4Only
      (dnsNet \<lparr>dnsCache = None, dnsNet = ()\<rparr>) = (?m, ())"
    by (simp add: first_query_def first_qtype_def dnsMsgSetQuestion_def one_answer_ops_def plain_resolver_def)
  have x: "dnsExchange (one_answer_ops []) ?m () = (Inr (?m\<lparr>answer := [RR_A []]\<rparr>), ())"
    by (simp add: one_answer_ops_def)
  from resolve_multi_without_records [OF _ q x] show ?thesis by (simp add: new_msg_def)
qed

section \<open>The client that waits\<close>







text \<open>
  When no message with the question's identifier has come by the end of the waiting time,
  the next message is returned as the answer with no error, whatever its identifier.
\<close>

theorem antihijack_foreign_reply:
  assumes "waitTimeout c > 0" and "\<forall>(t, r) \<in> set msgs. t < waitTimeout c \<and> msgId r \<noteq> msgId m"
    and "waitTimeout c \<le> t" and "minRTT c \<le> t" and "msgId r \<noteq> msgId m"
  shows "read_loop c m (msgs @ (t, r) # rest) final None = (Some r, t, None)"
  using assms(2)
proof (induction msgs)
  case Nil
  then show ?case using assms by (simp add: best_reply_def)
next
  case (Cons x xs)
  then show ?case using assms(1) by (cases x) (auto simp: Let_def)
qed

definition waiting_client :: anti_client where
  "waiting_client = \<lparr>clTimeout = 0, clReadTimeout = 0, clWriteTimeout = 0, clDialerTimeout = None, clUDPSize = 0,
     waitTimeout = 100, minRTT = 5\<rparr>"



theorem antihijack_foreign_reply_witness:
  "read_loop waiting_client (new_msg\<lparr>msgId := 7\<rparr>) ([] @ (100, new_msg\<lparr>msgId := 8\<rparr>) # []) (100, LibError ''timeout'') None =
     (Some (new_msg\<lparr>msgId := 8\<rparr>), 100, None)"
  by (rule antihijack_foreign_reply) (simp_all add: waiting_client_def)

end
