(* ===== verification/Singleflight.thy ===== *)
theory Singleflight
  imports Errors_Format
begin

text \<open>
  \<^verbatim>\<open>internal/singleflight\<close>: callers of \<^verbatim>\<open>Do\<close> with the same key share one execution of the
  function. Each section under the mutex is one step; running the function, waking up and
  entering are steps of their own, so every interleaving of the callers is covered. Caller
  \<open>i\<close> calls \<^verbatim>\<open>Do\<close> once, with the key \<open>keys ! i\<close>. What the function does is not known: it may
  return, panic, or end its goroutine.
\<close>

section \<open>State\<close>

datatype 'v outcome = Returned "error + 'v" | Panicked | Exited

text \<open>
  A call; \<open>callDone\<close> is the wait group at zero. The key is kept with the call for the proofs
  only: in the source it is an argument of \<^verbatim>\<open>doCall\<close>.
\<close>

record ('k, 'v) sf_call =
  callKey :: 'k
  callVal :: "'v outcome option"
  callDups :: nat
  callDone :: bool

text \<open>Where a caller stands; a call is its position in the list of all calls made so far.\<close>

datatype 'v caller =
    Starting
  | Waiting nat
  | Calling nat
  | Finishing nat
  | Finished nat "'v outcome" bool

record ('k, 'v) sf_state =
  sfGroup :: "'k \<Rightarrow> nat option"
  sfCalls :: "('k, 'v) sf_call list"
  sfCallers :: "'v caller list"

definition sf_init :: "'k list \<Rightarrow> ('k, 'v) sf_state" where
  "sf_init keys = \<lparr>sfGroup = Map.empty, sfCalls = [], sfCallers = replicate (length keys) Starting\<rparr>"

section \<open>Steps\<close>

text \<open>\<^verbatim>\<open>Do\<close> on a key in flight: under the mutex the call is found and its duplicates counted.\<close>

definition do_join :: "nat \<Rightarrow> nat \<Rightarrow> ('k, 'v) sf_state \<Rightarrow> ('k, 'v) sf_state" where
  "do_join i c s = s\<lparr>sfCalls := (sfCalls s)[c := (sfCalls s ! c)\<lparr>callDups := Suc (callDups (sfCalls s ! c))\<rparr>],
     sfCallers := (sfCallers s)[i := Waiting c]\<rparr>"

text \<open>\<^verbatim>\<open>Do\<close> on a free key: a new call with a wait group of one is entered.\<close>

definition do_lead :: "nat \<Rightarrow> 'k \<Rightarrow> ('k, 'v) sf_state \<Rightarrow> ('k, 'v) sf_state" where
  "do_lead i k s =
     (let c = length (sfCalls s)
      in s\<lparr>sfGroup := (sfGroup s)(k \<mapsto> c),
           sfCalls := sfCalls s @ [\<lparr>callKey = k, callVal = None, callDups = 0, callDone = False\<rparr>],
           sfCallers := (sfCallers s)[i := Calling c]\<rparr>)"

text \<open>\<^verbatim>\<open>doCall\<close>: the function has run, and its outcome is in the call.\<close>

definition do_run :: "nat \<Rightarrow> nat \<Rightarrow> 'v outcome \<Rightarrow> ('k, 'v) sf_state \<Rightarrow> ('k, 'v) sf_state" where
  "do_run i c x s = s\<lparr>sfCalls := (sfCalls s)[c := (sfCalls s ! c)\<lparr>callVal := Some x\<rparr>],
     sfCallers := (sfCallers s)[i := Finishing c]\<rparr>"

text \<open>
  The deferred part of \<^verbatim>\<open>doCall\<close>: under the mutex the waiters are released and the key is
  freed if it still belongs to this call; then the caller returns, panics or exits.
\<close>

definition do_finish :: "nat \<Rightarrow> nat \<Rightarrow> 'k \<Rightarrow> 'v outcome \<Rightarrow> ('k, 'v) sf_state \<Rightarrow> ('k, 'v) sf_state" where
  "do_finish i c k x s = s\<lparr>sfCalls := (sfCalls s)[c := (sfCalls s ! c)\<lparr>callDone := True\<rparr>],
     sfGroup := (if sfGroup s k = Some c then (sfGroup s)(k := None) else sfGroup s),
     sfCallers := (sfCallers s)[i := Finished c x (0 < callDups (sfCalls s ! c))]\<rparr>"

definition do_wake :: "nat \<Rightarrow> nat \<Rightarrow> 'v outcome \<Rightarrow> ('k, 'v) sf_state \<Rightarrow> ('k, 'v) sf_state" where
  "do_wake i c x s = s\<lparr>sfCallers := (sfCallers s)[i := Finished c x True]\<rparr>"

inductive sf_step :: "'k list \<Rightarrow> ('k, 'v) sf_state \<Rightarrow> ('k, 'v) sf_state \<Rightarrow> bool" for keys where
  join: "i < length (sfCallers s) \<Longrightarrow> sfCallers s ! i = Starting \<Longrightarrow> sfGroup s (keys ! i) = Some c \<Longrightarrow>
    sf_step keys s (do_join i c s)"
| lead: "i < length (sfCallers s) \<Longrightarrow> sfCallers s ! i = Starting \<Longrightarrow> sfGroup s (keys ! i) = None \<Longrightarrow>
    sf_step keys s (do_lead i (keys ! i) s)"
| run: "i < length (sfCallers s) \<Longrightarrow> sfCallers s ! i = Calling c \<Longrightarrow> sf_step keys s (do_run i c x s)"
| finish: "i < length (sfCallers s) \<Longrightarrow> sfCallers s ! i = Finishing c \<Longrightarrow> callVal (sfCalls s ! c) = Some x \<Longrightarrow>
    sf_step keys s (do_finish i c (keys ! i) x s)"
| wake: "i < length (sfCallers s) \<Longrightarrow> sfCallers s ! i = Waiting c \<Longrightarrow> callDone (sfCalls s ! c) \<Longrightarrow>
    callVal (sfCalls s ! c) = Some x \<Longrightarrow> sf_step keys s (do_wake i c x s)"

inductive sf_reach :: "'k list \<Rightarrow> ('k, 'v) sf_state \<Rightarrow> bool" for keys where
  init: "sf_reach keys (sf_init keys)"
| step: "sf_reach keys s \<Longrightarrow> sf_step keys s t \<Longrightarrow> sf_reach keys t"

inductive_cases sf_stepE: "sf_step keys s t"

section \<open>Invariant\<close>

definition leads :: "('k, 'v) sf_state \<Rightarrow> nat \<Rightarrow> nat \<Rightarrow> bool" where
  "leads s i c \<longleftrightarrow> i < length (sfCallers s) \<and> (sfCallers s ! i = Calling c \<or> sfCallers s ! i = Finishing c)"

definition caller_ok :: "'k list \<Rightarrow> ('k, 'v) sf_state \<Rightarrow> nat \<Rightarrow> bool" where
  "caller_ok keys s i \<longleftrightarrow>
     (case sfCallers s ! i of
        Starting \<Rightarrow> True
      | Waiting c \<Rightarrow> c < length (sfCalls s) \<and> callKey (sfCalls s ! c) = keys ! i
      | Calling c \<Rightarrow> sfGroup s (keys ! i) = Some c
      | Finishing c \<Rightarrow> sfGroup s (keys ! i) = Some c \<and> callVal (sfCalls s ! c) \<noteq> None
      | Finished c x sh \<Rightarrow> c < length (sfCalls s) \<and> callKey (sfCalls s ! c) = keys ! i \<and>
          callDone (sfCalls s ! c) \<and> callVal (sfCalls s ! c) = Some x)"

definition sf_inv :: "'k list \<Rightarrow> ('k, 'v) sf_state \<Rightarrow> bool" where
  "sf_inv keys s \<longleftrightarrow> length (sfCallers s) = length keys \<and>
     (\<forall>i < length keys. caller_ok keys s i) \<and>
     (\<forall>k c. sfGroup s k = Some c \<longrightarrow> c < length (sfCalls s) \<and> callKey (sfCalls s ! c) = k \<and> \<not> callDone (sfCalls s ! c)) \<and>
     (\<forall>c < length (sfCalls s). if callDone (sfCalls s ! c) then callVal (sfCalls s ! c) \<noteq> None
        else \<exists>i. leads s i c) \<and>
     (\<forall>i j c. leads s i c \<longrightarrow> leads s j c \<longrightarrow> i = j)"

lemma sf_invD:
  assumes "sf_inv keys s"
  shows "length (sfCallers s) = length keys"
    and "i < length keys \<Longrightarrow> caller_ok keys s i"
    and "sfGroup s k = Some c \<Longrightarrow> c < length (sfCalls s) \<and> callKey (sfCalls s ! c) = k \<and> \<not> callDone (sfCalls s ! c)"
    and "c < length (sfCalls s) \<Longrightarrow> callDone (sfCalls s ! c) \<Longrightarrow> callVal (sfCalls s ! c) \<noteq> None"
    and "c < length (sfCalls s) \<Longrightarrow> \<not> callDone (sfCalls s ! c) \<Longrightarrow> \<exists>i. leads s i c"
    and "leads s i c \<Longrightarrow> leads s j c \<Longrightarrow> i = j"
  using assms unfolding sf_inv_def by (blast, blast, blast, metis, metis, blast)

lemma sf_invI:
  assumes "length (sfCallers s) = length keys" and "\<And>i. i < length keys \<Longrightarrow> caller_ok keys s i"
    and "\<And>k c. sfGroup s k = Some c \<Longrightarrow> c < length (sfCalls s) \<and> callKey (sfCalls s ! c) = k \<and> \<not> callDone (sfCalls s ! c)"
    and "\<And>c. c < length (sfCalls s) \<Longrightarrow> if callDone (sfCalls s ! c) then callVal (sfCalls s ! c) \<noteq> None else \<exists>i. leads s i c"
    and "\<And>i j c. leads s i c \<Longrightarrow> leads s j c \<Longrightarrow> i = j"
  shows "sf_inv keys s"
  unfolding sf_inv_def using assms by blast

lemma leads_lt: "sf_inv keys s \<Longrightarrow> leads s i c \<Longrightarrow> i < length keys \<and> sfGroup s (keys ! i) = Some c"
  using sf_invD(1,2) [of keys s] unfolding leads_def caller_ok_def by fastforce

lemma sf_inv_init: "sf_inv keys (sf_init keys)"
  by (auto simp: sf_inv_def sf_init_def caller_ok_def leads_def)

text \<open>Who leads which call after a step.\<close>

lemma leads_join: "sfCallers s ! i = Starting \<Longrightarrow> leads (do_join i c s) j d = leads s j d"
  by (cases "j = i") (auto simp: leads_def do_join_def)

lemma leads_lead:
  assumes "i < length (sfCallers s)" and "sfCallers s ! i = Starting"
  shows "leads (do_lead i k s) j d \<longleftrightarrow> leads s j d \<or> j = i \<and> d = length (sfCalls s)"
  using assms by (cases "j = i") (auto simp: leads_def do_lead_def Let_def)

lemma leads_run:
  assumes "i < length (sfCallers s)" and "sfCallers s ! i = Calling c"
  shows "leads (do_run i c x s) j d \<longleftrightarrow> leads s j d"
  using assms by (cases "j = i") (auto simp: leads_def do_run_def)

lemma leads_finish:
  assumes "i < length (sfCallers s)" and "sfCallers s ! i = Finishing c"
  shows "leads (do_finish i c k x s) j d \<longleftrightarrow> leads s j d \<and> j \<noteq> i"
  using assms by (cases "j = i") (auto simp: leads_def do_finish_def)

lemma leads_wake: "sfCallers s ! i = Waiting c \<Longrightarrow> leads (do_wake i c x s) j d = leads s j d"
  by (cases "j = i") (auto simp: leads_def do_wake_def)

lemma do_fields [simp]:
  "sfGroup (do_join i c s) = sfGroup s" "sfGroup (do_run i c x s) = sfGroup s" "sfGroup (do_wake i c x s) = sfGroup s"
  "sfGroup (do_lead i k s) = (sfGroup s)(k \<mapsto> length (sfCalls s))"
  "length (sfCallers (do_join i c s)) = length (sfCallers s)" "length (sfCallers (do_lead i k s)) = length (sfCallers s)"
  "length (sfCallers (do_run i c x s)) = length (sfCallers s)" "length (sfCallers (do_finish i c k x s)) = length (sfCallers s)"
  "length (sfCallers (do_wake i c x s)) = length (sfCallers s)"
  "length (sfCalls (do_join i c s)) = length (sfCalls s)" "length (sfCalls (do_lead i k s)) = Suc (length (sfCalls s))"
  "length (sfCalls (do_run i c x s)) = length (sfCalls s)" "length (sfCalls (do_finish i c k x s)) = length (sfCalls s)"
  "sfCalls (do_wake i c x s) = sfCalls s"
  by (simp_all add: do_join_def do_lead_def do_run_def do_finish_def do_wake_def Let_def)

lemma nth_calls [simp]:
  "d < length (sfCalls s) \<Longrightarrow> callKey (sfCalls (do_join i c s) ! d) = callKey (sfCalls s ! d)"
  "d < length (sfCalls s) \<Longrightarrow> callVal (sfCalls (do_join i c s) ! d) = callVal (sfCalls s ! d)"
  "d < length (sfCalls s) \<Longrightarrow> callDone (sfCalls (do_join i c s) ! d) = callDone (sfCalls s ! d)"
  "d < length (sfCalls s) \<Longrightarrow> callKey (sfCalls (do_run i c x s) ! d) = callKey (sfCalls s ! d)"
  "d < length (sfCalls s) \<Longrightarrow> callVal (sfCalls (do_run i c x s) ! d) = (if d = c then Some x else callVal (sfCalls s ! d))"
  "d < length (sfCalls s) \<Longrightarrow> callDone (sfCalls (do_run i c x s) ! d) = callDone (sfCalls s ! d)"
  "d < length (sfCalls s) \<Longrightarrow> callKey (sfCalls (do_finish i c k x s) ! d) = callKey (sfCalls s ! d)"
  "d < length (sfCalls s) \<Longrightarrow> callVal (sfCalls (do_finish i c k x s) ! d) = callVal (sfCalls s ! d)"
  "d < length (sfCalls s) \<Longrightarrow> callDone (sfCalls (do_finish i c k x s) ! d) = (d = c \<or> callDone (sfCalls s ! d))"
  "d < length (sfCalls s) \<Longrightarrow> sfCalls (do_lead i k s) ! d = sfCalls s ! d"
  "sfCalls (do_lead i k s) ! length (sfCalls s) = \<lparr>callKey = k, callVal = None, callDups = 0, callDone = False\<rparr>"
  by ((cases "c = d"; auto simp: do_join_def do_run_def do_finish_def do_lead_def Let_def nth_append)+)

lemma nth_callers:
  "i < length (sfCallers s) \<Longrightarrow> sfCallers (do_join i c s) ! j = (if j = i then Waiting c else sfCallers s ! j)"
  "i < length (sfCallers s) \<Longrightarrow> sfCallers (do_lead i k s) ! j = (if j = i then Calling (length (sfCalls s)) else sfCallers s ! j)"
  "i < length (sfCallers s) \<Longrightarrow> sfCallers (do_run i c x s) ! j = (if j = i then Finishing c else sfCallers s ! j)"
  "i < length (sfCallers s) \<Longrightarrow> sfCallers (do_wake i c x s) ! j = (if j = i then Finished c x True else sfCallers s ! j)"
  "i < length (sfCallers s) \<Longrightarrow> sfCallers (do_finish i c k x s) ! j =
     (if j = i then Finished c x (0 < callDups (sfCalls s ! c)) else sfCallers s ! j)"
  by (auto simp: do_join_def do_lead_def do_run_def do_wake_def do_finish_def Let_def)

lemma sf_inv_join:
  assumes inv: "sf_inv keys s" and i: "i < length (sfCallers s)" "sfCallers s ! i = Starting" "sfGroup s (keys ! i) = Some c"
  shows "sf_inv keys (do_join i c s)"
proof -
  note c = sf_invD(3) [OF inv i(3)]
  have "caller_ok keys (do_join i c s) j" if j: "j < length keys" for j
  proof (cases "j = i")
    case True
    then show ?thesis using i c by (simp add: caller_ok_def nth_callers)
  next
    case False
    have "caller_ok keys s j" by (rule sf_invD(2) [OF inv j])
    then show ?thesis
      using False i sf_invD(3) [OF inv] by (auto simp: caller_ok_def nth_callers split: caller.splits)
  qed
  then show ?thesis
    unfolding sf_inv_def using sf_invD [OF inv] i(2) by (simp add: leads_join)
qed

lemma sf_inv_wake:
  assumes inv: "sf_inv keys s" and i: "i < length (sfCallers s)" "sfCallers s ! i = Waiting c"
    and d: "callDone (sfCalls s ! c)" "callVal (sfCalls s ! c) = Some x"
  shows "sf_inv keys (do_wake i c x s)"
proof -
  have "caller_ok keys (do_wake i c x s) j" if j: "j < length keys" for j
    using sf_invD(2) [OF inv j] i d by (cases "j = i") (auto simp: caller_ok_def nth_callers split: caller.splits)
  then show ?thesis unfolding sf_inv_def using sf_invD [OF inv] i(2) by (simp add: leads_wake)
qed

lemma sf_inv_run:
  assumes inv: "sf_inv keys s" and i: "i < length (sfCallers s)" "sfCallers s ! i = Calling c"
  shows "sf_inv keys (do_run i c x s)"
proof -
  have il: "i < length keys" using i(1) sf_invD(1) [OF inv] by simp
  have g: "sfGroup s (keys ! i) = Some c" using sf_invD(2) [OF inv il] i(2) by (simp add: caller_ok_def)
  note c = sf_invD(3) [OF inv g]
  have "caller_ok keys (do_run i c x s) j" if j: "j < length keys" for j
    using sf_invD(2) [OF inv j] i c g sf_invD(3) [OF inv]
    by (cases "j = i") (auto simp: caller_ok_def nth_callers split: caller.splits)
  then show ?thesis unfolding sf_inv_def using sf_invD [OF inv] i c by (simp add: leads_run)
qed

lemma sf_inv_lead:
  assumes inv: "sf_inv keys s" and i: "i < length (sfCallers s)" "sfCallers s ! i = Starting" "sfGroup s (keys ! i) = None"
  shows "sf_inv keys (do_lead i (keys ! i) s)"
proof -
  let ?t = "do_lead i (keys ! i) s" and ?n = "length (sfCalls s)"
  have ok: "caller_ok keys ?t j" if j: "j < length keys" for j
    using sf_invD(2) [OF inv j] i sf_invD(3) [OF inv]
    by (cases "j = i") (auto simp: caller_ok_def nth_callers split: caller.splits)
  have grp: "c < length (sfCalls ?t) \<and> callKey (sfCalls ?t ! c) = k \<and> \<not> callDone (sfCalls ?t ! c)"
    if "sfGroup ?t k = Some c" for k c
    using that sf_invD(3) [OF inv, of k c] by (auto split: if_splits)
  have calls: "if callDone (sfCalls ?t ! c) then callVal (sfCalls ?t ! c) \<noteq> None else \<exists>i. leads ?t i c"
    if "c < length (sfCalls ?t)" for c
    using that sf_invD(4,5) [OF inv, of c] by (cases "c = ?n") (auto simp: leads_lead [OF i(1,2)])
  have uniq: "ja = jb" if "leads ?t ja c" "leads ?t jb c" for ja jb c
    using that sf_invD(6) [OF inv, of ja c jb] leads_lt [OF inv] sf_invD(3) [OF inv]
    by (auto simp: leads_lead [OF i(1,2)])
  show ?thesis by (rule sf_invI, simp add: sf_invD(1) [OF inv], erule ok, erule grp, erule calls, erule (1) uniq)
qed

lemma sf_inv_finish:
  assumes inv: "sf_inv keys s" and i: "i < length (sfCallers s)" "sfCallers s ! i = Finishing c"
    and x: "callVal (sfCalls s ! c) = Some x"
  shows "sf_inv keys (do_finish i c (keys ! i) x s)"
proof -
  let ?t = "do_finish i c (keys ! i) x s"
  have il: "i < length keys" using i(1) sf_invD(1) [OF inv] by simp
  have g: "sfGroup s (keys ! i) = Some c" using sf_invD(2) [OF inv il] i(2) by (simp add: caller_ok_def)
  note c = sf_invD(3) [OF inv g]
  have G: "sfGroup ?t = (sfGroup s)(keys ! i := None)" using g by (simp add: do_finish_def)
  have lead: "leads s i c" using i by (simp add: leads_def)
  have ok: "caller_ok keys ?t j" if j: "j < length keys" for j
  proof (cases "j = i")
    case True
    then show ?thesis using i c x by (simp add: caller_ok_def nth_callers)
  next
    case False
    have "keys ! j \<noteq> keys ! i" if "leads s j d" for d
      using that leads_lt [OF inv that] g sf_invD(6) [OF inv _ lead, of j] False by auto
    then show ?thesis
      using False sf_invD(2) [OF inv j] i sf_invD(3) [OF inv] j sf_invD(1) [OF inv]
      by (auto simp: caller_ok_def nth_callers G leads_def split: caller.splits)
  qed
  have calls: "if callDone (sfCalls ?t ! d) then callVal (sfCalls ?t ! d) \<noteq> None else \<exists>i. leads ?t i d"
    if d: "d < length (sfCalls ?t)" for d
  proof (cases "d = c")
    case True
    then show ?thesis using c x by simp
  next
    case False
    have "\<exists>j. leads ?t j d" if nd: "\<not> callDone (sfCalls s ! d)"
    proof -
      obtain j where j: "leads s j d" using sf_invD(5) [OF inv _ nd] d by auto
      then have "j \<noteq> i" using False i(2) by (auto simp: leads_def)
      then show ?thesis using j leads_finish [OF i] by blast
    qed
    then show ?thesis using False d sf_invD(4) [OF inv] by simp
  qed
  have grp: "d < length (sfCalls ?t) \<and> callKey (sfCalls ?t ! d) = k \<and> \<not> callDone (sfCalls ?t ! d)"
    if "sfGroup ?t k = Some d" for k d
  proof -
    have k: "k \<noteq> keys ! i" "sfGroup s k = Some d" using that by (auto simp: G split: if_splits)
    then show ?thesis using sf_invD(3) [OF inv k(2)] c by auto
  qed
  have uniq: "ja = jb" if "leads ?t ja d" "leads ?t jb d" for ja jb d
    using that sf_invD(6) [OF inv, of ja d jb] by (simp add: leads_finish [OF i])
  show ?thesis by (rule sf_invI, simp add: sf_invD(1) [OF inv], erule ok, erule grp, erule calls, erule (1) uniq)
qed

lemma sf_inv_step: "sf_inv keys s \<Longrightarrow> sf_step keys s t \<Longrightarrow> sf_inv keys t"
  by (erule sf_stepE) (auto intro: sf_inv_join sf_inv_lead sf_inv_run sf_inv_finish sf_inv_wake)

lemma sf_reach_inv: "sf_reach keys s \<Longrightarrow> sf_inv keys s"
  by (induction rule: sf_reach.induct) (auto intro: sf_inv_init sf_inv_step)

section \<open>Progress\<close>

fun caller_rank :: "'v caller \<Rightarrow> nat" where
  "caller_rank Starting = 4"
| "caller_rank (Calling c) = 3"
| "caller_rank (Finishing c) = 2"
| "caller_rank (Waiting c) = 1"
| "caller_rank (Finished c x sh) = 0"

definition sf_measure :: "('k, 'v) sf_state \<Rightarrow> nat" where
  "sf_measure s = sum_list (map caller_rank (sfCallers s))"

definition is_finished :: "'v caller \<Rightarrow> bool" where
  "is_finished t \<longleftrightarrow> (case t of Finished _ _ _ \<Rightarrow> True | _ \<Rightarrow> False)"

lemma sum_list_update_less:
  fixes f :: "'a \<Rightarrow> nat"
  assumes "i < length xs" and "f y < f (xs ! i)"
  shows "sum_list (map f (xs[i := y])) < sum_list (map f xs)"
proof -
  have "sum_list (map f xs) = sum_list (map f (take i xs)) + f (xs ! i) + sum_list (map f (drop (Suc i) xs))"
    by (subst id_take_nth_drop [OF assms(1)]) simp
  moreover have "sum_list (map f (xs[i := y])) = sum_list (map f (take i xs)) + f y + sum_list (map f (drop (Suc i) xs))"
    using assms(1) by (simp add: upd_conv_take_nth_drop)
  ultimately show ?thesis using assms(2) by simp
qed

lemma sf_step_measure: "sf_step keys s t \<Longrightarrow> sf_measure t < sf_measure s"
  by (erule sf_stepE)
    (auto simp: sf_measure_def do_join_def do_lead_def do_run_def do_finish_def do_wake_def Let_def
      intro!: sum_list_update_less)

lemma leader_steps:
  assumes "sf_inv keys s" and "leads s i c"
  shows "\<exists>t. sf_step keys s t"
proof -
  have i: "i < length (sfCallers s)" "i < length keys" using assms sf_invD(1) [OF assms(1)] by (auto simp: leads_def)
  consider "sfCallers s ! i = Calling c" | "sfCallers s ! i = Finishing c" using assms(2) by (auto simp: leads_def)
  then show ?thesis
  proof cases
    case 1
    then show ?thesis using sf_step.run [OF i(1)] by blast
  next
    case 2
    then obtain x where "callVal (sfCalls s ! c) = Some x"
      using sf_invD(2) [OF assms(1) i(2)] by (auto simp: caller_ok_def)
    then show ?thesis using sf_step.finish [OF i(1) 2] by blast
  qed
qed

lemma sf_can_step:
  assumes inv: "sf_inv keys s" and i: "i < length keys" and "\<not> is_finished (sfCallers s ! i)"
  shows "\<exists>t. sf_step keys s t"
proof -
  have il: "i < length (sfCallers s)" using i sf_invD(1) [OF inv] by simp
  note ok = sf_invD(2) [OF inv i]
  show ?thesis
  proof (cases "sfCallers s ! i")
    case Starting
    then show ?thesis
      using sf_step.join [OF il Starting] sf_step.lead [OF il Starting] by (cases "sfGroup s (keys ! i)") blast+
  next
    case (Waiting c)
    then have c: "c < length (sfCalls s)" using ok by (simp add: caller_ok_def)
    show ?thesis
    proof (cases "callDone (sfCalls s ! c)")
      case True
      then obtain x where "callVal (sfCalls s ! c) = Some x" using sf_invD(4) [OF inv c] by auto
      then show ?thesis using sf_step.wake [OF il Waiting True] by blast
    next
      case False
      then show ?thesis using sf_invD(5) [OF inv c False] leader_steps [OF inv] by blast
    qed
  next
    case (Calling c)
    then show ?thesis using leader_steps [OF inv, of i c] il by (simp add: leads_def)
  next
    case (Finishing c)
    then show ?thesis using leader_steps [OF inv, of i c] il by (simp add: leads_def)
  next
    case (Finished c x sh)
    then show ?thesis using assms(3) by (simp add: is_finished_def)
  qed
qed

section \<open>Properties\<close>

text \<open>
  C26. However the callers interleave, the function never runs twice at the same time for one
  key, and all callers that shared a call end with its one outcome, be it a result, a panic or
  an exit; they all asked for the same key.
\<close>

theorem singleflight_safe:
  assumes "sf_reach keys s" and "i < length keys" and "j < length keys"
  shows "(sfCallers s ! i = Calling c \<and> sfCallers s ! j = Calling d \<and> keys ! i = keys ! j \<longrightarrow> i = j) \<and>
    (sfCallers s ! i = Finished c x a \<and> sfCallers s ! j = Finished c y b \<longrightarrow> x = y \<and> keys ! i = keys ! j)"
proof (intro conjI impI)
  note inv = sf_reach_inv [OF assms(1)]
  note ok = sf_invD(2) [OF inv assms(2)] sf_invD(2) [OF inv assms(3)]
  {
    assume h: "sfCallers s ! i = Calling c \<and> sfCallers s ! j = Calling d \<and> keys ! i = keys ! j"
    then have "c = d" using ok by (simp add: caller_ok_def)
    then show "i = j" using h assms sf_invD(1) [OF inv] sf_invD(6) [OF inv, of i c j] by (simp add: leads_def)
  }
  assume "sfCallers s ! i = Finished c x a \<and> sfCallers s ! j = Finished c y b"
  then show "x = y" and "keys ! i = keys ! j" using ok by (auto simp: caller_ok_def)
qed

text \<open>
  C0. No caller is left waiting: every step brings the callers closer to their end, and in a
  state from which no step is possible every caller has ended. So as long as the function
  itself comes back, every call of \<^verbatim>\<open>Do\<close> does.
\<close>

theorem singleflight_progress:
  assumes "sf_reach keys s"
  shows "(\<forall>t. sf_step keys s t \<longrightarrow> sf_measure t < sf_measure s) \<and>
    ((\<exists>t. sf_step keys s t) \<or> (\<forall>i < length keys. \<exists>c x sh. sfCallers s ! i = Finished c x sh))"
proof (intro conjI allI impI)
  show "sf_step keys s t \<Longrightarrow> sf_measure t < sf_measure s" for t by (rule sf_step_measure)
  have "\<exists>c x sh. sfCallers s ! i = Finished c x sh" if "\<not> (\<exists>t. sf_step keys s t)" "i < length keys" for i
  proof -
    have "is_finished (sfCallers s ! i)"
      using sf_can_step [OF sf_reach_inv [OF assms] that(2)] that(1) by blast
    then show ?thesis by (cases "sfCallers s ! i") (simp_all add: is_finished_def)
  qed
  then show "(\<exists>t. sf_step keys s t) \<or> (\<forall>i < length keys. \<exists>c x sh. sfCallers s ! i = Finished c x sh)" by blast
qed

text \<open>A run of two callers with one key: the second joins, both end with the same panic.\<close>

definition shared_run :: "(string, nat) sf_state" where
  "shared_run = do_wake 1 0 Panicked (do_finish 0 0 ''k'' Panicked (do_run 0 0 Panicked
     (do_join 1 0 (do_lead 0 ''k'' (sf_init [''k'', ''k''])))))"

lemma shared_run_reach: "sf_reach [''k'', ''k''] shared_run"
proof -
  let ?K = "[''k'', ''k'']"
  let ?a = "do_lead 0 ''k'' (sf_init ?K) :: (string, nat) sf_state" and ?s0 = "sf_init ?K :: (string, nat) sf_state"
  have "sf_reach ?K ?s0" by (rule sf_reach.init)
  moreover have "sf_step ?K ?s0 ?a"
    using sf_step.lead [of 0 ?s0 ?K] by (simp add: sf_init_def)
  ultimately have 1: "sf_reach ?K ?a" by (rule sf_reach.step)
  have "sf_step ?K ?a (do_join 1 0 ?a)"
    by (rule sf_step.join) (simp_all add: sf_init_def do_lead_def Let_def)
  with 1 have 2: "sf_reach ?K (do_join 1 0 ?a)" by (rule sf_reach.step)
  have "sf_step ?K (do_join 1 0 ?a) (do_run 0 0 Panicked (do_join 1 0 ?a))"
    by (rule sf_step.run) (simp_all add: sf_init_def do_lead_def do_join_def Let_def)
  with 2 have 3: "sf_reach ?K (do_run 0 0 Panicked (do_join 1 0 ?a))" by (rule sf_reach.step)
  have "sf_step ?K (do_run 0 0 Panicked (do_join 1 0 ?a)) (do_finish 0 0 (?K ! 0) Panicked (do_run 0 0 Panicked (do_join 1 0 ?a)))"
    by (rule sf_step.finish) (simp_all add: sf_init_def do_lead_def do_join_def do_run_def Let_def)
  with 3 have 4: "sf_reach ?K (do_finish 0 0 ''k'' Panicked (do_run 0 0 Panicked (do_join 1 0 ?a)))"
    using sf_reach.step by fastforce
  have "sf_step ?K (do_finish 0 0 ''k'' Panicked (do_run 0 0 Panicked (do_join 1 0 ?a))) shared_run"
    unfolding shared_run_def
    by (rule sf_step.wake) (simp_all add: sf_init_def do_lead_def do_join_def do_run_def do_finish_def Let_def)
  with 4 show ?thesis by (rule sf_reach.step)
qed

theorem singleflight_safe_witness:
  "sfCallers shared_run = [Finished 0 Panicked True, Finished 0 Panicked True] \<and> ''k'' = [''k'', ''k''] ! 1"
proof -
  have c: "sfCallers shared_run = [Finished 0 Panicked True, Finished 0 Panicked True]"
    by (simp add: shared_run_def sf_init_def do_lead_def do_join_def do_run_def do_finish_def do_wake_def Let_def numeral_2_eq_2)
  show ?thesis
    using singleflight_safe [OF shared_run_reach, of 0 1 0 0 Panicked True Panicked True] c by simp
qed

theorem singleflight_progress_witness:
  "(\<exists>t. sf_step [''k'', ''k''] shared_run t) \<or>
   (\<forall>i < length [''k'', ''k'']. \<exists>c x sh. sfCallers shared_run ! i = Finished c x sh)"
  by (rule conjunct2 [OF singleflight_progress [OF shared_run_reach]])

end
