(* ===== verification/Dial.thy ===== *)
theory Dial
  imports Dst Go_Time
begin

text \<open>
  \<^verbatim>\<open>internal/dial/dial.go\<close>: what \<^verbatim>\<open>DialContext\<close> dials, and \<^verbatim>\<open>dialParallel\<close>, which races the
  addresses of a destination. The race is a step relation: the goroutine that starts attempts,
  the attempts, the caller, and the goroutine that closes the channels and what is left in
  them. A timer may fire at any time. Binding to a local address is left out.
\<close>

section \<open>What is dialled\<close>

definition defaultDialTimeout :: int where "defaultDialTimeout = 10 * second"
definition defaultDialDelay :: int where "defaultDialDelay = 300 * millisecond"

definition dial_timeout :: "int \<Rightarrow> int" where
  "dial_timeout t = (if t \<le> 0 then defaultDialTimeout else t)"

text \<open>\<^verbatim>\<open>net.JoinHostPort\<close>: a host with a colon is put in brackets.\<close>

definition join_host_port :: "string \<Rightarrow> string \<Rightarrow> string" where
  "join_host_port host port = (if CHR '':'' \<in> set host then ''['' @ host @ '']:'' @ port else host @ '':'' @ port)"

text \<open>
  A single address by name with the family of the local address, one address, a race with its
  delay, or no dial at all.
\<close>

datatype dial_plan =
    DialHost string bool
  | DialAddr "addr \<times> nat"
  | DialRace int "(addr \<times> nat) list"
  | DialNone error

definition dialParallel :: "(addr \<times> nat) list \<Rightarrow> string \<Rightarrow> int \<Rightarrow> dial_plan" where
  "dialParallel addrs portStr dialDelay =
     (if addrs = [] then DialNone (NewError ''no addresses to dial'')
      else case parse_port portStr of
        None \<Rightarrow> DialNone (OpError (''invalid port '' @ portStr) (LibError ''strconv.ParseUint''))
      | Some port \<Rightarrow>
          if length addrs = 1 then DialAddr (unmap (fst (addrs ! 0)), port)
          else DialRace (if dialDelay \<le> 0 then defaultDialDelay else dialDelay)
            (map (\<lambda>a. if snd a = 0 then (unmap (fst a), port) else a) addrs))"

text \<open>\<^verbatim>\<open>DialContext\<close>; the text of a nil destination panics.\<close>

definition DialContext :: "dst option \<Rightarrow> string \<Rightarrow> int \<Rightarrow> dial_plan option" where
  "DialContext d port dialDelay =
     (if is_multi d then do { d \<leftarrow> d; addrs \<leftarrow> multi d; Some (dialParallel addrs port dialDelay) }
      else do {
        d \<leftarrow> d;
        first \<leftarrow> idx (join_host_port (single d) port) 0;
        Some (DialHost (join_host_port (single d) port) (first = CHR ''[''))
      })"

section \<open>The race\<close>

text \<open>
  An attempt that connects has its connection in the channel, taken by the caller, or closed.
\<close>

datatype dial_attempt = Unstarted | Dialing | Failed error | Buffered | Taken | Shut

datatype dial_result = Connected nat | CtxError | Errors "error list"

datatype caller_state = Setup | Selecting | Returned dial_result

record race =
  atts :: "dial_attempt list"
  spawned :: nat
  spawnEnd :: bool
  cancelled :: bool
  ctxOver :: bool
  errCh :: "error list"
  shutCh :: bool
  callerAt :: caller_state

definition race_init :: "nat \<Rightarrow> race" where
  "race_init n = \<lparr>atts = replicate n Unstarted, spawned = 0, spawnEnd = False, cancelled = False, ctxOver = False,
     errCh = [], shutCh = False, callerAt = Setup\<rparr>"

definition set_att :: "nat \<Rightarrow> dial_attempt \<Rightarrow> race \<Rightarrow> race" where
  "set_att i a s = s\<lparr>atts := (atts s)[i := a]\<rparr>"

inductive race_step :: "race \<Rightarrow> race \<Rightarrow> bool" where
  spawn: "\<not> spawnEnd s \<Longrightarrow> spawned s < length (atts s) \<Longrightarrow> \<not> cancelled s \<Longrightarrow>
    race_step s (set_att (spawned s) Dialing s\<lparr>spawned := Suc (spawned s)\<rparr>)"
| spawn_end: "\<not> spawnEnd s \<Longrightarrow> spawned s = length (atts s) \<or> cancelled s \<Longrightarrow> race_step s (s\<lparr>spawnEnd := True\<rparr>)"
| fail: "i < length (atts s) \<Longrightarrow> atts s ! i = Dialing \<Longrightarrow> race_step s (set_att i (Failed e) s\<lparr>errCh := errCh s @ [e]\<rparr>)"
| hand_over: "i < length (atts s) \<Longrightarrow> atts s ! i = Dialing \<Longrightarrow> Buffered \<notin> set (atts s) \<Longrightarrow> callerAt s = Selecting \<Longrightarrow>
    race_step s (set_att i Taken s\<lparr>cancelled := True, callerAt := Returned (Connected i)\<rparr>)"
| put: "i < length (atts s) \<Longrightarrow> atts s ! i = Dialing \<Longrightarrow> Buffered \<notin> set (atts s) \<Longrightarrow> callerAt s \<noteq> Selecting \<Longrightarrow>
    race_step s (set_att i Buffered s\<lparr>cancelled := True\<rparr>)"
| full: "i < length (atts s) \<Longrightarrow> atts s ! i = Dialing \<Longrightarrow> Buffered \<in> set (atts s) \<Longrightarrow> race_step s (set_att i Shut s)"
| ctx_over: "\<not> ctxOver s \<Longrightarrow> race_step s (s\<lparr>ctxOver := True, cancelled := True\<rparr>)"
| select: "callerAt s = Setup \<Longrightarrow> race_step s (s\<lparr>callerAt := Selecting\<rparr>)"
| receive: "i < length (atts s) \<Longrightarrow> atts s ! i = Buffered \<Longrightarrow> callerAt s = Selecting \<Longrightarrow>
    race_step s (set_att i Taken s\<lparr>cancelled := True, callerAt := Returned (Connected i)\<rparr>)"
| give_up: "callerAt s = Selecting \<Longrightarrow> ctxOver s \<Longrightarrow> race_step s (s\<lparr>cancelled := True, callerAt := Returned CtxError\<rparr>)"
| close: "spawnEnd s \<Longrightarrow> Dialing \<notin> set (atts s) \<Longrightarrow> \<not> shutCh s \<Longrightarrow> race_step s (s\<lparr>shutCh := True\<rparr>)"
| drain: "shutCh s \<Longrightarrow> i < length (atts s) \<Longrightarrow> atts s ! i = Buffered \<Longrightarrow> race_step s (set_att i Shut s)"
| receive_closed: "callerAt s = Selecting \<Longrightarrow> shutCh s \<Longrightarrow> Buffered \<notin> set (atts s) \<Longrightarrow>
    race_step s (s\<lparr>cancelled := True, callerAt := Returned (if ctxOver s then CtxError else Errors (errCh s))\<rparr>)"

inductive race_reach :: "nat \<Rightarrow> race \<Rightarrow> bool" for n where
  init: "race_reach n (race_init n)"
| step: "race_reach n s \<Longrightarrow> race_step s t \<Longrightarrow> race_reach n t"

inductive_cases race_stepE: "race_step s t"

lemma set_att_simps [simp]:
  "atts (set_att i a s) = (atts s)[i := a]" "spawned (set_att i a s) = spawned s" "spawnEnd (set_att i a s) = spawnEnd s"
  "cancelled (set_att i a s) = cancelled s" "ctxOver (set_att i a s) = ctxOver s" "errCh (set_att i a s) = errCh s"
  "shutCh (set_att i a s) = shutCh s" "callerAt (set_att i a s) = callerAt s"
  by (simp_all add: set_att_def)

text \<open>
  At most one connection is in the channel, and the one the caller took is the one it
  returns; an attempt that failed has left its error; once the channels are closed nothing is under way.
\<close>

definition race_inv :: "nat \<Rightarrow> race \<Rightarrow> bool" where
  "race_inv n s \<longleftrightarrow> length (atts s) = n \<and> spawned s \<le> n \<and>
     (\<forall>i < n. atts s ! i = Unstarted \<longleftrightarrow> spawned s \<le> i) \<and>
     (\<forall>i < n. \<forall>j < n. atts s ! i = Buffered \<and> atts s ! j = Buffered \<longrightarrow> i = j) \<and>
     (\<forall>i < n. atts s ! i = Taken \<longleftrightarrow> callerAt s = Returned (Connected i)) \<and>
     (\<forall>i. callerAt s = Returned (Connected i) \<longrightarrow> i < n) \<and>
     (\<forall>i < n. \<forall>e. atts s ! i = Failed e \<longrightarrow> e \<in> set (errCh s)) \<and>
     (callerAt s = Returned CtxError \<longrightarrow> ctxOver s) \<and>
     (shutCh s \<longrightarrow> spawnEnd s \<and> Dialing \<notin> set (atts s)) \<and>
     (spawnEnd s \<longrightarrow> spawned s = n \<or> cancelled s)"

lemma race_invD:
  assumes "race_inv n s"
  shows "length (atts s) = n" "spawned s \<le> n" "i < n \<Longrightarrow> atts s ! i = Unstarted \<longleftrightarrow> spawned s \<le> i"
    "i < n \<Longrightarrow> j < n \<Longrightarrow> atts s ! i = Buffered \<Longrightarrow> atts s ! j = Buffered \<Longrightarrow> i = j"
    "i < n \<Longrightarrow> atts s ! i = Taken \<longleftrightarrow> callerAt s = Returned (Connected i)"
    "callerAt s = Returned (Connected i) \<Longrightarrow> i < n"
    "i < n \<Longrightarrow> atts s ! i = Failed e \<Longrightarrow> e \<in> set (errCh s)"
    "callerAt s = Returned CtxError \<Longrightarrow> ctxOver s" "shutCh s \<Longrightarrow> spawnEnd s \<and> Dialing \<notin> set (atts s)"
    "spawnEnd s \<Longrightarrow> spawned s = n \<or> cancelled s"
  using assms by (auto simp: race_inv_def)

lemma race_inv_init: "race_inv n (race_init n)"
  by (simp add: race_inv_def race_init_def)

lemma not_Dialing_update: "Dialing \<notin> set xs \<Longrightarrow> a \<noteq> Dialing \<Longrightarrow> Dialing \<notin> set (xs[i := a])"
  using set_update_subset_insert [of xs i a] by auto

lemma race_invI:
  assumes "length (atts s) = n" "spawned s \<le> n" "\<And>i. i < n \<Longrightarrow> atts s ! i = Unstarted \<longleftrightarrow> spawned s \<le> i"
    "\<And>i j. i < n \<Longrightarrow> j < n \<Longrightarrow> atts s ! i = Buffered \<Longrightarrow> atts s ! j = Buffered \<Longrightarrow> i = j"
    "\<And>i. i < n \<Longrightarrow> atts s ! i = Taken \<longleftrightarrow> callerAt s = Returned (Connected i)"
    "\<And>i. callerAt s = Returned (Connected i) \<Longrightarrow> i < n"
    "\<And>i e. i < n \<Longrightarrow> atts s ! i = Failed e \<Longrightarrow> e \<in> set (errCh s)"
    "callerAt s = Returned CtxError \<Longrightarrow> ctxOver s" "shutCh s \<Longrightarrow> spawnEnd s \<and> Dialing \<notin> set (atts s)"
    "spawnEnd s \<Longrightarrow> spawned s = n \<or> cancelled s"
  shows "race_inv n s"
  using assms by (simp add: race_inv_def)

lemma no_buffered: "Buffered \<notin> set xs \<Longrightarrow> i < length xs \<Longrightarrow> xs ! i \<noteq> Buffered"
  by (metis nth_mem)

lemma no_dialing: "Dialing \<notin> set xs \<Longrightarrow> i < length xs \<Longrightarrow> xs ! i \<noteq> Dialing"
  by (metis nth_mem)

lemmas race_inv_upd = nth_list_update not_Dialing_update no_buffered

text \<open>A step that starts, ends or moves attempt \<open>i\<close> keeps the invariant.\<close>

lemma race_inv_set_att:
  assumes inv: "race_inv n s" and i: "i < n"
    and t: "atts t = (atts s)[i := a]" "spawned t = spawned s" "spawnEnd t = spawnEnd s" "ctxOver t = ctxOver s"
      "shutCh t = shutCh s" "cancelled s \<longrightarrow> cancelled t" "set (errCh s) \<subseteq> set (errCh t)"
    and from_att: "atts s ! i = Dialing \<or> atts s ! i = Buffered" and a: "a \<noteq> Unstarted" "a \<noteq> Dialing"
    and buf: "a = Buffered \<longrightarrow> Buffered \<notin> set (atts s)" and err: "\<And>e. a = Failed e \<Longrightarrow> e \<in> set (errCh t)"
    and taken: "if a = Taken then callerAt s = Selecting \<and> callerAt t = Returned (Connected i) else callerAt t = callerAt s"
  shows "race_inv n t"
proof (rule race_invI)
  note D = race_invD [OF inv]
  have at: "atts t ! j = (if j = i then a else atts s ! j)" if "j < n" for j
    using that D(1) t(1) by (simp add: nth_list_update)
  have nb: "a \<noteq> Buffered \<or> atts s ! j \<noteq> Buffered" if "j < n" for j
    using buf no_buffered that D(1) by metis
  show "length (atts t) = n" "spawned t \<le> n" using D(1,2) t(1,2) by simp_all
  show "atts t ! j = Unstarted \<longleftrightarrow> spawned t \<le> j" if "j < n" for j
    using D(3) [OF that] D(3) [OF i] from_att a(1) t(2) by (auto simp: at [OF that])
  show "j = k" if "j < n" "k < n" "atts t ! j = Buffered" "atts t ! k = Buffered" for j k
    using D(4) [OF that(1,2)] nb [OF that(1)] nb [OF that(2)] that(3,4)
    by (simp add: at [OF that(1)] at [OF that(2)] split: if_splits)
  show "atts t ! j = Taken \<longleftrightarrow> callerAt t = Returned (Connected j)" if "j < n" for j
    using D(5) [OF that] D(5) [OF i] from_att taken by (cases "a = Taken") (auto simp: at [OF that])
  show "j < n" if "callerAt t = Returned (Connected j)" for j
    using D(6) [of j] taken that i by (auto split: if_splits)
  show "e \<in> set (errCh t)" if "j < n" "atts t ! j = Failed e" for j e
    using D(7) [OF that(1), of e] t(7) that(2) err by (auto simp: at [OF that(1)] split: if_splits)
  show "ctxOver t" if "callerAt t = Returned CtxError"
    using D(8) t(4) taken that by (auto split: if_splits)
  show "spawnEnd t \<and> Dialing \<notin> set (atts t)" if "shutCh t"
    using D(9) t(1,3,5) that a(2) by (simp add: not_Dialing_update)
  show "spawned t = n \<or> cancelled t" if "spawnEnd t"
    using D(10) t(2,3,6) that by simp blast
qed

lemma race_inv_spawn:
  assumes inv: "race_inv n s" and s: "\<not> spawnEnd s" "spawned s < length (atts s)"
  shows "race_inv n (set_att (spawned s) Dialing s\<lparr>spawned := Suc (spawned s)\<rparr>)"
proof (rule race_invI)
  note D = race_invD [OF inv]
  let ?t = "set_att (spawned s) Dialing s\<lparr>spawned := Suc (spawned s)\<rparr>"
  have un: "atts s ! spawned s = Unstarted" using D(1) D(3) [of "spawned s"] s by simp
  show "length (atts ?t) = n" "spawned ?t \<le> n" using D(1) s by simp_all
  show "atts ?t ! j = Unstarted \<longleftrightarrow> spawned ?t \<le> j" if "j < n" for j
    using D(1) D(3) [OF that] that by (cases "j = spawned s") (auto simp: nth_list_update)
  show "j = k" if "j < n" "k < n" "atts ?t ! j = Buffered" "atts ?t ! k = Buffered" for j k
    using D(1) D(4) [OF that(1,2)] that s by (simp add: nth_list_update split: if_splits)
  show "atts ?t ! j = Taken \<longleftrightarrow> callerAt ?t = Returned (Connected j)" if "j < n" for j
    using D(1) D(5) [OF that] un that by (cases "j = spawned s") (auto simp: nth_list_update)
  show "j < n" if "callerAt ?t = Returned (Connected j)" for j
    using D(6) [of j] that by simp
  show "e \<in> set (errCh ?t)" if "j < n" "atts ?t ! j = Failed e" for j e
    using D(1) D(7) [OF that(1), of e] that s by (simp add: nth_list_update split: if_splits)
  show "ctxOver ?t" if "callerAt ?t = Returned CtxError" using D(8) that by simp
  show "spawnEnd ?t \<and> Dialing \<notin> set (atts ?t)" if "shutCh ?t" using D(9) s that by simp
  show "spawned ?t = n \<or> cancelled ?t" if "spawnEnd ?t" using s that by simp
qed

text \<open>The steps that move no attempt.\<close>

lemma race_inv_move:
  assumes inv: "race_inv n s" and t: "atts t = atts s" "spawned t = spawned s" "errCh t = errCh s"
    and c: "callerAt t = callerAt s \<or> (callerAt s = Setup \<or> callerAt s = Selecting) \<and> (\<forall>i. callerAt t \<noteq> Returned (Connected i))"
    and "callerAt t = Returned CtxError \<longrightarrow> ctxOver t" "shutCh t \<longrightarrow> spawnEnd t \<and> Dialing \<notin> set (atts t)"
    "spawnEnd t \<longrightarrow> spawned t = n \<or> cancelled t"
  shows "race_inv n t"
proof (rule race_invI)
  note D = race_invD [OF inv]
  show "length (atts t) = n" "spawned t \<le> n" using D(1,2) t by simp_all
  show "atts t ! i = Unstarted \<longleftrightarrow> spawned t \<le> i" if "i < n" for i using D(3) [OF that] t by simp
  show "i = j" if "i < n" "j < n" "atts t ! i = Buffered" "atts t ! j = Buffered" for i j
    using D(4) [OF that(1,2)] that(3,4) t by simp
  show "atts t ! i = Taken \<longleftrightarrow> callerAt t = Returned (Connected i)" if "i < n" for i
    using D(5) [OF that] t c by auto
  show "i < n" if "callerAt t = Returned (Connected i)" for i using D(6) [of i] that c by auto
  show "e \<in> set (errCh t)" if "i < n" "atts t ! i = Failed e" for i e using D(7) [OF that(1), of e] that(2) t by simp
qed (use assms in simp_all)

lemma race_inv_step: "race_inv n s \<Longrightarrow> race_step s t \<Longrightarrow> race_inv n t"
proof (erule race_stepE, goal_cases)
  case 1 then show ?case by (simp add: race_inv_spawn)
next
  case 2
  show ?case using race_invD(1,8,9) [OF 2(1)] 2(3-)
    by (intro race_inv_move [OF 2(1)]) (auto simp: 2(2))
next
  case (3 i e)
  show ?case using race_invD(1) [OF 3(1)] 3(3,4)
    by (intro race_inv_set_att [OF 3(1), of i _ "Failed e"]) (auto simp: 3)
next
  case (4 i)
  show ?case using race_invD(1) [OF 4(1)] 4(3,4)
    by (intro race_inv_set_att [OF 4(1), of i _ Taken]) (simp_all add: 4)
next
  case (5 i)
  show ?case using race_invD(1) [OF 5(1)] 5(3,4)
    by (intro race_inv_set_att [OF 5(1), of i _ Buffered]) (simp_all add: 5)
next
  case (6 i)
  show ?case using race_invD(1) [OF 6(1)] 6(3,4)
    by (intro race_inv_set_att [OF 6(1), of i _ Shut]) (simp_all add: 6)
next
  case 7
  show ?case using race_invD(8,9,10) [OF 7(1)] 7(3-)
    by (intro race_inv_move [OF 7(1)]) (auto simp: 7(2))
next
  case 8
  show ?case using race_invD(8,9,10) [OF 8(1)] 8(3-)
    by (intro race_inv_move [OF 8(1)]) (auto simp: 8(2))
next
  case (9 i)
  show ?case using race_invD(1) [OF 9(1)] 9(3,4)
    by (intro race_inv_set_att [OF 9(1), of i _ Taken]) (simp_all add: 9)
next
  case 10
  show ?case using race_invD(8,9,10) [OF 10(1)] 10(3-)
    by (intro race_inv_move [OF 10(1)]) (auto simp: 10(2))
next
  case 11
  show ?case using race_invD(8,9,10) [OF 11(1)] 11(3-)
    by (intro race_inv_move [OF 11(1)]) (auto simp: 11(2))
next
  case (12 i)
  show ?case using race_invD(1) [OF 12(1)] 12(3,4)
    by (intro race_inv_set_att [OF 12(1), of i _ Shut]) (simp_all add: 12)
next
  case 13
  show ?case using race_invD(8,9,10) [OF 13(1)] 13(3-)
    by (intro race_inv_move [OF 13(1)]) (auto simp: 13(2))
qed

lemma race_reach_inv: "race_reach n s \<Longrightarrow> race_inv n s"
  by (induction rule: race_reach.induct) (auto intro: race_inv_init race_inv_step)

section \<open>The race ends\<close>

definition att_left :: "dial_attempt \<Rightarrow> nat" where
  "att_left a = (case a of Unstarted \<Rightarrow> 3 | Dialing \<Rightarrow> 2 | Buffered \<Rightarrow> 1 | _ \<Rightarrow> 0)"

definition race_left :: "race \<Rightarrow> nat" where
  "race_left s = sum_list (map att_left (atts s)) + (if spawnEnd s then 0 else 1) + (if ctxOver s then 0 else 1) +
     (if shutCh s then 0 else 1) + (case callerAt s of Setup \<Rightarrow> 2 | Selecting \<Rightarrow> 1 | Returned _ \<Rightarrow> 0)"

lemma att_left_update:
  "i < length xs \<Longrightarrow> sum_list (map att_left (xs[i := a])) + att_left (xs ! i) = sum_list (map att_left xs) + att_left a"
  by (induction xs arbitrary: i) (auto split: nat.splits simp: nth_Cons')

lemma att_left_less:
  "i < length xs \<Longrightarrow> att_left a < att_left (xs ! i) \<Longrightarrow> sum_list (map att_left (xs[i := a])) < sum_list (map att_left xs)"
  using att_left_update [of i xs a] by simp

lemma race_left_step:
  assumes "race_inv n s" "race_step s t"
  shows "race_left t < race_left s"
proof -
  have un: "atts s ! spawned s = Unstarted" if "spawned s < length (atts s)"
    using race_invD(1) [OF assms(1)] race_invD(3) [OF assms(1), of "spawned s"] that by simp
  have less: "i < length (atts s) \<Longrightarrow> att_left a < att_left (atts s ! i) \<Longrightarrow>
      sum_list (map att_left ((atts s)[i := a])) < sum_list (map att_left (atts s))" for i a
    by (rule att_left_less)
  show ?thesis
    using assms(2)
  proof cases
    case spawn then show ?thesis using less [of "spawned s" Dialing] un by (simp add: race_left_def att_left_def)
  next
    case (fail i e) then show ?thesis using less [of i "Failed e"] by (simp add: race_left_def att_left_def)
  next
    case (hand_over i) then show ?thesis using less [of i Taken] by (simp add: race_left_def att_left_def)
  next
    case (put i) then show ?thesis using less [of i Buffered] by (simp add: race_left_def att_left_def)
  next
    case (full i) then show ?thesis using less [of i Shut] by (simp add: race_left_def att_left_def)
  next
    case (receive i) then show ?thesis using less [of i Taken] by (simp add: race_left_def att_left_def)
  next
    case (drain i) then show ?thesis using less [of i Shut] by (simp add: race_left_def att_left_def)
  qed (simp_all add: race_left_def)
qed

lemma race_run:
  assumes "(race_step ^^ k) (race_init n) s"
  shows "race_inv n s \<and> k + race_left s \<le> race_left (race_init n)"
  using assms
proof (induction k arbitrary: s)
  case 0 then show ?case using race_inv_init [of n] by auto
next
  case (Suc k)
  then obtain u where u: "(race_step ^^ k) (race_init n) u" "race_step u s" by auto
  with Suc.IH [OF u(1)] race_left_step [of n u s] race_inv_step [of n u s] show ?case by auto
qed

lemma race_left_init: "race_left (race_init n) = 3 * n + 5"
  by (simp add: race_left_def race_init_def att_left_def sum_list_replicate)

text \<open>A state with no step but the end of the context has nothing under way.\<close>

lemma race_quiet:
  assumes inv: "race_inv n s" and quiet: "\<And>t. race_step s t \<Longrightarrow> ctxOver t \<noteq> ctxOver s"
  shows "spawnEnd s" "shutCh s" "Buffered \<notin> set (atts s)" "\<exists>r. callerAt s = Returned r"
proof -
  note D = race_invD [OF inv]
  have nd: "Dialing \<notin> set (atts s)"
    using quiet [OF race_step.fail] by (auto simp: in_set_conv_nth)
  show e: "spawnEnd s"
    using quiet [OF race_step.spawn] quiet [OF race_step.spawn_end] D(1,2) by fastforce
  show c: "shutCh s" using quiet [OF race_step.close] nd e by auto
  show b: "Buffered \<notin> set (atts s)" using quiet [OF race_step.drain] c by (auto simp: in_set_conv_nth)
  show "\<exists>r. callerAt s = Returned r"
    using quiet [OF race_step.select] quiet [OF race_step.receive_closed] b c by (cases "callerAt s") auto
qed

text \<open>
  C0. The race ends, whatever the order in which its goroutines and attempts move: it takes at most
  \<open>3 n + 5\<close> steps, and when nothing is left but the end of the caller's context, the
  caller has returned and no connection is left open but the one it returned: each attempt
  was never started, failed with an error that was reported, or is closed.
\<close>

theorem dial_settles:
  assumes "(race_step ^^ k) (race_init n) s"
  shows "k \<le> 3 * n + 5 \<and> ((\<forall>t. race_step s t \<longrightarrow> ctxOver t \<noteq> ctxOver s) \<longrightarrow>
    (\<exists>r. callerAt s = Returned r \<and> (r = CtxError \<longrightarrow> ctxOver s) \<and> (\<forall>i. r = Connected i \<longrightarrow> i < n \<and> atts s ! i = Taken) \<and>
      (\<forall>i < n. case atts s ! i of Unstarted \<Rightarrow> cancelled s | Failed e \<Rightarrow> e \<in> set (errCh s) | Shut \<Rightarrow> True
        | Taken \<Rightarrow> r = Connected i | _ \<Rightarrow> False)))"
proof (intro conjI impI)
  note R = race_run [OF assms]
  then show "k \<le> 3 * n + 5" by (simp add: race_left_init)
  assume q: "\<forall>t. race_step s t \<longrightarrow> ctxOver t \<noteq> ctxOver s"
  note Q = race_quiet [OF R [THEN conjunct1] q [rule_format]] and D = race_invD [OF R [THEN conjunct1]]
  from Q(4) obtain r where r: "callerAt s = Returned r" by blast
  have "case atts s ! i of Unstarted \<Rightarrow> cancelled s | Failed e \<Rightarrow> e \<in> set (errCh s) | Shut \<Rightarrow> True
        | Taken \<Rightarrow> r = Connected i | _ \<Rightarrow> False" if "i < n" for i
    using D(1) D(3) [OF that] D(5) [OF that] D(7) [OF that] D(9) [OF Q(2)] D(10) [OF Q(1)] that r
      no_buffered [OF Q(3), of i] no_dialing [of "atts s" i]
    by (cases "atts s ! i") auto
  moreover have "i < n \<and> atts s ! i = Taken" if "r = Connected i" for i
    using D(5) [of i] D(6) [of i] that r by simp
  ultimately show "\<exists>r. callerAt s = Returned r \<and> (r = CtxError \<longrightarrow> ctxOver s) \<and>
      (\<forall>i. r = Connected i \<longrightarrow> i < n \<and> atts s ! i = Taken) \<and>
      (\<forall>i < n. case atts s ! i of Unstarted \<Rightarrow> cancelled s | Failed e \<Rightarrow> e \<in> set (errCh s) | Shut \<Rightarrow> True
        | Taken \<Rightarrow> r = Connected i | _ \<Rightarrow> False)"
    using r D(8) by auto
qed

text \<open>Two addresses: the first connects, the caller receives it, the channels are closed.\<close>

definition race_at :: "dial_attempt list \<Rightarrow> nat \<Rightarrow> bool \<Rightarrow> bool \<Rightarrow> bool \<Rightarrow> caller_state \<Rightarrow> race" where
  "race_at as n e c sh w = \<lparr>atts = as, spawned = n, spawnEnd = e, cancelled = c, ctxOver = False, errCh = [],
     shutCh = sh, callerAt = w\<rparr>"

lemma race_at_init: "race_init 2 = race_at [Unstarted, Unstarted] 0 False False False Setup"
  by (simp add: race_at_def race_init_def numeral_2_eq_2)

lemma race_at_steps:
  "race_step (race_at [Unstarted, Unstarted] 0 False False False Setup) (race_at [Dialing, Unstarted] 1 False False False Setup)"
  "race_step (race_at [Dialing, Unstarted] 1 False False False Setup) (race_at [Buffered, Unstarted] 1 False True False Setup)"
  "race_step (race_at [Buffered, Unstarted] 1 False True False Setup) (race_at [Buffered, Unstarted] 1 True True False Setup)"
  "race_step (race_at [Buffered, Unstarted] 1 True True False w) (race_at [Buffered, Unstarted] 1 True True True w)"
  "race_step (race_at [Buffered, Unstarted] 1 True True True w) (race_at [Shut, Unstarted] 1 True True True w)"
  "race_step (race_at as 1 True True sh Setup) (race_at as 1 True True sh Selecting)"
  "race_step (race_at [Buffered, Unstarted] 1 True True sh Selecting) (race_at [Taken, Unstarted] 1 True True sh (Returned (Connected 0)))"
  "race_step (race_at [Shut, Unstarted] 1 True True True Selecting) (race_at [Shut, Unstarted] 1 True True True (Returned (Errors [])))"
  using race_step.spawn [of "race_at [Unstarted, Unstarted] 0 False False False Setup"]
    race_step.put [of 0 "race_at [Dialing, Unstarted] 1 False False False Setup"]
    race_step.spawn_end [of "race_at [Buffered, Unstarted] 1 False True False Setup"]
    race_step.close [of "race_at [Buffered, Unstarted] 1 True True False w"]
    race_step.drain [of "race_at [Buffered, Unstarted] 1 True True True w" 0]
    race_step.select [of "race_at as 1 True True sh Setup"]
    race_step.receive [of 0 "race_at [Buffered, Unstarted] 1 True True sh Selecting"]
    race_step.receive_closed [of "race_at [Shut, Unstarted] 1 True True True Selecting"]
  by (simp_all add: race_at_def set_att_def)

lemma race_at_run:
  "(race_step ^^ 4) (race_init 2) (race_at [Buffered, Unstarted] 1 True True True Setup)"
  unfolding race_at_init
  by (simp only: numeral_Bit0 numeral_One relpowp_add relpowp_1) (blast intro: race_at_steps)

lemma race_at_run_connected:
  "(race_step ^^ 6) (race_init 2) (race_at [Taken, Unstarted] 1 True True True (Returned (Connected 0)))"
  using relpowp_Suc_I [OF relpowp_Suc_I [OF race_at_run race_at_steps(6)] race_at_steps(7) [of True]]
  by (simp add: numeral_eq_Suc)

lemma race_at_quiet:
  "race_step (race_at [Taken, Unstarted] 1 True True True (Returned (Connected 0))) t \<Longrightarrow> ctxOver t"
  by (erule race_stepE) (auto simp: race_at_def less_Suc_eq nth_Cons')

theorem dial_settles_witness:
  "\<exists>s. (race_step ^^ 6) (race_init 2) s \<and> (6::nat) \<le> 3 * 2 + 5 \<and> callerAt s = Returned (Connected 0) \<and>
     (\<exists>r. callerAt s = Returned r \<and> (\<forall>i. r = Connected i \<longrightarrow> i < 2 \<and> atts s ! i = Taken))"
  using dial_settles [OF race_at_run_connected] race_at_quiet race_at_run_connected
  by (fastforce simp: race_at_def)

text \<open>
  What \<^verbatim>\<open>dialParallel\<close> returns: a connection or nil, and an error or nil.
\<close>

definition race_returns :: "dial_result \<Rightarrow> nat option \<times> error option" where
  "race_returns r = (case r of Connected i \<Rightarrow> (Some i, None) | CtxError \<Rightarrow> (None, Some (LibError ''context''))
     | Errors es \<Rightarrow> (None, join_errors (map Some es)))"

text \<open>
  The race can be lost to the goroutine that closes what is left in the channel: with two
  addresses, where the first connects at once and no address fails, that goroutine may take
  the connection before the caller looks; the caller then gets no connection and no error.
\<close>

theorem dial_lost_race:
  "\<exists>s r. (race_step ^^ 7) (race_init 2) s \<and> callerAt s = Returned r \<and> atts s ! 0 = Shut \<and> race_returns r = (None, None)"
proof -
  have "(race_step ^^ 7) (race_init 2) (race_at [Shut, Unstarted] 1 True True True (Returned (Errors [])))"
    using relpowp_Suc_I [OF relpowp_Suc_I [OF relpowp_Suc_I [OF race_at_run race_at_steps(5)] race_at_steps(6)] race_at_steps(8)]
    by (simp add: numeral_eq_Suc)
  then show ?thesis
    by (intro exI conjI) (assumption | simp add: race_at_def race_returns_def join_errors_def)+
qed

end
