(* ===== verification/Desync.thy ===== *)
theory Desync
  imports Fragment
begin

text \<open>
  \<^verbatim>\<open>desyncSend\<close> of \<^verbatim>\<open>internal/core/desync.go\<close> and \<^verbatim>\<open>sendWithNoise\<close> of its Linux file: the first
  part of a ClientHello goes out from spliced pages with the server name blanked and a small
  TTL; then the pages get the real bytes, which the kernel retransmits. The sleep is taken to
  be long enough for the first transmission, and one \<^verbatim>\<open>splice\<close> to take all bytes; which socket
  option holds the TTL, by the family of the peer, is left out.
\<close>

definition send_with_noise :: "bytes \<Rightarrow> bytes \<Rightarrow> int \<Rightarrow> unit io" where
  "send_with_noise fakeData realData fakeTTL =
     seq (labelled ''get fd'' (net_call [])) (\<lambda>_.
     seq (labelled ''create pipe'' (net_call [])) (\<lambda>_.
     seq (labelled ''mmap'' (net_call [])) (\<lambda>_.
     seq (labelled ''set fake ttl'' (net_call [])) (\<lambda>_.
     seq (labelled ''vmsplice'' (net_call [])) (\<lambda>_.
     attempt (seq (labelled ''raw write'' (net_call []))
        (\<lambda>_. labelled ''splice'' (net_call [Noise fakeData realData fakeTTL]))) (\<lambda>r.
     seq (labelled ''set default ttl'' (net_call [])) (\<lambda>_ c. Some (r, c))))))))"

text \<open>\<open>noise\<close> is the \<^verbatim>\<open>sendWithNoise\<close> of the system.\<close>

definition desync_with :: "(bytes \<Rightarrow> bytes \<Rightarrow> int \<Rightarrow> unit io) \<Rightarrow> bytes \<Rightarrow> nat \<Rightarrow> nat \<Rightarrow> int \<Rightarrow> unit io" where
  "desync_with noise record sniStart sniLen fakeTTL =
     seq get_raw_conn (\<lambda>_.
     seq (labelled ''raw control'' (net_call [])) (\<lambda>_.
     seq (labelled ''get default ttl'' (net_call [])) (\<lambda>_.
     lift (findLastDotOrMidPos record sniStart sniLen) (\<lambda>cut.
     lift (slice record 0 sniStart) (\<lambda>head.
     lift (slice record 0 cut) (\<lambda>real.
     seq (labelled ''send data with noise''
       (noise (take cut (head @ replicate cut 0)) real fakeTTL)) (\<lambda>_.
     lift (slice record cut (length record)) (\<lambda>rest.
     labelled ''send remaining data'' (conn_write rest)))))))))"

definition desyncSend :: "bytes \<Rightarrow> nat \<Rightarrow> nat \<Rightarrow> int \<Rightarrow> unit io" where
  "desyncSend = desync_with send_with_noise"

lemma sends_return:
  assumes m: "sends m ws" and n: "sends n []"
  shows "sends (attempt m (\<lambda>r. seq n (\<lambda>_ c. Some (r, c)))) ws"
  unfolding sends_def
proof
  fix c
  obtain r c1 ws' where 1: "m c = Some (r, c1)" "sent c1 = sent c @ ws'" "prefix ws' ws"
    "r = Inr () \<longrightarrow> ws' = ws" "faults c = [] \<longrightarrow> r = Inr () \<and> faults c1 = []"
    by (rule sendsE [OF m])
  obtain r2 c2 vs' where 2: "n c1 = Some (r2, c2)" "sent c2 = sent c1 @ vs'" "prefix vs' []"
    "r2 = Inr () \<longrightarrow> vs' = []" "faults c1 = [] \<longrightarrow> r2 = Inr () \<and> faults c2 = []"
    by (rule sendsE [OF n])
  show "\<exists>x c' us. attempt m (\<lambda>r. seq n (\<lambda>_ c. Some (r, c))) c = Some (x, c') \<and> sent c' = sent c @ us \<and> prefix us ws \<and>
     (x = Inr () \<longrightarrow> us = ws) \<and> (faults c = [] \<longrightarrow> x = Inr () \<and> faults c' = [])"
    using 1 2 by (cases r2) (auto simp: attempt_def seq_def)
qed

lemma sends_noise: "sends (send_with_noise f r ttl) [Noise f r ttl]"
proof -
  have "sends (seq (labelled ''raw write'' (net_call [])) (\<lambda>_. labelled ''splice'' (net_call [Noise f r ttl]))) ([] @ [Noise f r ttl])"
    by (intro io_sends)
  then have "sends (attempt (seq (labelled ''raw write'' (net_call []))
        (\<lambda>_. labelled ''splice'' (net_call [Noise f r ttl]))) (\<lambda>x.
     seq (labelled ''set default ttl'' (net_call [])) (\<lambda>_ c. Some (x, c)))) [Noise f r ttl]" (is "sends ?m _")
    by (intro sends_return) (simp_all add: io_sends)
  then have "sends (send_with_noise f r ttl) ([] @ [] @ [] @ [] @ [] @ [Noise f r ttl])"
    unfolding send_with_noise_def by (intro sends_seq) (simp_all add: io_sends)
  then show ?thesis by simp
qed

definition desync_wire :: "bytes \<Rightarrow> nat \<Rightarrow> nat \<Rightarrow> int \<Rightarrow> wire list" where
  "desync_wire b start pos ttl = [Noise (take start b @ replicate (pos - start) 0) (take pos b) ttl, Data (drop pos b)]"

text \<open>The cut and the slices are in range; what remains are the calls.\<close>

definition desync_calls :: "(bytes \<Rightarrow> bytes \<Rightarrow> int \<Rightarrow> unit io) \<Rightarrow> bytes \<Rightarrow> nat \<Rightarrow> nat \<Rightarrow> int \<Rightarrow> unit io" where
  "desync_calls noise b start pos ttl =
     seq get_raw_conn (\<lambda>_.
     seq (labelled ''raw control'' (net_call [])) (\<lambda>_.
     seq (labelled ''get default ttl'' (net_call [])) (\<lambda>_.
     seq (labelled ''send data with noise'' (noise (take start b @ replicate (pos - start) 0) (take pos b) ttl)) (\<lambda>_.
     labelled ''send remaining data'' (conn_write (drop pos b))))))"

lemma desync_cut:
  assumes "start + len \<le> length b"
  obtains pos where "findLastDotOrMidPos b start len = Some pos" "start \<le> pos" "pos \<le> start + len"
    "\<And>noise ttl. desync_with noise b start len ttl = desync_calls noise b start pos ttl"
proof -
  obtain pos where c: "findLastDotOrMidPos b start len = Some pos" "start \<le> pos" "pos \<le> start + len"
    using findLastDotOrMidPos_ok [OF assms] by blast
  have "take pos (take start b @ replicate pos 0) = take start b @ replicate (pos - start) 0"
    using c(2,3) assms by (auto simp: min_def)
  moreover have "slice b 0 start = Some (take start b)" "slice b 0 pos = Some (take pos b)" "slice b pos (length b) = Some (drop pos b)"
    using assms c by (simp_all add: slice_Some)
  ultimately have "desync_with noise b start len ttl = desync_calls noise b start pos ttl" for noise ttl
    by (simp only: lift_def c(1) option.case desync_with_def desync_calls_def)
  then show thesis by (rule that [OF c])
qed

lemma sends_desync:
  assumes "start + len \<le> length b"
  obtains pos where "findLastDotOrMidPos b start len = Some pos" "sends (desyncSend b start len ttl) (desync_wire b start pos ttl)" "start \<le> pos" "pos \<le> start + len"
proof -
  obtain pos where c: "findLastDotOrMidPos b start len = Some pos" "start \<le> pos" "pos \<le> start + len"
    "\<And>noise ttl. desync_with noise b start len ttl = desync_calls noise b start pos ttl"
    by (rule desync_cut [OF assms]) blast
  have "sends (desyncSend b start len ttl)
      ([] @ [] @ [] @ [Noise (take start b @ replicate (pos - start) 0) (take pos b) ttl] @ [Data (drop pos b)])"
    unfolding desyncSend_def c(4) desync_calls_def get_raw_conn_def
    by (intro sends_seq sends_labelled sends_noise sends_conn_write sends_net_call)
  then show thesis using that c by (simp add: desync_wire_def)
qed

section \<open>What is read and what is seen\<close>

text \<open>The bytes of the first transmissions, which is what a box on the way inspects.\<close>

fun observed :: "wire list \<Rightarrow> bytes" where
  "observed [] = []"
| "observed (Data b # ws) = b @ observed ws"
| "observed (Urgent b x # ws) = b @ [x] @ observed ws"
| "observed (Noise f r ttl # ws) = f @ observed ws"
| "observed (AckWait # ws) = observed ws"

text \<open>
  C10. A ClientHello sent with a fake packet whose TTL is too small to arrive is read by the
  server exactly as it is, while the first transmission shows zeros in place of the server
  name up to its last label (or its middle). When a call fails, what was sent is a prefix of that.
\<close>

theorem desync_hides_name:
  assumes "start + len \<le> length b" and "\<not> reach ttl"
  shows "\<exists>ws pos. sends (desyncSend b start len ttl) ws \<and> received (map (arrive reach) ws) = b \<and>
    findLastDotOrMidPos b start len = Some pos \<and> start \<le> pos \<and> pos \<le> start + len \<and>
    observed ws = take start b @ replicate (pos - start) 0 @ drop pos b"
proof -
  obtain pos where c: "findLastDotOrMidPos b start len = Some pos" "sends (desyncSend b start len ttl) (desync_wire b start pos ttl)" "start \<le> pos" "pos \<le> start + len"
    by (rule sends_desync [OF assms(1)])
  have "received (desync_wire b start pos ttl) = b" by (simp add: desync_wire_def)
  then have "received (map (arrive reach) (desync_wire b start pos ttl)) = b"
    using assms(2) by (subst received_arrive) (simp_all add: desync_wire_def)
  then show ?thesis
    using c by (intro exI [of _ "desync_wire b start pos ttl"] exI [of _ pos]) (simp add: desync_wire_def)
qed

theorem desync_hides_name_witness:
  "\<exists>ws pos. sends (desyncSend ([1, 2, 3] @ [97, 46, 98] @ [4]) 3 3 2) ws \<and>
     received (map (arrive (\<lambda>ttl. 5 \<le> ttl)) ws) = [1, 2, 3, 97, 46, 98, 4] \<and>
     findLastDotOrMidPos [1, 2, 3, 97, 46, 98, 4] 3 3 = Some pos \<and> observed ws = [1, 2, 3, 0, 46, 98, 4]"
proof -
  have f: "findLastDotOrMidPos ([1, 2, 3] @ [97, 46, 98] @ [4]) 3 3 = Some 4" by code_simp
  then show ?thesis
    using desync_hides_name [of 3 3 "[1, 2, 3] @ [97, 46, 98] @ [4]" "\<lambda>ttl. 5 \<le> ttl" 2] by auto
qed

end
