(* ===== verification/TTL_Probe.thy ===== *)
theory TTL_Probe
  imports Policy Sharded_LRU Log_Level
begin

text \<open>
  The TTL of fake packets, from \<^verbatim>\<open>internal/core/desync.go\<close>: the rules of the configuration,
  the binary search for the least TTL that reaches the server, its cache, and \<^verbatim>\<open>getFakeTTL\<close>.
  A Go \<^verbatim>\<open>int\<close> has 64 bits. The network is the argument \<open>ttl_ops\<close>: whether a connection with
  a given TTL is established, and the clock. A loop that never ends is \<open>None\<close>, as is a panic.
\<close>

section \<open>Rules\<close>

definition int64 :: "int \<Rightarrow> int" where
  "int64 x = signed_take_bit 63 x"

record ttl_rule =
  threshold :: int
  ruleTyp :: char
  ruleVal :: int

definition digits_int :: "string \<Rightarrow> int" where
  "digits_int s = foldl (\<lambda>a c. int64 (int64 (a * 10) + int (digit_val c))) 0 s"

definition at_offset :: "string \<Rightarrow> nat \<Rightarrow> error" where
  "at_offset msg i = LibError (msg @ '' at offset '' @ show_nat i)"

text \<open>One rule and the separator after it: the rule, where it starts and the rest of the text.\<close>

definition parse_rule :: "nat \<Rightarrow> string \<Rightarrow> int set \<Rightarrow> error + ttl_rule \<times> string" where
  "parse_rule i b seen =
     (let left = takeWhile is_digit b; rest = dropWhile is_digit b; j = i + length left in
      if left = [] then Inl (at_offset ''missing left number'' i)
      else case rest of
        [] \<Rightarrow> Inl (at_offset ''missing operator'' j)
      | op # rest \<Rightarrow>
          if op \<noteq> CHR ''-'' \<and> op \<noteq> CHR ''='' then Inl (at_offset ''invalid operator'' j)
          else
            let right = takeWhile is_digit rest; rest = dropWhile is_digit rest in
            if right = [] then Inl (at_offset ''missing right number'' (Suc j))
            else if digits_int left \<in> seen
            then Inl (at_offset (''duplicate threshold '' @ show_int (digits_int left)) i)
            else Inr (\<lparr>threshold = digits_int left, ruleTyp = op, ruleVal = digits_int right\<rparr>,
                      if has_prefix rest '';'' then tl rest else rest))"

lemma parse_rule_shorter: "parse_rule i b seen = Inr (r, rest) \<Longrightarrow> length rest < length b"
proof -
  assume h: "parse_rule i b seen = Inr (r, rest)"
  have d: "length (dropWhile is_digit s) \<le> length s" for s by (rule length_dropWhile_le)
  show ?thesis
    using h d [of b] d [of "tl (dropWhile is_digit b)"]
    by (auto simp: parse_rule_def Let_def split: list.splits if_splits)
qed

function parse_rules :: "nat \<Rightarrow> string \<Rightarrow> ttl_rule list \<Rightarrow> int set \<Rightarrow> error + ttl_rule list" where
  "parse_rules i b rules seen =
     (if b = [] then Inr rules
      else case parse_rule i b seen of
        Inl e \<Rightarrow> Inl e
      | Inr (r, rest) \<Rightarrow> parse_rules (i + length b - length rest) rest (rules @ [r]) (insert (threshold r) seen))"
  by pat_completeness auto
termination
  by (relation "measure (\<lambda>(_, b, _). length b)") (auto dest: parse_rule_shorter)

declare parse_rules.simps [simp del]

text \<open>The thresholds are distinct, so the order \<^verbatim>\<open>slices.SortFunc\<close> gives is the only one.\<close>

definition parseTTLRules :: "string \<Rightarrow> error + ttl_rule list" where
  "parseTTLRules input =
     (case parse_rules 0 input [] {} of Inl e \<Rightarrow> Inl e | Inr rules \<Rightarrow> Inr (sort_key (\<lambda>r. - threshold r) rules))"

fun apply_rules :: "ttl_rule list \<Rightarrow> int \<Rightarrow> error + int" where
  "apply_rules [] ttl = Inl (NewError ''no matching ttl rule'')"
| "apply_rules (r # rs) ttl =
     (if threshold r \<le> ttl
      then (if ruleTyp r = CHR ''-'' then Inr (int64 (ttl - ruleVal r)) else Inr (ruleVal r))
      else apply_rules rs ttl)"

definition genTTLCalcFunc :: "string \<Rightarrow> error + (int \<Rightarrow> error + int)" where
  "genTTLCalcFunc rulesStr =
     (if rulesStr = [] then Inr (\<lambda>ttl. Inr (int64 (ttl - 1)))
      else case parseTTLRules rulesStr of
        Inl e \<Rightarrow> Inl (OpError ''parse ttl rules'' e)
      | Inr rules \<Rightarrow> Inr (apply_rules rules))"

section \<open>Probing\<close>

text \<open>\<open>ttlDial\<close>: the timeout, the address and the TTL of one attempt, and whether it connects.\<close>

record 'n ttl_ops =
  ttlDial :: "int \<Rightarrow> addr \<times> nat \<Rightarrow> int \<Rightarrow> 'n \<Rightarrow> bool \<times> 'n"
  ttlNow :: "'n \<Rightarrow> int \<times> 'n"

record 'n ttl_state =
  ttlCache :: "(addr, int) sharded option"
  ttlNet :: 'n

text \<open>\<^verbatim>\<open>low\<close>, \<^verbatim>\<open>high\<close> and \<^verbatim>\<open>found\<close>.\<close>

type_synonym bracket = "int \<times> int \<times> int"

text \<open>\<^verbatim>\<open>for range attempts\<close>: every failure raises \<^verbatim>\<open>low\<close>, the first success leaves the loop.\<close>

fun probe_attempts :: "(int \<Rightarrow> 'n \<Rightarrow> bool \<times> 'n) \<Rightarrow> nat \<Rightarrow> int \<Rightarrow> bracket \<Rightarrow> 'n \<Rightarrow> bracket \<times> 'n" where
  "probe_attempts dial 0 mid w n = (w, n)"
| "probe_attempts dial (Suc k) mid (low, high, found) n =
     (let (connected, n) = dial mid n
      in if connected then ((low, mid - 1, mid), n)
         else probe_attempts dial k mid (mid + 1, high, found) n)"

partial_function (option) probe_loop ::
  "(int \<Rightarrow> 'n \<Rightarrow> bool \<times> 'n) \<Rightarrow> int \<Rightarrow> bracket \<Rightarrow> 'n \<Rightarrow> (int \<times> 'n) option" where
  "probe_loop dial attempts w n =
     (if fst w \<le> fst (snd w)
      then
        let (w, n) = probe_attempts dial (nat attempts) ((fst w + fst (snd w)) div 2) w n
        in probe_loop dial attempts w n
      else Some (snd (snd w), n))"

definition probeMinimumReachableTTL ::
  "'n ttl_ops \<Rightarrow> addr \<times> nat \<Rightarrow> int \<Rightarrow> int \<Rightarrow> int \<Rightarrow> int \<Rightarrow> 'n ttl_state \<Rightarrow> (int \<times> 'n ttl_state) option" where
  "probeMinimumReachableTTL ops raddr maxTTL attempts dialTimeout cacheTTL st =
     do {
       (found, n) \<leftarrow> probe_loop (ttlDial ops dialTimeout raddr) attempts (1, maxTTL, - 1) (ttlNet st);
       (case ttlCache st of
          Some c \<Rightarrow>
            if found \<noteq> - 1 \<and> cacheTTL \<noteq> 0 \<and> cacheTTL \<noteq> unsetInt then do {
              let (now, n) = ttlNow ops n;
              (_, c) \<leftarrow> Sharded_AddWithLifetime now (unmap (fst raddr)) found cacheTTL c;
              Some (found, \<lparr>ttlCache = Some c, ttlNet = n\<rparr>)
            }
            else Some (found, st\<lparr>ttlNet := n\<rparr>)
        | None \<Rightarrow> Some (found, st\<lparr>ttlNet := n\<rparr>))
     }"

text \<open>
  With \<^verbatim>\<open>ttlProbingGroup\<close> set, a caller that finds no probe of the address in flight probes
  itself, as here; the others get its result (the theory on single flight). The result is
  the TTL and whether it was cached; there is no error.
\<close>

definition getMinimumReachableTTL ::
  "'n ttl_ops \<Rightarrow> addr \<times> nat \<Rightarrow> int \<Rightarrow> int \<Rightarrow> int \<Rightarrow> int \<Rightarrow> 'n ttl_state \<Rightarrow> ((int \<times> bool) \<times> 'n ttl_state) option" where
  "getMinimumReachableTTL ops ap maxTTL attempts dialTimeout cacheTTL st =
     do {
       (hit, st) \<leftarrow> (case ttlCache st of
           None \<Rightarrow> Some (None, st)
         | Some c \<Rightarrow> do {
             let (now, n) = ttlNow ops (ttlNet st);
             (v, c) \<leftarrow> Sharded_Get now (unmap (fst ap)) c;
             Some (v, \<lparr>ttlCache = Some c, ttlNet = n\<rparr>)
           });
       (case hit of
          Some ttl \<Rightarrow> Some ((ttl, True), st)
        | None \<Rightarrow> do {
            (ttl, st) \<leftarrow> probeMinimumReachableTTL ops ap maxTTL attempts dialTimeout cacheTTL st;
            Some ((ttl, False), st)
          })
     }"

definition getFakeTTL ::
  "'n ttl_ops \<Rightarrow> (int \<Rightarrow> error + int) \<Rightarrow> logger option \<Rightarrow> policy \<Rightarrow> addr \<times> nat \<Rightarrow> 'n ttl_state \<Rightarrow>
   ((error + int) \<times> 'n ttl_state) option" where
  "getFakeTTL ops calcTTL lg p ap st =
     (if pFakeTTL p \<noteq> 0 \<and> pFakeTTL p \<noteq> unsetInt then Some (Inr (pFakeTTL p), st)
      else do {
        ((ttl, cached), st) \<leftarrow>
          getMinimumReachableTTL ops ap (pMaxTTL p) (pAttempts p) (pSingleTimeout p) (pTTLCacheTTL p) st;
        (if ttl = unsetInt then Some (Inl (NewError ''reachable ttl not found''), st)
         else case calcTTL ttl of
           Inl e \<Rightarrow> Some (Inl (OpError ''calculate fake ttl'' e), st)
         | Inr ttl \<Rightarrow> do {
             _ \<leftarrow> (if lg \<noteq> None
                   then log_info lg [Some ''Fake TTL for '', Some (addr_port_string ap),
                          Some (if cached then '' (cached): '' else '': ''), Some (show_int ttl)]
                   else Some ());
             Some (Inr ttl, st)
           })
      })"

section \<open>Construction\<close>

record ttl_config =
  fakeTTLRules :: string
  ttlSingleFlight :: bool
  ttlDisableCache :: bool
  ttlCacheCapacity :: nat

text \<open>
  \<^verbatim>\<open>newTTLDesyncManager\<close>: the rules, the cache and whether probes are shared. \<open>procs\<close> is
  \<^verbatim>\<open>GOMAXPROCS\<close> and \<open>hash\<close> the seeded \<^verbatim>\<open>maphash.Comparable\<close>; the zero address fills empty slots.
\<close>

definition newTTLDesyncManager ::
  "nat \<Rightarrow> (addr \<Rightarrow> 32 word) \<Rightarrow> ttl_config \<Rightarrow> error + (int \<Rightarrow> error + int) \<times> (addr, int) sharded option \<times> bool" where
  "newTTLDesyncManager procs hash conf =
     (case genTTLCalcFunc (fakeTTLRules conf) of
        Inl e \<Rightarrow> Inl e
      | Inr calc \<Rightarrow>
          if ttlDisableCache conf then Inr (calc, None, ttlSingleFlight conf)
          else
            (case new_sharded (IP4 []) 0 procs
                 (if ttlCacheCapacity conf = 0 then 1024 else ttlCacheCapacity conf) hash of
               Inl e \<Rightarrow> Inl (OpError ''init cache'' e)
             | Inr c \<Rightarrow> Inr (calc, Some c, ttlSingleFlight conf)))"

end
