(* ===== verification/Tunnel.thy ===== *)
theory Tunnel
  imports Client_Hello Desync TTL_Probe Route
begin

text \<open>
  \<^verbatim>\<open>internal/core/tunnel.go\<close>: what happens to the first bytes of a connection. The ClientHello
  is read, its server name may change policy and destination, and it is sent as the mode says;
  plain HTTP requests are answered or passed on. The state is the session (policy, client and
  server connection, what is left to read from the client) and the world around it (routing
  tables, TTL cache, network). What dialling does is the argument \<open>srvDial\<close>: an error, a connection, or
  neither of them, which is what \<^verbatim>\<open>dialParallel\<close> returns when it loses its race (the theory on dialling).
  The HTTP library is the argument \<open>http_ops\<close>. Log lines are left out where they cannot panic. \<open>None\<close> is a panic, or a
  search for a TTL that never ends.
\<close>

section \<open>State\<close>

text \<open>A connection to a server, with its remote address.\<close>

type_synonym link = "conn \<times> (addr \<times> nat)"

record ('r, 'n, 'd) world =
  wRoute :: "'r routing"
  wTTL :: "'n ttl_state"
  wNet :: 'd

record ('r, 'n, 'd) server =
  srvRoute :: route_matcher
  srvResolve :: "'r resolver"
  srvTTL :: "'n ttl_ops"
  srvCalc :: "int \<Rightarrow> error + int"
  srvDial :: "dst option \<Rightarrow> string \<Rightarrow> int \<Rightarrow> int \<Rightarrow> 'd \<Rightarrow> ((error + link option) \<times> 'd) option"
  srvLogger :: logger

text \<open>\<open>tsDropped\<close>: server connections that were closed for another; \<open>tsInput\<close>: bytes the client is still to send.\<close>

record session =
  tsPolicy :: policy
  tsCli :: conn
  tsDst :: "link option"
  tsDropped :: "link list"
  tsTarget :: "dst option"
  tsOriginHost :: string
  tsOriginPort :: string
  tsPort :: string
  tsFromSNI :: bool
  tsInput :: bytes

definition bytes_string :: "bytes \<Rightarrow> string" where
  "bytes_string b = map (\<lambda>x. char_of (unat x)) b"

text \<open>\<^verbatim>\<open>if ts.dstConn == nil\<close> dial; the flag says whether there was no error.\<close>

definition ensure_dst ::
  "('r, 'n, 'd) server \<Rightarrow> session \<Rightarrow> ('r, 'n, 'd) world \<Rightarrow> (bool \<times> session \<times> ('r, 'n, 'd) world) option" where
  "ensure_dst srv ts w =
     (case tsDst ts of
        Some _ \<Rightarrow> Some (True, ts, w)
      | None \<Rightarrow> do {
          (r, n) \<leftarrow> srvDial srv (tsTarget ts) (tsPort ts) (pConnectTimeout (tsPolicy ts)) (pDialDelay (tsPolicy ts)) (wNet w);
          (case r of
             Inl e \<Rightarrow> Some (False, ts, w\<lparr>wNet := n\<rparr>)
           | Inr l \<Rightarrow> Some (True, ts\<lparr>tsDst := l\<rparr>, w\<lparr>wNet := n\<rparr>))
        })"

text \<open>A write to the server connection; a nil connection panics.\<close>

definition write_dst :: "unit io \<Rightarrow> session \<Rightarrow> ((error + unit) \<times> session) option" where
  "write_dst m ts = do {
     (c, ra) \<leftarrow> tsDst ts;
     (r, c) \<leftarrow> m c;
     Some (r, ts\<lparr>tsDst := Some (c, ra)\<rparr>)
   }"

section \<open>TLS\<close>

definition tlsAlertLevelFatal :: byte where "tlsAlertLevelFatal = 2"
definition tlsAlertAccessDenied :: byte where "tlsAlertAccessDenied = 70"
definition tlsAlertProtocolVersion :: byte where "tlsAlertProtocolVersion = 49"

definition sendTLSAlert :: "bytes \<Rightarrow> byte \<Rightarrow> byte \<Rightarrow> session \<Rightarrow> session option" where
  "sendTLSAlert ver desc level ts = do {
     v0 \<leftarrow> idx ver 0;
     v1 \<leftarrow> idx ver 1;
     (_, c) \<leftarrow> conn_write [0x15, v0, v1, 0, 2, level, desc] (tsCli ts);
     Some (ts\<lparr>tsCli := c\<rparr>)
   }"

definition checkTLS13Only :: "bool \<Rightarrow> policy \<Rightarrow> bytes \<Rightarrow> session \<Rightarrow> (bool \<times> session) option" where
  "checkTLS13Only tls13 p ver ts =
     (if \<not> tls13 \<and> is_true (pTLS13Only p) then do {
        ts \<leftarrow> sendTLSAlert ver tlsAlertProtocolVersion tlsAlertLevelFatal ts;
        Some (False, ts)
      }
      else Some (True, ts))"

text \<open>\<^verbatim>\<open>SniffOverrideRouteOnly\<close>: the policy of the server name is merged in, the destination stays.\<close>

definition route_only :: "('r, 'n, 'd) server \<Rightarrow> client_hello \<Rightarrow> string \<Rightarrow> session \<Rightarrow> (bool \<times> session) option" where
  "route_only srv ch sni ts =
     (case getDomainPolicy (srvRoute srv) sni of
        None \<Rightarrow> Some (True, ts)
      | Some sp \<Rightarrow>
          if pMode sp = ModeBlock then Some (False, ts)
          else if pMode sp = ModeTLSAlert then do {
            ts \<leftarrow> sendTLSAlert (prtVer ch) tlsAlertAccessDenied tlsAlertLevelFatal ts;
            Some (False, ts)
          }
          else do {
            (ok, ts) \<leftarrow> checkTLS13Only (isTLS13 ch) sp (prtVer ch) ts;
            Some (if ok then (True, ts\<lparr>tsPolicy := mergePolicies [sp, tsPolicy ts]\<rparr>) else (False, ts))
          })"

text \<open>The destination of the server name takes the place of the present one.\<close>

definition switch_dst ::
  "('r, 'n, 'd) server \<Rightarrow> dst option \<Rightarrow> policy \<Rightarrow> session \<Rightarrow> ('r, 'n, 'd) world \<Rightarrow> (bool \<times> session \<times> ('r, 'n, 'd) world) option" where
  "switch_dst srv newDst sp ts w =
     do {
       let port = (if pPort sp \<noteq> 0 \<and> pPort sp \<noteq> unsetInt then show_int (pPort sp) else tsOriginPort ts);
       (r, n) \<leftarrow> srvDial srv newDst port (pConnectTimeout sp) (pDialDelay sp) (wNet w);
       let w = w\<lparr>wNet := n\<rparr>;
       (case r of
          Inl e \<Rightarrow> Some (\<not> tsFromSNI ts, ts, w)
        | Inr l \<Rightarrow>
            Some (True, ts\<lparr>tsDst := l,
                     tsDropped := (case tsDst ts of None \<Rightarrow> tsDropped ts | Some old \<Rightarrow> old # tsDropped ts),
                     tsPolicy := sp, tsTarget := newDst, tsPort := port\<rparr>, w))
     }"

text \<open>\<^verbatim>\<open>SniffOverrideAlways\<close> and \<^verbatim>\<open>SniffOverridePolicyExists\<close>.\<close>

definition override_dst ::
  "('r, 'n, 'd) server \<Rightarrow> client_hello \<Rightarrow> string \<Rightarrow> session \<Rightarrow> ('r, 'n, 'd) world \<Rightarrow> (bool \<times> session \<times> ('r, 'n, 'd) world) option" where
  "override_dst srv ch sni ts w =
     do {
       (v, route) \<leftarrow> genPolicy (Some (srvLogger srv)) (srvRoute srv) (srvResolve srv) sni False
          (\<not> tsFromSNI ts \<and> pSniffOverrideMode (tsPolicy ts) = SniffOverridePolicyExists) (wRoute w);
       let w = w\<lparr>wRoute := route\<rparr>;
       (if vFailed v then Some (\<not> tsFromSNI ts, ts, w)
        else if vNotFound v then Some (True, ts, w)
        else if vBlocked v then Some (False, ts, w)
        else do {
          sp \<leftarrow> vPolicy v;
          (if pMode sp = ModeTLSAlert then do {
             ts \<leftarrow> sendTLSAlert (prtVer ch) tlsAlertAccessDenied tlsAlertLevelFatal ts;
             Some (False, ts, w)
           }
           else do {
             (ok, ts) \<leftarrow> checkTLS13Only (isTLS13 ch) sp (prtVer ch) ts;
             (if ok then switch_dst srv (vHost v) sp ts w else Some (False, ts, w))
           })
        })
     }"

definition sniff_sni ::
  "('r, 'n, 'd) server \<Rightarrow> client_hello \<Rightarrow> string \<Rightarrow> session \<Rightarrow> ('r, 'n, 'd) world \<Rightarrow> (bool \<times> session \<times> ('r, 'n, 'd) world) option" where
  "sniff_sni srv ch sni ts w =
     (if tsFromSNI ts \<or> tsOriginHost ts \<noteq> sni then
        (let ts = (if tsFromSNI ts then ts\<lparr>tsOriginHost := sni\<rparr> else ts)
         in case pSniffOverrideMode (tsPolicy ts) of
              SniffOverrideRouteOnly \<Rightarrow> do { (ok, ts) \<leftarrow> route_only srv ch sni ts; Some (ok, ts, w) }
            | SniffOverrideAlways \<Rightarrow> override_dst srv ch sni ts w
            | SniffOverridePolicyExists \<Rightarrow> override_dst srv ch sni ts w
            | _ \<Rightarrow> Some (True, ts, w))
      else Some (True, ts, w))"

text \<open>
  From the server name to whether to go on, and the mode it forces (\<^verbatim>\<open>ModeUnset\<close>: none).
\<close>

definition sniff ::
  "('r, 'n, 'd) server \<Rightarrow> client_hello \<Rightarrow> bytes \<Rightarrow> session \<Rightarrow> ('r, 'n, 'd) world \<Rightarrow> ((bool \<times> mode) \<times> session \<times> ('r, 'n, 'd) world) option" where
  "sniff srv ch rec ts w =
     (if sniStart ch \<le> 0 then Some ((\<not> tsFromSNI ts, ModeDirect), ts, w)
      else do {
        name \<leftarrow> slice rec (nat (sniStart ch)) (nat (sniStart ch) + sniLen ch);
        (if hasECH ch then
           Some ((\<not> tsFromSNI ts, if is_true (pDisableECHPassthrough (tsPolicy ts)) then ModeUnset else ModeDirect), ts, w)
         else do {
           (ok, ts, w) \<leftarrow> sniff_sni srv ch (bytes_string name) ts w;
           Some ((ok, ModeUnset), ts, w)
         })
      })"

section \<open>Sending the ClientHello\<close>

definition minor_of :: "policy \<Rightarrow> byte option" where
  "minor_of p = (if byte_is_zero (pMinorVer p) then None else Some (byteVal (pMinorVer p)))"

definition opts_of :: "policy \<Rightarrow> send_opts" where
  "opts_of p = \<lparr>soOob = is_true (pOOB p), soOobex = is_true (pOOBEx p), soWaitForAck = is_true (pWaitForAck p)\<rparr>"

definition send_hello ::
  "('r, 'n, 'd) server \<Rightarrow> mode \<Rightarrow> client_hello \<Rightarrow> bytes \<Rightarrow> session \<Rightarrow> ('r, 'n, 'd) world \<Rightarrow> (bool \<times> session \<times> ('r, 'n, 'd) world) option" where
  "send_hello srv mode ch rec ts w =
     (let p = tsPolicy ts; start = nat (sniStart ch); len = sniLen ch in
      case mode of
        ModeDirect \<Rightarrow> do { (r, ts) \<leftarrow> write_dst (conn_write rec) ts; Some (\<not> isl r, ts, w) }
      | ModeRaw \<Rightarrow> do { (r, ts) \<leftarrow> write_dst (conn_write rec) ts; Some (\<not> isl r, ts, w) }
      | ModeTLSRF \<Rightarrow> do {
          (r, ts) \<leftarrow> write_dst (sendRecords rec start len (pNumRecords p) (pNumSegments p) (minor_of p) (opts_of p)) ts;
          Some (\<not> isl r, ts, w)
        }
      | ModeTTLD \<Rightarrow> do {
          (_, remote) \<leftarrow> tsDst ts;
          (x, t) \<leftarrow> getFakeTTL (srvTTL srv) (srvCalc srv) (Some (srvLogger srv)) p remote (wTTL w);
          let w = w\<lparr>wTTL := t\<rparr>;
          (case x of
             Inl e \<Rightarrow> Some (False, ts, w)
           | Inr ttl \<Rightarrow> do { (r, ts) \<leftarrow> write_dst (desyncSend rec start len ttl) ts; Some (\<not> isl r, ts, w) })
        }
      | _ \<Rightarrow> Some (True, ts, w))"

text \<open>The part of \<^verbatim>\<open>handleTLS\<close> after parsing, then the whole.\<close>

definition finish_tls ::
  "('r, 'n, 'd) server \<Rightarrow> client_hello \<Rightarrow> bytes \<Rightarrow> session \<Rightarrow> ('r, 'n, 'd) world \<Rightarrow> (bool \<times> session \<times> ('r, 'n, 'd) world) option" where
  "finish_tls srv ch rec ts w =
     do {
       ((ok, mode), ts, w) \<leftarrow> sniff srv ch rec ts w;
       (if \<not> ok then Some (False, ts, w)
        else do {
          (ok, ts, w) \<leftarrow> ensure_dst srv ts w;
          (if \<not> ok then Some (False, ts, w)
           else send_hello srv (if mode = ModeUnset then pMode (tsPolicy ts) else mode) ch rec ts w)
        })
     }"

definition handleTLS ::
  "('r, 'n, 'd) server \<Rightarrow> nat \<Rightarrow> session \<Rightarrow> ('r, 'n, 'd) world \<Rightarrow> (bool \<times> session \<times> ('r, 'n, 'd) world) option" where
  "handleTLS srv recordLen ts w =
     (let rec = take recordLen (tsInput ts); ts = ts\<lparr>tsInput := drop recordLen (tsInput ts)\<rparr> in
      if length rec < recordLen then Some (False, ts, w)
      else do {
        ch \<leftarrow> parseClientHello rec;
        (if chErr ch \<noteq> None then Some (False, ts, w)
         else if pMode (tsPolicy ts) = ModeTLSAlert then do {
           ts \<leftarrow> sendTLSAlert (prtVer ch) tlsAlertAccessDenied tlsAlertLevelFatal ts;
           Some (False, ts, w)
         }
         else do {
           (ok, ts) \<leftarrow> checkTLS13Only (isTLS13 ch) (tsPolicy ts) (prtVer ch) ts;
           (if ok then finish_tls srv ch rec ts w else Some (False, ts, w))
         })
      })"

section \<open>HTTP\<close>

record http_request =
  reqHost :: string
  reqURLHost :: string
  reqProto :: string
  reqURI :: string

text \<open>
  \<^verbatim>\<open>net/http\<close>: reading a request (what it leaves to read, also on an error), writing one, the
  text of a status, and a response without a body: its status line, protocol and location.
\<close>

record http_ops =
  httpRead :: "bytes \<Rightarrow> (error + http_request) \<times> bytes"
  httpWrite :: "http_request \<Rightarrow> bytes"
  httpStatusText :: "int \<Rightarrow> string"
  httpRespond :: "string \<Rightarrow> int \<Rightarrow> string \<Rightarrow> string option \<Rightarrow> bytes"

definition status502 :: string where "status502 = ''502 Bad Gateway''"

definition handleHTTP ::
  "http_ops \<Rightarrow> ('r, 'n, 'd) server \<Rightarrow> http_request \<Rightarrow> session \<Rightarrow> ('r, 'n, 'd) world \<Rightarrow> (bool \<times> session \<times> ('r, 'n, 'd) world) option" where
  "handleHTTP h srv req ts w =
     (let host = (if reqHost req \<noteq> [] then reqHost req else if reqURLHost req \<noteq> [] then reqURLHost req else tsOriginHost ts);
          code = pHttpStatus (tsPolicy ts) in
      if code \<noteq> 0 \<and> code \<noteq> unsetInt then do {
        let line = show_int code @ '' '' @ httpStatusText h code;
        let loc = (if code = 301 \<or> code = 302 then Some (''https://'' @ host @ reqURI req) else None);
        (_, c) \<leftarrow> conn_write (httpRespond h line code (reqProto req) loc) (tsCli ts);
        Some (False, ts\<lparr>tsCli := c\<rparr>, w)
      }
      else do {
        (ok, ts, w) \<leftarrow> ensure_dst srv ts w;
        (if \<not> ok then do {
           (_, c) \<leftarrow> conn_write (httpRespond h status502 502 (reqProto req) None) (tsCli ts);
           Some (False, ts\<lparr>tsCli := c\<rparr>, w)
         }
         else do {
           (r, ts) \<leftarrow> write_dst (conn_write (httpWrite h req)) ts;
           Some (\<not> isl r, ts, w)
         })
      })"

definition bytesHasPrefix :: "bytes \<Rightarrow> string list \<Rightarrow> bool" where
  "bytesHasPrefix b ps = list_ex (\<lambda>p. bytes_string (take (length p) b) = p) ps"

section \<open>The tunnel\<close>

text \<open>
  The first \<open>n\<close> bytes left to read are in the buffer of the reader; they are written before
  the two directions are copied, for which both connections are needed.
\<close>

definition drainBuffered :: "nat \<Rightarrow> session \<Rightarrow> (bool \<times> session) option" where
  "drainBuffered n ts =
     (if take n (tsInput ts) \<noteq> [] then do {
        (r, ts') \<leftarrow> write_dst (conn_write (take n (tsInput ts))) ts;
        Some (\<not> isl r, ts'\<lparr>tsInput := drop n (tsInput ts)\<rparr>)
      }
      else Some (True, ts))"

definition forwardTCP :: "session \<Rightarrow> session option" where
  "forwardTCP ts = (case tsDst ts of None \<Rightarrow> None | Some _ \<Rightarrow> Some ts)"

datatype tunnel_end = Closed | Forwarding

text \<open>\<open>n\<close>: how much is buffered when the first packet has been dealt with, at least the peeked bytes when nothing was read.\<close>

definition end_tunnel :: "nat \<Rightarrow> session \<Rightarrow> 'w \<Rightarrow> (tunnel_end \<times> session \<times> 'w) option" where
  "end_tunnel n ts w = do {
     (ok, ts) \<leftarrow> drainBuffered n ts;
     (if ok then do { ts \<leftarrow> forwardTCP ts; Some (Forwarding, ts, w) } else Some (Closed, ts, w))
   }"

definition handleTunnel ::
  "http_ops \<Rightarrow> ('r, 'n, 'd) server \<Rightarrow> nat \<Rightarrow> session \<Rightarrow> ('r, 'n, 'd) world \<Rightarrow> (tunnel_end \<times> session \<times> ('r, 'n, 'd) world) option" where
  "handleTunnel h srv n ts w =
     (if pMode (tsPolicy ts) = ModeRaw then do {
        (ok, ts, w) \<leftarrow> ensure_dst srv ts w;
        (if ok then do { ts \<leftarrow> forwardTCP ts; Some (Forwarding, ts, w) } else Some (Closed, ts, w))
      }
      else if length (tsInput ts) < 10 then Some (Closed, ts, w)
      else
        let peek = take 10 (tsInput ts) in
        if peek ! 0 = tlsRecordTypeHandshake then
          (if peek ! 1 = tlsMajorVersion then do {
             (ok, ts, w) \<leftarrow> handleTLS srv (5 + be16 (peek ! 3) (peek ! 4)) ts w;
             (if ok then end_tunnel n ts w else Some (Closed, ts, w))
           }
           else end_tunnel (max 10 n) ts w)
        else if bytesHasPrefix peek [''GET '', ''POST '', ''HEAD '', ''PUT '', ''DELETE '', ''OPTIONS '', ''TRACE '', ''PATCH '']
        then
          (let (x, rest) = httpRead h (tsInput ts); ts = ts\<lparr>tsInput := rest\<rparr>
           in case x of
                Inl e \<Rightarrow> end_tunnel n ts w
              | Inr req \<Rightarrow> do {
                  (ok, ts, w) \<leftarrow> handleHTTP h srv req ts w;
                  (if ok then end_tunnel n ts w else Some (Closed, ts, w))
                })
        else end_tunnel (max 10 n) ts w)"

end
