(* ===== verification/Http_Proxy.thy ===== *)
theory Http_Proxy
  imports Tunnel Dial
begin

text \<open>
  \<^verbatim>\<open>internal/core/http.go\<close>: the HTTP proxy, from a request to the tunnel or to the answer. Parsing
  requests and writing answers is \<^verbatim>\<open>net/http\<close>: a request is a record, what the handler writes is
  its result. \<^verbatim>\<open>Hijack\<close> and \<^verbatim>\<open>RoundTrip\<close> are parameters.
\<close>

section \<open>Splitting host and port\<close>

text \<open>\<^verbatim>\<open>net.SplitHostPort\<close>; \<open>None\<close> is an error.\<close>

definition split_host_port :: "string \<Rightarrow> (string \<times> string) option" where
  "split_host_port hp =
     (case last_index_byte CHR '':'' hp of
        None \<Rightarrow> None
      | Some i \<Rightarrow>
          if has_prefix hp ''['' then
            (case index_byte CHR '']'' hp of
               None \<Rightarrow> None
             | Some e \<Rightarrow>
                 if e + 1 \<noteq> i then None
                 else if CHR ''['' \<in> set (drop 1 hp) \<or> CHR '']'' \<in> set (drop (e + 1) hp) then None
                 else Some (take (e - 1) (drop 1 hp), drop (i + 1) hp))
          else if CHR '':'' \<in> set (take i hp) \<or> CHR ''['' \<in> set hp \<or> CHR '']'' \<in> set hp then None
          else Some (take i hp, drop (i + 1) hp))"

lemma split_join_host_port:
  assumes "{CHR ''['', CHR '']''} \<inter> set host = {}" and "{CHR '':'', CHR ''['', CHR '']''} \<inter> set port = {}"
  shows "split_host_port (join_host_port host port) = Some (host, port)"
proof (cases "CHR '':'' \<in> set host")
  case True
  let ?hp = "''['' @ host @ '']:'' @ port"
  have l: "last_index_byte CHR '':'' (''['' @ host @ '']'' @ CHR '':'' # port) = Some (length host + 2)"
    using assms last_index_byte_append [of "CHR '':''" port "''['' @ host @ '']''"] by simp
  have i: "index_byte CHR '']'' ((CHR ''['' # host) @ CHR '']'' # CHR '':'' # port) = Some (length host + 1)"
    using assms index_byte_append [of "CHR '']''" "CHR ''['' # host" "CHR '':'' # port"] by simp
  show ?thesis
    using True assms l i by (simp add: split_host_port_def join_host_port_def del: index_byte.simps last_index_byte.simps)
next
  case False
  have l: "last_index_byte CHR '':'' (host @ CHR '':'' # port) = Some (length host)"
    using assms by (intro last_index_byte_append) auto
  have p: "\<not> has_prefix (host @ CHR '':'' # port) ''[''"
    using assms by (cases host) auto
  show ?thesis using False assms l p by (simp add: split_host_port_def join_host_port_def)
qed

section \<open>Requests and answers\<close>

record proxy_request =
  prMethod :: string
  prHost :: string
  prAbs :: bool
  prScheme :: string
  prURLHost :: string
  prURI :: string
  prHeaders :: "(string \<times> string list) list"

text \<open>What the reads of a body give, up to its end or an error.\<close>

datatype body_read = BodyBytes bytes | BodyError error

record proxy_response =
  rpStatus :: int
  rpHeaders :: "(string \<times> string list) list"
  rpBody :: "body_read list"

text \<open>
  What becomes of the connection when it is taken over: bytes that were read ahead, the
  connection, and what the client is still to send.
\<close>

datatype hijack = NoHijacker | HijackError error | OtherConn | Hijacked bytes conn bytes

text \<open>
  \<open>Answered\<close>: \<^verbatim>\<open>http.Error\<close>. \<open>Status\<close>: a status and a location. \<open>Unanswered\<close>: the handler returns
  and has written nothing, to which \<^verbatim>\<open>net/http\<close> answers with the status 200. \<open>Dropped\<close>: the connection
  that was taken over is closed, with the connections closed with it. \<open>Lost\<close>: closed without an answer.
  \<open>Relayed\<close>: the status, the headers and as much of the body as was written, with the error that ended it.
\<close>

datatype http_end =
    Answered int string
  | Status int "string option"
  | Unanswered
  | Relayed int "(string \<times> string list) list" bytes "error option"
  | Dropped conn "link list"
  | Lost
  | Tunnelled session

definition status500 :: string where "status500 = ''500 Internal Server Error''"
definition status403 :: string where "status403 = ''403 Forbidden''"

definition string_bytes :: "string \<Rightarrow> bytes" where
  "string_bytes s = map of_char s"

definition crlf :: string where "crlf = [CHR 0x0D, CHR 0x0A]"

definition reply200 :: bytes where "reply200 = string_bytes (''HTTP/1.1 200 Connection Established'' @ crlf @ crlf)"
definition reply502 :: bytes where "reply502 = string_bytes (''HTTP/1.1 502 Bad Gateway'' @ crlf @ crlf)"

definition dst_port :: "policy \<Rightarrow> string \<Rightarrow> string" where
  "dst_port p port = (if pPort p \<noteq> 0 \<and> pPort p \<noteq> unsetInt then show_int (pPort p) else port)"

section \<open>CONNECT\<close>

text \<open>From the connection taken over to the session; what was read ahead is not passed on. Closing a nil connection panics.\<close>

definition http_open ::
  "('r, 'n, 'd) server \<Rightarrow> hijack \<Rightarrow> string \<Rightarrow> string \<Rightarrow> dst option \<Rightarrow> policy \<Rightarrow> ('r, 'n, 'd) world \<Rightarrow> (http_end \<times> ('r, 'n, 'd) world) option" where
  "http_open srv hj host port dstHost p w =
     (case hj of
        NoHijacker \<Rightarrow> Some (Answered 500 status500, w)
      | HijackError e \<Rightarrow> Some (Answered 500 status500, w)
      | OtherConn \<Rightarrow> Some (Lost, w)
      | Hijacked buffered c inp \<Rightarrow>
          let ts = (\<lambda>l c. \<lparr>tsPolicy = p, tsCli = c, tsDst = l, tsDropped = [], tsTarget = dstHost, tsOriginHost = host,
                 tsOriginPort = port, tsPort = dst_port p port, tsFromSNI = False, tsInput = inp\<rparr>)
          in if is_true (pReplyFirst p) then do {
               (r, c) \<leftarrow> conn_write reply200 c;
               Some (if isl r then Dropped c [] else Tunnelled (ts None c), w)
             }
             else do {
               (r, n) \<leftarrow> srvDial srv dstHost (dst_port p port) (pConnectTimeout p) (pDialDelay p) (wNet w);
               let w = w\<lparr>wNet := n\<rparr>;
               (case r of
                  Inl e \<Rightarrow> do { (_, c) \<leftarrow> conn_write reply502 c; Some (Dropped c [], w) }
                | Inr l \<Rightarrow> do {
                    (r, c) \<leftarrow> conn_write reply200 c;
                    (if isl r then do { l \<leftarrow> l; Some (Dropped c [l], w) } else Some (Tunnelled (ts l c), w))
                  })
             })"

definition handleHTTPConnect ::
  "('r, 'n, 'd) server \<Rightarrow> hijack \<Rightarrow> proxy_request \<Rightarrow> ('r, 'n, 'd) world \<Rightarrow> (http_end \<times> ('r, 'n, 'd) world) option" where
  "handleHTTPConnect srv hj req w =
     (if prHost req = [] then Some (Answered 400 [], w)
      else case split_host_port (prHost req) of
        None \<Rightarrow> Some (Unanswered, w)
      | Some (host, port) \<Rightarrow> do {
          (v, route) \<leftarrow> genPolicy (Some (srvLogger srv)) (srvRoute srv) (srvResolve srv) host False False (wRoute w);
          let w = w\<lparr>wRoute := route\<rparr>;
          (if vFailed v then Some (Answered 500 status500, w)
           else if vBlocked v then Some (Answered 403 status403, w)
           else do {
             p \<leftarrow> vPolicy v;
             (if pMode p = ModeBlock then Some (Answered 403 status403, w)
              else http_open srv hj host port (vHost v) p w)
           })
        })"

section \<open>Other requests\<close>

text \<open>The headers of one connection, by their canonical names.\<close>

definition hop_headers :: "string list" where
  "hop_headers = [''Connection'', ''Keep-Alive'', ''Proxy-Authorization'', ''Proxy-Connection'', ''Te'', ''Trailer'',
     ''Transfer-Encoding'', ''Upgrade'']"

definition out_request :: "proxy_request \<Rightarrow> proxy_request" where
  "out_request req = req\<lparr>prHeaders := filter (\<lambda>h. fst h \<notin> set hop_headers) (prHeaders req)\<rparr>"

text \<open>
  \<^verbatim>\<open>io.Copy\<close> of the body to the client: what was written, and the error of a read or a write. For
  every write to the client: it succeeds, or how much of it is written and the error; writes that
  are not listed succeed.
\<close>

fun copy_body :: "(nat \<times> error) option list \<Rightarrow> body_read list \<Rightarrow> bytes \<times> error option" where
  "copy_body ws [] = ([], None)"
| "copy_body ws (BodyError e # rs) = ([], Some e)"
| "copy_body (Some (n, e) # ws) (BodyBytes b # rs) = (take n b, Some e)"
| "copy_body (None # ws) (BodyBytes b # rs) = map_prod ((@) b) id (copy_body ws rs)"
| "copy_body [] (BodyBytes b # rs) = map_prod ((@) b) id (copy_body [] rs)"

text \<open>
  The response for the client, who has had no header of this one yet. \<^verbatim>\<open>WriteHeader\<close> panics for a
  status outside of 100 to 999.
\<close>

definition relay :: "(nat \<times> error) option list \<Rightarrow> proxy_response \<Rightarrow> http_end option" where
  "relay ws resp =
     (if rpStatus resp < 100 \<or> 999 < rpStatus resp then None
      else let (b, e) = copy_body ws (rpBody resp) in Some (Relayed (rpStatus resp) (rpHeaders resp) b e))"

text \<open>\<open>trip\<close>: \<^verbatim>\<open>RoundTrip\<close> of a fresh transport, which dials by the function it is given.\<close>

definition forwardHTTPRequest ::
  "('r, 'n, 'd) server \<Rightarrow> (proxy_request \<Rightarrow> error + link option \<Rightarrow> error + proxy_response) \<Rightarrow> (nat \<times> error) option list \<Rightarrow>
   proxy_request \<Rightarrow> ('r, 'n, 'd) world \<Rightarrow> (http_end \<times> ('r, 'n, 'd) world) option" where
  "forwardHTTPRequest srv trip ws req w =
     (if prScheme req \<noteq> ''http'' then Some (Unanswered, w)
      else if prURLHost req = [] then Some (Answered 400 ''400 Bad Request'', w)
      else
        let (host, port) = (case split_host_port (prURLHost req) of None \<Rightarrow> (prURLHost req, ''80'') | Some hp \<Rightarrow> hp) in do {
          (v, route) \<leftarrow> genPolicy (Some (srvLogger srv)) (srvRoute srv) (srvResolve srv) host False False (wRoute w);
          let w = w\<lparr>wRoute := route\<rparr>;
          (if vFailed v then Some (Answered 500 status500, w)
           else if vBlocked v then Some (Answered 403 status403, w)
           else do {
             p \<leftarrow> vPolicy v;
             let code = pHttpStatus p;
             (if code \<noteq> 0 \<and> code \<noteq> unsetInt then
                (if code < 100 \<or> 999 < code then None
                 else Some (Status code
                   (if code = 301 \<or> code = 302 then Some (''https://'' @ prURLHost req @ prURI req) else None), w))
              else do {
                (r, n) \<leftarrow> srvDial srv (vHost v) (dst_port p port) (pConnectTimeout p) (pDialDelay p) (wNet w);
                e \<leftarrow> (case trip (out_request req) r of
                        Inl e \<Rightarrow> Some (Answered 502 status502)
                      | Inr resp \<Rightarrow> relay ws resp);
                Some (e, w\<lparr>wNet := n\<rparr>)
              })
           })
        })"

definition httpHandler ::
  "http_ops \<Rightarrow> ('r, 'n, 'd) server \<Rightarrow> (proxy_request \<Rightarrow> error + link option \<Rightarrow> error + proxy_response) \<Rightarrow> (nat \<times> error) option list \<Rightarrow>
   hijack \<Rightarrow> nat \<Rightarrow> proxy_request \<Rightarrow> ('r, 'n, 'd) world \<Rightarrow> (http_end \<times> (tunnel_end \<times> session) option \<times> ('r, 'n, 'd) world) option" where
  "httpHandler h srv trip ws hj n req w =
     (if prMethod req = ''CONNECT'' then do {
        (e, w) \<leftarrow> handleHTTPConnect srv hj req w;
        (case e of
           Tunnelled ts \<Rightarrow> do { (r, ts, w) \<leftarrow> handleTunnel h srv n ts w; Some (e, Some (r, ts), w) }
         | _ \<Rightarrow> Some (e, None, w))
      }
      else if \<not> prAbs req then Some (Answered 403 status403, None, w)
      else do { (e, w) \<leftarrow> forwardHTTPRequest srv trip ws req w; Some (e, None, w) })"

end
