(* ===== verification/Socks5.thy ===== *)
theory Socks5
  imports Tunnel Dns
begin

text \<open>
  \<^verbatim>\<open>internal/core/socks5.go\<close> and \<^verbatim>\<open>sniproxy.go\<close>: from an accepted connection to the tunnel. The
  bytes the client is still to send are a list; reading past its end is the error of
  \<^verbatim>\<open>io.ReadFull\<close>. What was written to the client is in its connection. The pool of buffers,
  which never changes what is read, and log lines that cannot panic are left out.
\<close>

section \<open>Reading and replying\<close>

definition socks5NoAuthReply :: bytes where "socks5NoAuthReply = [5, 0]"
definition socks5ReplySuccess :: bytes where "socks5ReplySuccess = [5, 0, 0, 1, 0, 0, 0, 0, 0, 0]"
definition socks5ReplyServerFailure :: bytes where "socks5ReplyServerFailure = [5, 1, 0, 1, 0, 0, 0, 0, 0, 0]"
definition socks5ReplyConnNotAllowed :: bytes where "socks5ReplyConnNotAllowed = [5, 2, 0, 1, 0, 0, 0, 0, 0, 0]"
definition socks5ReplyCmdNotSupported :: bytes where "socks5ReplyCmdNotSupported = [5, 7, 0, 1, 0, 0, 0, 0, 0, 0]"
definition socks5ReplyAtypNotSupported :: bytes where "socks5ReplyAtypNotSupported = [5, 8, 0, 1, 0, 0, 0, 0, 0, 0]"

definition readN :: "nat \<Rightarrow> bytes \<Rightarrow> (bytes \<times> bytes) option" where
  "readN n inp = (if n \<le> length inp then Some (take n inp, drop n inp) else None)"

text \<open>A reply and whether it was sent.\<close>

definition sendReply :: "bytes \<Rightarrow> conn \<Rightarrow> (bool \<times> conn) option" where
  "sendReply reply c = do { (r, c) \<leftarrow> conn_write reply c; Some (\<not> isl r, c) }"

text \<open>The address of a request: a failed read or a bad length, an unknown type, or the host, whether it is an address, and the rest.\<close>

datatype socks5_address = AddressError | AddressType | Address string bool bytes

definition read_address :: "byte \<Rightarrow> bytes \<Rightarrow> socks5_address" where
  "read_address atyp inp =
     (if atyp = 1 then (case readN 4 inp of None \<Rightarrow> AddressError | Some (ip, inp) \<Rightarrow> Address (net_ip_string ip) True inp)
      else if atyp = 4 then (case readN 16 inp of None \<Rightarrow> AddressError | Some (ip, inp) \<Rightarrow> Address (net_ip_string ip) True inp)
      else if atyp = 3 then
        (case readN 1 inp of
           None \<Rightarrow> AddressError
         | Some (l, inp) \<Rightarrow>
             if l ! 0 = 0 \<or> 253 < unat (l ! 0) then AddressError
             else (case readN (unat (l ! 0)) inp of
                     None \<Rightarrow> AddressError
                   | Some (name, inp) \<Rightarrow> Address (bytes_string name) False inp))
      else AddressType)"

section \<open>The handler\<close>

text \<open>How the negotiation ends: closed, with the connections closed with it, or with the session of a tunnel.\<close>

datatype socks5_end = Refused conn "link list" | Opened session

type_synonym ('r, 'n, 'd) socks5_result = "(socks5_end \<times> ('r, 'n, 'd) world) option"

definition refuse :: "bytes option \<Rightarrow> conn \<Rightarrow> ('r, 'n, 'd) world \<Rightarrow> ('r, 'n, 'd) socks5_result" where
  "refuse reply c w =
     (case reply of
        None \<Rightarrow> Some (Refused c [], w)
      | Some b \<Rightarrow> do { (_, c) \<leftarrow> sendReply b c; Some (Refused c [], w) })"

text \<open>
  After routing: the port, the connection unless the reply comes first, and the reply. Closing a nil
  connection panics.
\<close>

definition socks5_connect ::
  "('r, 'n, 'd) server \<Rightarrow> string \<Rightarrow> dst option \<Rightarrow> policy \<Rightarrow> bytes \<Rightarrow> conn \<Rightarrow> ('r, 'n, 'd) world \<Rightarrow> ('r, 'n, 'd) socks5_result" where
  "socks5_connect srv originHost dstHost p inp c w =
     (case readN 2 inp of
        None \<Rightarrow> refuse None c w
      | Some (pb, inp) \<Rightarrow>
          let dstPort = be16 (pb ! 0) (pb ! 1); originPort = show_nat dstPort;
              port = show_nat (if pPort p \<noteq> 0 \<and> pPort p \<noteq> unsetInt then nat (pPort p mod 65536) else dstPort);
              open = (\<lambda>l c. \<lparr>tsPolicy = p, tsCli = c, tsDst = l, tsDropped = [], tsTarget = dstHost, tsOriginHost = originHost,
                 tsOriginPort = originPort, tsPort = port, tsFromSNI = False, tsInput = inp\<rparr>)
          in if is_true (pReplyFirst p) then do {
               (ok, c) \<leftarrow> sendReply socks5ReplySuccess c;
               Some (if ok then Opened (open None c) else Refused c [], w)
             }
             else do {
               (r, n) \<leftarrow> srvDial srv dstHost port (pConnectTimeout p) (pDialDelay p) (wNet w);
               let w = w\<lparr>wNet := n\<rparr>;
               (case r of
                  Inl e \<Rightarrow> refuse (Some socks5ReplyServerFailure) c w
                | Inr l \<Rightarrow> do {
                    (ok, c) \<leftarrow> sendReply socks5ReplySuccess c;
                    (if ok then Some (Opened (open l c), w) else do { l \<leftarrow> l; Some (Refused c [l], w) })
                  })
             })"

definition socks5_route ::
  "('r, 'n, 'd) server \<Rightarrow> string \<Rightarrow> bool \<Rightarrow> bytes \<Rightarrow> conn \<Rightarrow> ('r, 'n, 'd) world \<Rightarrow> ('r, 'n, 'd) socks5_result" where
  "socks5_route srv originHost isIP inp c w =
     do {
       (v, route) \<leftarrow> genPolicy (Some (srvLogger srv)) (srvRoute srv) (srvResolve srv) originHost isIP False (wRoute w);
       let w = w\<lparr>wRoute := route\<rparr>;
       (if vFailed v then refuse (Some socks5ReplyServerFailure) c w
        else if vBlocked v then refuse (Some socks5ReplyConnNotAllowed) c w
        else do { p \<leftarrow> vPolicy v; socks5_connect srv originHost (vHost v) p inp c w })
     }"

definition socks5_request :: "('r, 'n, 'd) server \<Rightarrow> bytes \<Rightarrow> conn \<Rightarrow> ('r, 'n, 'd) world \<Rightarrow> ('r, 'n, 'd) socks5_result" where
  "socks5_request srv inp c w =
     (case readN 4 inp of
        None \<Rightarrow> refuse None c w
      | Some (h, inp) \<Rightarrow>
          if h ! 0 \<noteq> 5 then refuse None c w
          else if h ! 1 \<noteq> 1 then refuse (Some socks5ReplyCmdNotSupported) c w
          else (case read_address (h ! 3) inp of
                  AddressError \<Rightarrow> refuse None c w
                | AddressType \<Rightarrow> refuse (Some socks5ReplyAtypNotSupported) c w
                | Address host isIP inp \<Rightarrow> socks5_route srv host isIP inp c w))"

definition socks5_open :: "('r, 'n, 'd) server \<Rightarrow> bytes \<Rightarrow> conn \<Rightarrow> ('r, 'n, 'd) world \<Rightarrow> ('r, 'n, 'd) socks5_result" where
  "socks5_open srv inp c w =
     (case readN 2 inp of
        None \<Rightarrow> refuse None c w
      | Some (h, inp) \<Rightarrow>
          if h ! 0 \<noteq> 5 then refuse None c w
          else (case readN (unat (h ! 1)) inp of
                  None \<Rightarrow> refuse None c w
                | Some (methods, inp) \<Rightarrow>
                    if 0 \<notin> set methods then refuse None c w
                    else do {
                      (ok, c) \<leftarrow> sendReply socks5NoAuthReply c;
                      (if ok then socks5_request srv inp c w else refuse None c w)
                    }))"

definition socks5Handler ::
  "http_ops \<Rightarrow> ('r, 'n, 'd) server \<Rightarrow> nat \<Rightarrow> bytes \<Rightarrow> conn \<Rightarrow> ('r, 'n, 'd) world \<Rightarrow>
   (tunnel_end \<times> session option \<times> ('r, 'n, 'd) world) option" where
  "socks5Handler h srv n inp c w =
     do {
       (e, w) \<leftarrow> socks5_open srv inp c w;
       (case e of
          Refused c ls \<Rightarrow> Some (Closed, None, w)
        | Opened ts \<Rightarrow> do { (r, ts, w) \<leftarrow> handleTunnel h srv n ts w; Some (r, Some ts, w) })
     }"

section \<open>The SNI proxy\<close>

text \<open>\<^verbatim>\<open>handleTunnelSNI\<close>: the policy is the zero policy with \<^verbatim>\<open>sniff_override: always\<close>; \<open>n\<close> as for the tunnel.\<close>

definition sni_session :: "string \<Rightarrow> bytes \<Rightarrow> conn \<Rightarrow> session" where
  "sni_session port inp c =
     \<lparr>tsPolicy = zero_policy\<lparr>pSniffOverrideMode := SniffOverrideAlways\<rparr>, tsCli = c, tsDst = None, tsDropped = [],
      tsTarget = None, tsOriginHost = [], tsOriginPort = port, tsPort = [], tsFromSNI = True, tsInput = inp\<rparr>"

definition handleTunnelSNI ::
  "('r, 'n, 'd) server \<Rightarrow> nat \<Rightarrow> string \<Rightarrow> bytes \<Rightarrow> conn \<Rightarrow> ('r, 'n, 'd) world \<Rightarrow> (tunnel_end \<times> session \<times> ('r, 'n, 'd) world) option" where
  "handleTunnelSNI srv n port inp c w =
     (let ts = sni_session port inp c in
      if length inp < 5 then Some (Closed, ts, w)
      else if inp ! 0 \<noteq> tlsRecordTypeHandshake \<or> inp ! 1 \<noteq> tlsMajorVersion then Some (Closed, ts, w)
      else do {
        (ok, ts, w) \<leftarrow> handleTLS srv (5 + be16 (inp ! 3) (inp ! 4)) ts w;
        (if ok then end_tunnel n ts w else Some (Closed, ts, w))
      })"

section \<open>Identifiers and delays of the accept loops\<close>

definition maxConnID :: nat where "maxConnID = 0xfffff"

definition next_conn_id :: "32 word \<Rightarrow> 32 word" where
  "next_conn_id old = (let new = old + 1 in if unat new > maxConnID then 1 else new)"

text \<open>
  The loop of \<^verbatim>\<open>serveSOCKS5\<close> and \<^verbatim>\<open>serveSNIProxy\<close>: the identifier and the delay so far, and what
  \<^verbatim>\<open>Accept\<close> returns. The delay is the maximum with a second, where the minimum would bound it,
  and a success does not reset it.
\<close>

datatype accept_result = Accepted | TemporaryFailure | FatalFailure

datatype serve_event = Handle "32 word" | Sleep int | Stop

definition temp_delay :: "int \<Rightarrow> int" where
  "temp_delay d = max second (if d = 0 then 5 * millisecond else int64 (d * 2))"

fun serve_loop :: "accept_result list \<Rightarrow> 32 word \<Rightarrow> int \<Rightarrow> serve_event list" where
  "serve_loop [] i d = []"
| "serve_loop (a # as) i d =
     (case a of
        Accepted \<Rightarrow> Handle (next_conn_id i) # serve_loop as (next_conn_id i) d
      | TemporaryFailure \<Rightarrow> Sleep (temp_delay d) # serve_loop as i (temp_delay d)
      | FatalFailure \<Rightarrow> [Stop])"

end
