(* ===== verification/TTL_Spec.thy ===== *)
theory TTL_Spec
  imports TTL_Probe
begin

text \<open>
  Properties of the TTL rules and of probing: which rule applies, that probing ends and finds
  the least TTL of a steady network, that the fake packet of the default rule does not reach
  the server, and the policies for which probing never ends.
\<close>

section \<open>Rules\<close>

lemma int64_id [simp]: "- (2 ^ 63) \<le> x \<Longrightarrow> x < 2 ^ 63 \<Longrightarrow> int64 x = x"
  by (simp add: int64_def signed_take_bit_int_eq_self)

lemma digits_int_snoc: "digits_int (s @ [c]) = int64 (int64 (digits_int s * 10) + int (digit_val c))"
  by (simp add: digits_int_def)

lemma digits_int_show_nat: "n < 2 ^ 63 \<Longrightarrow> digits_int (show_nat n) = int n"
proof (induction n rule: show_nat.induct)
  case (1 n)
  show ?case
  proof (cases "n < 10")
    case True
    then have "show_nat n = [] @ [digit_char n]" by (subst show_nat.simps) simp
    then show ?thesis using True by (simp only: digits_int_snoc) (simp add: digits_int_def)
  next
    case False
    then have "show_nat n = show_nat (n div 10) @ [digit_char (n mod 10)]" by (subst show_nat.simps) simp
    moreover have "digits_int (show_nat (n div 10)) = int (n div 10)" using False "1.prems" by (intro "1.IH") auto
    moreover have "int (n div 10) * 10 \<le> int n" "int (n div 10) * 10 + int (n mod 10) = int n" by (simp_all add: zdiv_int zmod_int)
    moreover have "int n < 2 ^ 63" using "1.prems" by (metis of_nat_less_numeral_power_cancel_iff)
    ultimately show ?thesis by (simp add: digits_int_snoc)
  qed
qed

definition rule_ok :: "ttl_rule \<Rightarrow> bool" where
  "rule_ok r \<longleftrightarrow> ruleTyp r \<in> {CHR ''-'', CHR ''=''} \<and> 0 \<le> threshold r \<and> threshold r < 2 ^ 63 \<and>
     0 \<le> ruleVal r \<and> ruleVal r < 2 ^ 63"

definition rule_text :: "ttl_rule \<Rightarrow> string" where
  "rule_text r = show_nat (nat (threshold r)) @ [ruleTyp r] @ show_nat (nat (ruleVal r))"

lemma takeWhile_show_nat [simp]:
  assumes "s = [] \<or> \<not> is_digit (hd s)"
  shows "takeWhile is_digit (show_nat n @ s) = show_nat n" and "dropWhile is_digit (show_nat n @ s) = s"
  using assms show_nat_digits [of _ n] by (cases s; simp add: takeWhile_tail dropWhile_append2)+

lemma op_not_digit: "rule_ok r \<Longrightarrow> \<not> is_digit (ruleTyp r)"
  by (auto simp: rule_ok_def is_digit_def)

lemma parse_rule_text:
  assumes ok: "rule_ok r" and seen: "threshold r \<notin> seen" and s: "s = [] \<or> hd s = CHR '';''"
  shows "parse_rule i (rule_text r @ s) seen = Inr (r, tl s)"
proof -
  have nd: "s = [] \<or> \<not> is_digit (hd s)" using s by (auto simp: is_digit_def)
  have n: "nat (threshold r) < 2 ^ 63" "nat (ruleVal r) < 2 ^ 63" using ok by (auto simp: rule_ok_def nat_less_iff)
  have rest: "(if has_prefix s '';'' then tl s else s) = tl s" using s by (cases s) auto
  have op: "\<not> (ruleTyp r \<noteq> CHR ''-'' \<and> ruleTyp r \<noteq> CHR ''='')" using ok by (auto simp: rule_ok_def)
  have "digits_int (show_nat (nat (threshold r))) = threshold r" "digits_int (show_nat (nat (ruleVal r))) = ruleVal r"
    using ok digits_int_show_nat [OF n(1)] digits_int_show_nat [OF n(2)] by (simp_all add: rule_ok_def)
  then show ?thesis
    using op_not_digit [OF ok] op nd seen rest by (simp add: parse_rule_def rule_text_def Let_def)
qed

definition rules_text :: "ttl_rule list \<Rightarrow> string" where
  "rules_text rs = join_with '';'' (map rule_text rs)"

lemma rules_text_Cons: "rules_text (r # rs) = rule_text r @ (if rs = [] then [] else CHR '';'' # rules_text rs)"
  by (cases rs) (simp_all add: rules_text_def)

lemma parse_rules_text:
  assumes "\<forall>r \<in> set rs. rule_ok r" and "distinct (map threshold rs)" and "threshold ` set rs \<inter> seen = {}"
  shows "parse_rules i (rules_text rs) acc seen = Inr (acc @ rs)"
  using assms
proof (induction rs arbitrary: i acc seen)
  case Nil
  then show ?case by (simp add: rules_text_def parse_rules.simps [of i "[]"])
next
  case (Cons r rs)
  let ?s = "if rs = [] then [] else CHR '';'' # rules_text rs"
  have p: "parse_rule i (rule_text r @ ?s) seen = Inr (r, tl ?s)"
    using Cons.prems by (intro parse_rule_text) auto
  have t: "tl ?s = rules_text rs" by (simp add: rules_text_def)
  have ne: "rule_text r @ ?s \<noteq> []" by (simp add: rule_text_def)
  have "parse_rules j (rules_text rs) (acc @ [r]) (insert (threshold r) seen) = Inr ((acc @ [r]) @ rs)" for j
    using Cons.prems by (intro Cons.IH) auto
  then show ?case
    unfolding rules_text_Cons parse_rules.simps [of i "rule_text r @ ?s"] using ne p t by simp
qed

text \<open>In a list with falling thresholds the first rule that applies has the greatest threshold.\<close>

lemma apply_rules_sorted:
  assumes "sorted (map (\<lambda>r. - threshold r) rs)" and "distinct (map threshold rs)"
  shows "(\<forall>r \<in> set rs. ttl < threshold r) \<longrightarrow> apply_rules rs ttl = Inl (NewError ''no matching ttl rule'')"
    and "r \<in> set rs \<Longrightarrow> threshold r \<le> ttl \<Longrightarrow> \<forall>q \<in> set rs. threshold q \<le> ttl \<longrightarrow> threshold q \<le> threshold r \<Longrightarrow>
      apply_rules rs ttl = Inr (if ruleTyp r = CHR ''-'' then int64 (ttl - ruleVal r) else ruleVal r)"
  using assms
proof (induction rs)
  case (Cons q qs)
  {
    case 1
    then show ?case using Cons.IH by auto
  next
    case 2
    have inj: "threshold r = threshold q \<Longrightarrow> r = q"
      using 2(1,5) by (metis distinct.simps(2) imageI list.set_map list.simps(9) set_ConsD)
    show ?case
    proof (cases "threshold q \<le> ttl")
      case True
      then have "threshold q \<le> threshold r" using 2 by simp
      moreover have "threshold r \<le> threshold q" using 2 by auto
      ultimately show ?thesis using True inj by simp
    next
      case False
      then show ?thesis using 2 Cons.IH(2) by auto
    qed
  }
qed simp_all

text \<open>
  C38. A list of rules with distinct thresholds, written down with semicolons, is read back, and
  the fake TTL follows the rule with the greatest threshold the measured TTL reaches,
  whatever the order in which the rules are written; below every threshold there is an error.
\<close>

theorem ttl_rules_greatest:
  assumes "rs \<noteq> []" and "\<forall>r \<in> set rs. rule_ok r" and "distinct (map threshold rs)"
  shows "\<exists>calc. genTTLCalcFunc (rules_text rs) = Inr calc \<and>
    (\<forall>ttl. (\<forall>r \<in> set rs. ttl < threshold r) \<longrightarrow> calc ttl = Inl (NewError ''no matching ttl rule'')) \<and>
    (\<forall>ttl. \<forall>r \<in> set rs. threshold r \<le> ttl \<and> (\<forall>q \<in> set rs. threshold q \<le> ttl \<longrightarrow> threshold q \<le> threshold r) \<longrightarrow>
       calc ttl = Inr (if ruleTyp r = CHR ''-'' then int64 (ttl - ruleVal r) else ruleVal r))"
proof -
  let ?qs = "sort_key (\<lambda>r. - threshold r) rs"
  have "parse_rules 0 (rules_text rs) [] {} = Inr rs"
    using parse_rules_text [OF assms(2,3), of "{}" 0 "[]"] by simp
  moreover have "rules_text rs \<noteq> []" using assms(1) by (cases rs) (simp_all add: rules_text_Cons rule_text_def)
  ultimately have "genTTLCalcFunc (rules_text rs) = Inr (apply_rules ?qs)"
    by (simp add: genTTLCalcFunc_def parseTTLRules_def)
  moreover have "sorted (map (\<lambda>r. - threshold r) ?qs)" by simp
  moreover have "distinct (map threshold ?qs)"
    using assms(3) by (simp add: distinct_map)
  ultimately show ?thesis
    using apply_rules_sorted [of ?qs] by (intro exI [of _ "apply_rules ?qs"]) auto
qed

theorem ttl_rules_greatest_witness:
  "let rs = [\<lparr>threshold = 3, ruleTyp = CHR ''='', ruleVal = 2\<rparr>, \<lparr>threshold = 10, ruleTyp = CHR ''-'', ruleVal = 4\<rparr>]
   in rules_text rs = ''3=2;10-4'' \<and> (\<exists>calc. genTTLCalcFunc (rules_text rs) = Inr calc \<and> calc 12 = Inr 8)"
proof -
  let ?a = "\<lparr>threshold = 3, ruleTyp = CHR ''='', ruleVal = 2\<rparr>" and ?b = "\<lparr>threshold = 10, ruleTyp = CHR ''-'', ruleVal = 4\<rparr>"
  have t: "rules_text [?a, ?b] = ''3=2;10-4''"
    by code_simp
  have "\<exists>calc. genTTLCalcFunc (rules_text [?a, ?b]) = Inr calc \<and> calc 12 = Inr (int64 (12 - 4))"
    using ttl_rules_greatest [of "[?a, ?b]"] by (auto simp: rule_ok_def)
  then show ?thesis using t by simp
qed

section \<open>Probing ends\<close>

lemma probe_attempts_cases:
  assumes "probe_attempts dial (Suc k) mid (low, high, found) n = ((low', high', found'), n')"
  obtains (failed) "low' = mid + 1" "high' = high" "found' = found"
  | (connected) m where "low' = low \<or> low' = mid + 1" "high' = mid - 1" "found' = mid" "fst (dial mid m)"
proof -
  have "(low' = mid + 1 \<or> k' = 0 \<and> low' = low) \<and> high' = high \<and> found' = found \<or>
      (low' = low \<or> low' = mid + 1) \<and> high' = mid - 1 \<and> found' = mid \<and> (\<exists>m. fst (dial mid m))"
    if "probe_attempts dial k' mid (low, high, found) n = ((low', high', found'), n')" for k' low n
    using that
  proof (induction k' arbitrary: low n)
    case (Suc k')
    show ?case
    proof (cases "fst (dial mid n)")
      case True
      then have "\<exists>m. fst (dial mid m)" by blast
      then show ?thesis using Suc.prems True by (simp add: split_def Let_def)
    next
      case False
      then have "probe_attempts dial k' mid (mid + 1, high, found) (snd (dial mid n)) = ((low', high', found'), n')"
        using Suc.prems by (simp add: split_def Let_def)
      from Suc.IH [OF this] show ?thesis by fastforce
    qed
  qed simp
  from this [OF assms] show thesis using failed connected by auto
qed

lemma probe_loop_ends:
  assumes "1 \<le> attempts" and "1 \<le> low"
  shows "\<exists>found' n'. probe_loop dial attempts (low, high, found) n = Some (found', n') \<and>
    (found' = found \<or> low \<le> found' \<and> found' \<le> high \<and> (\<exists>m. fst (dial found' m)))"
  using assms(2)
proof (induction "nat (high - low + 1)" arbitrary: low high found n rule: less_induct)
  case less
  show ?case
  proof (cases "low \<le> high")
    case True
    let ?mid = "(low + high) div 2"
    have mid: "low \<le> ?mid" "?mid \<le> high" using True by simp_all
    obtain k where k: "nat attempts = Suc k" using assms(1) by (cases "nat attempts") auto
    obtain low' high' found' n' where p:
      "probe_attempts dial (nat attempts) ?mid (low, high, found) n = ((low', high', found'), n')"
      by (cases "probe_attempts dial (nat attempts) ?mid (low, high, found) n") auto
    have eq: "probe_loop dial attempts (low, high, found) n = probe_loop dial attempts (low', high', found') n'"
      using True p by (subst probe_loop.simps) simp
    from p k have p: "probe_attempts dial (Suc k) ?mid (low, high, found) n = ((low', high', found'), n')" by simp
    then have w: "nat (high' - low' + 1) < nat (high - low + 1)" "low \<le> low'" "high' \<le> high"
      "found' = found \<or> low \<le> found' \<and> found' \<le> high \<and> (\<exists>m. fst (dial found' m))"
      using mid True by (cases rule: probe_attempts_cases; auto)+
    obtain f m where "probe_loop dial attempts (low', high', found') n' = Some (f, m)"
      "f = found' \<or> low' \<le> f \<and> f \<le> high' \<and> (\<exists>m. fst (dial f m))"
      using less.hyps [OF w(1)] less.prems w(2) by fastforce
    then show ?thesis using eq w by auto
  qed (subst probe_loop.simps, simp)
qed

text \<open>
  With at least one attempt per TTL, probing ends on every network, however it answers, and
  its result is no TTL or one in the range asked for with which a connection was made.
\<close>

theorem probe_ends:
  assumes "1 \<le> attempts"
  shows "\<exists>found n'. probe_loop dial attempts (1, maxTTL, - 1) n = Some (found, n') \<and>
    (found = - 1 \<or> 1 \<le> found \<and> found \<le> maxTTL \<and> (\<exists>m. fst (dial found m)))"
  using probe_loop_ends [OF assms, of 1 dial maxTTL "- 1" n] by simp

theorem probe_ends_witness:
  "\<exists>found n'. probe_loop (\<lambda>ttl n. (5 \<le> ttl \<and> even n, Suc n)) 2 (1, 30, - 1) (0 :: nat) = Some (found, n') \<and>
    (found = - 1 \<or> 1 \<le> found \<and> found \<le> 30 \<and> (\<exists>m :: nat. 5 \<le> found \<and> even m))"
  using probe_ends [of 2 "\<lambda>ttl n. (5 \<le> ttl \<and> even n, Suc n)" 30 0] by simp

section \<open>A steady network\<close>

text \<open>\<open>least_reach reach t\<close>: a segment with TTL \<open>t\<close>, a byte, arrives, one with a smaller TTL does not.\<close>

definition least_reach :: "(int \<Rightarrow> bool) \<Rightarrow> int \<Rightarrow> bool" where
  "least_reach reach t \<longleftrightarrow> 1 \<le> t \<and> t < 256 \<and> reach t \<and> (\<forall>t'. 1 \<le> t' \<and> t' < t \<longrightarrow> \<not> reach t')"

lemma probe_loop_least:
  assumes steady: "\<And>t m. fst (dial t m) = reach t" and up: "\<And>t t'. reach t \<Longrightarrow> t \<le> t' \<Longrightarrow> reach t'"
    and att: "1 \<le> attempts"
    and max: "maxTTL < 256"
    and inv: "1 \<le> low" "\<forall>t. 1 \<le> t \<and> t < low \<longrightarrow> \<not> reach t"
      "high \<le> maxTTL" "found = - 1 \<and> high = maxTTL \<or> found = high + 1 \<and> found < 256 \<and> reach found \<and> low \<le> found"
      "probe_loop dial attempts (low, high, found) n = Some (r, n')"
  shows "if r = - 1 then \<forall>t. 1 \<le> t \<and> t \<le> maxTTL \<longrightarrow> \<not> reach t else least_reach reach r"
  using inv
proof (induction "nat (high - low + 1)" arbitrary: low high found n rule: less_induct)
  case less
  show ?case
  proof (cases "low \<le> high")
    case False
    then have "r = found" using less.prems(5) by (subst (asm) probe_loop.simps) simp
    then show ?thesis using less.prems(1,2,3,4) False
      by (auto simp: least_reach_def)
  next
    case True
    let ?mid = "(low + high) div 2"
    have mid: "low \<le> ?mid" "?mid \<le> high" using True by simp_all
    have att': "\<exists>k. nat attempts = Suc k" using att by (cases "nat attempts") auto
    have all: "probe_attempts dial (Suc k) ?mid (low, high, found) n =
        (if reach ?mid then ((low, ?mid - 1, ?mid), snd (dial ?mid n))
         else probe_attempts dial k ?mid (?mid + 1, high, found) (snd (dial ?mid n)))" for k
      using steady [of ?mid n] by (simp add: split_def Let_def)
    have fail: "\<exists>m. probe_attempts dial k ?mid (?mid + 1, high, found) n0 = ((?mid + 1, high, found), m)"
      if "\<not> reach ?mid" for k n0
      using that by (induction k arbitrary: n0) (simp_all add: split_def Let_def steady)
    show ?thesis
    proof (cases "reach ?mid")
      case r: True
      then have "probe_loop dial attempts (low, ?mid - 1, ?mid) (snd (dial ?mid n)) = Some (r, n')"
        using less.prems(5) True att' all by (subst (asm) probe_loop.simps) auto
      moreover have "nat (?mid - 1 - low + 1) < nat (high - low + 1)" using mid True by simp
      ultimately show ?thesis using less.prems(1,2,3) r mid max by (intro less.hyps) auto
    next
      case r: False
      obtain k where k: "nat attempts = Suc k" using att' by blast
      obtain m where "probe_attempts dial k ?mid (?mid + 1, high, found) (snd (dial ?mid n)) = ((?mid + 1, high, found), m)"
        using fail [OF r] by blast
      then have "probe_loop dial attempts (low, high, found) n = probe_loop dial attempts (?mid + 1, high, found) m"
        using True all [of k] k r by (subst probe_loop.simps) simp
      then have "probe_loop dial attempts (?mid + 1, high, found) m = Some (r, n')" using less.prems(5) by simp
      moreover have "nat (high - (?mid + 1) + 1) < nat (high - low + 1)" using mid True by simp
      moreover have "\<forall>t. 1 \<le> t \<and> t < ?mid + 1 \<longrightarrow> \<not> reach t" using r up by auto
      ultimately show ?thesis using less.prems(1,3,4) mid by (intro less.hyps) auto
    qed
  qed
qed

definition steady :: "'n ttl_ops \<Rightarrow> (addr \<Rightarrow> int \<Rightarrow> bool) \<Rightarrow> bool" where
  "steady ops reach \<longleftrightarrow> (\<forall>timeout ap t m. fst (ttlDial ops timeout ap t m) = reach (unmap (fst ap)) t) \<and>
     (\<forall>a t t'. reach a t \<longrightarrow> 1 \<le> t \<and> (t \<le> t' \<longrightarrow> reach a t'))"

lemma steadyD:
  assumes "steady ops reach"
  shows "fst (ttlDial ops timeout ap t m) = reach (unmap (fst ap)) t"
    and "reach a t \<Longrightarrow> t \<le> t' \<Longrightarrow> reach a t'" and "reach a t \<Longrightarrow> 1 \<le> t"
  using assms unfolding steady_def by blast+

text \<open>The cache keeps its contract, and what it holds is the least TTL of its address.\<close>

definition ttl_inv :: "(addr \<Rightarrow> int \<Rightarrow> bool) \<Rightarrow> 'n ttl_state \<Rightarrow> bool" where
  "ttl_inv reach st \<longleftrightarrow> (\<forall>c. ttlCache st = Some c \<longrightarrow>
     (\<exists>M. sharded_holds c M \<and> (\<forall>a v x. M a = Some (v, x) \<longrightarrow> least_reach (reach a) v)))"

lemma ttl_inv_net [simp]: "ttl_inv reach (st\<lparr>ttlNet := n\<rparr>) = ttl_inv reach st"
  by (simp add: ttl_inv_def)

definition probe_result :: "(int \<Rightarrow> bool) \<Rightarrow> int \<Rightarrow> int \<Rightarrow> bool" where
  "probe_result reach maxTTL r \<longleftrightarrow>
     (if r = - 1 then \<forall>t. 1 \<le> t \<and> t \<le> maxTTL \<longrightarrow> \<not> reach t else least_reach reach r)"

lemma probe_ok:
  assumes st: "steady ops reach" and inv: "ttl_inv reach s" and att: "1 \<le> attempts" and max: "maxTTL < 256"
  shows "\<exists>r s'. probeMinimumReachableTTL ops ap maxTTL attempts to life s = Some (r, s') \<and> ttl_inv reach s' \<and>
    probe_result (reach (unmap (fst ap))) maxTTL r"
proof -
  let ?a = "unmap (fst ap)" and ?dial = "ttlDial ops to ap"
  obtain r n where p: "probe_loop ?dial attempts (1, maxTTL, - 1) (ttlNet s) = Some (r, n)"
    using probe_ends [OF att, of ?dial maxTTL "ttlNet s"] by blast
  have r: "probe_result (reach ?a) maxTTL r"
    unfolding probe_result_def
    by (rule probe_loop_least [OF _ _ att max _ _ _ _ p]) (use steadyD [OF st] in auto)
  show ?thesis
  proof (cases "ttlCache s")
    case None
    then show ?thesis using p r inv by (simp add: probeMinimumReachableTTL_def)
  next
    case (Some c)
    show ?thesis
    proof (cases "r \<noteq> - 1 \<and> life \<noteq> 0 \<and> life \<noteq> unsetInt")
      case False
      then show ?thesis using p r inv Some by (auto simp: probeMinimumReachableTTL_def)
    next
      case True
      obtain now n' where now: "ttlNow ops n = (now, n')" by (cases "ttlNow ops n") auto
      obtain M where M: "sharded_holds c M" "\<forall>a v x. M a = Some (v, x) \<longrightarrow> least_reach (reach a) v"
        using inv Some by (auto simp: ttl_inv_def)
      obtain ev c' M' where c': "Sharded_AddWithLifetime now ?a r life c = Some (ev, c')" "sharded_holds c' M'"
        "M' \<subseteq>\<^sub>m M(?a \<mapsto> (r, expire_at now life))"
        using sharded.add_law [OF M(1), of now ?a r life] by blast
      have "least_reach (reach a) v" if "M' a = Some (v, x)" for a v x
      proof -
        have "(M(?a \<mapsto> (r, expire_at now life))) a = Some (v, x)"
          using c'(3) that by (metis domI map_le_def)
        then show ?thesis using M(2) r True by (auto simp: probe_result_def split: if_splits)
      qed
      then have "ttl_inv reach \<lparr>ttlCache = Some c', ttlNet = n'\<rparr>" using c'(2) by (auto simp: ttl_inv_def)
      then show ?thesis using p r Some True now c'(1) by (auto simp: probeMinimumReachableTTL_def)
    qed
  qed
qed

lemma getMinimum_ok:
  assumes st: "steady ops reach" and inv: "ttl_inv reach s" and att: "1 \<le> attempts" and max: "maxTTL < 256"
  shows "\<exists>r cached s'. getMinimumReachableTTL ops ap maxTTL attempts to life s = Some ((r, cached), s') \<and>
    ttl_inv reach s' \<and> probe_result (reach (unmap (fst ap))) maxTTL r"
proof (cases "ttlCache s")
  case None
  then show ?thesis using probe_ok [OF assms, of ap to life] by (auto simp: getMinimumReachableTTL_def)
next
  case (Some c)
  let ?a = "unmap (fst ap)"
  obtain now n where now: "ttlNow ops (ttlNet s) = (now, n)" by (cases "ttlNow ops (ttlNet s)") auto
  obtain M where M: "sharded_holds c M" "\<forall>a v x. M a = Some (v, x) \<longrightarrow> least_reach (reach a) v"
    using inv Some by (auto simp: ttl_inv_def)
  obtain c' where c': "Sharded_Get now ?a c = Some (fresh_value now (M ?a), c')"
    "sharded_holds c' (if fresh_value now (M ?a) = None then M(?a := None) else M)"
    using sharded.get_law [OF M(1)] by blast
  let ?s = "\<lparr>ttlCache = Some c', ttlNet = n\<rparr>"
  have inv': "ttl_inv reach ?s" using c'(2) M(2) by (auto simp: ttl_inv_def split: if_splits)
  show ?thesis
  proof (cases "fresh_value now (M ?a)")
    case None
    then show ?thesis
      using probe_ok [OF st inv' att max, of ap to life] Some now c'(1) by (auto simp: getMinimumReachableTTL_def)
  next
    case (Some v)
    then obtain x where "M ?a = Some (v, x)" by (auto simp: fresh_value_def split: option.splits if_splits)
    then have "least_reach (reach ?a) v" using M(2) by blast
    moreover from this have "v \<noteq> - 1" by (simp add: least_reach_def)
    ultimately show ?thesis
      using \<open>ttlCache s = Some c\<close> now c'(1) Some inv' by (auto simp: getMinimumReachableTTL_def probe_result_def)
  qed
qed

lemma fake_ttl_ok:
  assumes "steady ops reach" and "ttl_inv reach s" and "wf_policy p" and "1 \<le> pAttempts p"
    and "pFakeTTL p \<in> {0, unsetInt}" and "genTTLCalcFunc [] = Inr calc"
  shows "\<exists>r s'. getFakeTTL ops calc lg p ap s = Some (r, s') \<and> ttl_inv reach s' \<and>
    (case r of
       Inl e \<Rightarrow> \<forall>t. 1 \<le> t \<and> t \<le> pMaxTTL p \<longrightarrow> \<not> reach (unmap (fst ap)) t
     | Inr ttl \<Rightarrow> least_reach (reach (unmap (fst ap))) (ttl + 1))"
proof -
  have max: "pMaxTTL p < 256" using assms(3) by (simp add: wf_policy_def)
  obtain r cached s' where g: "getMinimumReachableTTL ops ap (pMaxTTL p) (pAttempts p) (pSingleTimeout p) (pTTLCacheTTL p) s =
      Some ((r, cached), s')" "ttl_inv reach s'" "probe_result (reach (unmap (fst ap))) (pMaxTTL p) r"
    using getMinimum_ok [OF assms(1,2,4) max, of ap "pSingleTimeout p" "pTTLCacheTTL p"] by blast
  have calc: "calc = (\<lambda>ttl. Inr (int64 (ttl - 1)))" using assms(6) by (simp add: genTTLCalcFunc_def)
  show ?thesis
  proof (cases "r = - 1")
    case True
    then show ?thesis using g assms(5) by (auto simp: getFakeTTL_def unsetInt_def probe_result_def)
  next
    case False
    then have l: "least_reach (reach (unmap (fst ap))) r" using g(3) by (simp add: probe_result_def)
    then have "int64 (r - 1) = r - 1" by (simp add: least_reach_def)
    moreover have "log_info lg [Some a, Some b, Some c, Some d] = Some ()" if "lg \<noteq> None" for a b c d
      using log_text_ok(1) [where ss = "[a, b, c, d]"] that by auto
    ultimately show ?thesis using g(1,2) l False assms(5)
      by (auto simp: getFakeTTL_def unsetInt_def calc)
  qed
qed

text \<open>
  C9. On a steady network and with the default rule, the TTL chosen for the fake packet is one
  hop short: the packet does not arrive, and with one hop more it would. This holds for a
  probed and for a cached address, and the cache stays right; an error means that no TTL up to
  the limit reaches the server.
\<close>

theorem fake_ttl_one_hop_short:
  assumes "steady ops reach" and "ttl_inv reach s" and "wf_policy p" and "1 \<le> pAttempts p"
    and "pFakeTTL p = 0 \<or> pFakeTTL p = unsetInt" and "genTTLCalcFunc [] = Inr calc"
  shows "\<exists>r s'. getFakeTTL ops calc (Some lg) p ap s = Some (r, s') \<and> ttl_inv reach s' \<and>
    (case r of
       Inl e \<Rightarrow> \<forall>t. 1 \<le> t \<and> t \<le> pMaxTTL p \<longrightarrow> \<not> reach (unmap (fst ap)) t
     | Inr ttl \<Rightarrow> least_reach (reach (unmap (fst ap))) (ttl + 1))"
  using fake_ttl_ok [OF assms(1,2,3,4) _ assms(6)] assms(5) by simp

definition five_hops :: "unit ttl_ops" where
  "five_hops = \<lparr>ttlDial = (\<lambda>timeout ap ttl n. (5 \<le> ttl, n)), ttlNow = (\<lambda>n. (0, n))\<rparr>"

theorem fake_ttl_one_hop_short_witness:
  "\<exists>r s'. getFakeTTL five_hops (\<lambda>ttl. Inr (int64 (ttl - 1))) (Some \<lparr>logLevel = LevelInfo, logPrefix = []\<rparr>)
      ((policy_init zero_policy)\<lparr>pAttempts := 2, pMaxTTL := 30\<rparr>) (IP4 [1, 2, 3, 4], 443) \<lparr>ttlCache = None, ttlNet = ()\<rparr> = Some (r, s') \<and>
    (case r of Inl e \<Rightarrow> \<forall>t. 1 \<le> t \<and> t \<le> 30 \<longrightarrow> \<not> (5 :: int) \<le> t | Inr ttl \<Rightarrow> least_reach (\<lambda>t. 5 \<le> t) (ttl + 1))"
proof -
  let ?p = "(policy_init zero_policy)\<lparr>pAttempts := 2, pMaxTTL := 30\<rparr>" and ?calc = "\<lambda>ttl. Inr (int64 (ttl - 1)) :: error + int"
  have f: "pAttempts ?p = 2" "pMaxTTL ?p = 30" "pFakeTTL ?p = unsetInt" by (simp_all add: policy_init_def zero_policy_def)
  have 1: "steady five_hops (\<lambda>_ t. 5 \<le> t)" by (auto simp: steady_def five_hops_def)
  have 2: "ttl_inv (\<lambda>_ t. 5 \<le> t) \<lparr>ttlCache = None, ttlNet = ()\<rparr>" by (simp add: ttl_inv_def)
  have 3: "wf_policy ?p" by (simp add: wf_policy_def policy_init_def zero_policy_def unsetInt_def wf_dst_def zero_dst_def)
  have 4: "genTTLCalcFunc [] = Inr ?calc" by (simp add: genTTLCalcFunc_def)
  show ?thesis
    using fake_ttl_one_hop_short [OF 1 2 3 _ _ 4, of "\<lparr>logLevel = LevelInfo, logPrefix = []\<rparr>" "(IP4 [1, 2, 3, 4], 443)"] f(2)
    by (auto simp: f split: sum.splits)
qed

section \<open>Probing that does not end\<close>

lemma probe_loop_stuck:
  assumes "attempts \<le> 0" and "low \<le> high"
  shows "probe_loop dial attempts (low, high, found) n = None"
proof -
  have "\<not> (attempts \<le> 0 \<and> fst w \<le> fst (snd w))" if ret: "probe_loop dial attempts w n = Some r" for dial :: "int \<Rightarrow> 'a \<Rightarrow> bool \<times> 'a" and attempts w n r
  proof (rule probe_loop.raw_induct [where P = "\<lambda>dial attempts w n r. \<not> (attempts \<le> 0 \<and> fst w \<le> fst (snd w))", OF _ ret])
    fix f :: "(int \<Rightarrow> 'a \<Rightarrow> bool \<times> 'a) \<Rightarrow> int \<Rightarrow> bracket \<Rightarrow> 'a \<Rightarrow> (int \<times> 'a) option" and dial attempts w n r
    assume IH: "\<And>dial attempts w n r. f dial attempts w n = Some r \<Longrightarrow> \<not> (attempts \<le> 0 \<and> fst w \<le> fst (snd w))"
      and eq: "(if fst w \<le> fst (snd w)
         then let (w, n) = probe_attempts dial (nat attempts) ((fst w + fst (snd w)) div 2) w n in f dial attempts w n
         else Some (snd (snd w), n)) = Some r"
    show "\<not> (attempts \<le> 0 \<and> fst w \<le> fst (snd w))"
    proof
      assume h: "attempts \<le> 0 \<and> fst w \<le> fst (snd w)"
      then have "f dial attempts w n = Some r" using eq by simp
      from IH [OF this] show False using h by simp
    qed
  qed
  from this [of dial attempts "(low, high, found)" n] show ?thesis using assms by (cases "probe_loop dial attempts (low, high, found) n") auto
qed

text \<open>
  C0. The number of attempts has no default: if no merged policy sets it, which the checks of
  \<^verbatim>\<open>newPolicy\<close> allow, while a limit on the TTL is set, the search never ends for an address
  that is not in the cache, on any network.
\<close>

theorem probe_without_attempts:
  assumes "\<forall>p \<in> set ps. pAttempts p = 0" and "1 \<le> pMaxTTL (mergePolicies ps)"
    and "pFakeTTL (mergePolicies ps) \<in> {0, unsetInt}" and "ttlCache s = None"
  shows "getFakeTTL ops calc lg (mergePolicies ps) ap s = None"
proof -
  have "first_set (\<lambda>v. v = 0) 0 (map pAttempts ps) = 0" using assms(1) by (induction ps) simp_all
  then have "pAttempts (mergePolicies ps) = 0" by (simp add: merged_Attempts)
  moreover have "probe_loop (ttlDial ops t ap) 0 (1, pMaxTTL (mergePolicies ps), - 1) (ttlNet s) = None" for t
    using assms(2) by (intro probe_loop_stuck) simp_all
  ultimately show ?thesis
    using assms(3,4) by (auto simp: getFakeTTL_def getMinimumReachableTTL_def probeMinimumReachableTTL_def)
qed

theorem probe_without_attempts_witness:
  "\<exists>p. newPolicy (default_options\<lparr>oMode := ModeTTLD, oMaxTTL := Some 30\<rparr>) = Inr p \<and>
     getFakeTTL five_hops calc lg (mergePolicies [p]) (IP4 [1, 2, 3, 4], 443) \<lparr>ttlCache = None, ttlNet = ()\<rparr> = None"
proof -
  obtain p where p: "newPolicy (default_options\<lparr>oMode := ModeTTLD, oMaxTTL := Some 30\<rparr>) = Inr p"
    "pAttempts p = 0" "pMaxTTL p = 30" "pFakeTTL p = unsetInt"
    by (simp add: newPolicy_def Let_def check_def default_options_def policy_init_def zero_policy_def)
  have "getFakeTTL five_hops calc lg (mergePolicies [p]) (IP4 [1, 2, 3, 4], 443) \<lparr>ttlCache = None, ttlNet = ()\<rparr> = None"
    by (rule probe_without_attempts) (use p in \<open>simp_all add: merged_MaxTTL merged_FakeTTL\<close>)
  then show ?thesis using p(1) by blast
qed

end
