(* ===== verification/Tunnel_Spec.thy ===== *)
theory Tunnel_Spec
  imports Tunnel TTL_Spec
begin

text \<open>
  What the tunnel promises: for every mode what the server reads in place of the ClientHello, for
  which policies it is the ClientHello itself or fragments that carry its payload, that the bytes after
  it follow whole and in order, that a blocked server name gets nothing, and the policies for which this fails.
\<close>

section \<open>Calls that send no fake packets\<close>

definition noise_free :: "wire list \<Rightarrow> bool" where
  "noise_free ws \<longleftrightarrow> (\<forall>f r ttl. Noise f r ttl \<notin> set ws)"

definition quiet :: "'a io \<Rightarrow> bool" where
  "quiet m \<longleftrightarrow> (\<forall>c r c'. m c = Some (r, c') \<longrightarrow> (\<exists>ws. sent c' = sent c @ ws \<and> noise_free ws))"

named_theorems quiets \<open>calls that send no fake packet\<close>

lemma noise_free_simps [simp]:
  "noise_free []" "noise_free [Data b]" "noise_free [Urgent b x]" "noise_free [AckWait]"
  "noise_free (ws @ ws') \<longleftrightarrow> noise_free ws \<and> noise_free ws'"
  by (auto simp: noise_free_def)

lemma quiet_seq [quiets]:
  assumes "quiet m" and "\<And>a. quiet (k a)"
  shows "quiet (seq m k)"
  unfolding quiet_def
proof (intro allI impI)
  fix c r c' assume h: "seq m k c = Some (r, c')"
  then obtain x c1 where m: "m c = Some (x, c1)" by (auto simp: seq_def split: option.splits)
  obtain ws where ws: "sent c1 = sent c @ ws" "noise_free ws" using assms(1) m unfolding quiet_def by blast
  show "\<exists>ws. sent c' = sent c @ ws \<and> noise_free ws"
  proof (cases x)
    case (Inl e)
    then show ?thesis using h m ws by (auto simp: seq_def)
  next
    case (Inr a)
    then have "k a c1 = Some (r, c')" using h m by (simp add: seq_def)
    then obtain vs where "sent c' = sent c1 @ vs" "noise_free vs" using assms(2) unfolding quiet_def by blast
    then show ?thesis using ws by auto
  qed
qed

lemma quiet_lift [quiets]: "(\<And>a. x = Some a \<Longrightarrow> quiet (k a)) \<Longrightarrow> quiet (lift x k)"
  by (cases x) (simp_all add: lift_def quiet_def panic_def)

lemma quiet_labelled [quiets]: "quiet m \<Longrightarrow> quiet (labelled s m)"
  unfolding quiet_def labelled_def by (auto split: option.splits sum.splits prod.splits)

lemma quiet_net_call [quiets]: "noise_free ws \<Longrightarrow> quiet (net_call ws)"
  unfolding quiet_def net_call_def by (auto split: list.splits option.splits)

lemma quiet_ret [quiets]: "quiet (ret a)" "quiet panic"
  by (auto simp: quiet_def ret_def panic_def)

lemma quiet_if [quiets]: "quiet m \<Longrightarrow> quiet n \<Longrightarrow> quiet (if b then m else n)"
  by simp

lemma quiet_calls [quiets]:
  "quiet (conn_write b)" "quiet get_raw_conn" "quiet (send_with_oob b x)" "quiet (wait_for_ack e)"
proof -
  show "quiet (conn_write b)" "quiet get_raw_conn" unfolding conn_write_def get_raw_conn_def by (intro quiets noise_free_simps)+
  show "quiet (send_with_oob b x)" unfolding send_with_oob_def get_raw_conn_def by (intro quiets noise_free_simps)
  have "quiet (\<lambda>c. Some (Inr (), c\<lparr>sent := sent c @ [AckWait]\<rparr>))" by (simp add: quiet_def)
  then show "quiet (wait_for_ack e)"
    unfolding wait_for_ack_def get_raw_conn_def by (intro quiets noise_free_simps)
qed

lemma quiet_each [quiets]: "(\<And>i x. quiet (f i x)) \<Longrightarrow> quiet (send_each f i xs)"
  by (induction xs arbitrary: i) (auto intro!: quiets)

lemma quiet_oobex [quiets]: "(\<And>b. quiet (k b)) \<Longrightarrow> quiet (oobex_head o' b k)"
  unfolding oobex_head_def by (intro quiets)

lemma quiet_packets [quiets]:
  "quiet (send_packet o' i b)" "quiet (send_chunk o' i b)" "quiet (send_segment o' i b)"
  unfolding send_packet_def send_chunk_def send_segment_def by (intro quiets)+

lemma quiet_merged [quiets]: "quiet (send_one_record o' off len n c)" "quiet (send_merged o' n b)"
  unfolding send_one_record_def send_merged_def Let_def by (intro quiets)+

lemma quiet_sendRecords: "quiet (sendRecords b off len records segments v o')"
  unfolding sendRecords_def Let_def by (intro quiets)

section \<open>The ClientHello arrives\<close>

text \<open>
  What the peer reads carries the record \<open>b\<close>: it is \<open>b\<close>, or complete records of the same type
  whose payloads put together are the payload of \<open>b\<close>; the minor version may be another.
\<close>

definition carries :: "bytes \<Rightarrow> bytes \<Rightarrow> bool" where
  "carries b x \<longleftrightarrow> (\<exists>v. x = with_minor v b \<or>
     (\<exists>ps. read_records x = Some ps \<and> x = concat (map (makeRecord (take 3 (with_minor v b))) ps) \<and> concat ps = drop 5 b))"

lemma carries_refl [simp]: "carries b b"
  unfolding carries_def by (rule exI [of _ None]) (simp add: with_minor_def)

text \<open>Counts and urgent bytes for which the fragments are read as one ClientHello.\<close>

definition fragments_ok :: "policy \<Rightarrow> bool" where
  "fragments_ok p \<longleftrightarrow> \<not> (is_true (pOOB p) \<and> is_true (pOOBEx p)) \<and>
     (pNumRecords p \<in> {0, 1} \<and> 0 \<le> pNumSegments p \<or> 2 \<le> pNumRecords p \<and> - 1 \<le> pNumSegments p)"

text \<open>A TTL is measured, not given, and the measured one is lowered by the default rule.\<close>

definition probes_ttl :: "('r, 'n, 'd) server \<Rightarrow> policy \<Rightarrow> bool" where
  "probes_ttl srv p \<longleftrightarrow> wf_policy p \<and> 1 \<le> pAttempts p \<and> pFakeTTL p \<in> {0, unsetInt} \<and> genTTLCalcFunc [] = Inr (srvCalc srv)"

text \<open>The policies under which the ClientHello arrives; what the others do is \<open>hello_fate\<close>.\<close>

definition mode_ok :: "('r, 'n, 'd) server \<Rightarrow> policy \<Rightarrow> mode \<Rightarrow> bool" where
  "mode_ok srv p m \<longleftrightarrow> m \<in> {ModeRaw, ModeDirect} \<or> m = ModeTLSRF \<and> fragments_ok p \<or> m = ModeTTLD \<and> probes_ttl srv p"

text \<open>
  What fragmenting, when it succeeds, makes of the record: bytes that carry it, into which a zero is put at
  most when the two urgent bytes are combined; or of several records in fewer than -1 segments nothing
  or the first 35 bytes.
\<close>

definition fragments_fate :: "policy \<Rightarrow> bytes \<Rightarrow> bytes \<Rightarrow> bool" where
  "fragments_fate p b x \<longleftrightarrow> (\<exists>s. carries b s \<and>
     (if 2 \<le> pNumRecords p \<and> pNumSegments p < -1 then x = (if is_true (pOOBEx p) then take 35 s else [])
      else read_as (opts_of p) s x))"

text \<open>
  What the server reads in place of the record \<open>b\<close>, by the mode: something that carries it; nothing when the
  mode is none that sends; the fragments; or, when the fake packet arrives, the record with zeros in it.
  \<open>fake ttl\<close>: this is the TTL chosen for the fake packet, and with it the packet arrives.
\<close>

definition hello_fate :: "(int \<Rightarrow> bool) \<Rightarrow> policy \<Rightarrow> mode \<Rightarrow> bytes \<Rightarrow> bytes \<Rightarrow> bool" where
  "hello_fate fake p m b x \<longleftrightarrow> carries b x \<or>
     m \<in> {ModeUnset, ModeBlock, ModeTLSAlert} \<and> x = [] \<or>
     m = ModeTLSRF \<and> fragments_fate p b x \<or>
     m = ModeTTLD \<and> (\<exists>ttl. fake ttl) \<and> (\<exists>i j. i \<le> j \<and> j \<le> length b \<and> x = take i b @ replicate (j - i) 0 @ drop j b)"

definition fake_arrives ::
  "'n ttl_ops \<Rightarrow> (int \<Rightarrow> error + int) \<Rightarrow> 'n ttl_state \<Rightarrow> (addr \<Rightarrow> int \<Rightarrow> bool) \<Rightarrow> policy \<Rightarrow> addr \<times> nat \<Rightarrow> int \<Rightarrow> bool" where
  "fake_arrives ops calc t reach p ra ttl \<longleftrightarrow>
     (\<exists>lg t'. getFakeTTL ops calc lg p ra t = Some (Inr ttl, t')) \<and> reach (unmap (fst ra)) ttl"

lemma fragments_ok_carries: "fragments_fate p b x \<Longrightarrow> fragments_ok p \<Longrightarrow> carries b x"
  by (auto simp: fragments_fate_def fragments_ok_def read_as_def opts_of_def split: if_splits)

lemma write_dst_done:
  assumes "write_dst m ts = Some (Inr (), ts')" and "sends m ws" and "tsDst ts = Some (c, ra)"
  shows "\<exists>c'. ts' = ts\<lparr>tsDst := Some (c', ra)\<rparr> \<and> sent c' = sent c @ ws \<and> m c = Some (Inr (), c')"
proof -
  obtain r c' ws' where "m c = Some (r, c')" "sent c' = sent c @ ws'" "prefix ws' ws"
    "r = Inr () \<longrightarrow> ws' = ws" "faults c = [] \<longrightarrow> r = Inr () \<and> faults c' = []"
    by (rule sendsE [OF assms(2)])
  then show ?thesis using assms(1,3) by (auto simp: write_dst_def)
qed

lemma quiet_received:
  assumes "quiet m" and "m c = Some (r, c')" and "sent c = []"
  shows "received (map (arrive reach) (sent c')) = received (sent c')"
proof -
  obtain ws where "sent c' = sent c @ ws" "noise_free ws" using assms unfolding quiet_def by blast
  then show ?thesis using assms(3) by (auto simp: noise_free_def intro: received_arrive)
qed

lemma sendRecords_fate:
  assumes "58 \<le> off" and "off + len \<le> length b" and "length b \<le> 65540"
  shows "doomed (sendRecords b off len (pNumRecords p) (pNumSegments p) v (opts_of p)) \<or>
    (\<exists>ws. sends (sendRecords b off len (pNumRecords p) (pNumSegments p) v (opts_of p)) ws \<and> fragments_fate p b (received ws))"
proof (cases "2 \<le> pNumRecords p")
  case True
  have off: "35 \<le> off" and o': "soOobex (opts_of p) = is_true (pOOBEx p)" using assms(1) by (simp_all add: opts_of_def)
  obtain ws ps s where ws: "sends (sendRecords b off len (pNumRecords p) (pNumSegments p) v (opts_of p)) ws" "concat ps = drop 5 b"
    "s = concat (map (makeRecord (take 3 (with_minor v b))) ps)" "read_records s = Some ps"
    "if pNumSegments p < -1 then received ws = (if is_true (pOOBEx p) then take 35 s else []) else read_as (opts_of p) s (received ws)"
    using sendRecords_many [OF True assms(2) off assms(3), of "pNumSegments p" v "opts_of p"] unfolding o' by blast
  have "carries b s" unfolding carries_def using ws(2-4) by blast
  then have "fragments_fate p b (received ws)" using ws(5) True unfolding fragments_fate_def by (intro exI [of _ s]) simp
  then show ?thesis using ws(1) by blast
next
  case False
  then have r: "pNumRecords p \<le> 1" "35 \<le> off" using assms(1) by simp_all
  have "carries b (with_minor v b)" unfolding carries_def by blast
  then have "fragments_fate p b x" if "read_as (opts_of p) (with_minor v b) x" for x
    unfolding fragments_fate_def using that False by (intro exI [of _ "with_minor v b"]) simp
  then show ?thesis using sendRecords_one [OF r(1) assms(2) r(2), of "pNumSegments p" v "opts_of p"] by (auto split: if_splits)
qed

lemma write_flag:
  "do { (r, ts) \<leftarrow> write_dst m ts; Some (\<not> isl r, ts, w) } = Some (True, ts', w') \<longleftrightarrow>
   write_dst m ts = Some (Inr (), ts') \<and> w' = w"
proof -
  have "\<not> isl r \<longleftrightarrow> r = Inr ()" for r :: "error + unit" by (cases r) simp_all
  then show ?thesis by (auto split: bind_splits)
qed

lemma send_hello_policy:
  assumes "send_hello srv m ch rec ts w = Some (ok, ts', w')"
  shows "tsPolicy ts' = tsPolicy ts"
proof -
  have "tsPolicy t = tsPolicy ts" if "write_dst x ts = Some (r, t)" for x r t
    using that by (auto simp: write_dst_def split: bind_splits)
  then show ?thesis using assms by (auto simp: send_hello_def Let_def split: mode.splits bind_splits sum.splits)
qed

text \<open>A new connection has sent nothing.\<close>

definition unsent :: "session \<Rightarrow> bool" where
  "unsent ts \<longleftrightarrow> (\<forall>l. tsDst ts = Some l \<longrightarrow> sent (fst l) = [])"

text \<open>What the peer \<open>ra\<close> reads for the record \<open>b\<close>, in a network where \<open>reach\<close> says which TTLs suffice.\<close>

definition hello_read ::
  "('r, 'n, 'd) server \<Rightarrow> (addr \<Rightarrow> int \<Rightarrow> bool) \<Rightarrow> 'n ttl_state \<Rightarrow> policy \<Rightarrow> mode \<Rightarrow> addr \<times> nat \<Rightarrow> bytes \<Rightarrow> bytes \<Rightarrow> bool" where
  "hello_read srv reach t p m ra b x \<longleftrightarrow> hello_fate (fake_arrives (srvTTL srv) (srvCalc srv) t reach p ra) p m b x \<and>
     (mode_ok srv p m \<and> steady (srvTTL srv) reach \<and> ttl_inv reach t \<longrightarrow> carries b x)"

lemma hello_read_carries: "carries b x \<Longrightarrow> hello_read srv reach t p m ra b x"
  by (simp add: hello_read_def hello_fate_def)

lemma hello_read_forced: "hello_read srv reach t p ModeDirect ra b x \<Longrightarrow> hello_read srv reach t p m ra b x"
  by (simp add: hello_read_def hello_fate_def mode_ok_def)

text \<open>The fake packet arrives or not; it does not when its TTL was measured in a steady network.\<close>

lemma desync_fate:
  assumes "start \<le> pos" and "pos \<le> length b"
  shows "(reach ttl \<Longrightarrow> fake ttl) \<Longrightarrow> hello_fate fake p ModeTTLD b (received (map (arrive reach) (desync_wire b start pos ttl)))"
    and "\<not> reach ttl \<Longrightarrow> carries b (received (map (arrive reach) (desync_wire b start pos ttl)))"
proof -
  show c: "\<not> reach ttl \<Longrightarrow> carries b (received (map (arrive reach) (desync_wire b start pos ttl)))"
    by (simp add: desync_wire_def)
  assume fake: "reach ttl \<Longrightarrow> fake ttl"
  show "hello_fate fake p ModeTTLD b (received (map (arrive reach) (desync_wire b start pos ttl)))"
  proof (cases "reach ttl")
    case True
    then have "received (map (arrive reach) (desync_wire b start pos ttl)) = take start b @ replicate (pos - start) 0 @ drop pos b"
      by (simp add: desync_wire_def)
    then show ?thesis unfolding hello_fate_def using assms fake [OF True] by blast
  qed (simp add: hello_fate_def c)
qed

lemma fake_ttl_hidden:
  assumes "getFakeTTL ops calc lg p ra t = Some (Inr ttl, t')"
    and "wf_policy p \<and> 1 \<le> pAttempts p \<and> pFakeTTL p \<in> {0, unsetInt} \<and> genTTLCalcFunc [] = Inr calc"
    and "steady ops reach" and "ttl_inv reach t"
  shows "\<not> reach (unmap (fst ra)) ttl"
proof -
  have pr: "wf_policy p" "1 \<le> pAttempts p" "pFakeTTL p \<in> {0, unsetInt}" "genTTLCalcFunc [] = Inr calc"
    using assms(2) by blast+
  have "least_reach (reach (unmap (fst ra))) (ttl + 1)"
    using fake_ttl_ok [OF assms(3,4) pr, of lg ra] assms(1) by auto
  then show ?thesis using steadyD(3) [OF assms(3), of "unmap (fst ra)" ttl] by (auto simp: least_reach_def)
qed

lemma send_hello_read:
  assumes go: "send_hello srv m ch rec ts w = Some (True, ts', w')" and u: "unsent ts"
    and sni: "sni_in rec ch" "sniStart ch \<le> 0 \<longrightarrow> m = ModeDirect" and len: "length rec \<le> 65540"
  shows "tsInput ts' = tsInput ts \<and> (\<forall>c ra. tsDst ts' = Some (c, ra) \<longrightarrow>
    hello_read srv reach (wTTL w) (tsPolicy ts) m ra rec (received (map (arrive (reach (unmap (fst ra)))) (sent c))))"
    (is "_ \<and> (\<forall>c ra. _ \<longrightarrow> ?read c ra)")
proof -
  have snis: "58 \<le> nat (sniStart ch)" "nat (sniStart ch) + sniLen ch \<le> length rec" if "m \<noteq> ModeDirect"
    using sni that by (auto simp: sni_in_def)
  have written: "\<exists>c ra. tsDst ts = Some (c, ra) \<and> sent c = []" if "write_dst x t = Some (y, z)" "tsDst t = tsDst ts" for x y t z
    using that u by (auto simp: write_dst_def unsent_def split: bind_splits)
  consider (plain) "m \<in> {ModeRaw, ModeDirect}" | (rf) "m = ModeTLSRF" | (ttld) "m = ModeTTLD"
    | (none) "m \<in> {ModeUnset, ModeBlock, ModeTLSAlert}"
    by (cases m) simp_all
  then show ?thesis
  proof cases
    case plain
    then have w: "write_dst (conn_write rec) ts = Some (Inr (), ts')"
      using go by (auto simp: send_hello_def Let_def write_flag)
    obtain c ra where d: "tsDst ts = Some (c, ra)" "sent c = []" using written [OF w] by blast
    obtain c' where c': "ts' = ts\<lparr>tsDst := Some (c', ra)\<rparr>" "sent c' = [Data rec]"
      using write_dst_done [OF w sends_conn_write d(1)] d(2) by fastforce
    then show ?thesis by (auto intro: hello_read_carries)
  next
    case rf
    let ?p = "tsPolicy ts"
    let ?m = "sendRecords rec (nat (sniStart ch)) (sniLen ch) (pNumRecords ?p) (pNumSegments ?p) (minor_of ?p) (opts_of ?p)"
    have w: "write_dst ?m ts = Some (Inr (), ts')"
      using go rf by (simp add: send_hello_def Let_def write_flag)
    obtain c ra where d: "tsDst ts = Some (c, ra)" "sent c = []" using written [OF w] by blast
    have "\<exists>c'. ?m c = Some (Inr (), c')" using w d(1) by (auto simp: write_dst_def split: bind_splits)
    then have "\<not> doomed ?m" unfolding doomed_def by fastforce
    then obtain ws where ws: "sends ?m ws" "fragments_fate ?p rec (received ws)"
      using sendRecords_fate [OF _ _ len, of "nat (sniStart ch)" "sniLen ch" ?p "minor_of ?p"] snis rf by auto
    obtain c' where c': "ts' = ts\<lparr>tsDst := Some (c', ra)\<rparr>" "sent c' = ws" "?m c = Some (Inr (), c')"
      using write_dst_done [OF w ws(1) d(1)] d(2) by auto
    have "hello_read srv reach (wTTL w) ?p m a rec (received (sent c'))" for a
      unfolding hello_read_def hello_fate_def using ws(2) rf c'(2) fragments_ok_carries [OF ws(2)] by (simp add: mode_ok_def)
    then show ?thesis using quiet_received [OF quiet_sendRecords c'(3) d(2)] c'(1) by auto
  next
    case ttld
    obtain c ra where d: "tsDst ts = Some (c, ra)" "sent c = []"
      using go ttld u by (auto simp: send_hello_def unsent_def split: bind_splits)
    obtain ttl t where t: "getFakeTTL (srvTTL srv) (srvCalc srv) (Some (srvLogger srv)) (tsPolicy ts) ra (wTTL w) = Some (Inr ttl, t)"
      "write_dst (desyncSend rec (nat (sniStart ch)) (sniLen ch) ttl) ts = Some (Inr (), ts')"
      using go ttld d(1) by (auto simp: send_hello_def Let_def write_flag split: bind_splits sum.splits)
    let ?reach = "reach (unmap (fst ra))"
    obtain pos where pos: "sends (desyncSend rec (nat (sniStart ch)) (sniLen ch) ttl) (desync_wire rec (nat (sniStart ch)) pos ttl)"
      "nat (sniStart ch) \<le> pos" "pos \<le> nat (sniStart ch) + sniLen ch"
      using sends_desync [of "nat (sniStart ch)" "sniLen ch" rec ttl] snis ttld by auto
    then have p: "pos \<le> length rec" using snis ttld by fastforce
    let ?fake = "fake_arrives (srvTTL srv) (srvCalc srv) (wTTL w) reach (tsPolicy ts) ra"
    have fake: "?fake ttl" if "?reach ttl"
      unfolding fake_arrives_def using t(1) that by blast
    note fate = desync_fate(1) [where reach = ?reach and ttl = ttl and p = "tsPolicy ts" and fake = ?fake, OF pos(2) p fake]
      and clean = desync_fate(2) [where reach = ?reach and ttl = ttl, OF pos(2) p]
    obtain c' where c': "ts' = ts\<lparr>tsDst := Some (c', ra)\<rparr>" "sent c' = desync_wire rec (nat (sniStart ch)) pos ttl"
      using write_dst_done [OF t(2) pos(1) d(1)] d(2) by auto
    have hidden: "\<not> ?reach ttl" if "mode_ok srv (tsPolicy ts) m" "steady (srvTTL srv) reach" "ttl_inv reach (wTTL w)"
      using fake_ttl_hidden [OF t(1) _ that(2,3)] that(1) ttld by (simp add: mode_ok_def probes_ttl_def)
    have "?read c' ra" using fate clean hidden c'(2) ttld unfolding hello_read_def by simp
    then show ?thesis using c'(1) by auto
  next
    case none
    then have "ts' = ts" using go by (auto simp: send_hello_def)
    then show ?thesis using u none by (auto simp: unsent_def hello_read_def hello_fate_def mode_ok_def)
  qed
qed

section \<open>What sniffing does to the session\<close>

text \<open>A connection that was just dialled has sent nothing.\<close>

definition dials_fresh :: "('r, 'n, 'd) server \<Rightarrow> bool" where
  "dials_fresh srv \<longleftrightarrow> (\<forall>d port t dl n l n'. srvDial srv d port t dl n = Some (Inr (Some l), n') \<longrightarrow> sent (fst l) = [])"

lemma dials_freshD: "srvDial srv d port t dl n = Some (Inr (Some l), n') \<Longrightarrow> dials_fresh srv \<Longrightarrow> sent (fst l) = []"
  unfolding dials_fresh_def by blast

text \<open>
  Dialling does not panic for a destination that can be printed, and gives a connection or an error. Only
  with several addresses, which \<^verbatim>\<open>dialParallel\<close> races, may it give neither of them: then it has lost its
  race (\<open>dial_lost_race\<close> in the theory on dialling).
\<close>

definition several :: "dst \<Rightarrow> bool" where
  "several d \<longleftrightarrow> (case multi d of None \<Rightarrow> False | Some as \<Rightarrow> 2 \<le> length as)"

definition dials :: "(dst option \<Rightarrow> string \<Rightarrow> int \<Rightarrow> int \<Rightarrow> 'd \<Rightarrow> ((error + link option) \<times> 'd) option) \<Rightarrow> bool" where
  "dials dial \<longleftrightarrow> (\<forall>h port timeout delay n. dst_string (Some h) \<noteq> None \<longrightarrow>
     (\<exists>r n'. dial (Some h) port timeout delay n = Some (r, n') \<and> (r = Inr None \<longrightarrow> several h)))"

definition loses_race :: "(dst option \<Rightarrow> string \<Rightarrow> int \<Rightarrow> int \<Rightarrow> 'd \<Rightarrow> ((error + link option) \<times> 'd) option) \<Rightarrow> bool" where
  "loses_race dial \<longleftrightarrow> (\<exists>h port timeout delay n n'. several h \<and> dial (Some h) port timeout delay n = Some (Inr None, n'))"

lemma dials_result:
  assumes "dials dial" and "\<not> loses_race dial" and "dst_string (Some h) \<noteq> None"
  shows "\<exists>r n'. dial (Some h) port timeout delay n = Some (r, n') \<and> r \<noteq> Inr None"
  using assms unfolding dials_def loses_race_def by metis

text \<open>\<open>keeps ts w ts' w'\<close>: the input and the TTL cache are as before, and nothing was sent to a server.\<close>

definition keeps :: "session \<Rightarrow> ('r, 'n, 'd) world \<Rightarrow> session \<Rightarrow> ('r, 'n, 'd) world \<Rightarrow> bool" where
  "keeps ts w ts' w' \<longleftrightarrow> tsInput ts' = tsInput ts \<and> wTTL w' = wTTL w \<and> (unsent ts \<longrightarrow> unsent ts')"

lemma keeps_refl [simp]: "keeps ts w ts w"
  by (simp add: keeps_def)

lemma keeps_trans: "keeps ts w ts1 w1 \<Longrightarrow> keeps ts1 w1 ts2 w2 \<Longrightarrow> keeps ts w ts2 w2"
  by (simp add: keeps_def)

lemma keeps_world [simp]:
  "keeps ts w ts' (w'\<lparr>wNet := n\<rparr>) = keeps ts w ts' w'" "keeps ts w ts' (w'\<lparr>wRoute := rt\<rparr>) = keeps ts w ts' w'"
  by (simp_all add: keeps_def)

lemma keeps_session [simp]:
  "keeps ts w (ts'\<lparr>tsCli := c\<rparr>) w' = keeps ts w ts' w'"
  "keeps ts w (ts'\<lparr>tsPolicy := p\<rparr>) w' = keeps ts w ts' w'"
  "keeps ts w (ts'\<lparr>tsOriginHost := host\<rparr>) w' = keeps ts w ts' w'"
  by (simp_all add: keeps_def unsent_def)

lemma alert_keeps: "sendTLSAlert ver desc lv ts = Some ts' \<Longrightarrow> \<exists>c. ts' = ts\<lparr>tsCli := c\<rparr>"
  by (auto simp: sendTLSAlert_def split: bind_splits)

lemma check_keeps: "checkTLS13Only t p ver ts = Some (ok, ts') \<Longrightarrow> \<exists>c. ts' = ts\<lparr>tsCli := c\<rparr>"
  by (auto simp: checkTLS13Only_def dest: alert_keeps split: bind_splits if_splits intro: exI [of _ "tsCli ts"])

lemma route_only_keeps:
  assumes "route_only srv ch sni ts = Some (ok, ts')"
  shows "keeps ts w ts' w \<and> (tsDst ts' = tsDst ts)"
  using assms unfolding route_only_def
  by (auto split: option.splits if_splits bind_splits dest!: alert_keeps check_keeps)

lemma switch_dst_keeps:
  assumes "switch_dst srv d sp ts w = Some (ok, ts', w')" and "dials_fresh srv"
  shows "keeps ts w ts' w'"
  using assms unfolding switch_dst_def
  by (auto simp: keeps_def unsent_def Let_def dest!: dials_freshD [OF _ assms(2)] split: sum.splits bind_splits)

lemma ensure_dst_keeps:
  assumes "ensure_dst srv ts w = Some (ok, ts', w')" and "dials_fresh srv"
  shows "keeps ts w ts' w' \<and> tsPolicy ts' = tsPolicy ts"
  using assms unfolding ensure_dst_def
  by (auto simp: keeps_def unsent_def dest!: dials_freshD [OF _ assms(2)] split: sum.splits option.splits bind_splits)

lemma override_dst_keeps:
  assumes "override_dst srv ch sni ts w = Some (ok, ts', w')" and f: "dials_fresh srv"
  shows "keeps ts w ts' w'"
proof -
  have "keeps ts w ts2 w2" if "switch_dst srv d sp (ts\<lparr>tsCli := c\<rparr>) (w\<lparr>wRoute := rt\<rparr>) = Some (ok2, ts2, w2)" for d sp c rt ok2 ts2 w2
    using switch_dst_keeps [OF that f] by (rule keeps_trans [rotated]) simp
  then show ?thesis
    using assms(1) unfolding override_dst_def Let_def
    by (auto split: bind_splits if_splits dest!: alert_keeps check_keeps)
qed

lemma sniff_sni_keeps:
  assumes "sniff_sni srv ch sni ts w = Some (ok, ts', w')" and f: "dials_fresh srv"
  shows "keeps ts w ts' w'"
proof -
  let ?t = "if tsFromSNI ts then ts\<lparr>tsOriginHost := sni\<rparr> else ts"
  have t: "keeps ts w ?t w" by simp
  have "override_dst srv ch sni ?t w = Some (ok, ts', w') \<or> route_only srv ch sni ?t = Some (ok, ts') \<and> w' = w \<or>
      (ok, ts', w') = (True, ?t, w) \<or> (ok, ts', w') = (True, ts, w)"
    using assms(1) unfolding sniff_sni_def Let_def
    by (auto split: if_splits sniff_override_mode.splits bind_splits)
  then show ?thesis
    using keeps_trans [OF t override_dst_keeps [OF _ f]] keeps_trans [OF t route_only_keeps [THEN conjunct1]] t by auto
qed

lemma sniff_keeps:
  assumes "sniff srv ch rec ts w = Some ((ok, m), ts', w')" and f: "dials_fresh srv"
  shows "keeps ts w ts' w' \<and> m \<in> {ModeUnset, ModeDirect} \<and> (sniStart ch \<le> 0 \<longrightarrow> m = ModeDirect)"
  using assms(1) unfolding sniff_def
  by (auto split: if_splits bind_splits dest: sniff_sni_keeps [OF _ f])

lemma handleTLS_read:
  assumes go: "handleTLS srv n ts w = Some (True, ts', w')" and f: "dials_fresh srv" and u: "unsent ts" and n: "5 \<le> n" "n \<le> 65540"
  shows "tsInput ts' = drop n (tsInput ts) \<and> n \<le> length (tsInput ts) \<and> (\<forall>c ra. tsDst ts' = Some (c, ra) \<longrightarrow>
    hello_read srv reach (wTTL w) (tsPolicy ts') (pMode (tsPolicy ts')) ra (take n (tsInput ts))
      (received (map (arrive (reach (unmap (fst ra)))) (sent c))))"
proof -
  let ?rec = "take n (tsInput ts)" and ?ts = "ts\<lparr>tsInput := drop n (tsInput ts)\<rparr>"
  have full: "length ?rec = n"
    using go by (auto simp: handleTLS_def Let_def split: if_splits)
  obtain ch where ch: "parseClientHello ?rec = Some ch" "sni_in ?rec ch"
    using parse_safe [of ?rec] full n(1) unfolding succeeds_def by fastforce
  obtain t1 where t1: "checkTLS13Only (isTLS13 ch) (tsPolicy ?ts) (prtVer ch) ?ts = Some (True, t1)"
    "finish_tls srv ch ?rec t1 w = Some (True, ts', w')"
    using go full ch(1) by (auto simp: handleTLS_def Let_def split: if_splits bind_splits)
  obtain cli where cli: "t1 = ?ts\<lparr>tsCli := cli\<rparr>" using check_keeps [OF t1(1)] by blast
  obtain m t2 w2 t3 w3 where s: "sniff srv ch ?rec t1 w = Some ((True, m), t2, w2)"
    "ensure_dst srv t2 w2 = Some (True, t3, w3)"
    "send_hello srv (if m = ModeUnset then pMode (tsPolicy t3) else m) ch ?rec t3 w3 = Some (True, ts', w')"
    using t1(2) by (auto simp: finish_tls_def split: if_splits bind_splits)
  note k2 = sniff_keeps [OF s(1) f] and k3 = ensure_dst_keeps [OF s(2) f]
  have k: "keeps t1 w t3 w3" using keeps_trans k2 k3 by blast
  have "unsent t1" using u by (simp add: cli unsent_def)
  then have u3: "unsent t3" "tsInput t3 = drop n (tsInput ts)" "wTTL w3 = wTTL w" using k by (simp_all add: keeps_def cli)
  have p: "tsPolicy ts' = tsPolicy t3" by (rule send_hello_policy [OF s(3)])
  have m: "m = ModeUnset \<or> m = ModeDirect" using k2 by auto
  have "tsInput ts' = tsInput t3 \<and> (\<forall>c ra. tsDst ts' = Some (c, ra) \<longrightarrow>
    hello_read srv reach (wTTL w3) (tsPolicy t3) (if m = ModeUnset then pMode (tsPolicy t3) else m) ra ?rec
      (received (map (arrive (reach (unmap (fst ra)))) (sent c))))"
    by (rule send_hello_read [OF s(3) u3(1) ch(2)]) (use k2 full n(2) in auto)
  moreover have "n \<le> length (tsInput ts)" using full by simp
  ultimately show ?thesis using m unfolding p u3(2,3) by (auto split: if_splits intro: hello_read_forced)
qed

definition http_methods :: "string list" where
  "http_methods = [''GET '', ''POST '', ''HEAD '', ''PUT '', ''DELETE '', ''OPTIONS '', ''TRACE '', ''PATCH '']"

section \<open>An example\<close>

text \<open>A ClientHello of TLS 1.3 for the host \<^verbatim>\<open>a.b\<close>, and a server whose default policy and whose policy for that host block.\<close>

definition demo_hello :: bytes where
  "demo_hello = make_hello [1] (hello_head [3, 3] (replicate 32 7) [] [19, 1] [0])
     ([] @ (tlsExtTypeSNI, enc_sni [97, 46, 98]) # [(43, [2, 3, 4])])"

definition demo_ch :: "nat \<Rightarrow> client_hello" where
  "demo_ch pos = \<lparr>prtVer = [3, 3], sniStart = int pos, sniLen = 3, isTLS13 = True, hasECH = False, chErr = None\<rparr>"

definition demo_policy :: "mode \<Rightarrow> policy" where
  "demo_policy m = (policy_init zero_policy)\<lparr>pMode := m, pSniffOverrideMode := SniffOverrideAlways\<rparr>"

definition demo_routes :: route_matcher where
  "demo_routes = \<lparr>defaultPolicy = demo_policy ModeBlock,
     domainPolicies = insert_pattern (bytes_string [97, 46, 98]) (demo_policy ModeBlock) False True new_domain_matcher,
     ipv4Policies = new_bit_node, ipv6Policies = new_bit_node, hosts = new_domain_matcher\<rparr>"

definition demo_server :: "(unit, unit, unit) server" where
  "demo_server = \<lparr>srvRoute = demo_routes, srvResolve = (\<lambda>_ _ _ r. Some (Inr (Some (new_single_dst ''::1''), False), r)),
     srvTTL = five_hops, srvCalc = (\<lambda>ttl. Inr (int64 (ttl - 1))),
     srvDial = (\<lambda>_ _ _ _ n. Some (Inr (Some (\<lparr>sent = [], faults = []\<rparr>, (IP4 [1, 2, 3, 4], 443))), n)),
     srvLogger = \<lparr>logLevel = LevelInfo, logPrefix = []\<rparr>\<rparr>"

definition demo_world :: "(unit, unit, unit) world" where
  "demo_world = \<lparr>wRoute = (\<lambda>_. None, ()), wTTL = \<lparr>ttlCache = None, ttlNet = ()\<rparr>, wNet = ()\<rparr>"

definition demo_http :: http_ops where
  "demo_http = \<lparr>httpRead = (\<lambda>b. (Inl (NewError ''malformed''), [])), httpWrite = (\<lambda>_. []), httpStatusText = (\<lambda>_. []),
     httpRespond = (\<lambda>_ _ _ _. [])\<rparr>"

definition demo_session :: "policy \<Rightarrow> link option \<Rightarrow> bytes \<Rightarrow> bytes \<Rightarrow> session" where
  "demo_session p d host b = \<lparr>tsPolicy = p, tsCli = \<lparr>sent = [], faults = []\<rparr>, tsDst = d, tsDropped = [], tsTarget = None,
     tsOriginHost = bytes_string host, tsOriginPort = ''443'', tsPort = ''443'', tsFromSNI = False, tsInput = b\<rparr>"

lemma demo_hello_bytes: "length demo_hello = 71" "demo_hello ! 0 = 22" "demo_hello ! 1 = 3" "demo_hello ! 3 = 0" "demo_hello ! 4 = 66"
  by (simp_all add: demo_hello_def make_hello_def hello_head_def Let_def enc_ext_def enc_sni_def put_be16_def put_be24_def)

lemma demo_parsed:
  obtains pos where "parseClientHello demo_hello = Some (demo_ch pos)" "slice demo_hello pos (pos + 3) = Some [97, 46, 98]"
    "0 < pos" "sni_in demo_hello (demo_ch pos)"
proof -
  obtain pos where p: "parseClientHello demo_hello = Some (demo_ch pos)" "slice demo_hello pos (pos + 3) = Some [97, 46, 98]"
    using parse_hello [OF _ _ _ _ _ _ _ _ demo_hello_def] demo_hello_bytes(1)
    by (fastforce simp: small_exts_def tls_consts numeral_3_eq_3 demo_ch_def)
  then have "sni_in demo_hello (demo_ch pos)"
    using parse_safe [of demo_hello] demo_hello_bytes(1) by (simp add: succeeds_def)
  then show thesis using p by (intro that) (auto simp: sni_in_def demo_ch_def)
qed

lemma demo_name: "bytes_string [97, 46, 98] = ''a.b''"
  by (simp add: bytes_string_def) code_simp

lemma demo_no_http: "\<not> bytesHasPrefix (take 10 (demo_hello @ x)) http_methods"
proof -
  have "take 10 (demo_hello @ x) = 22 # drop 1 (take 10 demo_hello)"
    by (simp add: demo_hello_def make_hello_def Let_def)
  moreover have "(char_of (22 :: nat) :: char) \<notin> set ''GPHDOT''" by code_simp
  ultimately show ?thesis by (simp add: bytesHasPrefix_def http_methods_def bytes_string_def)
qed

section \<open>The tunnel is transparent\<close>

lemma drain_ok:
  assumes "drainBuffered n ts = Some (True, ts')" and d: "tsDst ts = Some (c, ra)"
  shows "\<exists>c' k. ts' = ts\<lparr>tsDst := Some (c', ra), tsInput := drop k (tsInput ts)\<rparr> \<and>
    sent c' = sent c @ (if take k (tsInput ts) = [] then [] else [Data (take k (tsInput ts))])"
proof (cases "take n (tsInput ts) = []")
  case True
  then have "ts' = ts\<lparr>tsDst := Some (c, ra), tsInput := drop 0 (tsInput ts)\<rparr>" using assms by (simp add: drainBuffered_def)
  then show ?thesis by (intro exI [of _ c] exI [of _ 0]) simp
next
  case False
  then obtain r t where t: "write_dst (conn_write (take n (tsInput ts))) ts = Some (r, t)" "\<not> isl r"
    "ts' = t\<lparr>tsInput := drop n (tsInput ts)\<rparr>"
    using assms(1) by (auto simp: drainBuffered_def split: bind_splits)
  then have "write_dst (conn_write (take n (tsInput ts))) ts = Some (Inr (), t)" by (cases r) simp_all
  then obtain c' where "t = ts\<lparr>tsDst := Some (c', ra)\<rparr>" "sent c' = sent c @ [Data (take n (tsInput ts))]"
    using write_dst_done [OF _ sends_conn_write d] by blast
  then show ?thesis using t(3) False by (intro exI [of _ c'] exI [of _ n]) simp
qed

lemma end_tunnel_ok:
  assumes e: "end_tunnel n ts w = Some (Forwarding, ts', w')"
  shows "\<exists>c ra c' k. tsDst ts = Some (c, ra) \<and> tsDst ts' = Some (c', ra) \<and> tsInput ts' = drop k (tsInput ts) \<and>
    tsPolicy ts' = tsPolicy ts \<and>
    received (map (arrive reach) (sent c')) = received (map (arrive reach) (sent c)) @ take k (tsInput ts)"
proof -
  obtain t where t: "drainBuffered n ts = Some (True, t)" "forwardTCP t = Some ts'"
    using e by (auto simp: end_tunnel_def split: bind_splits if_splits)
  then have same: "ts' = t" "tsDst t \<noteq> None" by (auto simp: forwardTCP_def split: option.splits)
  obtain c ra where d: "tsDst ts = Some (c, ra)"
  proof (cases "tsDst ts")
    case None
    then show ?thesis using t(1) same(2) by (auto simp: drainBuffered_def write_dst_def split: if_splits)
  qed auto
  obtain c' k where c': "t = ts\<lparr>tsDst := Some (c', ra), tsInput := drop k (tsInput ts)\<rparr>"
    "sent c' = sent c @ (if take k (tsInput ts) = [] then [] else [Data (take k (tsInput ts))])"
    using drain_ok [OF t(1) d] by blast
  have "received (map (arrive reach) (sent c')) = received (map (arrive reach) (sent c)) @ take k (tsInput ts)"
    unfolding c'(2) by (simp add: received_append)
  then show ?thesis using d same(1) c'(1) by auto
qed

text \<open>
  What a tunnel that goes over to forwarding has done, given all the client ever sends: no record was
  dealt with, or the one at the start, of the length in its header, for which the server has read \<open>x\<close>, of which
  \<open>read_for\<close> holds; then the bytes that were buffered; what is left to read from the client follows without a gap.
\<close>

definition first_record :: "(bytes \<Rightarrow> bytes \<Rightarrow> bool) \<Rightarrow> bytes \<Rightarrow> nat \<Rightarrow> bytes \<Rightarrow> bool" where
  "first_record read_for input k x \<longleftrightarrow> k = 0 \<and> x = [] \<or>
     k = 5 + be16 (input ! 3) (input ! 4) \<and> k \<le> length input \<and> read_for (take k input) x"

definition passes_on :: "(addr \<Rightarrow> int \<Rightarrow> bool) \<Rightarrow> (addr \<times> nat \<Rightarrow> bytes \<Rightarrow> bytes \<Rightarrow> bool) \<Rightarrow> bytes \<Rightarrow> session \<Rightarrow> bool" where
  "passes_on reach read_for input ts \<longleftrightarrow>
     (\<exists>c ra k x y. tsDst ts = Some (c, ra) \<and> received (map (arrive (reach (unmap (fst ra)))) (sent c)) = x @ y \<and>
        first_record (read_for ra) input k x \<and> y @ tsInput ts = drop k input)"

lemma end_tunnel_passes:
  assumes e: "end_tunnel n t1 w1 = Some (Forwarding, ts', w')" and i: "tsInput t1 = drop k input"
    and c: "\<And>c ra. tsDst t1 = Some (c, ra) \<Longrightarrow>
      first_record (read_for ra) input k (received (map (arrive (reach (unmap (fst ra)))) (sent c)))"
  shows "passes_on reach read_for input ts'"
proof -
  obtain c ra where d: "tsDst t1 = Some (c, ra)" using end_tunnel_ok [OF e] by blast
  obtain c' j where j: "tsDst ts' = Some (c', ra)" "tsInput ts' = drop j (tsInput t1)"
    "received (map (arrive (reach (unmap (fst ra)))) (sent c')) =
     received (map (arrive (reach (unmap (fst ra)))) (sent c)) @ take j (tsInput t1)"
    using end_tunnel_ok [OF e, of "reach (unmap (fst ra))"] d by auto
  have "take j (tsInput t1) @ tsInput ts' = drop k input" unfolding j(2) i by (rule append_take_drop_id)
  then show ?thesis unfolding passes_on_def using j(1,3) c [OF d] by blast
qed

lemma raw_passes:
  assumes "ensure_dst srv ts w = Some (True, ts', w')" and "dials_fresh srv" and "unsent ts" and "tsDst ts' \<noteq> None"
  shows "passes_on reach read_for (tsInput ts) ts'"
proof -
  have "keeps ts w ts' w'" using ensure_dst_keeps [OF assms(1,2)] by auto
  then obtain c ra where d: "tsDst ts' = Some (c, ra)" "unsent ts'" "tsInput ts' = tsInput ts"
    using assms(3,4) by (auto simp: keeps_def)
  then have "sent c = []" by (auto simp: unsent_def)
  then show ?thesis unfolding passes_on_def using d(1,3)
    by (intro exI [of _ c] exI [of _ ra] exI [of _ 0] exI [of _ "[]"]) (simp add: first_record_def)
qed

lemma tunnel_passes_on:
  assumes "handleTunnel h srv n ts w = Some (Forwarding, ts', w')"
    and "dials_fresh srv" and "unsent ts" and "\<not> bytesHasPrefix (take 10 (tsInput ts)) http_methods"
  shows "passes_on reach (hello_read srv reach (wTTL w) (tsPolicy ts') (pMode (tsPolicy ts'))) (tsInput ts) ts'"
proof -
  let ?in = "tsInput ts"
  consider (raw) "pMode (tsPolicy ts) = ModeRaw" | (short) "pMode (tsPolicy ts) \<noteq> ModeRaw" "length ?in < 10"
    | (tls) "pMode (tsPolicy ts) \<noteq> ModeRaw" "10 \<le> length ?in" "?in ! 0 = tlsRecordTypeHandshake" "?in ! 1 = tlsMajorVersion"
    | (other) "pMode (tsPolicy ts) \<noteq> ModeRaw" "10 \<le> length ?in" "?in ! 0 \<noteq> tlsRecordTypeHandshake \<or> ?in ! 1 \<noteq> tlsMajorVersion"
    by linarith
  then show ?thesis
  proof cases
    case raw
    then have "ensure_dst srv ts w = Some (True, ts', w')" "tsDst ts' \<noteq> None"
      using assms(1) by (auto simp: handleTunnel_def forwardTCP_def split: bind_splits if_splits option.splits)
    then show ?thesis by (intro raw_passes [OF _ assms(2,3)])
  next
    case short
    then show ?thesis using assms(1) by (simp add: handleTunnel_def)
  next
    case tls
    let ?n = "5 + be16 (?in ! 3) (?in ! 4)"
    obtain t1 w1 where t1: "handleTLS srv ?n ts w = Some (True, t1, w1)" "end_tunnel n t1 w1 = Some (Forwarding, ts', w')"
      using assms(1) tls by (auto simp: handleTunnel_def Let_def split: bind_splits if_splits)
    have p: "tsPolicy ts' = tsPolicy t1" using end_tunnel_ok [OF t1(2)] by blast
    have "?n \<le> 65540" using be16_bound [of "?in ! 3" "?in ! 4"] by linarith
    from handleTLS_read [OF t1(1) assms(2,3) _ this, of reach] show ?thesis
      unfolding p by (intro end_tunnel_passes [OF t1(2), of ?n]) (auto simp: first_record_def)
  next
    case other
    then have "end_tunnel (max 10 n) ts w = Some (Forwarding, ts', w')"
      using assms(1,4) by (auto simp: handleTunnel_def Let_def http_methods_def split: if_splits)
    then show ?thesis
      by (rule end_tunnel_passes [of _ _ _ _ _ 0]) (use assms(3) in \<open>auto simp: first_record_def unsent_def\<close>)
  qed
qed

lemma demo_direct:
  assumes "tsDst ts = None" "tsPolicy ts = demo_policy ModeDirect" "tsOriginHost ts = bytes_string [97, 46, 98]"
    "\<not> tsFromSNI ts" "tsInput ts = demo_hello @ b"
  shows "\<exists>ts'. handleTunnel demo_http demo_server n ts demo_world = Some (Forwarding, ts', demo_world) \<and>
    tsPolicy ts' = tsPolicy ts \<and> tsInput ts' = drop n b"
proof -
  obtain pos where p: "parseClientHello demo_hello = Some (demo_ch pos)" "slice demo_hello pos (pos + 3) = Some [97, 46, 98]" "0 < pos"
    by (rule demo_parsed)
  let ?t = "ts\<lparr>tsInput := b\<rparr>" and ?l = "(\<lparr>sent = [], faults = []\<rparr>, (IP4 [1, 2, 3, 4], 443)) :: link"
  have "sniff demo_server (demo_ch pos) demo_hello ?t demo_world = Some ((True, ModeUnset), ?t, demo_world)"
    using p(2,3) assms(3,4) by (simp add: sniff_def demo_ch_def sniff_sni_def)
  moreover have "ensure_dst demo_server ?t demo_world = Some (True, ?t\<lparr>tsDst := Some ?l\<rparr>, demo_world)"
    using assms(1) by (simp add: ensure_dst_def demo_server_def demo_world_def)
  moreover have "pMode (tsPolicy ts) = ModeDirect" using assms(2) by (simp add: demo_policy_def)
  ultimately have f: "finish_tls demo_server (demo_ch pos) demo_hello ?t demo_world =
      Some (True, ?t\<lparr>tsDst := Some (\<lparr>sent = [Data demo_hello], faults = []\<rparr>, snd ?l)\<rparr>, demo_world)"
    by (simp add: finish_tls_def send_hello_def Let_def write_dst_def conn_write_def net_call_def)
  have h: "handleTLS demo_server 71 ts demo_world =
      Some (True, ?t\<lparr>tsDst := Some (\<lparr>sent = [Data demo_hello], faults = []\<rparr>, snd ?l)\<rparr>, demo_world)"
    using p(1) f assms(2,5) demo_hello_bytes(1)
    by (simp add: handleTLS_def checkTLS13Only_def demo_policy_def demo_ch_def)
  have "tsInput ts ! 0 = 22" "tsInput ts ! 1 = 3" "5 + be16 (tsInput ts ! 3) (tsInput ts ! 4) = 71" "10 \<le> length (tsInput ts)"
    using demo_hello_bytes assms(5) by (simp_all add: nth_append be16_def)
  then have "handleTunnel demo_http demo_server n ts demo_world =
      end_tunnel n (?t\<lparr>tsDst := Some (\<lparr>sent = [Data demo_hello], faults = []\<rparr>, snd ?l)\<rparr>) demo_world"
    using h assms(2) by (simp add: handleTunnel_def Let_def tls_consts demo_policy_def)
  then show ?thesis
    by (simp add: end_tunnel_def drainBuffered_def write_dst_def conn_write_def net_call_def forwardTCP_def)
qed

section \<open>Refused connections\<close>

lemma parsed_version:
  assumes "5 \<le> length b" and "parseClientHello b = Some ch" and "chErr ch = None"
  obtains v0 v1 where "prtVer ch = [v0, v1]"
proof -
  have "length (prtVer ch) = Suc (Suc 0)" using parse_safe [OF assms(1)] assms(2,3) by (auto simp: succeeds_def)
  then show thesis using that by (auto simp: length_Suc_conv)
qed

lemma sendTLSAlert_ok:
  "\<exists>r c. sendTLSAlert [v0, v1] desc lv ts = Some (ts\<lparr>tsCli := c\<rparr>) \<and>
    conn_write [0x15, v0, v1, 0, 2, lv, desc] (tsCli ts) = Some (r, c)"
proof -
  obtain r c where "conn_write [0x15, v0, v1, 0, 2, lv, desc] (tsCli ts) = Some (r, c)"
    using sends_conn_write [of "[0x15, v0, v1, 0, 2, lv, desc]"] by (blast elim: sendsE)
  then show ?thesis by (simp add: sendTLSAlert_def idx_def)
qed

text \<open>
  C39. A client whose policy asks for a TLS alert, or for TLS 1.3 that its ClientHello does not
  offer, gets the one alert record, fatal and with the right description under its own
  version, and nothing is dialled or sent to a server.
\<close>

theorem tls_rejected:
  assumes "5 \<le> n" and "n \<le> length (tsInput ts)" and "parseClientHello (take n (tsInput ts)) = Some ch" and "chErr ch = None"
    and "pMode (tsPolicy ts) = ModeTLSAlert \<or> \<not> isTLS13 ch \<and> is_true (pTLS13Only (tsPolicy ts))"
    and "faults (tsCli ts) = []"
  shows "\<exists>v0 v1 ts'. prtVer ch = [v0, v1] \<and> handleTLS srv n ts w = Some (False, ts', w) \<and> tsDst ts' = tsDst ts \<and>
    sent (tsCli ts') = sent (tsCli ts) @
      [Data [0x15, v0, v1, 0, 2, tlsAlertLevelFatal,
         if pMode (tsPolicy ts) = ModeTLSAlert then tlsAlertAccessDenied else tlsAlertProtocolVersion]]"
proof -
  obtain v0 v1 where v: "prtVer ch = [v0, v1]"
    using parsed_version [OF _ assms(3,4)] assms(1,2) by auto
  let ?d = "if pMode (tsPolicy ts) = ModeTLSAlert then tlsAlertAccessDenied else tlsAlertProtocolVersion"
  let ?t = "ts\<lparr>tsInput := drop n (tsInput ts)\<rparr>"
  obtain r c where a: "sendTLSAlert [v0, v1] ?d tlsAlertLevelFatal ?t = Some (?t\<lparr>tsCli := c\<rparr>)"
    "conn_write [0x15, v0, v1, 0, 2, tlsAlertLevelFatal, ?d] (tsCli ?t) = Some (r, c)"
    using sendTLSAlert_ok by blast
  have "handleTLS srv n ts w = Some (False, ?t\<lparr>tsCli := c\<rparr>, w)"
    using assms(2-5) a(1) by (auto simp: handleTLS_def checkTLS13Only_def v split: if_splits)
  moreover have "sent c = sent (tsCli ts) @ [Data [0x15, v0, v1, 0, 2, tlsAlertLevelFatal, ?d]]"
    using a(2) assms(6) by (auto simp: conn_write_def net_call_def)
  ultimately show ?thesis using v by (intro exI [of _ v0] exI [of _ v1] exI [of _ "?t\<lparr>tsCli := c\<rparr>"]) simp
qed

theorem tls_rejected_witness:
  "\<exists>v0 v1 ts'. handleTLS demo_server 71 (demo_session (demo_policy ModeTLSAlert) None [] demo_hello) demo_world = Some (False, ts', demo_world) \<and>
    tsDst ts' = None \<and> sent (tsCli ts') = [Data [0x15, v0, v1, 0, 2, tlsAlertLevelFatal, tlsAlertAccessDenied]]"
proof -
  let ?s = "demo_session (demo_policy ModeTLSAlert) None [] demo_hello"
  obtain pos where p: "parseClientHello demo_hello = Some (demo_ch pos)" by (rule demo_parsed)
  show ?thesis
    using tls_rejected [of 71 ?s "demo_ch pos" demo_server demo_world] p demo_hello_bytes(1)
    by (auto simp: demo_session_def demo_ch_def demo_policy_def)
qed

lemma genPolicy_blocked:
  assumes "getDomainPolicy rm host = Some sp" and "pMode sp = ModeBlock" and "\<not> net_parse_ip host"
  shows "genPolicy lg rm resolve host False flag st = Some (blocked_verdict, st)"
  using assms by (simp add: genPolicy_def)

text \<open>
  C8. The sniffing of server names is on, in any of its three forms, and a ClientHello without ECH names a
  host whose policy has the mode \<^verbatim>\<open>block\<close>: not the very host the client asked the proxy for, which was
  routed before, and for the two forms that choose the destination anew not an IP address. Then the
  tunnel ends there, whatever else the policy of the connection says: nothing is dialled, and nothing is
  sent on a connection that was already there.
\<close>

theorem blocked_name_unreached:
  assumes "5 \<le> n" and "parseClientHello (take n (tsInput ts)) = Some ch" and "0 < sniStart ch" and "\<not> hasECH ch"
    and "sni = bytes_string (take (sniLen ch) (drop (nat (sniStart ch)) (take n (tsInput ts))))"
    and "tsFromSNI ts \<or> tsOriginHost ts \<noteq> sni"
    and "pSniffOverrideMode (tsPolicy ts) = SniffOverrideRouteOnly \<or>
      pSniffOverrideMode (tsPolicy ts) \<in> {SniffOverrideAlways, SniffOverridePolicyExists} \<and> \<not> net_parse_ip sni"
    and "getDomainPolicy (srvRoute srv) sni = Some sp" and "pMode sp = ModeBlock"
  shows "\<exists>ts' w'. handleTLS srv n ts w = Some (False, ts', w') \<and> tsDst ts' = tsDst ts \<and> wNet w' = wNet w"
proof -
  let ?rec = "take n (tsInput ts)" and ?t = "ts\<lparr>tsInput := drop n (tsInput ts)\<rparr>"
  show ?thesis
  proof (cases "length ?rec < n \<or> chErr ch \<noteq> None")
    case True
    then have "handleTLS srv n ts w = Some (False, ?t, w)" using assms(2) by (auto simp: handleTLS_def Let_def)
    then show ?thesis by simp
  next
    case False
    then have full: "5 \<le> length ?rec" "n \<le> length (tsInput ts)" "chErr ch = None" using assms(1) by auto
    obtain v0 v1 where v: "prtVer ch = [v0, v1]" by (rule parsed_version [OF full(1) assms(2) full(3)])
    have "sni_in ?rec ch" using parse_safe [OF full(1)] assms(2) by (auto simp: succeeds_def)
    then have sl: "slice ?rec (nat (sniStart ch)) (nat (sniStart ch) + sniLen ch) = Some (take (sniLen ch) (drop (nat (sniStart ch)) ?rec))"
      using assms(3) by (auto simp: sni_in_def slice_def)
    have sniffed: "\<exists>t' w'. finish_tls srv ch ?rec t w = Some (False, t', w') \<and> tsDst t' = tsDst ts \<and> wNet w' = wNet w"
      if t: "t = ?t\<lparr>tsCli := c\<rparr>" for t c
    proof -
      have "\<exists>t' w'. sniff_sni srv ch sni t w = Some (False, t', w') \<and> tsDst t' = tsDst ts \<and> wNet w' = wNet w"
        using assms(6-9)
        by (auto simp: sniff_sni_def t Let_def route_only_def override_dst_def genPolicy_blocked [OF assms(8,9)] blocked_verdict_def)
      then obtain t' w' where "sniff_sni srv ch sni t w = Some (False, t', w')" "tsDst t' = tsDst ts" "wNet w' = wNet w" by blast
      then show ?thesis using assms(3,4,5) sl by (simp add: finish_tls_def sniff_def)
    qed
    show ?thesis
    proof (cases "pMode (tsPolicy ts) = ModeTLSAlert \<or> \<not> isTLS13 ch \<and> is_true (pTLS13Only (tsPolicy ts))")
      case False
      then show ?thesis
        using full(2,3) assms(2) sniffed [of ?t "tsCli ts"] by (auto simp: handleTLS_def checkTLS13Only_def)
    next
      case True
      let ?d = "if pMode (tsPolicy ts) = ModeTLSAlert then tlsAlertAccessDenied else tlsAlertProtocolVersion"
      obtain c where "sendTLSAlert [v0, v1] ?d tlsAlertLevelFatal ?t = Some (?t\<lparr>tsCli := c\<rparr>)"
        using sendTLSAlert_ok by blast
      then have "handleTLS srv n ts w = Some (False, ?t\<lparr>tsCli := c\<rparr>, w)"
        using True full(2,3) assms(2) by (auto simp: handleTLS_def checkTLS13Only_def v split: if_splits)
      then show ?thesis by simp
    qed
  qed
qed

theorem blocked_name_unreached_witness:
  "\<exists>ts' w'. handleTLS demo_server 71 (demo_session (demo_policy ModeDirect) None [120] demo_hello) demo_world = Some (False, ts', w') \<and>
    tsDst ts' = None \<and> wNet w' = ()"
proof -
  let ?s = "demo_session (demo_policy ModeDirect) None [120] demo_hello"
  obtain pos where p: "parseClientHello demo_hello = Some (demo_ch pos)" "slice demo_hello pos (pos + 3) = Some [97, 46, 98]" "0 < pos"
    by (rule demo_parsed)
  have name: "take (sniLen (demo_ch pos)) (drop (nat (sniStart (demo_ch pos))) (take 71 (tsInput ?s))) = [97, 46, 98]"
    using p(2) demo_hello_bytes(1) by (simp add: slice_def demo_ch_def demo_session_def split: if_splits)
  have "getDomainPolicy (srvRoute demo_server) ''a.b'' = Some (demo_policy ModeBlock)"
    unfolding demo_server_def demo_routes_def demo_name getDomainPolicy_def by simp code_simp
  moreover have "\<not> net_parse_ip ''a.b''" by code_simp
  ultimately show ?thesis
    using blocked_name_unreached [of 71 ?s "demo_ch pos" "''a.b''" demo_server "demo_policy ModeBlock" demo_world] p demo_hello_bytes(1) name demo_name
    by (auto simp: demo_session_def demo_ch_def demo_policy_def bytes_string_def)
qed

section \<open>Policies for which the tunnel fails\<close>

text \<open>
  C0. A policy whose mode is \<^verbatim>\<open>block\<close> or unset, which routing hands out when the default policy
  has it, is not refused here: the ClientHello is read and dropped and the call reports
  success, so forwarding starts without it.
\<close>

theorem block_mode_drops_hello:
  assumes "n \<le> length (tsInput ts)" and "parseClientHello (take n (tsInput ts)) = Some ch" and "chErr ch = None"
    and "sni_in (take n (tsInput ts)) ch" and "0 < sniStart ch" and "\<not> hasECH ch"
    and "tsOriginHost ts = bytes_string (take (sniLen ch) (drop (nat (sniStart ch)) (take n (tsInput ts))))" and "\<not> tsFromSNI ts"
    and "pMode (tsPolicy ts) \<in> {ModeBlock, ModeUnset}" and "isTLS13 ch" and "tsDst ts \<noteq> None"
  shows "handleTLS srv n ts w = Some (True, ts\<lparr>tsInput := drop n (tsInput ts)\<rparr>, w)"
proof -
  let ?rec = "take n (tsInput ts)" and ?t = "ts\<lparr>tsInput := drop n (tsInput ts)\<rparr>"
  have sl: "slice ?rec (nat (sniStart ch)) (nat (sniStart ch) + sniLen ch) = Some (take (sniLen ch) (drop (nat (sniStart ch)) ?rec))"
    using assms(4,5) by (auto simp: sni_in_def slice_def)
  have "sniff srv ch ?rec ?t w = Some ((True, ModeUnset), ?t, w)"
    using assms(5,6,7,8) sl by (simp add: sniff_def sniff_sni_def)
  moreover have "ensure_dst srv ?t w = Some (True, ?t, w)" using assms(11) by (auto simp: ensure_dst_def)
  ultimately have "finish_tls srv ch ?rec ?t w = Some (True, ?t, w)"
    using assms(9) by (auto simp: finish_tls_def send_hello_def Let_def)
  then show ?thesis using assms(1,2,3,9,10) by (auto simp: handleTLS_def checkTLS13Only_def)
qed

text \<open>The same server with another default mode.\<close>

definition demo_in :: "mode \<Rightarrow> (unit, unit, unit) server" where
  "demo_in m = demo_server\<lparr>srvRoute := demo_routes\<lparr>defaultPolicy := demo_policy m\<rparr>\<rparr>"

lemma demo_in_routed:
  "genPolicy (Some (srvLogger (demo_in m))) (srvRoute (demo_in m)) (srvResolve (demo_in m)) ''h.i'' False False st =
     Some (routed (new_single_dst ''::1'') (demo_policy m), st)"
proof -
  let ?r = "demo_routes\<lparr>defaultPolicy := demo_policy m\<rparr>"
  have n: "\<not> net_parse_ip ''h.i''" by code_simp
  have d: "getDomainPolicy ?r ''h.i'' = None"
    unfolding demo_routes_def demo_name getDomainPolicy_def by simp code_simp
  have h: "getHosts ?r ''h.i'' = None"
    unfolding demo_routes_def getHosts_def by simp code_simp
  have a: "parse_addr ''::1'' = Some (IP6 (replicate 15 0 @ [1]) [])" by code_simp
  have v: "getIPPolicy ?r (IP6 (replicate 15 0 @ [1]) []) = Some None"
    unfolding demo_routes_def getIPPolicy_def by simp code_simp
  have p: "defaultPolicy ?r = demo_policy m" "pHost (demo_policy m) = zero_dst"
    by (simp_all add: demo_policy_def policy_init_def zero_policy_def)
  have l: "log_info (Some lg) [Some a, Some b, Some c, Some e] = Some ()" for lg a b c e
    using log_text_ok(1) [where lg = lg and ss = "[a, b, c, e]"] by simp
  have r: "ipRedirect lg ''::1'' ?r ps = Some (Inr (new_single_dst ''::1'', None), ps)" for lg ps
    using a v by (simp add: ipRedirect_def)
  show ?thesis
    using n d h p r
    by (cases st) (simp add: genPolicy_def demo_in_def demo_server_def gen_single_def gen_lookup_def gen_final_def l zero_dst_def
        is_multi_def dst_single_def stripNoRedirectPrefix_def dst_is_zero_def new_single_dst_def dst_string_def)
qed

lemma demo_default_routed:
  "genPolicy (Some (srvLogger demo_server)) (srvRoute demo_server) (srvResolve demo_server) ''h.i'' False False st =
     Some (routed (new_single_dst ''::1'') (demo_policy ModeBlock), st)"
proof -
  have "demo_in ModeBlock = demo_server" by (simp add: demo_in_def demo_server_def demo_routes_def)
  then show ?thesis using demo_in_routed [of ModeBlock st] by simp
qed

theorem block_mode_drops_hello_witness:
  "let ts = demo_session (demo_policy ModeBlock) (Some (\<lparr>sent = [], faults = []\<rparr>, (IP4 [1, 2, 3, 4], 443))) [97, 46, 98] demo_hello in
   handleTLS demo_server 71 ts demo_world = Some (True, ts\<lparr>tsInput := []\<rparr>, demo_world) \<and>
   genPolicy (Some (srvLogger demo_server)) (srvRoute demo_server) (srvResolve demo_server) ''h.i'' False False (wRoute demo_world) =
     Some (routed (new_single_dst ''::1'') (tsPolicy ts), wRoute demo_world)"
proof -
  let ?s = "demo_session (demo_policy ModeBlock) (Some (\<lparr>sent = [], faults = []\<rparr>, (IP4 [1, 2, 3, 4], 443))) [97, 46, 98] demo_hello"
  obtain pos where p: "parseClientHello demo_hello = Some (demo_ch pos)" "slice demo_hello pos (pos + 3) = Some [97, 46, 98]" "0 < pos"
    "sni_in demo_hello (demo_ch pos)" by (rule demo_parsed)
  have "take 3 (drop pos demo_hello) = [97, 46, 98]" using p(2) by (simp add: slice_def split: if_splits)
  then show ?thesis
    using block_mode_drops_hello [of 71 ?s "demo_ch pos" demo_server demo_world] p demo_hello_bytes(1) demo_default_routed
    by (simp add: demo_session_def demo_ch_def demo_policy_def)
qed

text \<open>
  When the reply was sent first there is no server connection yet. If the client then speaks
  neither TLS nor HTTP, nothing dials, and writing what was read panics.
\<close>

theorem reply_first_unknown_panics:
  assumes "tsDst ts = None" and "pMode (tsPolicy ts) \<noteq> ModeRaw" and "10 \<le> length (tsInput ts)"
    and "tsInput ts ! 0 \<noteq> tlsRecordTypeHandshake \<or> tsInput ts ! 1 \<noteq> tlsMajorVersion"
    and "\<not> bytesHasPrefix (take 10 (tsInput ts)) http_methods"
  shows "handleTunnel h srv n ts w = None"
proof -
  have "take (max 10 n) (tsInput ts) \<noteq> []" using assms(3) by (cases "tsInput ts") auto
  then have "end_tunnel (max 10 n) ts w = None" using assms(1) by (simp add: end_tunnel_def drainBuffered_def write_dst_def)
  then show ?thesis using assms(2-5) by (auto simp: handleTunnel_def Let_def http_methods_def)
qed

theorem reply_first_unknown_panics_witness:
  "handleTunnel demo_http demo_server 0 (demo_session (demo_policy ModeDirect) None [120] (replicate 10 0)) demo_world = None"
proof (rule reply_first_unknown_panics)
  have "(char_of (0 :: nat) :: char) \<notin> set ''GPHDOT''" by code_simp
  then show "\<not> bytesHasPrefix (take 10 (tsInput (demo_session (demo_policy ModeDirect) None [120] (replicate 10 0)))) http_methods"
    by (simp add: bytesHasPrefix_def http_methods_def bytes_string_def demo_session_def numeral_eq_Suc)
qed (simp_all add: demo_session_def demo_policy_def tls_consts)

end
