(* ===== verification/Socks5_Spec.thy ===== *)
theory Socks5_Spec
  imports Socks5 Tunnel_Spec
begin

text \<open>
  What the SOCKS5 handler and the accept loops promise: a well-formed request reaches routing
  as it was written, a tunnel opens only after routing has agreed, the replies follow the
  protocol, and the identifiers of connections are well spread.
\<close>

section \<open>Replies\<close>

lemma sendReply_cases:
  assumes "sendReply b c = Some (ok, c')"
  shows "sent c' = sent c @ (if ok then [Data b] else [])" and "faults c = [] \<Longrightarrow> ok \<and> faults c' = []"
  using assms by (auto simp: sendReply_def conn_write_def net_call_def split: list.splits option.splits)

lemma sendReply_ok: "faults c = [] \<Longrightarrow> sendReply b c = Some (True, c\<lparr>sent := sent c @ [Data b]\<rparr>)"
  by (simp add: sendReply_def conn_write_def net_call_def)

lemma refuse_cases:
  assumes "refuse reply c w = Some (e, w')"
  shows "\<exists>c'. e = Refused c' [] \<and> w' = w \<and> (sent c' = sent c \<or> (\<exists>b. reply = Some b \<and> sent c' = sent c @ [Data b]))"
  using assms by (auto simp: refuse_def split: option.splits bind_splits dest!: sendReply_cases(1))

lemma refuse_not_opened [simp]: "refuse reply c w \<noteq> Some (Opened ts, w')"
  using refuse_cases [of reply c w "Opened ts" w'] by auto

definition error_replies :: "bytes set" where
  "error_replies = {socks5ReplyServerFailure, socks5ReplyConnNotAllowed, socks5ReplyCmdNotSupported, socks5ReplyAtypNotSupported}"

text \<open>
  \<open>answered srv w s e\<close>: after the messages \<open>s\<close> the client was refused with at most one error
  reply (or a success that a lost connection follows), or a tunnel was opened by a routing
  decision and the success reply, on what the dialer gave unless the reply is to come first.
\<close>

definition opened_by :: "('r, 'n, 'd) server \<Rightarrow> session \<Rightarrow> bool" where
  "opened_by srv ts \<longleftrightarrow> (\<exists>host isIP st v st'. genPolicy (Some (srvLogger srv)) (srvRoute srv) (srvResolve srv) host isIP False st = Some (v, st') \<and>
     \<not> vFailed v \<and> \<not> vBlocked v \<and> vPolicy v = Some (tsPolicy ts) \<and> vHost v = tsTarget ts \<and> tsOriginHost ts = host \<and>
     (if is_true (pReplyFirst (tsPolicy ts)) then tsDst ts = None
      else \<exists>n n'. srvDial srv (tsTarget ts) (tsPort ts) (pConnectTimeout (tsPolicy ts)) (pDialDelay (tsPolicy ts)) n = Some (Inr (tsDst ts), n')))"

lemma opened_byI:
  assumes "genPolicy (Some (srvLogger srv)) (srvRoute srv) (srvResolve srv) host isIP False st = Some (v, st')"
    and "\<not> vFailed v" and "\<not> vBlocked v" and "vPolicy v = Some p"
    and "tsPolicy ts = p" and "tsTarget ts = vHost v" and "tsOriginHost ts = host"
    and "is_true (pReplyFirst p) \<Longrightarrow> tsDst ts = None"
    and "\<not> is_true (pReplyFirst p) \<Longrightarrow> srvDial srv (tsTarget ts) (tsPort ts) (pConnectTimeout p) (pDialDelay p) n = Some (Inr (tsDst ts), n')"
  shows "opened_by srv ts"
  unfolding opened_by_def using assms
  by (intro exI [of _ host] exI [of _ isIP] exI [of _ st] exI [of _ v] exI [of _ st']) auto

definition answered :: "('r, 'n, 'd) server \<Rightarrow> wire list \<Rightarrow> socks5_end \<Rightarrow> bool" where
  "answered srv s e \<longleftrightarrow>
     (case e of
        Refused c ls \<Rightarrow> sent c = s \<or> (\<exists>b \<in> error_replies. sent c = s @ [Data b])
      | Opened ts \<Rightarrow> sent (tsCli ts) = s @ [Data socks5ReplySuccess] \<and> opened_by srv ts)"

lemma answered_refuse:
  assumes "refuse reply c w = Some (e, w')" and "\<And>b. reply = Some b \<Longrightarrow> b \<in> error_replies"
  shows "answered srv (sent c) e"
  using refuse_cases [OF assms(1)] assms(2) by (auto simp: answered_def)

lemma connect_answered:
  assumes c: "socks5_connect srv host (vHost v) p inp c w = Some (e, w')"
    and g: "genPolicy (Some (srvLogger srv)) (srvRoute srv) (srvResolve srv) host isIP False st = Some (v, st')"
      "\<not> vFailed v" "\<not> vBlocked v" "vPolicy v = Some p"
  shows "answered srv (sent c) e"
proof (cases "readN 2 inp")
  case None
  then show ?thesis using c answered_refuse [of None c w e w' srv] by (simp add: socks5_connect_def)
next
  case (Some r)
  obtain pb rest where r: "r = (pb, rest)" by (cases r)
  note op = opened_byI [OF g]
  show ?thesis
  proof (cases "is_true (pReplyFirst p)")
    case True
    then show ?thesis
      using c Some r by (auto simp: socks5_connect_def Let_def answered_def split: bind_splits if_splits dest!: sendReply_cases(1) intro!: op)
  next
    case False
    have ref: "answered srv (sent c) e" if "refuse (Some socks5ReplyServerFailure) c w1 = Some (e, w')" for w1
      by (rule answered_refuse [OF that]) (simp add: error_replies_def)
    let ?port = "show_nat (if pPort p \<noteq> 0 \<and> pPort p \<noteq> unsetInt then nat (pPort p mod 65536) else be16 (pb ! 0) (pb ! 1))"
    obtain x n where x: "srvDial srv (vHost v) ?port (pConnectTimeout p) (pDialDelay p) (wNet w) = Some (x, n)"
      using c Some r False by (auto simp: socks5_connect_def Let_def simp del: One_nat_def split: bind_splits)
    show ?thesis
    proof (cases x)
      case (Inl err)
      then show ?thesis using c Some r False x by (intro ref) (simp add: socks5_connect_def Let_def del: One_nat_def)
    next
      case (Inr l)
      then show ?thesis using c Some r False x
        by (auto simp: socks5_connect_def Let_def answered_def simp del: One_nat_def split: bind_splits if_splits dest!: sendReply_cases(1) intro!: op)
    qed
  qed
qed

lemma request_answered:
  assumes "socks5_request srv inp c w = Some (e, w')"
  shows "answered srv (sent c) e"
proof -
  have none: "refuse None c w1 = Some (e, w') \<Longrightarrow> answered srv (sent c) e" for w1
    by (erule answered_refuse) simp
  have some: "refuse (Some b) c w1 = Some (e, w') \<Longrightarrow> b \<in> error_replies \<Longrightarrow> answered srv (sent c) e" for w1 b
    by (erule answered_refuse) simp
  have "answered srv (sent c) e" if r: "socks5_route srv host isIP inp c w = Some (e, w')" for host isIP inp
  proof -
    obtain v st where g: "genPolicy (Some (srvLogger srv)) (srvRoute srv) (srvResolve srv) host isIP False (wRoute w) = Some (v, st)"
      using r by (auto simp: socks5_route_def split: bind_splits)
    consider "vFailed v" | "\<not> vFailed v" "vBlocked v" | "\<not> vFailed v" "\<not> vBlocked v" by blast
    then show ?thesis
    proof cases
      case 3
      then obtain p where "vPolicy v = Some p" "socks5_connect srv host (vHost v) p inp c (w\<lparr>wRoute := st\<rparr>) = Some (e, w')"
        using r g by (auto simp: socks5_route_def split: bind_splits)
      then show ?thesis using connect_answered g 3 by blast
    qed (use r g some in \<open>auto simp: socks5_route_def error_replies_def\<close>)
  qed
  then show ?thesis
    using assms none some unfolding socks5_request_def
    by (auto simp: error_replies_def split: option.splits if_splits socks5_address.splits)
qed

text \<open>
  C11. Whatever the client sends, and however the network behaves, it is sent nothing, or the
  choice of no authentication followed by nothing or by one reply; the success reply comes
  exactly with a tunnel, and a tunnel opens only when routing neither failed nor blocked, with
  the policy and the destination routing gave, on the connection the dialer returned for them
  unless the reply is to come first.
\<close>

theorem socks5_replies:
  assumes "socks5_open srv inp c w = Some (e, w')" and "sent c = []"
  shows "case e of
      Refused c' ls \<Rightarrow> sent c' = [] \<or> sent c' = [Data socks5NoAuthReply] \<or>
        (\<exists>b \<in> error_replies. sent c' = [Data socks5NoAuthReply, Data b])
    | Opened ts \<Rightarrow> sent (tsCli ts) = [Data socks5NoAuthReply, Data socks5ReplySuccess] \<and> opened_by srv ts"
proof -
  have ref: "refuse None c1 w1 = Some (e, w') \<Longrightarrow> sent c1 = [] \<Longrightarrow> \<exists>c2 ls. e = Refused c2 ls \<and> sent c2 = []" for c1 w1
    using refuse_cases by fastforce
  have "(\<exists>c2 ls. e = Refused c2 ls \<and> sent c2 = []) \<or> answered srv [Data socks5NoAuthReply] e"
  proof (cases "\<exists>c1 w1. refuse None c1 w1 = Some (e, w') \<and> sent c1 = []")
    case True
    then show ?thesis using ref by blast
  next
    case False
    then have no: "refuse None c w1 \<noteq> Some (e, w')" for w1 using assms(2) by blast
    have no_reply: "refuse None c1 w1 \<noteq> Some (e, w')" if "sendReply b c = Some (False, c1)" for c1 w1 b
      using False sendReply_cases(1) [OF that] assms(2) by auto
    obtain inp1 c1 where "sendReply socks5NoAuthReply c = Some (True, c1)" "socks5_request srv inp1 c1 w = Some (e, w')"
      using assms(1) no no_reply unfolding socks5_open_def
      by (auto split: option.splits if_splits bind_splits)
    then show ?thesis using request_answered sendReply_cases(1) assms(2) by fastforce
  qed
  then show ?thesis by (auto simp: answered_def split: socks5_end.splits)
qed

section \<open>A request as it is written\<close>

lemma readN_append: "n = length xs \<Longrightarrow> readN n (xs @ ys) = Some (xs, ys)"
  by (simp add: readN_def)

lemma readN_Cons: "readN (Suc n) (x # xs) = map_option (\<lambda>(a, b). (x # a, b)) (readN n xs)"
  by (simp add: readN_def)

lemma readN_0: "readN 0 xs = Some ([], xs)"
  by (simp add: readN_def)

lemmas readN_simps = readN_Cons readN_0 numeral_eq_Suc

text \<open>A request for a domain name with a port reaches routing with exactly this name.\<close>

definition domain_request :: "bytes \<Rightarrow> byte \<Rightarrow> bytes \<Rightarrow> nat \<Rightarrow> bytes" where
  "domain_request ms rsv name port =
     [5, of_nat (length ms)] @ ms @ [5, 1, rsv, 3, of_nat (length name)] @ name @ put_be16 port"

lemma socks5_open_domain:
  assumes "0 \<in> set ms" and "length ms < 256" and "1 \<le> length name" and "length name \<le> 253"
  shows "socks5_open srv (domain_request ms rsv name port @ rest) c w =
    Option.bind (sendReply socks5NoAuthReply c) (\<lambda>(ok, c).
      if ok then socks5_route srv (bytes_string name) False (put_be16 port @ rest) c w else refuse None c w)"
proof -
  have nz: "(of_nat (length name) :: byte) \<noteq> 0"
  proof
    assume "(of_nat (length name) :: byte) = 0"
    then have "unat (of_nat (length name) :: byte) = 0" by simp
    then show False using assms(3,4) by simp
  qed
  have lens: "unat (of_nat (length ms) :: byte) = length ms" "unat (of_nat (length name) :: byte) = length name"
    using assms(2,4) by simp_all
  have r2: "readN 2 ([5, of_nat (length ms)] @ xs) = Some ([5, of_nat (length ms)], xs)" for xs by (rule readN_append) simp
  have r4: "readN 4 ([5, 1, rsv, 3] @ xs) = Some ([5, 1, rsv, 3], xs)" for xs by (rule readN_append) simp
  have r1: "readN 1 ([of_nat (length name)] @ xs) = Some ([of_nat (length name)], xs)" for xs by (rule readN_append) simp
  have rn: "readN (length name) (name @ xs) = Some (name, xs)" "readN (length ms) (ms @ xs) = Some (ms, xs)" for xs
    by (simp_all add: readN_append)
  let ?rest = "[of_nat (length name)] @ name @ put_be16 port @ rest"
  have "read_address 3 ?rest = Address (bytes_string name) False (put_be16 port @ rest)"
    using assms(4) nz by (simp add: read_address_def r1 rn lens del: append_Cons append_Nil One_nat_def)
  then have "socks5_request srv ([5, 1, rsv, 3] @ ?rest) c w = socks5_route srv (bytes_string name) False (put_be16 port @ rest) c w" for c
    by (simp add: socks5_request_def r4 del: append_Cons append_Nil)
  moreover have "domain_request ms rsv name port @ rest = [5, of_nat (length ms)] @ ms @ [5, 1, rsv, 3] @ ?rest"
    by (simp add: domain_request_def)
  ultimately show ?thesis
    using assms(1,2)
    by (cases "sendReply socks5NoAuthReply c") (auto simp: socks5_open_def r2 rn lens simp del: append_Cons append_Nil)
qed

lemma readN_port: "readN 2 (put_be16 port @ rest) = Some (put_be16 port, rest)"
  by (rule readN_append) simp

text \<open>
  It is routed to its destination at the port of the policy, or else at its own; the two replies
  are sent in order and the tunnel continues with the byte that follows the request.
\<close>

lemma socks5_domain_request:
  assumes "0 \<in> set ms" and "length ms < 256" and "1 \<le> length name" and "length name \<le> 253" and "port < 65536"
    and "faults c = []" and "\<not> is_true (pReplyFirst p)"
    and "genPolicy (Some (srvLogger srv)) (srvRoute srv) (srvResolve srv) (bytes_string name) False False (wRoute w) = Some (routed d p, route)"
    and "to = show_nat (if pPort p \<noteq> 0 \<and> pPort p \<noteq> unsetInt then nat (pPort p mod 65536) else port)"
    and "srvDial srv (Some d) to (pConnectTimeout p) (pDialDelay p) (wNet w) = Some (Inr (Some l), n)"
  shows "socks5_open srv (domain_request ms rsv name port @ rest) c w =
    Some (Opened \<lparr>tsPolicy = p, tsCli = c\<lparr>sent := sent c @ [Data socks5NoAuthReply, Data socks5ReplySuccess]\<rparr>,
        tsDst = Some l, tsDropped = [], tsTarget = Some d, tsOriginHost = bytes_string name, tsOriginPort = show_nat port,
        tsPort = to, tsFromSNI = False, tsInput = rest\<rparr>, w\<lparr>wRoute := route, wNet := n\<rparr>)"
proof -
  let ?c = "c\<lparr>sent := sent c @ [Data socks5NoAuthReply]\<rparr>"
  have pb: "be16 (put_be16 port ! 0) (put_be16 port ! 1) = port" using assms(5) by (rule be16_put)
  have "socks5_connect srv (bytes_string name) (Some d) p (put_be16 port @ rest) ?c (w\<lparr>wRoute := route\<rparr>) =
      Some (Opened \<lparr>tsPolicy = p, tsCli = c\<lparr>sent := sent c @ [Data socks5NoAuthReply, Data socks5ReplySuccess]\<rparr>,
        tsDst = Some l, tsDropped = [], tsTarget = Some d, tsOriginHost = bytes_string name, tsOriginPort = show_nat port,
        tsPort = to, tsFromSNI = False, tsInput = rest\<rparr>, w\<lparr>wRoute := route, wNet := n\<rparr>)"
    unfolding socks5_connect_def readN_port Let_def option.case prod.case pb assms(9) [symmetric]
    using assms(6,7,10) by (simp add: sendReply_ok)
  then show ?thesis
    using assms(6,8) by (simp add: socks5_open_domain [OF assms(1-4)] sendReply_ok socks5_route_def routed_def)
qed

text \<open>What an opened session starts with, however it is routed.\<close>

lemma connect_opened:
  assumes "socks5_connect srv host d p inp c w = Some (Opened ts, w')" and "dials_fresh srv" and "readN 2 inp = Some (pb, rest)"
  shows "unsent ts \<and> tsInput ts = rest \<and> wTTL w' = wTTL w \<and> tsOriginHost ts = host \<and>
    sent (tsCli ts) = sent c @ [Data socks5ReplySuccess]"
  using assms(1,3) unfolding socks5_connect_def Let_def
  by (auto simp: unsent_def split: if_splits bind_splits sum.splits option.splits
      dest!: sendReply_cases(1) dials_freshD [OF _ assms(2)])

lemma route_opened:
  assumes "socks5_route srv host isIP inp c w = Some (Opened ts, w')" and "dials_fresh srv" and "readN 2 inp = Some (pb, rest)"
  shows "(\<exists>v st. genPolicy (Some (srvLogger srv)) (srvRoute srv) (srvResolve srv) host isIP False (wRoute w) = Some (v, st) \<and>
      \<not> vFailed v \<and> \<not> vBlocked v) \<and>
    unsent ts \<and> tsInput ts = rest \<and> wTTL w' = wTTL w \<and> sent (tsCli ts) = sent c @ [Data socks5ReplySuccess]"
proof -
  obtain v st where g: "genPolicy (Some (srvLogger srv)) (srvRoute srv) (srvResolve srv) host isIP False (wRoute w) = Some (v, st)"
    using assms(1) by (auto simp: socks5_route_def split: bind_splits)
  have b: "\<not> vFailed v \<and> \<not> vBlocked v"
    using assms(1) g by (cases "vFailed v"; cases "vBlocked v") (simp_all add: socks5_route_def)
  then obtain p where "socks5_connect srv host (vHost v) p inp c (w\<lparr>wRoute := st\<rparr>) = Some (Opened ts, w')"
    using assms(1) g by (auto simp: socks5_route_def split: bind_splits)
  from connect_opened [OF this assms(2,3)] g b show ?thesis by auto
qed

theorem socks5_replies_witness:
  "\<exists>c. socks5_open demo_server [5, 1, 0, 5, 2, 0, 1] \<lparr>sent = [], faults = []\<rparr> demo_world = Some (Refused c [], demo_world) \<and>
    sent c = [Data socks5NoAuthReply, Data socks5ReplyCmdNotSupported] \<and>
    (sent c = [] \<or> sent c = [Data socks5NoAuthReply] \<or> (\<exists>b \<in> error_replies. sent c = [Data socks5NoAuthReply, Data b]))"
proof -
  let ?c = "\<lparr>sent = [Data socks5NoAuthReply, Data socks5ReplyCmdNotSupported], faults = []\<rparr>"
  have "socks5_open demo_server [5, 1, 0, 5, 2, 0, 1] \<lparr>sent = [], faults = []\<rparr> demo_world = Some (Refused ?c [], demo_world)"
    by (simp add: socks5_open_def socks5_request_def refuse_def sendReply_def conn_write_def net_call_def readN_def)
  from this socks5_replies [OF this] show ?thesis by auto
qed

section \<open>Accepting\<close>

definition served :: "serve_event list \<Rightarrow> 32 word list" where
  "served es = concat (map (\<lambda>e. case e of Handle i \<Rightarrow> [i] | _ \<Rightarrow> []) es)"

definition sleeps :: "serve_event list \<Rightarrow> int list" where
  "sleeps es = concat (map (\<lambda>e. case e of Sleep d \<Rightarrow> [d] | _ \<Rightarrow> []) es)"

lemma unat_small: "n < 2 ^ 32 \<Longrightarrow> unat (of_nat n :: 32 word) = n"
  by (simp add: unat_of_nat take_bit_nat_eq_self)

lemma next_conn_id_cycle:
  assumes "unat old = (if k = 0 then 0 else (k - 1) mod maxConnID + 1)"
  shows "unat (next_conn_id old) = k mod maxConnID + 1"
proof -
  have b: "(k - 1) mod maxConnID < maxConnID" by (simp add: maxConnID_def)
  then have "unat old < 2 ^ 32 - 1" using assms by (auto simp: maxConnID_def)
  then have s: "unat (old + 1) = unat old + 1" by (simp add: unat_word_ariths)
  show ?thesis
  proof (cases k)
    case 0
    then show ?thesis using assms s by (simp add: next_conn_id_def maxConnID_def)
  next
    case (Suc j)
    then have o: "unat old = j mod maxConnID + 1" using assms by simp
    show ?thesis
    proof (cases "j mod maxConnID + 1 = maxConnID")
      case True
      then have "Suc j mod maxConnID = 0" by (simp add: mod_Suc)
      then show ?thesis using True o s Suc by (simp add: next_conn_id_def Let_def)
    next
      case False
      moreover from this have "Suc j mod maxConnID = j mod maxConnID + 1" by (simp add: mod_Suc)
      ultimately show ?thesis using o s b Suc by (simp add: next_conn_id_def Let_def)
    qed
  qed
qed

lemma served_ids:
  assumes "unat old = (if k = 0 then 0 else (k - 1) mod maxConnID + 1)" and "j < length (served (serve_loop as old d))"
  shows "unat (served (serve_loop as old d) ! j) = (k + j) mod maxConnID + 1"
  using assms
proof (induction as arbitrary: old d k j)
  case (Cons a as)
  show ?case
  proof (cases a)
    case Accepted
    note nx = next_conn_id_cycle [OF Cons.prems(1)]
    show ?thesis
    proof (cases j)
      case 0
      then show ?thesis using Accepted nx by (simp add: served_def)
    next
      case (Suc i)
      have "unat (served (serve_loop as (next_conn_id old) d) ! i) = (Suc k + i) mod maxConnID + 1"
        using nx Cons.prems(2) Accepted Suc by (intro Cons.IH) (simp_all add: served_def)
      then show ?thesis using Accepted Suc by (simp add: served_def)
    qed
  next
    case TemporaryFailure
    then show ?thesis using Cons.IH [OF Cons.prems(1)] Cons.prems(2) by (simp add: served_def)
  next
    case FatalFailure
    then show ?thesis using Cons.prems(2) by (simp add: served_def)
  qed
qed (simp add: served_def)

text \<open>Identifiers of the cycle that are fewer than its length apart.\<close>

lemma cycle_prefix:
  assumes "unat a = i mod maxConnID + 1" and "unat b = j mod maxConnID + 1" and "i < j" and "j < i + 0xfffff"
  shows "a \<noteq> 0" and "unat a \<le> 0xfffff" and "conn_id_to_hex5 pre a \<noteq> conn_id_to_hex5 pre 0"
    and "conn_id_to_hex5 pre a \<noteq> conn_id_to_hex5 pre b"
proof -
  have u: "unat a \<le> 0xfffff" "unat b \<le> 0xfffff"
    using assms(1,2) mod_less_divisor [of maxConnID i] mod_less_divisor [of maxConnID j] by (simp_all add: maxConnID_def)
  have z: "a \<noteq> 0" using assms(1) by auto
  have "a \<noteq> b"
  proof
    assume "a = b"
    then have "i mod maxConnID = j mod maxConnID" using assms(1,2) by simp
    then have "(j - i) mod maxConnID = 0" using assms(3) by (metis less_imp_le mod_eq_dvd_iff_nat mod_0_imp_dvd dvd_imp_mod_0)
    moreover have "j - i < maxConnID" "0 < j - i" using assms(3,4) by (simp_all add: maxConnID_def)
    ultimately show False by simp
  qed
  then show "conn_id_to_hex5 pre a \<noteq> conn_id_to_hex5 pre b" using conn_id_to_hex5_inj u by blast
  show "conn_id_to_hex5 pre a \<noteq> conn_id_to_hex5 pre 0" using conn_id_to_hex5_inj [of a 0 pre] u z by auto
  show "a \<noteq> 0" "unat a \<le> 0xfffff" by (rule z u(1))+
qed

text \<open>
  The delay before accepting again is a second after the first temporary failure and
  doubles with each further one, without a bound and whatever connections succeed in between.
\<close>

theorem accept_delay_unbounded:
  assumes "k < length (sleeps (serve_loop as i 0))" and "k < 33"
  shows "sleeps (serve_loop as i 0) ! k = 2 ^ k * second"
proof -
  have "sleeps (serve_loop as i d) ! k = 2 ^ (m + k) * second"
    if "d = (if m = 0 then 0 else 2 ^ (m - 1) * second)" "k < length (sleeps (serve_loop as i d))" "m + k < 33" for d m
    using that
  proof (induction as arbitrary: i d m k)
    case (Cons a as)
    show ?case
    proof (cases a)
      case Accepted
      then show ?thesis using Cons.IH [OF Cons.prems(1)] Cons.prems(2,3) by (simp add: sleeps_def)
    next
      case TemporaryFailure
      have t: "temp_delay d = 2 ^ m * second"
      proof (cases m)
        case 0
        then show ?thesis using Cons.prems(1) by (simp add: temp_delay_def second_def millisecond_def)
      next
        case (Suc m')
        have "(2 :: int) ^ m \<le> 2 ^ 32" using Cons.prems(3) by (intro power_increasing) simp_all
        moreover have "(1 :: int) \<le> 2 ^ m" by simp
        ultimately show ?thesis using Suc Cons.prems(1) by (simp add: temp_delay_def second_def)
      qed
      show ?thesis
      proof (cases k)
        case 0
        then show ?thesis using TemporaryFailure t by (simp add: sleeps_def)
      next
        case (Suc k')
        have "sleeps (serve_loop as i (temp_delay d)) ! k' = 2 ^ (Suc m + k') * second"
          using t Cons.prems TemporaryFailure Suc by (intro Cons.IH) (simp_all add: sleeps_def)
        then show ?thesis using TemporaryFailure Suc by (simp add: sleeps_def)
      qed
    next
      case FatalFailure
      then show ?thesis using Cons.prems(2) by (simp add: sleeps_def)
    qed
  qed (simp add: sleeps_def)
  from this [of 0 0] assms show ?thesis by simp
qed

theorem accept_delay_unbounded_witness:
  "sleeps (serve_loop (replicate 12 TemporaryFailure @ [Accepted, TemporaryFailure]) 0 0) ! 12 = 4096 * second"
proof -
  have "12 < length (sleeps (serve_loop (replicate 12 TemporaryFailure @ [Accepted, TemporaryFailure]) 0 0))"
    by (simp add: sleeps_def numeral_eq_Suc)
  from accept_delay_unbounded [OF this] show ?thesis by simp
qed

end
