(* ===== verification/Http_Spec.thy ===== *)
theory Http_Spec
  imports Http_Proxy Socks5_Spec
begin

text \<open>
  What the HTTP proxy promises: a CONNECT opens a tunnel to its host and port only when
  routing agrees and no answer but the two of the protocol is written on a connection that was
  taken over; other requests are passed on without the headers of one connection.
\<close>

section \<open>CONNECT\<close>

lemma conn_write_cases:
  assumes "conn_write b c = Some (r, c')"
  shows "sent c' = sent c @ (if isl r then [] else [Data b])"
  using assms by (auto simp: conn_write_def net_call_def split: list.splits option.splits)

definition connect_end :: "('r, 'n, 'd) server \<Rightarrow> hijack \<Rightarrow> ('r, 'n, 'd) world \<Rightarrow> http_end \<Rightarrow> ('r, 'n, 'd) world \<Rightarrow> bool" where
  "connect_end srv hj w e w' \<longleftrightarrow>
     (case e of
        Answered code t \<Rightarrow> code \<in> {400, 403, 500} \<and> wNet w' = wNet w
      | Unanswered \<Rightarrow> w' = w
      | Dropped c ls \<Rightarrow> (\<exists>b c0 inp. hj = Hijacked b c0 inp \<and> sent c \<in> {sent c0, sent c0 @ [Data reply502]})
      | Lost \<Rightarrow> hj = OtherConn \<and> wNet w' = wNet w
      | Tunnelled ts \<Rightarrow> opened_by srv ts \<and> pMode (tsPolicy ts) \<noteq> ModeBlock \<and>
          (\<exists>b c0. hj = Hijacked b c0 (tsInput ts) \<and> sent (tsCli ts) = sent c0 @ [Data reply200])
      | _ \<Rightarrow> False)"

lemma http_open_end:
  assumes o: "http_open srv hj host port (vHost v) p w = Some (e, w')"
    and g: "genPolicy (Some (srvLogger srv)) (srvRoute srv) (srvResolve srv) host False False st = Some (v, st')"
      "\<not> vFailed v" "\<not> vBlocked v" "vPolicy v = Some p" "pMode p \<noteq> ModeBlock"
  shows "connect_end srv hj w e w'"
proof -
  note op = opened_byI [OF g(1-4)]
  show ?thesis
  proof (cases hj)
    case (Hijacked b c inp)
    show ?thesis
    proof (cases "is_true (pReplyFirst p)")
      case True
      then show ?thesis using o Hijacked g(5)
        by (auto simp: http_open_def connect_end_def Let_def split: bind_splits if_splits dest!: conn_write_cases intro!: op)
    next
      case False
      then obtain x n where x: "srvDial srv (vHost v) (dst_port p port) (pConnectTimeout p) (pDialDelay p) (wNet w) = Some (x, n)"
        using o Hijacked by (auto simp: http_open_def Let_def split: bind_splits)
      then show ?thesis using o Hijacked False g(5)
        by (cases x) (auto simp: http_open_def connect_end_def Let_def split: bind_splits if_splits dest!: conn_write_cases intro!: op)
    qed
  qed (use o in \<open>auto simp: http_open_def connect_end_def\<close>)
qed

text \<open>
  C14. A CONNECT is answered with an error and nothing is dialled, or its connection is taken
  over and gets at most one message: the 502 when the server cannot be reached, the 200 exactly
  with a tunnel, which opens only when routing neither failed nor blocked the host, under the
  policy routing gave and not in mode block, on the connection the dialer returned unless the reply is to come
  first. A request whose host is not split gets no answer from the handler.
\<close>

theorem http_connect_replies:
  assumes "handleHTTPConnect srv hj req w = Some (e, w')"
  shows "case e of
      Answered code t \<Rightarrow> code \<in> {400, 403, 500} \<and> wNet w' = wNet w
    | Unanswered \<Rightarrow> split_host_port (prHost req) = None \<and> w' = w
    | Dropped c ls \<Rightarrow> (\<exists>b c0 inp. hj = Hijacked b c0 inp \<and> sent c \<in> {sent c0, sent c0 @ [Data reply502]})
    | Lost \<Rightarrow> hj = OtherConn \<and> wNet w' = wNet w
    | Tunnelled ts \<Rightarrow> opened_by srv ts \<and> pMode (tsPolicy ts) \<noteq> ModeBlock \<and>
        (\<exists>b c0. hj = Hijacked b c0 (tsInput ts) \<and> sent (tsCli ts) = sent c0 @ [Data reply200])
    | _ \<Rightarrow> False"
proof (cases "prHost req = [] \<or> split_host_port (prHost req) = None")
  case True
  then show ?thesis using assms by (auto simp: handleHTTPConnect_def split: option.splits if_splits)
next
  case False
  then obtain host port where hp: "split_host_port (prHost req) = Some (host, port)" "prHost req \<noteq> []" by auto
  then obtain v st where g: "genPolicy (Some (srvLogger srv)) (srvRoute srv) (srvResolve srv) host False False (wRoute w) = Some (v, st)"
    using assms by (auto simp: handleHTTPConnect_def split: bind_splits)
  consider "vFailed v \<or> vBlocked v" | "\<not> vFailed v" "\<not> vBlocked v" by blast
  then have "(\<exists>code t. e = Answered code t \<and> code \<in> {403, 500} \<and> wNet w' = wNet w) \<or>
      (connect_end srv hj (w\<lparr>wRoute := st\<rparr>) e w' \<and> e \<noteq> Unanswered)"
  proof cases
    case 2
    then obtain p where p: "vPolicy v = Some p" using assms g hp by (auto simp: handleHTTPConnect_def Let_def split: bind_splits)
    show ?thesis
    proof (cases "pMode p = ModeBlock")
      case True
      then show ?thesis using assms g hp 2 p by (auto simp: handleHTTPConnect_def Let_def)
    next
      case False
      then have o: "http_open srv hj host port (vHost v) p (w\<lparr>wRoute := st\<rparr>) = Some (e, w')"
        using assms g hp 2 p by (simp add: handleHTTPConnect_def Let_def)
      moreover have "e \<noteq> Unanswered"
        using o by (auto simp: http_open_def Let_def split: hijack.splits bind_splits if_splits sum.splits)
      ultimately show ?thesis using http_open_end [OF o g 2 p False] by simp
    qed
  qed (use assms g hp in \<open>auto simp: handleHTTPConnect_def Let_def split: if_splits\<close>)
  then show ?thesis by (auto simp: connect_end_def split: http_end.splits)
qed

text \<open>
  A CONNECT to a host and port that are written together as usual reaches routing with this
  host, dials its destination at the port of the policy, or else at this port, answers the 200
  and continues with the next byte of the client.
\<close>

theorem http_connect_target:
  assumes "{CHR ''['', CHR '']''} \<inter> set host = {}" and "{CHR '':'', CHR ''['', CHR '']''} \<inter> set port = {}"
    and "prHost req = join_host_port host port" and "hj = Hijacked b c inp" and "faults c = []"
    and "genPolicy (Some (srvLogger srv)) (srvRoute srv) (srvResolve srv) host False False (wRoute w) = Some (routed d p, route)"
    and "pMode p \<noteq> ModeBlock" and "\<not> is_true (pReplyFirst p)"
    and "to = (if pPort p \<noteq> 0 \<and> pPort p \<noteq> unsetInt then show_int (pPort p) else port)"
    and "srvDial srv (Some d) to (pConnectTimeout p) (pDialDelay p) (wNet w) = Some (Inr (Some l), n)"
  shows "handleHTTPConnect srv hj req w =
    Some (Tunnelled \<lparr>tsPolicy = p, tsCli = c\<lparr>sent := sent c @ [Data reply200]\<rparr>, tsDst = Some l, tsDropped = [],
        tsTarget = Some d, tsOriginHost = host, tsOriginPort = port, tsPort = to, tsFromSNI = False, tsInput = inp\<rparr>,
      w\<lparr>wRoute := route, wNet := n\<rparr>)"
proof -
  have "prHost req \<noteq> []" using assms(3) by (simp add: join_host_port_def)
  moreover have "to = dst_port p port" using assms(9) by (simp add: dst_port_def)
  ultimately show ?thesis
    using assms(4-8,10) split_join_host_port [OF assms(1,2)] assms(3)
    by (simp add: handleHTTPConnect_def http_open_def routed_def Let_def conn_write_def net_call_def)
qed

definition demo_connect :: proxy_request where
  "demo_connect = \<lparr>prMethod = ''CONNECT'', prHost = ''h.i:8443'', prAbs = False, prScheme = [], prURLHost = [], prURI = [], prHeaders = []\<rparr>"

theorem http_connect_target_witness:
  "handleHTTPConnect (demo_in ModeTLSRF) (Hijacked [] \<lparr>sent = [], faults = []\<rparr> [22]) demo_connect demo_world =
    Some (Tunnelled \<lparr>tsPolicy = demo_policy ModeTLSRF, tsCli = \<lparr>sent = [Data reply200], faults = []\<rparr>,
        tsDst = Some (\<lparr>sent = [], faults = []\<rparr>, (IP4 [1, 2, 3, 4], 443)), tsDropped = [], tsTarget = Some (new_single_dst ''::1''),
        tsOriginHost = ''h.i'', tsOriginPort = ''8443'', tsPort = ''8443'', tsFromSNI = False, tsInput = [22]\<rparr>, demo_world)"
proof -
  have p: "pPort (demo_policy ModeTLSRF) = unsetInt" "\<not> is_true (pReplyFirst (demo_policy ModeTLSRF))" "pMode (demo_policy ModeTLSRF) = ModeTLSRF"
    by (simp_all add: demo_policy_def policy_init_def zero_policy_def is_true_def)
  have d: "srvDial (demo_in ModeTLSRF) x port t dl () = Some (Inr (Some (\<lparr>sent = [], faults = []\<rparr>, (IP4 [1, 2, 3, 4], 443))), ())" for x port t dl
    by (simp add: demo_in_def demo_server_def)
  show ?thesis
    using http_connect_target [of "''h.i''" "''8443''" demo_connect "Hijacked [] \<lparr>sent = [], faults = []\<rparr> [22]" "[]" "\<lparr>sent = [], faults = []\<rparr>" "[22]"
        "demo_in ModeTLSRF" demo_world "new_single_dst ''::1''" "demo_policy ModeTLSRF" "wRoute demo_world" "''8443''"
        "(\<lparr>sent = [], faults = []\<rparr>, (IP4 [1, 2, 3, 4], 443))" "()"] demo_in_routed p
    by (simp add: d demo_connect_def join_host_port_def demo_world_def)
qed

theorem http_connect_replies_witness:
  "\<exists>w'. handleHTTPConnect demo_server NoHijacker demo_connect demo_world = Some (Answered 403 status403, w') \<and>
     (403 :: int) \<in> {400, 403, 500} \<and> wNet w' = wNet demo_world"
proof -
  have s: "split_host_port ''h.i:8443'' = Some (''h.i'', ''8443'')" by code_simp
  have "handleHTTPConnect demo_server NoHijacker demo_connect demo_world = Some (Answered 403 status403, demo_world)"
    using demo_default_routed [of "wRoute demo_world"]
    by (simp add: handleHTTPConnect_def demo_connect_def s routed_def demo_policy_def demo_world_def)
  from this http_connect_replies [OF this] show ?thesis by auto
qed

section \<open>Other requests\<close>

text \<open>
  A request with an absolute URI of the scheme http, routed under a policy that sets no status,
  is passed on without the headers of one connection and with all others, over a connection to
  the destination of its host, at the port of the policy, of the URI, or else 80.
\<close>

theorem http_forwarded:
  assumes "prScheme req = ''http''" and "prURLHost req \<noteq> []"
    and "(host, port) = (case split_host_port (prURLHost req) of None \<Rightarrow> (prURLHost req, ''80'') | Some hp \<Rightarrow> hp)"
    and "genPolicy (Some (srvLogger srv)) (srvRoute srv) (srvResolve srv) host False False (wRoute w) = Some (routed d p, route)"
    and "pHttpStatus p \<in> {0, unsetInt}"
    and "srvDial srv (Some d) (dst_port p port) (pConnectTimeout p) (pDialDelay p) (wNet w) = Some (r, n)"
  shows "\<exists>out. forwardHTTPRequest srv trip ws req w =
      map_option (\<lambda>e. (e, w\<lparr>wRoute := route, wNet := n\<rparr>))
        (case trip out r of Inl e \<Rightarrow> Some (Answered 502 status502) | Inr resp \<Rightarrow> relay ws resp) \<and>
    (\<forall>h. h \<in> set (prHeaders out) \<longleftrightarrow> h \<in> set (prHeaders req) \<and> fst h \<notin> set hop_headers) \<and> prURI out = prURI req \<and> prMethod out = prMethod req"
proof (intro exI conjI)
  show "forwardHTTPRequest srv trip ws req w =
      map_option (\<lambda>e. (e, w\<lparr>wRoute := route, wNet := n\<rparr>))
        (case trip (out_request req) r of Inl e \<Rightarrow> Some (Answered 502 status502) | Inr resp \<Rightarrow> relay ws resp)"
    using assms by (auto simp: forwardHTTPRequest_def routed_def map_option_bind map_conv_bind_option split: prod.splits sum.splits bind_splits)
qed (auto simp: out_request_def)

text \<open>
  The client gets the status, the headers and a prefix of the body, all of it when no read and no
  write fails.
\<close>

definition body_text :: "body_read list \<Rightarrow> bytes" where
  "body_text rs = concat (map (\<lambda>r. case r of BodyBytes b \<Rightarrow> b | BodyError _ \<Rightarrow> []) rs)"

lemma copy_body_prefix: "prefix (fst (copy_body ws rs)) (body_text rs)"
  by (induction ws rs rule: copy_body.induct) (auto simp: body_text_def take_is_prefix prefix_order.trans [OF take_is_prefix])

lemma copy_body_whole: "snd (copy_body ws rs) = None \<Longrightarrow> fst (copy_body ws rs) = body_text rs"
  by (induction ws rs rule: copy_body.induct) (auto simp: body_text_def)

lemma relay_prefix:
  assumes "relay ws resp = Some e"
  shows "\<exists>b err. e = Relayed (rpStatus resp) (rpHeaders resp) b err \<and> prefix b (body_text (rpBody resp)) \<and>
    (err = None \<longrightarrow> b = body_text (rpBody resp))"
  using assms copy_body_prefix [of ws "rpBody resp"] copy_body_whole [of ws "rpBody resp"]
  by (auto simp: relay_def split: if_splits prod.splits)

text \<open>A status below 100, which the transport lets through from the server, makes the handler panic.\<close>

lemma http_low_status_panics: "0 \<le> rpStatus resp \<Longrightarrow> rpStatus resp < 100 \<Longrightarrow> relay ws resp = None"
  by (simp add: relay_def)

text \<open>Bytes the client sent right after its CONNECT, and that were read ahead, are lost.\<close>

lemma http_read_ahead_lost:
  assumes "handleHTTPConnect srv (Hijacked b c inp) req w = Some (Tunnelled ts, w')"
  shows "tsInput ts = inp"
  using http_connect_replies [OF assms] by simp

end
