(* ===== verification/Http_Counter.thy ===== *)
theory Http_Counter
  imports Socks5_Spec
begin

text \<open>
  \<^verbatim>\<open>getHTTPConnID\<close> of \<^verbatim>\<open>internal/core/http.go\<close>: the goroutines of all requests draw their
  identifiers from one atomic counter. Loading it and the comparison that swaps it are the steps;
  between them any other goroutine may take its own.
\<close>

section \<open>State and steps\<close>

datatype requester = Fresh | Loaded "32 word" | Numbered "32 word"

text \<open>\<open>given\<close> is history: who has got which identifier, in the order of the swaps.\<close>

record id_state =
  httpConnID :: "32 word"
  requesters :: "requester list"
  given :: "(nat \<times> 32 word) list"

definition id_init :: "nat \<Rightarrow> id_state" where
  "id_init n = \<lparr>httpConnID = 0, requesters = replicate n Fresh, given = []\<rparr>"

inductive id_step :: "id_state \<Rightarrow> id_state \<Rightarrow> bool" where
  load: "i < length (requesters s) \<Longrightarrow> requesters s ! i = Fresh \<Longrightarrow>
    id_step s (s\<lparr>requesters := (requesters s)[i := Loaded (httpConnID s)]\<rparr>)"
| swap: "i < length (requesters s) \<Longrightarrow> requesters s ! i = Loaded old \<Longrightarrow> httpConnID s = old \<Longrightarrow>
    id_step s \<lparr>httpConnID = next_conn_id old, requesters = (requesters s)[i := Numbered (next_conn_id old)],
      given = given s @ [(i, next_conn_id old)]\<rparr>"
| retry: "i < length (requesters s) \<Longrightarrow> requesters s ! i = Loaded old \<Longrightarrow> httpConnID s \<noteq> old \<Longrightarrow>
    id_step s (s\<lparr>requesters := (requesters s)[i := Fresh]\<rparr>)"

inductive id_reach :: "nat \<Rightarrow> id_state \<Rightarrow> bool" for n where
  init: "id_reach n (id_init n)"
| step: "id_reach n s \<Longrightarrow> id_step s t \<Longrightarrow> id_reach n t"

inductive_cases id_stepE: "id_step s t"

section \<open>Every loop ends\<close>

text \<open>
  A comparison fails only after another goroutine has got its identifier: the number of those
  without one comes first in the measure, then the turns they have before them.
\<close>

fun lacks_id :: "requester \<Rightarrow> nat" where
  "lacks_id (Numbered v) = 0"
| "lacks_id r = 1"

fun turns :: "32 word \<Rightarrow> requester \<Rightarrow> nat" where
  "turns c Fresh = 1"
| "turns c (Loaded old) = (if old = c then 0 else 2)"
| "turns c (Numbered v) = 0"

definition without_id :: "id_state \<Rightarrow> nat" where
  "without_id s = sum_list (map lacks_id (requesters s))"

definition turns_left :: "id_state \<Rightarrow> nat" where
  "turns_left s = sum_list (map (turns (httpConnID s)) (requesters s))"

lemma id_step_decreases: "id_step s t \<Longrightarrow> (t, s) \<in> measures [without_id, turns_left]"
proof (erule id_stepE, goal_cases)
  case (1 i)
  then show ?case using sum_list_map_update [of i "requesters s" lacks_id "Loaded (httpConnID s)"]
      sum_list_map_update [of i "requesters s" "turns (httpConnID s)" "Loaded (httpConnID s)"]
    by (simp add: without_id_def turns_left_def)
next
  case (2 i)
  then show ?case using sum_list_map_update [of i "requesters s" lacks_id "Numbered (next_conn_id (httpConnID s))"]
    by (simp add: without_id_def)
next
  case (3 i old)
  then show ?case using sum_list_map_update [of i "requesters s" lacks_id Fresh]
      sum_list_map_update [of i "requesters s" "turns (httpConnID s)" Fresh]
    by (simp add: without_id_def turns_left_def)
qed

section \<open>Invariant\<close>

definition id_inv :: "nat \<Rightarrow> id_state \<Rightarrow> bool" where
  "id_inv n s \<longleftrightarrow> length (requesters s) = n \<and>
     unat (httpConnID s) = (if given s = [] then 0 else (length (given s) - 1) mod maxConnID + 1) \<and>
     (\<forall>k < length (given s). unat (snd (given s ! k)) = k mod maxConnID + 1) \<and>
     (\<forall>i v. i < n \<and> requesters s ! i = Numbered v \<longleftrightarrow> (i, v) \<in> set (given s)) \<and>
     distinct (map fst (given s))"

lemma id_inv_requesters:
  assumes "id_inv n s" and "i < length (requesters s)" and "\<And>v. requesters s ! i \<noteq> Numbered v" and "\<And>v. r \<noteq> Numbered v"
  shows "id_inv n (s\<lparr>requesters := (requesters s)[i := r]\<rparr>)"
proof -
  have "(requesters s)[i := r] ! j = Numbered v \<longleftrightarrow> requesters s ! j = Numbered v" if "j < n" for j v
    using assms(2-4) by (cases "j = i") auto
  then show ?thesis using assms(1) by (simp add: id_inv_def cong: conj_cong)
qed

lemma id_inv_step:
  assumes "id_inv n s" and "id_step s t"
  shows "id_inv n t"
  using assms(2)
proof cases
  case (load i)
  then show ?thesis using id_inv_requesters [OF assms(1)] by simp
next
  case (swap i old)
  note inv = assms(1) [unfolded id_inv_def]
  let ?v = "next_conn_id old"
  have r: "requesters t = (requesters s)[i := Numbered ?v]" "httpConnID t = ?v" "given t = given s @ [(i, ?v)]"
    by (simp_all add: swap(1))
  have v: "unat ?v = length (given s) mod maxConnID + 1"
    using inv swap(4) by (intro next_conn_id_cycle) simp
  have g: "\<forall>k < length (given s). unat (snd (given s ! k)) = k mod maxConnID + 1" using inv by blast
  have m: "\<forall>j v. j < n \<and> requesters s ! j = Numbered v \<longleftrightarrow> (j, v) \<in> set (given s)" and n: "length (requesters s) = n"
    using inv by blast+
  have new: "(i, v) \<notin> set (given s)" for v
  proof
    assume "(i, v) \<in> set (given s)"
    then have "requesters s ! i = Numbered v" using m by blast
    then show False using swap(3) by simp
  qed
  have "j < n \<and> requesters t ! j = Numbered v \<longleftrightarrow> (j, v) \<in> set (given t)" for j v
  proof (cases "j = i")
    case True
    then show ?thesis using new swap(2) n by (auto simp: r)
  next
    case False
    then show ?thesis using m by (simp add: r)
  qed
  moreover have "\<forall>k < length (given t). unat (snd (given t ! k)) = k mod maxConnID + 1"
    using g v by (simp add: r nth_append less_Suc_eq)
  moreover have "distinct (map fst (given t))" using inv new by (force simp: r)
  ultimately show ?thesis using n v by (simp add: id_inv_def r)
next
  case (retry i old)
  then show ?thesis using id_inv_requesters [OF assms(1)] by simp
qed

lemma id_reach_inv: "id_reach n s \<Longrightarrow> id_inv n s"
proof (induction rule: id_reach.induct)
  case init
  show ?case by (simp add: id_inv_def id_init_def)
qed (rule id_inv_step)

text \<open>A request that has no identifier can always go on.\<close>

lemma id_stuck:
  assumes "\<nexists>t. id_step s t" and "i < length (requesters s)"
  shows "\<exists>v. requesters s ! i = Numbered v"
  using assms id_step.load [OF assms(2)] id_step.swap [OF assms(2)] id_step.retry [OF assms(2)]
  by (cases "requesters s ! i") blast+

text \<open>
  C17. However the goroutines of the HTTP requests interleave, every loop for an identifier ends:
  there is no infinite run, and where none can go on all have one. The identifiers are those
  of a single counter in the order of the swaps, so no two requests share one by a race:
  fewer than 0xfffff swaps apart the log prefixes of two requests differ, and none is that of
  the listener itself.
\<close>

theorem http_ids:
  assumes "id_reach n s"
  shows "wf {(t, s). id_step s t} \<and>
    ((\<nexists>t. id_step s t) \<longrightarrow> (\<forall>i < n. \<exists>v. (i, v) \<in> set (given s))) \<and>
    (\<forall>i j. i < j \<and> j < length (given s) \<and> j < i + 0xfffff \<longrightarrow>
       fst (given s ! i) \<noteq> fst (given s ! j) \<and>
       conn_id_to_hex5 pre (snd (given s ! i)) \<noteq> conn_id_to_hex5 pre 0 \<and>
       conn_id_to_hex5 pre (snd (given s ! i)) \<noteq> conn_id_to_hex5 pre (snd (given s ! j)))"
proof (intro conjI allI impI)
  note inv = id_reach_inv [OF assms, unfolded id_inv_def]
  show "wf {(t, s). id_step s t}"
    using id_step_decreases by (intro wf_subset [OF wf_measures [of "[without_id, turns_left]"]]) auto
  show "\<exists>v. (i, v) \<in> set (given s)" if "\<nexists>t. id_step s t" "i < n" for i
    using id_stuck [OF that(1)] that(2) inv by metis
  fix i j
  assume ij: "i < j \<and> j < length (given s) \<and> j < i + 0xfffff"
  then have "unat (snd (given s ! i)) = i mod maxConnID + 1" "unat (snd (given s ! j)) = j mod maxConnID + 1"
    using inv by auto
  from cycle_prefix [OF this] ij
  show "conn_id_to_hex5 pre (snd (given s ! i)) \<noteq> conn_id_to_hex5 pre 0"
    "conn_id_to_hex5 pre (snd (given s ! i)) \<noteq> conn_id_to_hex5 pre (snd (given s ! j))" by blast+
  have "map fst (given s) ! i \<noteq> map fst (given s) ! j"
    using inv ij nth_eq_iff_index_eq [of "map fst (given s)" i j] by auto
  then show "fst (given s ! i) \<noteq> fst (given s ! j)" using ij by simp
qed

text \<open>Two requests that load the counter at the same time: the second has to load it again.\<close>

lemma demo_ids: "\<exists>s. id_reach 2 s \<and> given s = [(1, 1), (0, 2)] \<and> requesters s = [Numbered 2, Numbered 1]"
proof -
  let ?s = "\<lambda>c rs g. \<lparr>httpConnID = c, requesters = rs, given = g\<rparr>"
  have n: "next_conn_id 0 = 1" "next_conn_id 1 = 2" by (simp_all add: next_conn_id_def maxConnID_def)
  have "id_reach 2 (?s 0 [Fresh, Fresh] [])" using id_reach.init [of 2] by (simp add: id_init_def numeral_2_eq_2)
  then have "id_reach 2 (?s 0 [Loaded 0, Fresh] [])"
    by (rule id_reach.step) (use id_step.load [of 0 "?s 0 [Fresh, Fresh] []"] in simp)
  then have "id_reach 2 (?s 0 [Loaded 0, Loaded 0] [])"
    by (rule id_reach.step) (use id_step.load [of 1 "?s 0 [Loaded 0, Fresh] []"] in simp)
  then have "id_reach 2 (?s 1 [Loaded 0, Numbered 1] [(1, 1)])"
    by (rule id_reach.step) (use id_step.swap [of 1 "?s 0 [Loaded 0, Loaded 0] []" 0] n in simp)
  then have "id_reach 2 (?s 1 [Fresh, Numbered 1] [(1, 1)])"
    by (rule id_reach.step) (use id_step.retry [of 0 "?s 1 [Loaded 0, Numbered 1] [(1, 1)]" 0] in simp)
  then have "id_reach 2 (?s 1 [Loaded 1, Numbered 1] [(1, 1)])"
    by (rule id_reach.step) (use id_step.load [of 0 "?s 1 [Fresh, Numbered 1] [(1, 1)]"] in simp)
  then have "id_reach 2 (?s 2 [Numbered 2, Numbered 1] [(1, 1), (0, 2)])"
    by (rule id_reach.step) (use id_step.swap [of 0 "?s 1 [Loaded 1, Numbered 1] [(1, 1)]" 1] n in simp)
  then show ?thesis by auto
qed

theorem http_ids_witness:
  "\<exists>s. id_reach 2 s \<and> given s = [(1, 1), (0, 2)] \<and> (\<nexists>t. id_step s t) \<and> (\<forall>i < 2. \<exists>v. (i, v) \<in> set (given s)) \<and>
     conn_id_to_hex5 ''H'' (snd (given s ! 0)) \<noteq> conn_id_to_hex5 ''H'' (snd (given s ! 1))"
proof -
  obtain s where s: "id_reach 2 s" "given s = [(1, 1), (0, 2)]" "requesters s = [Numbered 2, Numbered 1]"
    using demo_ids by blast
  have "\<not> id_step s t" for t
  proof
    assume "id_step s t"
    then show False by cases (auto simp: s(3) less_Suc_eq)
  qed
  then have none: "\<nexists>t. id_step s t" by blast
  note ids = http_ids [OF s(1), of "''H''"]
  have "\<forall>i < 2. \<exists>v. (i, v) \<in> set (given s)" using ids none by blast
  moreover have "conn_id_to_hex5 ''H'' (snd (given s ! 0)) \<noteq> conn_id_to_hex5 ''H'' (snd (given s ! 1))"
    using conjunct2 [OF conjunct2 [OF ids], THEN spec, THEN spec, of 0 1] by (simp add: s(2))
  ultimately show ?thesis using s(1,2) none by blast
qed

end
