(* ===== verification/Forward.thy ===== *)
theory Forward
  imports Prelude "HOL-Library.Sublist"
begin

text \<open>
  \<^verbatim>\<open>forwardTCP\<close> of \<^verbatim>\<open>internal/core/net.go\<close>: two goroutines copy between the connections of a
  tunnel, one for each direction, with \<^verbatim>\<open>copyDirection\<close> of \<^verbatim>\<open>copy_linux.go\<close> and
  \<^verbatim>\<open>copy_nonlinux.go\<close>. The model is a relation whose steps are what one of them does between two
  points where the other can see it; closing both connections is one step. \<^verbatim>\<open>io.CopyBuffer\<close> is
  the loop it is documented to be: read some bytes, write them, until the end of the stream or
  an error. How much one read returns is left open, so that the size of the buffer, and the
  \<^verbatim>\<open>splice\<close> that takes its place on Linux, make no difference.
\<close>

section \<open>State and steps\<close>

text \<open>\<open>Up\<close> copies from the client to the server and writes to the connection of the server.\<close>

datatype side = Up | Down

datatype phase = Copying | AtEOF | HalfClosed | Ended

text \<open>\<open>toRead\<close> is what the peer of a direction still sends before its end of stream.\<close>

record forwarding =
  toRead :: "side \<Rightarrow> bytes"
  inBuffer :: "side \<Rightarrow> bytes"
  delivered :: "side \<Rightarrow> bytes"
  phaseOf :: "side \<Rightarrow> phase"
  writeShut :: "side \<Rightarrow> bool"
  bothClosed :: bool
  doneFlag :: bool

definition forward_init :: "(side \<Rightarrow> bytes) \<Rightarrow> forwarding" where
  "forward_init src = \<lparr>toRead = src, inBuffer = (\<lambda>_. []), delivered = (\<lambda>_. []), phaseOf = (\<lambda>_. Copying),
     writeShut = (\<lambda>_. False), bothClosed = False, doneFlag = False\<rparr>"

definition move_to :: "side \<Rightarrow> phase \<Rightarrow> forwarding \<Rightarrow> forwarding" where
  "move_to d p s = s\<lparr>phaseOf := (phaseOf s)(d := p)\<rparr>"

definition close_both :: "forwarding \<Rightarrow> forwarding" where
  "close_both s = s\<lparr>bothClosed := True\<rparr>"

text \<open>One turn of the copy: \<open>n\<close> bytes come into the buffer; \<open>n\<close> bytes of the buffer are written.\<close>

definition fill :: "side \<Rightarrow> nat \<Rightarrow> forwarding \<Rightarrow> forwarding" where
  "fill d n s = s\<lparr>inBuffer := (inBuffer s)(d := take n (toRead s d)), toRead := (toRead s)(d := drop n (toRead s d))\<rparr>"

definition flush :: "side \<Rightarrow> nat \<Rightarrow> forwarding \<Rightarrow> forwarding" where
  "flush d n s = s\<lparr>delivered := (delivered s)(d := delivered s d @ take n (inBuffer s d)),
     inBuffer := (inBuffer s)(d := [])\<rparr>"

text \<open>
  Reads and writes succeed only on open connections, and so does \<^verbatim>\<open>CloseWrite\<close>. A write that fails
  may have sent a part. \<open>Swap\<close> is \<^verbatim>\<open>done.Swap(true)\<close> with what follows.
\<close>

datatype forward_event =
    Read side nat
  | Write side
  | WriteFails side nat
  | ReadFails side
  | CopyEnds side
  | CloseWrite side
  | CloseWriteFails side
  | Swap side

inductive forward_step :: "forwarding \<Rightarrow> forward_event \<Rightarrow> forwarding \<Rightarrow> bool" where
  read_some: "phaseOf s d = Copying \<Longrightarrow> \<not> bothClosed s \<Longrightarrow> inBuffer s d = [] \<Longrightarrow> 0 < n \<Longrightarrow> n \<le> length (toRead s d) \<Longrightarrow>
    forward_step s (Read d n) (fill d n s)"
| write_all: "phaseOf s d = Copying \<Longrightarrow> \<not> bothClosed s \<Longrightarrow> inBuffer s d \<noteq> [] \<Longrightarrow>
    forward_step s (Write d) (flush d (length (inBuffer s d)) s)"
| write_fails: "phaseOf s d = Copying \<Longrightarrow> inBuffer s d \<noteq> [] \<Longrightarrow> n < length (inBuffer s d) \<Longrightarrow>
    forward_step s (WriteFails d n) (close_both (move_to d Ended (flush d n s)))"
| read_fails: "phaseOf s d = Copying \<Longrightarrow> inBuffer s d = [] \<Longrightarrow>
    forward_step s (ReadFails d) (close_both (move_to d Ended s))"
| copy_ends: "phaseOf s d = Copying \<Longrightarrow> \<not> bothClosed s \<Longrightarrow> inBuffer s d = [] \<Longrightarrow> toRead s d = [] \<Longrightarrow>
    forward_step s (CopyEnds d) (move_to d AtEOF s)"
| close_write: "phaseOf s d = AtEOF \<Longrightarrow> \<not> bothClosed s \<Longrightarrow>
    forward_step s (CloseWrite d) ((move_to d HalfClosed s)\<lparr>writeShut := (writeShut s)(d := True)\<rparr>)"
| close_write_fails: "phaseOf s d = AtEOF \<Longrightarrow> forward_step s (CloseWriteFails d) (close_both (move_to d Ended s))"
| swap: "phaseOf s d = HalfClosed \<Longrightarrow>
    forward_step s (Swap d) ((if doneFlag s then close_both (move_to d Ended s) else move_to d Ended s)\<lparr>doneFlag := True\<rparr>)"

inductive forward_run :: "(side \<Rightarrow> bytes) \<Rightarrow> forward_event list \<Rightarrow> forwarding \<Rightarrow> bool" for src where
  start: "forward_run src [] (forward_init src)"
| more: "forward_run src es s \<Longrightarrow> forward_step s e t \<Longrightarrow> forward_run src (es @ [e]) t"

inductive_cases forward_stepE: "forward_step s e t"

fun failure :: "forward_event \<Rightarrow> bool" where
  "failure (WriteFails d n) = True"
| "failure (ReadFails d) = True"
| "failure (CloseWriteFails d) = True"
| "failure _ = False"

section \<open>Invariant\<close>

text \<open>An upper bound of the steps one direction still takes.\<close>

definition steps_left :: "forwarding \<Rightarrow> side \<Rightarrow> nat" where
  "steps_left s d = (case phaseOf s d of
     Copying \<Rightarrow> 3 + 2 * length (toRead s d) + (if inBuffer s d = [] then 0 else 1)
   | AtEOF \<Rightarrow> 2 | HalfClosed \<Rightarrow> 1 | Ended \<Rightarrow> 0)"

text \<open>
  What a direction has delivered is what it has read, in order, but for the buffer; without a
  failure it stops copying only when there is nothing left, and shuts the writing side then.
\<close>

definition side_inv :: "bool \<Rightarrow> bytes \<Rightarrow> forwarding \<Rightarrow> side \<Rightarrow> bool" where
  "side_inv ok b s d \<longleftrightarrow>
     prefix (delivered s d) b \<and>
     (phaseOf s d = Copying \<longrightarrow> delivered s d @ inBuffer s d @ toRead s d = b) \<and>
     (phaseOf s d = AtEOF \<or> phaseOf s d = HalfClosed \<or> ok \<and> phaseOf s d = Ended \<longrightarrow> delivered s d = b) \<and>
     (phaseOf s d = HalfClosed \<or> ok \<and> phaseOf s d = Ended \<longrightarrow> writeShut s d)"

text \<open>
  While the connections are open the flag tells whether a direction has ended, and at most one
  has; without a failure they are closed only when both have.
\<close>

definition shared_inv :: "bool \<Rightarrow> forwarding \<Rightarrow> bool" where
  "shared_inv ok s \<longleftrightarrow>
     (\<not> bothClosed s \<longrightarrow> \<not> (phaseOf s Up = Ended \<and> phaseOf s Down = Ended) \<and>
        (doneFlag s \<longleftrightarrow> phaseOf s Up = Ended \<or> phaseOf s Down = Ended)) \<and>
     (ok \<and> bothClosed s \<longrightarrow> phaseOf s Up = Ended \<and> phaseOf s Down = Ended)"

lemmas forward_defs = move_to_def close_both_def fill_def flush_def

lemma side_inv_step:
  assumes "side_inv ok b s d" and "forward_step s e t"
  shows "side_inv (ok \<and> \<not> failure e) b t d"
  using assms(2,1)
proof cases
  case (read_some d' n)
  then show ?thesis using assms(1) by (cases "d' = d") (auto simp: side_inv_def forward_defs)
next
  case (write_all d')
  then show ?thesis using assms(1) by (cases "d' = d") (auto simp: side_inv_def forward_defs prefix_def)
next
  case (write_fails d' n)
  have "prefix (delivered s d @ take n (inBuffer s d)) (delivered s d @ inBuffer s d @ toRead s d)"
    by (simp add: prefix_append take_is_prefix)
  then show ?thesis using assms(1) write_fails by (cases "d' = d") (auto simp: side_inv_def forward_defs)
qed (use assms(1) in \<open>auto simp: side_inv_def forward_defs split: if_splits\<close>)

lemma shared_inv_step:
  assumes "shared_inv ok s" and "forward_step s e t"
  shows "shared_inv (ok \<and> \<not> failure e) t"
  using assms(2,1)
proof cases
  case (swap d)
  then show ?thesis using assms(1) by (cases d) (auto simp: shared_inv_def forward_defs)
qed (case_tac d; auto simp: shared_inv_def forward_defs)+

lemma steps_left_step:
  assumes "forward_step s e t"
  shows "Suc (steps_left t Up + steps_left t Down) \<le> steps_left s Up + steps_left s Down"
  using assms
proof cases
  case (read_some d n)
  then show ?thesis by (cases d) (auto simp: steps_left_def forward_defs split: phase.splits)
qed (case_tac d; auto simp: steps_left_def forward_defs split: phase.splits)+

lemma forward_run_inv:
  assumes "forward_run src es s"
  shows "side_inv (\<forall>e \<in> set es. \<not> failure e) (src d) s d"
    and "shared_inv (\<forall>e \<in> set es. \<not> failure e) s"
    and "length es + steps_left s Up + steps_left s Down \<le> 6 + 2 * (length (src Up) + length (src Down))"
  using assms
proof (induction rule: forward_run.induct)
  case start
  show "side_inv (\<forall>e \<in> set []. \<not> failure e) (src d) (forward_init src) d" by (simp add: side_inv_def forward_init_def)
  show "shared_inv (\<forall>e \<in> set []. \<not> failure e) (forward_init src)" by (simp add: shared_inv_def forward_init_def)
  show "length [] + steps_left (forward_init src) Up + steps_left (forward_init src) Down \<le> 6 + 2 * (length (src Up) + length (src Down))"
    by (simp add: steps_left_def forward_init_def)
next
  case (more es s e t)
  have "(\<forall>x \<in> set (es @ [e]). \<not> failure x) \<longleftrightarrow> (\<forall>x \<in> set es. \<not> failure x) \<and> \<not> failure e" by auto
  then show "side_inv (\<forall>x \<in> set (es @ [e]). \<not> failure x) (src d) t d" "shared_inv (\<forall>x \<in> set (es @ [e]). \<not> failure x) t"
    using side_inv_step [OF more.IH(1) more.hyps(2)] shared_inv_step [OF more.IH(2) more.hyps(2)] by simp_all
  show "length (es @ [e]) + steps_left t Up + steps_left t Down \<le> 6 + 2 * (length (src Up) + length (src Down))"
    using steps_left_step [OF more.hyps(2)] more.IH(3) by simp
qed

text \<open>A direction that has not ended can go on: at worst its next call fails.\<close>

lemma forward_stuck:
  assumes "\<nexists>e t. forward_step s e t"
  shows "phaseOf s d = Ended"
proof (cases "phaseOf s d")
  case Copying
  then show ?thesis
    using assms forward_step.read_fails [of s d] forward_step.write_fails [of s d 0] by (cases "inBuffer s d = []") auto
qed (use assms forward_step.close_write_fails [of s d] forward_step.swap [of s d] in blast)+

lemma forward_delivers: "forward_run src es s \<Longrightarrow> prefix (delivered s d) (src d)"
  using forward_run_inv(1) unfolding side_inv_def by blast

lemma forward_complete:
  assumes "forward_run src es s" and "bothClosed s" and "\<forall>e \<in> set es. \<not> failure e"
  shows "phaseOf s d = Ended \<and> writeShut s d \<and> delivered s d = src d"
proof -
  have "phaseOf s d = Ended" using forward_run_inv(2) [OF assms(1)] assms(2,3) by (cases d) (auto simp: shared_inv_def)
  then show ?thesis using forward_run_inv(1) [OF assms(1), of d] assms(3) by (auto simp: side_inv_def)
qed

text \<open>
  C15. The two directions of a tunnel deliver the bytes of their peer in order and end together.
  In every order of their steps, and however much each read returns, each side has at any time
  been written a prefix of what the other sent; the number of steps is bounded; when neither
  direction can go on, both have ended and both connections are closed; and if no call failed
  until they were closed, each side has got all the bytes of the other, and then its end of
  stream: one direction may end long before the other.
\<close>

theorem forward_closes:
  assumes "forward_run src es s"
  shows "length es \<le> 6 + 2 * (length (src Up) + length (src Down)) \<and>
    (\<forall>d. prefix (delivered s d) (src d)) \<and>
    ((\<nexists>e t. forward_step s e t) \<longrightarrow> bothClosed s \<and> phaseOf s Up = Ended \<and> phaseOf s Down = Ended) \<and>
    (bothClosed s \<and> (\<forall>e \<in> set es. \<not> failure e) \<longrightarrow>
       (\<forall>d. phaseOf s d = Ended \<and> writeShut s d \<and> delivered s d = src d))"
proof (intro conjI impI)
  show "length es \<le> 6 + 2 * (length (src Up) + length (src Down))" using forward_run_inv(3) [OF assms] by linarith
  show "\<forall>d. prefix (delivered s d) (src d)" using forward_delivers [OF assms] by blast
  show "\<forall>d. phaseOf s d = Ended \<and> writeShut s d \<and> delivered s d = src d"
    if "bothClosed s \<and> (\<forall>e \<in> set es. \<not> failure e)" using forward_complete [OF assms] that by blast
  assume none: "\<nexists>e t. forward_step s e t"
  show "phaseOf s Up = Ended" "phaseOf s Down = Ended" by (rule forward_stuck [OF none])+
  then show "bothClosed s" using forward_run_inv(2) [OF assms] by (auto simp: shared_inv_def)
qed

section \<open>A run\<close>

text \<open>The steps as a function, to follow a given list of events.\<close>

fun forward_exec :: "forwarding \<Rightarrow> forward_event \<Rightarrow> forwarding option" where
  "forward_exec s (Read d n) =
     (if phaseOf s d = Copying \<and> \<not> bothClosed s \<and> inBuffer s d = [] \<and> 0 < n \<and> n \<le> length (toRead s d)
      then Some (fill d n s) else None)"
| "forward_exec s (Write d) =
     (if phaseOf s d = Copying \<and> \<not> bothClosed s \<and> inBuffer s d \<noteq> []
      then Some (flush d (length (inBuffer s d)) s) else None)"
| "forward_exec s (WriteFails d n) =
     (if phaseOf s d = Copying \<and> inBuffer s d \<noteq> [] \<and> n < length (inBuffer s d)
      then Some (close_both (move_to d Ended (flush d n s))) else None)"
| "forward_exec s (ReadFails d) =
     (if phaseOf s d = Copying \<and> inBuffer s d = [] then Some (close_both (move_to d Ended s)) else None)"
| "forward_exec s (CopyEnds d) =
     (if phaseOf s d = Copying \<and> \<not> bothClosed s \<and> inBuffer s d = [] \<and> toRead s d = []
      then Some (move_to d AtEOF s) else None)"
| "forward_exec s (CloseWrite d) =
     (if phaseOf s d = AtEOF \<and> \<not> bothClosed s
      then Some ((move_to d HalfClosed s)\<lparr>writeShut := (writeShut s)(d := True)\<rparr>) else None)"
| "forward_exec s (CloseWriteFails d) =
     (if phaseOf s d = AtEOF then Some (close_both (move_to d Ended s)) else None)"
| "forward_exec s (Swap d) =
     (if phaseOf s d = HalfClosed
      then Some ((if doneFlag s then close_both (move_to d Ended s) else move_to d Ended s)\<lparr>doneFlag := True\<rparr>) else None)"

lemma forward_exec_step: "forward_exec s e = Some t \<longleftrightarrow> forward_step s e t"
proof (cases e)
  case (Swap d)
  then show ?thesis using forward_step.swap [of s d] by (auto elim: forward_stepE)
qed (auto intro: forward_step.intros elim: forward_stepE split: if_splits)

fun forward_follow :: "forwarding \<Rightarrow> forward_event list \<Rightarrow> forwarding option" where
  "forward_follow s [] = Some s"
| "forward_follow s (e # es) = (case forward_exec s e of None \<Rightarrow> None | Some t \<Rightarrow> forward_follow t es)"

lemma forward_follow_run:
  "forward_run src es s \<Longrightarrow> forward_follow s es' = Some t \<Longrightarrow> forward_run src (es @ es') t"
proof (induction es' arbitrary: es s)
  case (Cons e es')
  then obtain u where u: "forward_step s e u" "forward_follow u es' = Some t"
    by (auto simp: forward_exec_step split: option.splits)
  show ?case using Cons.IH [OF forward_run.more [OF Cons.prems(1) u(1)] u(2)] by simp
qed simp

fun demo_bytes :: "side \<Rightarrow> bytes" where
  "demo_bytes Up = [1, 2, 3, 0, 5]"
| "demo_bytes Down = [4]"

definition demo_events :: "forward_event list" where
  "demo_events = [Read Up 2, Read Down 1, Write Down, Write Up, Read Up 3, Write Up, CopyEnds Up, CloseWrite Up, Swap Up,
     CopyEnds Down, CloseWrite Down, Swap Down]"

lemma demo_forward_run: "\<exists>s. forward_run demo_bytes demo_events s \<and> bothClosed s"
proof -
  have "\<exists>s. forward_follow (forward_init demo_bytes) demo_events = Some s \<and> bothClosed s"
    by (simp add: demo_events_def forward_init_def forward_defs)
  then show ?thesis using forward_follow_run [OF forward_run.start, of demo_bytes demo_events] by auto
qed

theorem forward_closes_witness:
  "\<exists>s. forward_run demo_bytes demo_events s \<and> bothClosed s \<and> length demo_events \<le> 18 \<and>
     (\<forall>d. phaseOf s d = Ended \<and> writeShut s d \<and> delivered s d = demo_bytes d)"
proof -
  obtain s where s: "forward_run demo_bytes demo_events s" "bothClosed s" using demo_forward_run by blast
  moreover have "\<forall>e \<in> set demo_events. \<not> failure e" by (simp add: demo_events_def)
  moreover have "length demo_events \<le> 18" by (simp add: demo_events_def)
  ultimately show ?thesis using forward_closes [OF s(1)] by blast
qed

end
