(* ===== verification/Session_Spec.thy ===== *)
theory Session_Spec
  imports Tunnel_Spec Forward
begin

text \<open>
  A whole connection: the tunnel deals with the first bytes and then hands the rest to
  \<^verbatim>\<open>forwardTCP\<close>, whose two directions run to their end.
\<close>

section \<open>What the client gets\<close>

text \<open>A tunnel that goes over to forwarding has written nothing to the client, unless the client speaks HTTP.\<close>

lemma check_passes: "checkTLS13Only t p ver ts = Some (True, ts') \<Longrightarrow> ts' = ts"
  by (auto simp: checkTLS13Only_def split: bind_splits if_splits)

lemma route_only_client: "route_only srv ch sni ts = Some (True, ts') \<Longrightarrow> tsCli ts' = tsCli ts"
  unfolding route_only_def by (auto split: option.splits if_splits bind_splits dest!: check_passes)

lemma switch_dst_client: "switch_dst srv d sp ts w = Some (ok, ts', w') \<Longrightarrow> tsCli ts' = tsCli ts"
  unfolding switch_dst_def by (auto simp: Let_def split: sum.splits bind_splits)

lemma override_dst_client: "override_dst srv ch sni ts w = Some (True, ts', w') \<Longrightarrow> tsCli ts' = tsCli ts"
  unfolding override_dst_def Let_def
  by (auto split: bind_splits if_splits dest!: check_passes switch_dst_client)

lemma sniff_client:
  assumes "sniff srv ch rec ts w = Some ((True, m), ts', w')"
  shows "tsCli ts' = tsCli ts"
proof -
  have "tsCli ts2 = tsCli ts" if "sniff_sni srv ch sni ts w = Some (True, ts2, w2)" for sni ts2 w2
    using that unfolding sniff_sni_def Let_def
    by (auto split: if_splits sniff_override_mode.splits bind_splits dest!: override_dst_client route_only_client)
  then show ?thesis using assms unfolding sniff_def by (auto split: if_splits bind_splits)
qed

lemma ensure_dst_client: "ensure_dst srv ts w = Some (ok, ts', w') \<Longrightarrow> tsCli ts' = tsCli ts"
  unfolding ensure_dst_def by (auto split: option.splits sum.splits bind_splits)

lemma write_dst_client: "write_dst m ts = Some (r, ts') \<Longrightarrow> tsCli ts' = tsCli ts"
  by (auto simp: write_dst_def split: bind_splits)

lemma send_hello_client: "send_hello srv m ch rec ts w = Some (ok, ts', w') \<Longrightarrow> tsCli ts' = tsCli ts"
  by (auto simp: send_hello_def Let_def split: mode.splits bind_splits sum.splits dest!: write_dst_client)

lemma handleTLS_client:
  assumes "handleTLS srv n ts w = Some (True, ts', w')"
  shows "tsCli ts' = tsCli ts"
proof -
  have "tsCli t2 = tsCli t" if "finish_tls srv ch rec t w = Some (True, t2, w2)" for ch rec t t2 w2
    using that unfolding finish_tls_def
    by (auto split: bind_splits if_splits dest!: sniff_client ensure_dst_client send_hello_client)
  then show ?thesis using assms unfolding handleTLS_def Let_def
    by (auto split: if_splits bind_splits dest!: check_passes)
qed

lemma end_tunnel_client: "end_tunnel n ts w = Some (r, ts', w') \<Longrightarrow> tsCli ts' = tsCli ts"
  by (auto simp: end_tunnel_def drainBuffered_def forwardTCP_def split: bind_splits if_splits option.splits dest!: write_dst_client)

lemma tunnel_client:
  assumes "handleTunnel h srv n ts w = Some (Forwarding, ts', w')"
    and "\<not> bytesHasPrefix (take 10 (tsInput ts)) http_methods"
  shows "tsCli ts' = tsCli ts"
  using assms unfolding handleTunnel_def Let_def http_methods_def [symmetric]
  by (auto simp: forwardTCP_def split: bind_splits if_splits option.splits
      dest!: handleTLS_client end_tunnel_client ensure_dst_client)

section \<open>Both directions\<close>

lemma passes_on_stream:
  assumes "passes_on reach read_for input ts" and "forward_run src es s" and "src Up = tsInput ts"
  obtains c ra k x z where "tsDst ts = Some (c, ra)"
    "received (map (arrive (reach (unmap (fst ra)))) (sent c @ [Data (delivered s Up)])) = x @ z"
    "first_record (read_for ra) input k x" "prefix z (drop k input)"
    "bothClosed s \<and> (\<forall>e \<in> set es. \<not> failure e) \<longrightarrow> z = drop k input"
proof -
  obtain c ra k x y where t: "tsDst ts = Some (c, ra)" "received (map (arrive (reach (unmap (fst ra)))) (sent c)) = x @ y"
    "first_record (read_for ra) input k x" "y @ tsInput ts = drop k input"
    using assms(1) unfolding passes_on_def by blast
  show thesis
  proof
    show "received (map (arrive (reach (unmap (fst ra)))) (sent c @ [Data (delivered s Up)])) = x @ y @ delivered s Up"
      by (simp add: received_append t(2))
    show "prefix (y @ delivered s Up) (drop k input)"
      using forward_delivers [OF assms(2), of Up] unfolding assms(3) t(4) [symmetric] by simp
    show "bothClosed s \<and> (\<forall>e \<in> set es. \<not> failure e) \<longrightarrow> y @ delivered s Up = drop k input"
      using forward_complete [OF assms(2)] t(4) assms(3) by auto
  qed (rule t(1), rule t(3))
qed

text \<open>
  C1. A connection of a client that does not speak HTTP goes over to forwarding; it is new, nothing has been sent to a
  server yet. Of all the client ever sends, the server has at any time read a prefix in order and without a gap,
  except that it may have read something else for the record at its start, when this was taken for a ClientHello; the
  client has read a prefix of what the server sent. When the connections are closed and no call failed before, both have
  read everything (of the client after that record). For the record the server has read, by the mode of the final policy
  (\<open>hello_fate\<close>): it whole as it is, or complete records with the same payload; nothing when the mode is
  one that sends nothing (block, unset or tls-alert); with tls-rf, fragments, with a zero in them only when
  \<^verbatim>\<open>oob\<close> and \<^verbatim>\<open>oob_ex\<close> are combined, and cut off after 0 or 35 bytes only for several records in
  fewer than -1 segments; with ttl-d, zeros in place of part of it only when the fake packet arrives with the TTL that was chosen for it.
  Under a policy for which none of these losses is possible (\<open>mode_ok\<close>: raw, direct, tls-rf with counts and
  urgent bytes as in \<open>fragments_ok\<close>, or ttl-d with a measured TTL in a steady network) it has read the record whole,
  or with the same payload.
\<close>

theorem session_transparent:
  assumes "handleTunnel h srv n ts w = Some (Forwarding, ts', w')"
    and "dials_fresh srv" and "unsent ts" and "\<not> bytesHasPrefix (take 10 (tsInput ts)) http_methods"
    and "forward_run src es s" and "src Up = tsInput ts'"
  shows "\<exists>c ra k x z. tsDst ts' = Some (c, ra) \<and>
    received (map (arrive (reach (unmap (fst ra)))) (sent c @ [Data (delivered s Up)])) = x @ z \<and>
    (k = 0 \<and> x = [] \<or> k = 5 + be16 (tsInput ts ! 3) (tsInput ts ! 4) \<and> k \<le> length (tsInput ts) \<and>
       hello_fate (fake_arrives (srvTTL srv) (srvCalc srv) (wTTL w) reach (tsPolicy ts') ra) (tsPolicy ts') (pMode (tsPolicy ts')) (take k (tsInput ts)) x \<and>
       (mode_ok srv (tsPolicy ts') (pMode (tsPolicy ts')) \<and> steady (srvTTL srv) reach \<and> ttl_inv reach (wTTL w) \<longrightarrow>
          carries (take k (tsInput ts)) x)) \<and>
    prefix z (drop k (tsInput ts)) \<and> prefix (delivered s Down) (src Down) \<and>
    (bothClosed s \<and> (\<forall>e \<in> set es. \<not> failure e) \<longrightarrow>
       z = drop k (tsInput ts) \<and> delivered s Down = src Down)"
proof -
  let ?read = "hello_read srv reach (wTTL w) (tsPolicy ts') (pMode (tsPolicy ts'))"
  have "passes_on reach ?read (tsInput ts) ts'" by (rule tunnel_passes_on [OF assms(1-4)])
  then obtain c ra k x z where t: "tsDst ts' = Some (c, ra)"
    "received (map (arrive (reach (unmap (fst ra)))) (sent c @ [Data (delivered s Up)])) = x @ z"
    "first_record (?read ra) (tsInput ts) k x" "prefix z (drop k (tsInput ts))"
    "bothClosed s \<and> (\<forall>e \<in> set es. \<not> failure e) \<longrightarrow> z = drop k (tsInput ts)"
    by (rule passes_on_stream [OF _ assms(5,6)])
  show ?thesis
    using t forward_delivers [OF assms(5), of Down] forward_complete [OF assms(5), of Down] unfolding hello_read_def first_record_def by blast
qed

theorem session_transparent_witness:
  "\<exists>ts' s c ra k x z. handleTunnel demo_http demo_server 0 (demo_session (demo_policy ModeDirect) None [97, 46, 98] (demo_hello @ [1, 2, 3, 0, 5])) demo_world =
     Some (Forwarding, ts', demo_world) \<and> forward_run demo_bytes demo_events s \<and> bothClosed s \<and> tsDst ts' = Some (c, ra) \<and>
     received (map (arrive (\<lambda>t. 5 \<le> t)) (sent c @ [Data (delivered s Up)])) = x @ z \<and>
     (k = 0 \<and> x = [] \<or> carries (take k (demo_hello @ [1, 2, 3, 0, 5])) x) \<and> z = drop k (demo_hello @ [1, 2, 3, 0, 5]) \<and> delivered s Down = [4]"
proof -
  let ?s = "demo_session (demo_policy ModeDirect) None [97, 46, 98] (demo_hello @ [1, 2, 3, 0, 5])"
  have i: "tsInput ?s = demo_hello @ [1, 2, 3, 0, 5]" "tsPolicy ?s = demo_policy ModeDirect" by (simp_all add: demo_session_def)
  obtain ts' where t: "handleTunnel demo_http demo_server 0 ?s demo_world = Some (Forwarding, ts', demo_world)"
    "tsPolicy ts' = tsPolicy ?s" "tsInput ts' = [1, 2, 3, 0, 5]"
    using demo_direct [of ?s "[1, 2, 3, 0, 5]" 0] by (auto simp: demo_session_def)
  obtain s where s: "forward_run demo_bytes demo_events s" "bothClosed s" using demo_forward_run by blast
  have a: "dials_fresh demo_server" "unsent ?s" by (simp_all add: dials_fresh_def unsent_def demo_server_def demo_session_def)
  have m: "mode_ok demo_server (tsPolicy ts') (pMode (tsPolicy ts'))" unfolding t(2) i(2) by (simp add: mode_ok_def demo_policy_def)
  have st: "steady (srvTTL demo_server) (\<lambda>_ t. 5 \<le> t)" "ttl_inv (\<lambda>_ t. 5 \<le> t) (wTTL demo_world)"
    by (auto simp: steady_def demo_server_def five_hops_def ttl_inv_def demo_world_def)
  have b: "\<not> bytesHasPrefix (take 10 (tsInput ?s)) http_methods" unfolding i(1) by (rule demo_no_http)
  have f: "\<forall>e \<in> set demo_events. \<not> failure e" by (simp add: demo_events_def)
  have "\<exists>c ra k x z. tsDst ts' = Some (c, ra) \<and>
     received (map (arrive (\<lambda>t. 5 \<le> t)) (sent c @ [Data (delivered s Up)])) = x @ z \<and>
     (k = 0 \<and> x = [] \<or> carries (take k (tsInput ?s)) x) \<and> z = drop k (tsInput ?s) \<and> delivered s Down = demo_bytes Down"
    using session_transparent [OF t(1) a b s(1), of "\<lambda>_ t. 5 \<le> t"] m st t(3) s f by auto
  then show ?thesis using t(1) s unfolding i(1) by auto
qed

end
