(* ===== verification/Proxy_Spec.thy ===== *)
theory Proxy_Spec
  imports Session_Spec Socks5_Spec
begin

text \<open>
  From the bytes of a SOCKS5 client to the server and back: the request, routing, the tunnel
  and forwarding as one.
\<close>

text \<open>
  C2. A SOCKS5 client offers no authentication, asks for a domain name of 1 to 253 bytes and then speaks
  anything but HTTP. When the handler goes over to forwarding, routing has neither failed nor blocked this
  very name; the client has been sent the two replies of the protocol and after them a prefix of
  what the server sends; the server has read a prefix of what the client sends after the request, in order and
  without a gap, except that it may have read something else for the record at its start, when this was taken for a
  ClientHello. When the connections are closed and no call failed before, both have read everything (of the client
  after that record). For the record the server has read what the
  mode of the final policy makes of it (\<open>hello_fate\<close>): it whole or complete records with its payload, or,
  with the modes and counts named there, nothing, a part of it, or bytes with zeros in them; it whole or
  complete records with its payload whenever the policy is one of \<open>mode_ok\<close>, the network steady and the TTL
  cache right.
\<close>

theorem socks5_connection:
  assumes "0 \<in> set ms" and "length ms < 256" and "1 \<le> length name" and "length name \<le> 253"
    and "socks5Handler h srv n (domain_request ms rsv name port @ payload) c w = Some (Forwarding, Some ts, w')"
    and "dials_fresh srv" and "\<not> bytesHasPrefix (take 10 payload) http_methods"
    and "forward_run src es s" and "src Up = tsInput ts"
  shows "(\<exists>v st. genPolicy (Some (srvLogger srv)) (srvRoute srv) (srvResolve srv) (bytes_string name) False False (wRoute w) = Some (v, st) \<and>
      \<not> vFailed v \<and> \<not> vBlocked v) \<and>
    (\<exists>y. sent (tsCli ts) @ [Data (delivered s Down)] = sent c @ [Data socks5NoAuthReply, Data socks5ReplySuccess, Data y] \<and>
      prefix y (src Down) \<and> (bothClosed s \<and> (\<forall>e \<in> set es. \<not> failure e) \<longrightarrow> y = src Down)) \<and>
    (\<exists>d ra k x z. tsDst ts = Some (d, ra) \<and>
      received (map (arrive (reach (unmap (fst ra)))) (sent d @ [Data (delivered s Up)])) = x @ z \<and>
      (k = 0 \<and> x = [] \<or> k = 5 + be16 (payload ! 3) (payload ! 4) \<and> k \<le> length payload \<and>
         hello_fate (fake_arrives (srvTTL srv) (srvCalc srv) (wTTL w) reach (tsPolicy ts) ra) (tsPolicy ts) (pMode (tsPolicy ts)) (take k payload) x \<and>
         (mode_ok srv (tsPolicy ts) (pMode (tsPolicy ts)) \<and> steady (srvTTL srv) reach \<and> ttl_inv reach (wTTL w) \<longrightarrow>
            carries (take k payload) x)) \<and>
      prefix z (drop k payload) \<and> (bothClosed s \<and> (\<forall>e \<in> set es. \<not> failure e) \<longrightarrow> z = drop k payload))"
proof -
  obtain t1 w1 where o: "socks5_open srv (domain_request ms rsv name port @ payload) c w = Some (Opened t1, w1)"
    and t: "handleTunnel h srv n t1 w1 = Some (Forwarding, ts, w')"
    using assms(5) by (auto simp: socks5Handler_def split: bind_splits socks5_end.splits)
  obtain c1 where c1: "sendReply socks5NoAuthReply c = Some (True, c1)"
    and r: "socks5_route srv (bytes_string name) False (put_be16 port @ payload) c1 w = Some (Opened t1, w1)"
    using o unfolding socks5_open_domain [OF assms(1-4)] by (auto split: bind_splits if_splits)
  note opened = route_opened [OF r assms(6) readN_port]
  then have u: "unsent t1" "tsInput t1 = payload" "wTTL w1 = wTTL w"
    "sent (tsCli t1) = sent c @ [Data socks5NoAuthReply, Data socks5ReplySuccess]"
    using sendReply_cases(1) [OF c1] by auto
  have cli: "tsCli ts = tsCli t1" using tunnel_client [OF t] assms(7) u(2) by simp
  let ?read = "hello_read srv reach (wTTL w) (tsPolicy ts) (pMode (tsPolicy ts))"
  have "passes_on reach ?read payload ts"
    using tunnel_passes_on [OF t assms(6) u(1)] assms(7) u(2,3) by simp
  then obtain d ra k x z where "tsDst ts = Some (d, ra)"
    "received (map (arrive (reach (unmap (fst ra)))) (sent d @ [Data (delivered s Up)])) = x @ z"
    "first_record (?read ra) payload k x" "prefix z (drop k payload)"
    "bothClosed s \<and> (\<forall>e \<in> set es. \<not> failure e) \<longrightarrow> z = drop k payload"
    by (rule passes_on_stream [OF _ assms(8,9)])
  moreover have "\<exists>y. sent (tsCli ts) @ [Data (delivered s Down)] = sent c @ [Data socks5NoAuthReply, Data socks5ReplySuccess, Data y] \<and>
      prefix y (src Down) \<and> (bothClosed s \<and> (\<forall>e \<in> set es. \<not> failure e) \<longrightarrow> y = src Down)"
    using forward_delivers [OF assms(8), of Down] forward_complete [OF assms(8), of Down]
    by (intro exI [of _ "delivered s Down"]) (simp add: cli u(4))
  ultimately show ?thesis using opened unfolding hello_read_def first_record_def by blast
qed

text \<open>A request for \<^verbatim>\<open>h.i\<close> under a policy of mode raw, followed by five bytes.\<close>

lemma demo_h_i: "bytes_string [104, 46, 105] = ''h.i''"
  by (simp add: bytes_string_def) code_simp

lemma demo_proxied:
  "\<exists>ts. socks5Handler demo_http (demo_in ModeRaw) 0 (domain_request [0] 0 [104, 46, 105] 443 @ [1, 2, 3, 0, 5]) \<lparr>sent = [], faults = []\<rparr> demo_world =
     Some (Forwarding, Some ts, demo_world) \<and> tsPolicy ts = demo_policy ModeRaw \<and> tsInput ts = [1, 2, 3, 0, 5]"
proof -
  have p: "pPort (demo_policy ModeRaw) = unsetInt" "\<not> is_true (pReplyFirst (demo_policy ModeRaw))" "pMode (demo_policy ModeRaw) = ModeRaw"
    by (simp_all add: demo_policy_def policy_init_def zero_policy_def is_true_def)
  have d: "srvDial (demo_in ModeRaw) x t a b () = Some (Inr (Some (\<lparr>sent = [], faults = []\<rparr>, (IP4 [1, 2, 3, 4], 443))), ())" for x t a b
    by (simp add: demo_in_def demo_server_def)
  have "\<exists>ts. socks5_open (demo_in ModeRaw) (domain_request [0] 0 [104, 46, 105] 443 @ [1, 2, 3, 0, 5]) \<lparr>sent = [], faults = []\<rparr> demo_world =
     Some (Opened ts, demo_world) \<and> tsPolicy ts = demo_policy ModeRaw \<and> tsInput ts = [1, 2, 3, 0, 5] \<and> tsDst ts \<noteq> None"
    using socks5_domain_request [of "[0]" "[104, 46, 105]" 443 "\<lparr>sent = [], faults = []\<rparr>" "demo_policy ModeRaw" "demo_in ModeRaw" demo_world
        "new_single_dst ''::1''" "wRoute demo_world" "show_nat 443" "(\<lparr>sent = [], faults = []\<rparr>, (IP4 [1, 2, 3, 4], 443))" "()" 0 "[1, 2, 3, 0, 5]"]
      demo_in_routed [of ModeRaw "wRoute demo_world"] p
    by (simp add: d demo_h_i demo_world_def)
  then obtain ts where "socks5_open (demo_in ModeRaw) (domain_request [0] 0 [104, 46, 105] 443 @ [1, 2, 3, 0, 5]) \<lparr>sent = [], faults = []\<rparr> demo_world =
     Some (Opened ts, demo_world)" "tsPolicy ts = demo_policy ModeRaw" "tsInput ts = [1, 2, 3, 0, 5]" "tsDst ts \<noteq> None" by blast
  then show ?thesis using p(3)
    by (auto simp: socks5Handler_def handleTunnel_def ensure_dst_def forwardTCP_def)
qed

theorem socks5_connection_witness:
  "\<exists>ts s d ra k x z. socks5Handler demo_http (demo_in ModeRaw) 0 (domain_request [0] 0 [104, 46, 105] 443 @ [1, 2, 3, 0, 5])
       \<lparr>sent = [], faults = []\<rparr> demo_world = Some (Forwarding, Some ts, demo_world) \<and>
     forward_run demo_bytes demo_events s \<and> bothClosed s \<and>
     sent (tsCli ts) @ [Data (delivered s Down)] = [Data socks5NoAuthReply, Data socks5ReplySuccess, Data [4]] \<and>
     tsDst ts = Some (d, ra) \<and> received (map (arrive (\<lambda>t. 5 \<le> t)) (sent d @ [Data (delivered s Up)])) = x @ z \<and>
     (k = 0 \<and> x = [] \<or> carries (take k [1, 2, 3, 0, 5]) x) \<and> z = drop k [1, 2, 3, 0, 5]"
proof -
  obtain ts where t: "socks5Handler demo_http (demo_in ModeRaw) 0 (domain_request [0] 0 [104, 46, 105] 443 @ [1, 2, 3, 0, 5])
      \<lparr>sent = [], faults = []\<rparr> demo_world = Some (Forwarding, Some ts, demo_world)" "tsPolicy ts = demo_policy ModeRaw" "tsInput ts = [1, 2, 3, 0, 5]"
    using demo_proxied by blast
  obtain s where s: "forward_run demo_bytes demo_events s" "bothClosed s" using demo_forward_run by blast
  have a: "dials_fresh (demo_in ModeRaw)" by (simp add: dials_fresh_def demo_in_def demo_server_def)
  have m: "mode_ok (demo_in ModeRaw) (tsPolicy ts) (pMode (tsPolicy ts))" unfolding t(2) by (simp add: mode_ok_def demo_policy_def)
  have st: "steady (srvTTL (demo_in ModeRaw)) (\<lambda>_ t. 5 \<le> t)" "ttl_inv (\<lambda>_ t. 5 \<le> t) (wTTL demo_world)"
    by (auto simp: steady_def demo_in_def demo_server_def five_hops_def ttl_inv_def demo_world_def)
  have "(char_of (1 :: nat) :: char) \<notin> set ''GPHDOT''" by code_simp
  then have b: "\<not> bytesHasPrefix (take 10 [1, 2, 3, 0, 5]) http_methods" by (simp add: bytesHasPrefix_def http_methods_def bytes_string_def)
  have f: "\<forall>e \<in> set demo_events. \<not> failure e" by (simp add: demo_events_def)
  let ?p = "[1, 2, 3, 0, 5] :: bytes"
  have "(\<exists>y. sent (tsCli ts) @ [Data (delivered s Down)] = [Data socks5NoAuthReply, Data socks5ReplySuccess, Data y] \<and> y = demo_bytes Down) \<and>
    (\<exists>d ra k x z. tsDst ts = Some (d, ra) \<and> received (map (arrive (\<lambda>t. 5 \<le> t)) (sent d @ [Data (delivered s Up)])) = x @ z \<and>
      (k = 0 \<and> x = [] \<or> carries (take k ?p) x) \<and> z = drop k ?p)"
    using socks5_connection [OF _ _ _ _ t(1) a b s(1), of "\<lambda>_ t. 5 \<le> t"] m st t(3) s f by (simp del: take_Cons drop_Cons) blast
  then show ?thesis using t(1) s by auto
qed

end
