(* ===== verification/Dns_Config.thy ===== *)
theory Dns_Config
  imports Dns_Spec
begin

text \<open>
  \<^verbatim>\<open>newDNSResolver\<close> of \<^verbatim>\<open>internal/core/dns.go\<close>: from the configuration to a resolver, and the exchange
  functions it is given. The packages \<^verbatim>\<open>net/url\<close>, \<^verbatim>\<open>net/http\<close>, \<^verbatim>\<open>miekg/dns\<close> (its table of types, packing and
  clients) and \<^verbatim>\<open>xxhash\<close> are parameters.
\<close>

section \<open>Configuration\<close>

record dns_config =
  dcType :: string
  dcAddr :: string
  dcSingleFlight :: bool
  dcDisableCache :: bool
  dcCacheCapacity :: nat
  dcEDNS0Subnet :: string
  dcUDPSize :: nat
  dcClientTimeout :: string
  dcWaitTimeout :: string
  dcMinRTT :: string
  dcQtype2 :: string
  dcDoHOutbound :: string

definition empty_dns_config :: dns_config where
  "empty_dns_config = \<lparr>dcType = [], dcAddr = [], dcSingleFlight = False, dcDisableCache = False, dcCacheCapacity = 0,
     dcEDNS0Subnet = [], dcUDPSize = 0, dcClientTimeout = [], dcWaitTimeout = [], dcMinRTT = [], dcQtype2 = [],
     dcDoHOutbound = []\<rparr>"

record url =
  urlScheme :: string
  urlHost :: string
  urlHostname :: string
  urlPort :: string

text \<open>What the messages go through; sizes and times that are zero are left to the library.\<close>

datatype 'f doh_dial = PolicyDial 'f | NoProxy | EnvProxy | UseProxy url

datatype 'f exchanger =
    UDPClient nat int
  | WaitingClient nat int int int
  | TCPClient
  | TLSClient
  | DoHClient "'f doh_dial"

record 'f dns_built =
  bExchanger :: "'f exchanger"
  bAddr :: string
  bResolver :: dns_resolver
  bSubnet :: "(nat \<times> nat \<times> bytes) option"
  bCache :: "(string, dst option) sharded option"

section \<open>Parts\<close>

text \<open>A time that is given must be read and be positive; 0 stands for none.\<close>

definition given_time :: "string \<Rightarrow> string \<Rightarrow> error + int" where
  "given_time name s =
     (if s = [] then Inr 0
      else case parse_duration s of
        Inl e \<Rightarrow> Inl (OpError (''invalid '' @ name) e)
      | Inr d \<Rightarrow> if d \<le> 0 then Inl (NewError (name @ '' must be greater than 0'')) else Inr d)"

definition check_addr :: "string \<Rightarrow> 'a \<Rightarrow> error + 'a" where
  "check_addr addr x =
     (case parse_addr_port addr of
        None \<Rightarrow> Inl (OpError ''invalid addr'' (LibError ''netip.ParseAddrPort''))
      | Some _ \<Rightarrow> Inr x)"

definition udp_client :: "(string \<Rightarrow> nat option) \<Rightarrow> dns_config \<Rightarrow> error + 'f exchanger \<times> nat" where
  "udp_client stringToType cfg =
     (case check_addr (dcAddr cfg) () of Inl e \<Rightarrow> Inl e | Inr _ \<Rightarrow>
      case given_time ''client_timeout'' (dcClientTimeout cfg) of Inl e \<Rightarrow> Inl e | Inr timeout \<Rightarrow>
      case (if dcQtype2 cfg = [] then Some 0 else stringToType (dcQtype2 cfg)) of
        None \<Rightarrow> Inl (NewError (''invalid qtype2 '' @ dcQtype2 cfg))
      | Some q \<Rightarrow>
        if dcWaitTimeout cfg = [] \<and> dcMinRTT cfg = [] then Inr (UDPClient (dcUDPSize cfg) timeout, q)
        else
          (case given_time ''wait_timeout'' (dcWaitTimeout cfg) of Inl e \<Rightarrow> Inl e | Inr wait \<Rightarrow>
           case given_time ''min_rtt'' (dcMinRTT cfg) of Inl e \<Rightarrow> Inl e | Inr rtt \<Rightarrow>
             Inr (WaitingClient (dcUDPSize cfg) timeout wait rtt, q)))"

text \<open>Making the dial function of the policy may panic, which is \<open>None\<close>.\<close>

definition doh_client ::
  "(string \<Rightarrow> error + url) \<Rightarrow> (url \<Rightarrow> (error + 'f) option) \<Rightarrow> dns_config \<Rightarrow> (error + 'f exchanger) option" where
  "doh_client parseURL buildDoHDial cfg =
     (case parseURL (dcAddr cfg) of
        Inl e \<Rightarrow> Some (Inl (OpError (''invalid DoH URL '' @ dcAddr cfg) e))
      | Inr u \<Rightarrow>
          let out = dcDoHOutbound cfg in
          if out = [] \<or> out = ''policy'' then
            (case buildDoHDial u of
               None \<Rightarrow> None
             | Some (Inl e) \<Rightarrow> Some (Inl (OpError ''build policy DoH function'' e))
             | Some (Inr f) \<Rightarrow> Some (Inr (DoHClient (PolicyDial f))))
          else if out = ''direct'' then Some (Inr (DoHClient NoProxy))
          else if out = ''env'' then Some (Inr (DoHClient EnvProxy))
          else
            Some (case parseURL out of
               Inl e \<Rightarrow> Inl e
             | Inr p \<Rightarrow>
                 if urlScheme p \<in> {''http'', ''https'', ''socks5'', ''socks5h''} then Inr (DoHClient (UseProxy p))
                 else if urlScheme p = [] then Inl (NewError ''proxy URL scheme cannot be empty'')
                 else Inl (NewError (''invalid proxy URL scheme '' @ urlScheme p))))"

text \<open>The family, prefix length and address of the option for the client subnet.\<close>

definition edns0_subnet :: "string \<Rightarrow> error + (nat \<times> nat \<times> bytes) option" where
  "edns0_subnet s =
     (if s = [] then Inr None
      else case parse_prefix s of
        None \<Rightarrow> Inl (OpError (''invalid edns0_subnet '' @ s) (LibError ''netip.ParsePrefix''))
      | Some (a, bits) \<Rightarrow>
          Inr (Some (if is4 (unmap a) then 1 else 2, bits mod 256, case a of IP4 b \<Rightarrow> b | IP6 b z \<Rightarrow> b)))"

section \<open>The resolver\<close>

definition dns_client ::
  "(string \<Rightarrow> nat option) \<Rightarrow> (string \<Rightarrow> error + url) \<Rightarrow> (url \<Rightarrow> (error + 'f) option) \<Rightarrow> dns_config \<Rightarrow>
   (error + 'f exchanger \<times> nat) option" where
  "dns_client stringToType parseURL buildDoHDial cfg =
     (if dcType cfg = [] \<or> dcType cfg = ''udp'' then Some (udp_client stringToType cfg)
      else if dcType cfg = ''tcp'' then Some (check_addr (dcAddr cfg) (TCPClient, 0))
      else if dcType cfg = ''tls'' then Some (check_addr (dcAddr cfg) (TLSClient, 0))
      else if dcType cfg = ''https'' then map_option (map_sum id (\<lambda>c. (c, 0))) (doh_client parseURL buildDoHDial cfg)
      else Some (Inl (NewError (''unknown type '' @ dcType cfg))))"

definition dns_cache :: "nat \<Rightarrow> (string \<Rightarrow> 32 word) \<Rightarrow> dns_config \<Rightarrow> error + (string, dst option) sharded option" where
  "dns_cache procs hash cfg =
     (if dcDisableCache cfg then Inr None
      else map_sum (OpError ''init cache'') Some
        (new_sharded [] None procs (if dcCacheCapacity cfg = 0 then 4096 else dcCacheCapacity cfg) hash))"

definition newDNSResolver ::
  "nat \<Rightarrow> (string \<Rightarrow> 32 word) \<Rightarrow> (string \<Rightarrow> nat option) \<Rightarrow> (string \<Rightarrow> error + url) \<Rightarrow> (url \<Rightarrow> (error + 'f) option) \<Rightarrow> dns_config \<Rightarrow>
   (error + 'f dns_built) option" where
  "newDNSResolver procs hash stringToType parseURL buildDoHDial cfg =
     (if dcAddr cfg = [] then Some (Inl (NewError ''addr cannot be empty''))
      else do {
        client \<leftarrow> dns_client stringToType parseURL buildDoHDial cfg;
        Some (case client of Inl e \<Rightarrow> Inl e | Inr (ex, q) \<Rightarrow>
              case dns_cache procs hash cfg of Inl e \<Rightarrow> Inl e | Inr cache \<Rightarrow>
              case edns0_subnet (dcEDNS0Subnet cfg) of Inl e \<Rightarrow> Inl e | Inr subnet \<Rightarrow>
                Inr \<lparr>bExchanger = ex, bAddr = dcAddr cfg,
                  bResolver = \<lparr>edns0SubnetOpt = (if subnet = None then None else Some (RR_OPT [EDNS0SUBNET])),
                    qtype2 = q, singleFlight = dcSingleFlight cfg\<rparr>,
                  bSubnet = subnet, bCache = cache\<rparr>)
      })"

text \<open>
  \<^verbatim>\<open>buildDoHExchangeFunc\<close>: the message travels in the URL of a GET, in base64; the reply is the
  body. \<open>get\<close> is the HTTP client: it fails, or returns the status, its text, and the body or an
  error of reading it.
\<close>

record 'n doh_ops =
  dohPack :: "dns_msg \<Rightarrow> error + bytes"
  dohUnpack :: "bytes \<Rightarrow> error + dns_msg"
  dohBase64 :: "bytes \<Rightarrow> string"
  dohCheckURL :: "string \<Rightarrow> error option"
  dohGet :: "string \<Rightarrow> 'n \<Rightarrow> (error + nat \<times> string \<times> (error + bytes)) \<times> 'n"

definition doh_exchange :: "'n doh_ops \<Rightarrow> string \<Rightarrow> dns_msg \<Rightarrow> 'n \<Rightarrow> (error + dns_msg) \<times> 'n" where
  "doh_exchange h addr req n =
     (case dohPack h req of
        Inl e \<Rightarrow> (Inl (OpError ''pack dns request'' e), n)
      | Inr wire \<Rightarrow>
          let u = addr @ ''?dns='' @ dohBase64 h wire in
          (case dohCheckURL h u of
             Some e \<Rightarrow> (Inl (OpError ''build http request'' e), n)
           | None \<Rightarrow>
               let (x, n) = dohGet h u n in
               (case x of
                  Inl e \<Rightarrow> Inl (OpError ''http request'' e)
                | Inr (code, text, body) \<Rightarrow>
                    if code \<noteq> 200 then Inl (NewError (''bad http status: '' @ text))
                    else (case body of
                            Inl e \<Rightarrow> Inl (OpError ''read http body'' e)
                          | Inr b \<Rightarrow> map_sum (OpError ''unpack dns response'') id (dohUnpack h b)), n)))"

section \<open>What a configuration gives\<close>

lemma given_time_nonneg: "given_time name s = Inr d \<Longrightarrow> 0 \<le> d \<and> (s \<noteq> [] \<longrightarrow> 0 < d)"
  by (auto simp: given_time_def split: if_splits sum.splits)

text \<open>The times of the waiting client, and one of them at least is given.\<close>

definition exchanger_ok :: "'f exchanger \<Rightarrow> bool" where
  "exchanger_ok ex \<longleftrightarrow>
     (case ex of
        UDPClient sz t \<Rightarrow> 0 \<le> t
      | WaitingClient sz t wait rtt \<Rightarrow> 0 \<le> t \<and> 0 \<le> wait \<and> 0 \<le> rtt \<and> 0 < wait + rtt
      | _ \<Rightarrow> True)"

lemma udp_client_ok: "udp_client tab cfg = Inr (ex, q) \<Longrightarrow> exchanger_ok ex"
  by (auto simp: udp_client_def exchanger_ok_def split: sum.splits option.splits if_splits dest!: given_time_nonneg)

lemma doh_client_ok: "doh_client parseURL build cfg = Some (Inr ex) \<Longrightarrow> \<exists>d. ex = DoHClient d"
  by (auto simp: doh_client_def Let_def split: if_splits sum.splits option.splits)

lemma doh_client_returns:
  assumes "\<And>u. build u \<noteq> None"
  shows "\<exists>r. doh_client parseURL build cfg = Some r"
proof (cases "parseURL (dcAddr cfg)")
  case (Inr u)
  obtain r where "build u = Some r" using assms [of u] by blast
  then show ?thesis using Inr by (cases r) (simp_all add: doh_client_def Let_def)
qed (simp add: doh_client_def)

lemma map_sum_Inr_iff: "map_sum f g x = Inr y \<longleftrightarrow> (\<exists>z. x = Inr z \<and> y = g z)"
  by (cases x) auto

lemma dns_client_ok: "dns_client tab parseURL build cfg = Some (Inr (ex, q)) \<Longrightarrow> exchanger_ok ex"
  unfolding dns_client_def
  by (auto split: if_splits option.splits simp: check_addr_def map_sum_Inr_iff exchanger_ok_def
      dest: udp_client_ok dest!: doh_client_ok)

lemma dns_cache_ok:
  assumes "dns_cache procs hash cfg = Inr (Some c)" and "dcCacheCapacity cfg \<le> 2 ^ 31"
  shows "sharded_holds c Map.empty"
proof -
  let ?cap = "if dcCacheCapacity cfg = 0 then 4096 else dcCacheCapacity cfg"
  have "0 < ?cap" "?cap \<le> 2 ^ 31" "?cap \<le> ?cap * 5 div 4" "procs * 16 mod 2 ^ 32 < 2 ^ 32" using assms(2) by simp_all
  then obtain s :: "(string, dst option) sharded"
    where "new_sharded [] None procs ?cap hash = Inr s" "sharded_holds s Map.empty"
    unfolding new_sharded_def by (rule new_sharded_holds)
  then show ?thesis using assms(1) by (auto simp: dns_cache_def split: if_splits)
qed

lemma newDNSResolver_returns:
  assumes "\<And>u. build u \<noteq> None"
  shows "newDNSResolver procs hash tab parseURL build cfg \<noteq> None"
proof -
  obtain r where "doh_client parseURL build cfg = Some r" using doh_client_returns [of build, OF assms] by blast
  then show ?thesis by (simp add: newDNSResolver_def dns_client_def)
qed

lemma newDNSResolver_ok:
  assumes "newDNSResolver procs hash tab parseURL build cfg = Some (Inr r)" and "dcCacheCapacity cfg \<le> 2 ^ 31"
  shows "exchanger_ok (bExchanger r) \<and> dns_inv \<lparr>dnsCache = bCache r, dnsNet = n\<rparr>"
proof -
  obtain ex q cache where "dns_client tab parseURL build cfg = Some (Inr (ex, q))" "dns_cache procs hash cfg = Inr cache"
      "bExchanger r = ex" "bCache r = cache"
    using assms(1) unfolding newDNSResolver_def by (auto split: if_splits sum.splits prod.splits bind_splits)
  then show ?thesis using dns_client_ok dns_cache_ok [OF _ assms(2)] by (fastforce simp: dns_inv_def)
qed

end
