(* ===== verification/Doh.thy ===== *)
theory Doh
  imports Dns_Config Dial Tunnel
begin

text \<open>
  Connections to a DoH server, from \<^verbatim>\<open>internal/core/policy.go\<close>: \<^verbatim>\<open>genDoHDialFunc\<close>, which applies the
  routing to the URL when the program starts, the dial functions it returns, and the first write
  of a \<^verbatim>\<open>policyConn\<close>, which treats the ClientHello as the policy says. \<open>None\<close> is a panic.
\<close>

section \<open>Merging with nil policies\<close>

text \<open>
  \<^verbatim>\<open>mergePolicies\<close> reads a field of the next policy only while its own is unset; a nil policy
  panics there.
\<close>

definition merge_complete :: "policy \<Rightarrow> bool" where
  "merge_complete m \<longleftrightarrow>
     pSniffOverrideMode m \<noteq> SniffOverrideUnset \<and> \<not> is_unset (pReplyFirst m) \<and> pConnectTimeout m \<noteq> unsetInt \<and>
     pDialDelay m \<noteq> unsetInt \<and> \<not> dst_is_zero (Some (pHost m)) \<and> \<not> dst_is_zero (Some (pMapTo m)) \<and> pPort m \<noteq> unsetInt \<and>
     pHttpStatus m \<noteq> unsetInt \<and> \<not> is_unset (pTLS13Only m) \<and> \<not> is_unset (pDisableECHPassthrough m) \<and>
     pMode m \<noteq> ModeUnset \<and> pDNSMode m \<noteq> DNSModeUnset \<and> pDNSCacheTTL m \<noteq> unsetInt \<and> pNumRecords m \<noteq> 0 \<and>
     pNumSegments m \<noteq> 0 \<and> \<not> is_unset (pWaitForAck m) \<and> \<not> is_unset (pOOB m) \<and> \<not> is_unset (pOOBEx m) \<and>
     \<not> byte_is_unset (pMinorVer m) \<and> pSendInterval m \<noteq> unsetInt \<and> pFakeSleep m \<noteq> 0 \<and> pFakeTTL m \<noteq> unsetInt \<and>
     pMaxTTL m \<noteq> 0 \<and> pAttempts m \<noteq> 0 \<and> pSingleTimeout m \<noteq> unsetInt \<and> pTTLCacheTTL m \<noteq> unsetInt"

fun merge_ptrs :: "policy \<Rightarrow> policy option list \<Rightarrow> policy option" where
  "merge_ptrs m [] = Some m"
| "merge_ptrs m (None # ps) = (if merge_complete m then merge_ptrs m ps else None)"
| "merge_ptrs m (Some p # ps) = merge_ptrs (merge_step m p) ps"

definition mergePolicies_ptrs :: "policy option list \<Rightarrow> policy option" where
  "mergePolicies_ptrs ps = map_option merge_defaults (merge_ptrs (policy_init zero_policy) ps)"

lemma merge_ptrs_Some: "merge_ptrs m (map Some ps @ qs) = merge_ptrs (foldl merge_step m ps) qs"
  by (induction ps arbitrary: m) auto

lemma mergePolicies_ptrs_Some [simp]: "mergePolicies_ptrs (map Some ps) = Some (mergePolicies ps)"
  using merge_ptrs_Some [of _ ps "[]"] by (simp add: mergePolicies_ptrs_def mergePolicies_def)

section \<open>The route to the server\<close>

text \<open>What the dial function closes over.\<close>

datatype doh_route =
    DohDirect dst string policy
  | DohPool string string policy
  | DohPoolRedirect string string "policy option"

text \<open>The destination, whether it is an address pool, and whether it is not to be redirected.\<close>

definition doh_addr_dst :: "route_matcher \<Rightarrow> string \<Rightarrow> addr \<Rightarrow> (error + dst \<times> bool) option" where
  "doh_addr_dst rm text ip =
     do {
       found \<leftarrow> getIPPolicy rm ip;
       (case found of
          None \<Rightarrow> Some (Inr (new_single_dst text, False))
        | Some p \<Rightarrow> if is_multi (Some (pMapTo p)) then Some (Inr (pMapTo p, False)) else preMapIP ip (pMapTo p))
     }"

definition doh_single :: "route_matcher \<Rightarrow> string \<Rightarrow> string \<Rightarrow> (error + dst \<times> bool) option" where
  "doh_single rm originHost s =
     (if s = ''self'' \<or> s = [] then Some (Inr (new_single_dst originHost, False))
      else if has_prefix s ''?'' then Some (Inr (new_single_dst (tl s), False))
      else if has_prefix s ''$'' then Some (Inr (new_single_dst s, True))
      else case parse_addr s of
        None \<Rightarrow> Some (Inr (new_single_dst s, False))
      | Some ip \<Rightarrow> doh_addr_dst rm s ip)"

definition doh_host_dst :: "route_matcher \<Rightarrow> string \<Rightarrow> dst \<Rightarrow> (error + dst \<times> bool \<times> bool) option" where
  "doh_host_dst rm originHost host =
     (if is_multi (Some host) then Some (Inr (host, False, False))
      else do {
        t \<leftarrow> dst_single (Some host);
        let (s, noRedirect) = stripNoRedirectPrefix t;
        (case (if dst_is_zero (Some host) \<or> s = [] then getHosts rm originHost else None) of
           Some h \<Rightarrow>
             if is_multi (Some h) then Some (Inr (h, False, noRedirect))
             else do {
               t \<leftarrow> dst_single (Some h);
               let (s, noRedirect) = stripNoRedirectPrefix t;
               map_option (map_sum id (\<lambda>(d, pool). (d, pool, noRedirect))) (doh_single rm originHost s)
             }
         | None \<Rightarrow> map_option (map_sum id (\<lambda>(d, pool). (d, pool, noRedirect))) (doh_single rm originHost s))
      })"

text \<open>The policy, the policy of the domain, and the destination, for an address and for a name.\<close>

definition doh_target ::
  "route_matcher \<Rightarrow> string \<Rightarrow> (policy \<times> policy option \<times> (error + dst \<times> bool \<times> bool)) option" where
  "doh_target rm originHost =
     (case parse_addr originHost of
        Some ip \<Rightarrow> do {
          found \<leftarrow> getIPPolicy rm ip;
          let p = (case found of None \<Rightarrow> defaultPolicy rm | Some q \<Rightarrow> mergePolicies [q, defaultPolicy rm]);
          r \<leftarrow> preMapIP ip (pMapTo p);
          Some (p, None, map_sum id (\<lambda>(d, pool). (d, pool, False)) r)
        }
      | None \<Rightarrow>
          let domainPolicy = getDomainPolicy rm originHost;
              p = (case domainPolicy of None \<Rightarrow> defaultPolicy rm | Some d \<Rightarrow> mergePolicies [d, defaultPolicy rm])
          in map_option (\<lambda>r. (p, domainPolicy, r)) (doh_host_dst rm originHost (pHost p)))"

definition genDoHDialFunc :: "url \<Rightarrow> route_matcher \<Rightarrow> ip_pools \<Rightarrow> (error + doh_route) option" where
  "genDoHDialFunc u rm pools =
     (if urlScheme u \<noteq> ''https'' \<or> urlHost u = [] then Some (Inl (NewError ''invalid DoH URL''))
      else do {
        (p, domainPolicy, r) \<leftarrow> doh_target rm (urlHostname u);
        (case r of
           Inl e \<Rightarrow> Some (Inl e)
         | Inr (d, isPool, noRedirect) \<Rightarrow>
             if pMode p = ModeBlock \<or> pMode p = ModeTLSAlert
             then Some (Inl (NewError ''DoH policy mode cannot be block or tls-alert''))
             else
               let port = (if pPort p \<noteq> 0 \<and> pPort p \<noteq> unsetInt then show_int (pPort p)
                           else if urlPort u = [] then ''443'' else urlPort u) in
               if \<not> isPool then Some (Inr (DohDirect d port p))
               else do {
                 t \<leftarrow> dst_single (Some d);
                 tag \<leftarrow> slice t 1 (length t);
                 (case pools tag of
                    None \<Rightarrow> Some (Inl (NewError (''ip pool '' @ tag @ '' does not exist'')))
                  | Some pool \<Rightarrow>
                      Some (Inr (if noRedirect \<or> poolMulti pool then DohPool tag port p
                                 else DohPoolRedirect tag port domainPolicy)))
               })
      })"

section \<open>The dial functions\<close>

text \<open>What is dialled: the destination, the port, and the policy that goes with the connection.\<close>

definition doh_destination ::
  "route_matcher \<Rightarrow> doh_route \<Rightarrow> ip_pools \<Rightarrow> ((error + dst \<times> string \<times> policy) \<times> ip_pools) option" where
  "doh_destination rm route pools =
     (case route of
        DohDirect d port p \<Rightarrow> Some (Inr (d, port, p), pools)
      | DohPool tag port p \<Rightarrow> do {
          pool \<leftarrow> pools tag;
          (d, pool) \<leftarrow> pool_get pool;
          Some (Inr (d, port, p), pools(tag \<mapsto> pool))
        }
      | DohPoolRedirect tag dstPort domainPolicy \<Rightarrow> do {
          pool \<leftarrow> pools tag;
          (d, pool) \<leftarrow> pool_get pool;
          t \<leftarrow> dst_single (Some d);
          (r, pools) \<leftarrow> ipRedirect None t rm (pools(tag \<mapsto> pool));
          (case r of
             Inl e \<Rightarrow> Some (Inl (OpError ''ip redirect'' e), pools)
           | Inr (final, ipPolicy) \<Rightarrow> do {
               p \<leftarrow> (case domainPolicy of
                        Some d \<Rightarrow> mergePolicies_ptrs [Some d, ipPolicy, Some (defaultPolicy rm)]
                      | None \<Rightarrow> mergePolicies_ptrs [ipPolicy, Some (defaultPolicy rm)]);
               (if pMode p = ModeBlock \<or> pMode p = ModeTLSAlert
                then Some (Inl (NewError ''connection blocked by policy''), pools)
                else Some (Inr (final, if pPort p \<noteq> 0 \<and> pPort p \<noteq> unsetInt then show_int (pPort p) else dstPort, p), pools))
             })
        })"

record policy_conn =
  pcLink :: "link option"
  pcPolicy :: policy
  pcHandled :: bool

definition doh_connect ::
  "(dst option \<Rightarrow> string \<Rightarrow> int \<Rightarrow> int \<Rightarrow> 'd \<Rightarrow> ((error + link option) \<times> 'd) option) \<Rightarrow> route_matcher \<Rightarrow> doh_route \<Rightarrow>
   ip_pools \<Rightarrow> 'd \<Rightarrow> ((error + policy_conn) \<times> ip_pools \<times> 'd) option" where
  "doh_connect dial rm route pools n =
     do {
       (r, pools) \<leftarrow> doh_destination rm route pools;
       (case r of
          Inl e \<Rightarrow> Some (Inl e, pools, n)
        | Inr (d, port, p) \<Rightarrow> do {
            (r, n) \<leftarrow> dial (Some d) port (pConnectTimeout p) (pDialDelay p) n;
            Some (map_sum id (\<lambda>l. \<lparr>pcLink = l, pcPolicy = p, pcHandled = False\<rparr>) r, pools, n)
          })
     }"

section \<open>Writing\<close>

text \<open>A call on the connection, which panics when it is nil; the result is the number of bytes.\<close>

definition pc_call :: "nat \<Rightarrow> unit io \<Rightarrow> policy_conn \<Rightarrow> ((error + nat) \<times> policy_conn) option" where
  "pc_call k m pc = do {
     (c, remote) \<leftarrow> pcLink pc;
     (r, c) \<leftarrow> m c;
     Some (map_sum id (\<lambda>_. k) r, pc\<lparr>pcLink := Some (c, remote)\<rparr>)
   }"

definition pc_plain :: "bytes \<Rightarrow> policy_conn \<Rightarrow> 'n ttl_state \<Rightarrow> ((error + nat) \<times> policy_conn \<times> 'n ttl_state) option" where
  "pc_plain b pc t = do { (r, pc) \<leftarrow> pc_call (length b) (conn_write b) pc; Some (r, pc, t) }"

text \<open>The switch over the modes; those without a case send nothing.\<close>

definition pc_send ::
  "'n ttl_ops \<Rightarrow> (int \<Rightarrow> error + int) \<Rightarrow> client_hello \<Rightarrow> bytes \<Rightarrow> policy_conn \<Rightarrow> 'n ttl_state \<Rightarrow>
   ((error + nat) \<times> policy_conn \<times> 'n ttl_state) option" where
  "pc_send ops calc ch b pc t =
     (let p = pcPolicy pc; start = nat (sniStart ch) in
      case pMode p of
        ModeDirect \<Rightarrow> pc_plain b pc t
      | ModeRaw \<Rightarrow> pc_plain b pc t
      | ModeTTLD \<Rightarrow> do {
          (_, remote) \<leftarrow> pcLink pc;
          (x, t) \<leftarrow> getFakeTTL ops calc None p remote t;
          (case x of
             Inl e \<Rightarrow> Some (Inl (OpError ''get fake ttl'' e), pc, t)
           | Inr ttl \<Rightarrow> do {
               (r, pc) \<leftarrow> pc_call (length b) (labelled ''ttl desync'' (desyncSend b start (sniLen ch) ttl)) pc;
               Some (r, pc, t)
             })
        }
      | ModeTLSRF \<Rightarrow> do {
          (r, pc) \<leftarrow> pc_call (length b) (labelled ''tls fragment''
            (sendRecords b start (sniLen ch) (pNumRecords p) (pNumSegments p) (minor_of p) (opts_of p))) pc;
          Some (r, pc, t)
        }
      | _ \<Rightarrow> Some (Inr (length b), pc, t))"

definition policy_write ::
  "'n ttl_ops \<Rightarrow> (int \<Rightarrow> error + int) \<Rightarrow> bytes \<Rightarrow> policy_conn \<Rightarrow> 'n ttl_state \<Rightarrow>
   ((error + nat) \<times> policy_conn \<times> 'n ttl_state) option" where
  "policy_write ops calc b pc t =
     (if pcHandled pc then pc_plain b pc t
      else do {
        let pc = pc\<lparr>pcHandled := True\<rparr>;
        ch \<leftarrow> parseClientHello b;
        (case chErr ch of
           Some e \<Rightarrow> Some (Inl e, pc, t)
         | None \<Rightarrow>
             if is_true (pTLS13Only (pcPolicy pc)) \<and> \<not> isTLS13 ch
             then Some (Inl (NewError ''not a TLS 1.3 ClientHello''), pc, t)
             else if sniStart ch = - 1 then pc_plain b pc t
             else pc_send ops calc ch b pc t)
      })"

end
