(* ===== verification/Doh_Spec.thy ===== *)
theory Doh_Spec
  imports Doh Tunnel_Spec
begin

text \<open>
  The connections to a DoH server: building their dial function never panics, its first write
  carries the ClientHello, and two ways in which they fail.
\<close>

section \<open>Building\<close>

text \<open>
  What has been checked of the route. A pool whose addresses are redirected exists and gives single ones;
  what the redirection finds is only known when one is dialled.
\<close>

definition doh_route_ok :: "dns_mode set \<Rightarrow> ip_pools \<Rightarrow> doh_route \<Rightarrow> bool" where
  "doh_route_ok modes pools route \<longleftrightarrow>
     (case route of
        DohDirect d port p \<Rightarrow> dst_ok d \<and> port \<noteq> [] \<and> policy_ok modes p \<and> pMode p \<notin> {ModeBlock, ModeTLSAlert}
      | DohPool tag port p \<Rightarrow> pools tag \<noteq> None \<and> port \<noteq> [] \<and> policy_ok modes p \<and> pMode p \<notin> {ModeBlock, ModeTLSAlert}
      | DohPoolRedirect tag port domPol \<Rightarrow> (\<exists>p. pools tag = Some p \<and> \<not> poolMulti p) \<and> port \<noteq> [] \<and>
          (\<forall>q. domPol = Some q \<longrightarrow> policy_ok modes q))"

text \<open>A destination that stands for a pool starts with the mark of a pool.\<close>

definition target_ok :: "error + dst \<times> bool \<Rightarrow> bool" where
  "target_ok r \<longleftrightarrow> (\<forall>d pool. r = Inr (d, pool) \<longrightarrow> dst_ok d \<and>
     (pool \<longrightarrow> (\<exists>s. dst_single (Some d) = Some s \<and> has_prefix s ''$'')))"

lemma target_ok_simps [simp]:
  "target_ok (Inl e)" "target_ok (Inr (d, False)) \<longleftrightarrow> dst_ok d"
  "target_ok (Inr (d, True)) \<longleftrightarrow> dst_ok d \<and> (\<exists>s. dst_single (Some d) = Some s \<and> has_prefix s ''$'')"
  by (auto simp: target_ok_def)

lemma preMapIP_ok:
  assumes "wf_addr ip" and "dst_ok d"
  shows "\<exists>r. preMapIP ip d = Some r \<and> target_ok r"
proof -
  obtain s where s: "dst_single (Some d) = Some s" using dst_ok_single [OF assms(2)] by blast
  obtain r where "transformIP ip s = Some r" using transformIP_Some [OF assms(1), of s] by blast
  then show ?thesis using assms(2) s by (auto simp: preMapIP_def split: sum.splits)
qed

lemma doh_addr_dst_ok:
  assumes "route_ok modes rm" and "wf_addr ip"
  shows "\<exists>r. doh_addr_dst rm s ip = Some r \<and> target_ok r"
proof -
  obtain found where f: "getIPPolicy rm ip = Some found" "\<forall>p. found = Some p \<longrightarrow> policy_ok modes p"
    using getIPPolicy_ok [OF assms] by blast
  then show ?thesis
    using preMapIP_ok [OF assms(2)] policy_okD(3) by (cases found) (auto simp: doh_addr_dst_def)
qed

lemma doh_single_ok:
  assumes "route_ok modes rm"
  shows "\<exists>r. doh_single rm host s = Some r \<and> target_ok r"
  using doh_addr_dst_ok [OF assms parse_addr_wf]
  by (auto simp: doh_single_def new_single_dst_def dst_single_def dst_ok_def dst_string_def wf_dst_def split: option.splits)

definition with_flag :: "bool \<Rightarrow> error + dst \<times> bool \<Rightarrow> error + dst \<times> bool \<times> bool" where
  "with_flag b = map_sum id (\<lambda>(d, pool). (d, pool, b))"

definition host_target_ok :: "error + dst \<times> bool \<times> bool \<Rightarrow> bool" where
  "host_target_ok r \<longleftrightarrow> (\<exists>r' b. target_ok r' \<and> r = with_flag b r')"

lemma host_target_okI: "target_ok r \<Longrightarrow> host_target_ok (map_sum id (\<lambda>(d, pool). (d, pool, b)) r)"
  by (auto simp: host_target_ok_def with_flag_def)

lemma doh_host_dst_ok:
  assumes rm: "route_ok modes rm" and d: "dst_ok d"
  shows "\<exists>r. doh_host_dst rm host d = Some r \<and> host_target_ok r"
proof -
  have multi: "host_target_ok (Inr (h, False, b))" if "dst_ok h" for h b
    using host_target_okI [of "Inr (h, False)" b] that by simp
  have single: "\<exists>r. map_option (map_sum id (\<lambda>(d, pool). (d, pool, b))) (doh_single rm host s) = Some r \<and> host_target_ok r" for s b
    using doh_single_ok [OF rm, of host s] host_target_okI by auto
  have found: "dst_ok h" if "getHosts rm host = Some h" for h
    using dm.find_stored [of "hosts rm" host h] that rm by (auto simp: getHosts_def route_ok_def)
  obtain t where t: "dst_single (Some d) = Some t" using dst_ok_single [OF d] by blast
  obtain s b where sb: "stripNoRedirectPrefix t = (s, b)" by (cases "stripNoRedirectPrefix t")
  show ?thesis
  proof (cases "is_multi (Some d)")
    case True
    then show ?thesis using multi [OF d] by (simp add: doh_host_dst_def)
  next
    case False
    show ?thesis
    proof (cases "if dst_is_zero (Some d) \<or> s = [] then getHosts rm host else None")
      case None
      then show ?thesis using False t sb single by (simp add: doh_host_dst_def)
    next
      case (Some h)
      then have h: "dst_ok h" using found by (auto split: if_splits)
      obtain u where u: "dst_single (Some h) = Some u" using dst_ok_single [OF h] by blast
      obtain s' b' where "stripNoRedirectPrefix u = (s', b')" by (cases "stripNoRedirectPrefix u")
      then show ?thesis using False t sb Some u single multi [OF h] by (simp add: doh_host_dst_def)
    qed
  qed
qed

lemma doh_target_ok:
  assumes rm: "route_ok modes rm" and m: "DNSModeDefault \<in> modes"
  shows "\<exists>p domPol r. doh_target rm host = Some (p, domPol, r) \<and> policy_ok modes p \<and>
    (\<forall>q. domPol = Some q \<longrightarrow> policy_ok modes q) \<and> host_target_ok r"
proof (cases "parse_addr host")
  case None
  have domPol: "policy_ok modes q" if "getDomainPolicy rm host = Some q" for q
    using dm.find_stored [of "domainPolicies rm" host q] that rm by (auto simp: getDomainPolicy_def route_ok_def)
  define p where "p = (case getDomainPolicy rm host of None \<Rightarrow> defaultPolicy rm | Some d \<Rightarrow> mergePolicies [d, defaultPolicy rm])"
  have p: "policy_ok modes p"
    using rm m domPol policy_ok_merge [of _ modes] by (auto simp: p_def route_ok_def split: option.split)
  obtain r where "doh_host_dst rm host (pHost p) = Some r" "host_target_ok r"
    using doh_host_dst_ok [OF rm policy_okD(2) [OF p]] by blast
  then show ?thesis using None p domPol by (simp add: doh_target_def Let_def p_def [symmetric])
next
  case (Some ip)
  have wf: "wf_addr ip" using Some by (rule parse_addr_wf)
  obtain found where f: "getIPPolicy rm ip = Some found" "\<forall>p. found = Some p \<longrightarrow> policy_ok modes p"
    using getIPPolicy_ok [OF rm wf] by blast
  define p where "p = (case found of None \<Rightarrow> defaultPolicy rm | Some d \<Rightarrow> mergePolicies [d, defaultPolicy rm])"
  have p: "policy_ok modes p"
    using rm m f(2) policy_ok_merge [of _ modes] by (auto simp: p_def route_ok_def split: option.split)
  obtain r where r: "preMapIP ip (pMapTo p) = Some r" "target_ok r" using preMapIP_ok [OF wf policy_okD(3) [OF p]] by blast
  then show ?thesis using Some f p host_target_okI [OF r(2)] by (simp add: doh_target_def Let_def p_def [symmetric])
qed

lemma genDoHDialFunc_route:
  assumes "route_ok modes rm" and "DNSModeDefault \<in> modes"
  shows "\<exists>r. genDoHDialFunc u rm pools = Some r \<and> (\<forall>route. r = Inr route \<longrightarrow> doh_route_ok modes pools route)"
proof (cases "urlScheme u \<noteq> ''https'' \<or> urlHost u = []")
  case True
  then show ?thesis by (auto simp: genDoHDialFunc_def)
next
  case False
  obtain p domPol x where t: "doh_target rm (urlHostname u) = Some (p, domPol, x)" "policy_ok modes p"
    "\<forall>q. domPol = Some q \<longrightarrow> policy_ok modes q" "host_target_ok x"
    using doh_target_ok [OF assms] by blast
  obtain r b where r: "target_ok r" "x = with_flag b r" using t(4) by (auto simp: host_target_ok_def)
  have port: "show_int k \<noteq> []" for k by (auto simp: show_int_def)
  show ?thesis
  proof (cases r)
    case (Inl e)
    then show ?thesis using False t(1) r(2) by (auto simp: genDoHDialFunc_def with_flag_def)
  next
    case (Inr dp)
    obtain d pool where dp: "dp = (d, pool)" by (cases dp)
    show ?thesis
    proof (cases pool)
      case True
      obtain s where s: "dst_single (Some d) = Some s" "has_prefix s ''$''" using r(1) Inr dp True by auto
      then have "slice s 1 (length s) = Some (tl s)" by (cases s) (simp_all add: slice_def has_prefix_def)
      then show ?thesis
        using False t r(2) Inr dp True s(1) port
        by (auto simp: genDoHDialFunc_def with_flag_def doh_route_ok_def Let_def split: option.split)
    next
      case direct: False
      then show ?thesis using False t r Inr dp port by (auto simp: genDoHDialFunc_def with_flag_def doh_route_ok_def Let_def)
    qed
  qed
qed

section \<open>Dialling\<close>

text \<open>The pools the program was built with, in a later state: none is gone.\<close>

definition pools_since :: "ip_pools \<Rightarrow> ip_pools \<Rightarrow> bool" where
  "pools_since pools pools' \<longleftrightarrow> pools_ok pools' \<and> (\<forall>tag. pools tag \<noteq> None \<longrightarrow> pools' tag \<noteq> None)"

text \<open>
  The address whose turn it is in the pool of the route has no policy of its own, and the policy of the
  domain, when there is one, leaves a field to the next.
\<close>

definition redirects_nil :: "route_matcher \<Rightarrow> doh_route \<Rightarrow> ip_pools \<Rightarrow> bool" where
  "redirects_nil rm route pools \<longleftrightarrow>
     (\<exists>tag port domPol pool d pool' s final pools'. route = DohPoolRedirect tag port domPol \<and> pools tag = Some pool \<and>
        pool_get pool = Some (d, pool') \<and> dst_single (Some d) = Some s \<and>
        ipRedirect None s rm (pools(tag \<mapsto> pool')) = Some (Inr (final, None), pools') \<and>
        (\<forall>q. domPol = Some q \<longrightarrow> \<not> merge_complete (merge_step (policy_init zero_policy) q)))"

lemma pool_turn:
  assumes "pools_ok pools" and "pools tag \<noteq> None"
  obtains pool d pool' s where "pools tag = Some pool" "pool_get pool = Some (d, pool')" "dst_ok d" "dst_single (Some d) = Some s"
    "pools_ok (pools(tag \<mapsto> pool'))"
proof -
  obtain pool where p: "pools tag = Some pool" "pool_ok pool" "dst_ok (fallbackIP pool)" using assms by (auto simp: pools_ok_def)
  obtain d pool' where d: "pool_get pool = Some (d, pool')" "pool_ok pool'" "pool_answer pool d" "fallbackIP pool' = fallbackIP pool"
    using pool_get_ok [OF p(2)] by blast
  have ok: "dst_ok d" by (rule pool_answer_dst_ok [OF d(3) p(3)])
  then obtain s where "dst_single (Some d) = Some s" using dst_ok_single by blast
  moreover have "pools_ok (pools(tag \<mapsto> pool'))" using assms(1) d(2,4) p(3) by (auto simp: pools_ok_def)
  ultimately show thesis using that p(1) d(1) ok by blast
qed

lemma merge_ptrs_nil:
  "mergePolicies_ptrs [None, Some q] = None"
  "mergePolicies_ptrs [Some d, None, Some q] =
     (if merge_complete (merge_step (policy_init zero_policy) d) then Some (mergePolicies [d, q]) else None)"
  by (simp_all add: mergePolicies_ptrs_def mergePolicies_def) (simp add: merge_complete_def policy_init_def zero_policy_def)

lemma merge_ptrs_all: "mergePolicies_ptrs [Some p, Some q] = Some (mergePolicies [p, q])"
  "mergePolicies_ptrs [Some d, Some p, Some q] = Some (mergePolicies [d, p, q])"
  using mergePolicies_ptrs_Some [of "[p, q]"] mergePolicies_ptrs_Some [of "[d, p, q]"] by simp_all

lemma doh_destination_ok:
  assumes rm: "route_ok modes rm" and r: "doh_route_ok modes pools0 route" and p: "pools_since pools0 pools"
  shows "case doh_destination rm route pools of
      None \<Rightarrow> redirects_nil rm route pools
    | Some (x, pools') \<Rightarrow> \<not> redirects_nil rm route pools \<and> (\<forall>d port q. x = Inr (d, port, q) \<longrightarrow> dst_ok d)"
proof (cases route)
  case (DohDirect d port q)
  then show ?thesis using r by (simp add: doh_destination_def doh_route_ok_def redirects_nil_def)
next
  case (DohPool tag port q)
  then have "pools_ok pools" "pools tag \<noteq> None" using r p by (auto simp: doh_route_ok_def pools_since_def)
  then obtain pool d pool' where "pools tag = Some pool" "pool_get pool = Some (d, pool')" "dst_ok d" by (rule pool_turn)
  then show ?thesis using DohPool by (simp add: doh_destination_def redirects_nil_def)
next
  case (DohPoolRedirect tag port domPol)
  then have "pools_ok pools" "pools tag \<noteq> None" using r p by (auto simp: doh_route_ok_def pools_since_def)
  then obtain pool d pool' s where g: "pools tag = Some pool" "pool_get pool = Some (d, pool')" "dst_single (Some d) = Some s"
    "pools_ok (pools(tag \<mapsto> pool'))" by (rule pool_turn)
  obtain x pools' where x: "ipRedirect None s rm (pools(tag \<mapsto> pool')) = Some (x, pools')" "\<forall>d q. x = Inr (d, q) \<longrightarrow> dst_ok d"
    using ipRedirect_ok [OF rm g(4), of None s] by blast
  show ?thesis
  proof (cases x)
    case (Inl e)
    then show ?thesis using g x DohPoolRedirect by (simp add: doh_destination_def redirects_nil_def)
  next
    case (Inr y)
    obtain final ipPol where y: "y = (final, ipPol)" by (cases y)
    have "dst_ok final" using x(2) Inr y by simp
    then show ?thesis
      using g x(1) DohPoolRedirect Inr y
      by (cases ipPol; cases domPol) (auto simp: doh_destination_def redirects_nil_def merge_ptrs_nil merge_ptrs_all split: option.split)
  qed
qed

text \<open>
  C13. With tables in order \<^verbatim>\<open>genDoHDialFunc\<close> never panics. It fails, or what it has checked holds of the
  route: a destination that can be printed or a pool that exists, a port, and, for a route that is not redirected, a
  policy that neither blocks nor answers with an alert; an address is only redirected when the pool gives single
  ones. Whenever the dial function of such a route is called later, in any state of the pools and over a
  dialer that does not panic, it panics exactly when the route redirects the addresses of its pool and the
  address whose turn it is has no policy of its own, unless the policy of the domain sets every field.
\<close>

theorem genDoHDialFunc_safe:
  assumes "route_ok modes rm" and "DNSModeDefault \<in> modes" and "dials dial"
  shows "\<exists>r. genDoHDialFunc u rm pools = Some r \<and> (\<forall>route. r = Inr route \<longrightarrow> doh_route_ok modes pools route \<and>
    (\<forall>pools' n. pools_since pools pools' \<longrightarrow>
       (doh_connect dial rm route pools' n = None \<longleftrightarrow> redirects_nil rm route pools')))"
proof -
  obtain r where r: "genDoHDialFunc u rm pools = Some r" "\<forall>route. r = Inr route \<longrightarrow> doh_route_ok modes pools route"
    using genDoHDialFunc_route [OF assms(1,2)] by blast
  have "doh_connect dial rm route pools' n = None \<longleftrightarrow> redirects_nil rm route pools'"
    if "r = Inr route" "pools_since pools pools'" for route pools' n
  proof -
    have d: "dial (Some d) port t dl n \<noteq> None" if "dst_ok d" for d port t dl
      using that assms(3) unfolding dials_def dst_ok_def by blast
    note dest = doh_destination_ok [OF assms(1) r(2) [rule_format, OF that(1)] that(2)]
    show ?thesis
    proof (cases "doh_destination rm route pools'")
      case None
      then show ?thesis using dest by (simp add: doh_connect_def)
    next
      case (Some y)
      obtain x p where y: "y = (x, p)" by (cases y)
      show ?thesis
      proof (cases x)
        case (Inl e)
        then show ?thesis using dest Some y by (simp add: doh_connect_def)
      next
        case (Inr z)
        obtain h port q where z: "z = (h, port, q)" by (cases z)
        have "dst_ok h" using dest Some y Inr z by simp
        then obtain a where "dial (Some h) port (pConnectTimeout q) (pDialDelay q) n = Some a"
          using d [of h port "pConnectTimeout q" "pDialDelay q"] by blast
        then show ?thesis using dest Some y Inr z by (cases a) (simp add: doh_connect_def)
      qed
    qed
  qed
  then show ?thesis using r by (intro exI [of _ r] conjI allI impI) auto
qed

section \<open>The first write\<close>

lemma pc_call_done:
  assumes "pc_call k m pc = Some (Inr k', pc')" and "sends m ws" and "pcLink pc = Some (c, ra)"
  shows "k' = k \<and> (\<exists>c'. pcLink pc' = Some (c', ra) \<and> sent c' = sent c @ ws \<and> m c = Some (Inr (), c'))"
proof -
  obtain r c' ws' where "m c = Some (r, c')" "sent c' = sent c @ ws'" "prefix ws' ws"
    "r = Inr () \<longrightarrow> ws' = ws" "faults c = [] \<longrightarrow> r = Inr () \<and> faults c' = []"
    by (rule sendsE [OF assms(2)])
  then show ?thesis using assms(1,3) by (cases r) (auto simp: pc_call_def)
qed

definition doh_mode_ok :: "(int \<Rightarrow> error + int) \<Rightarrow> policy \<Rightarrow> bool" where
  "doh_mode_ok calc p \<longleftrightarrow> pMode p \<in> {ModeRaw, ModeDirect} \<or> pMode p = ModeTLSRF \<and> fragments_ok p \<or>
     pMode p = ModeTTLD \<and> wf_policy p \<and> 1 \<le> pAttempts p \<and> pFakeTTL p \<in> {0, unsetInt} \<and> genTTLCalcFunc [] = Inr calc"

lemma first_write:
  assumes "policy_write ops calc b pc t = Some (Inr k, pc', t')" and "\<not> pcHandled pc"
  obtains ch where "parseClientHello b = Some ch" "chErr ch = None"
    "pc_plain b (pc\<lparr>pcHandled := True\<rparr>) t = Some (Inr k, pc', t') \<and> sniStart ch = - 1 \<or>
     pc_send ops calc ch b (pc\<lparr>pcHandled := True\<rparr>) t = Some (Inr k, pc', t') \<and> sniStart ch \<noteq> - 1"
  using assms by (auto simp: policy_write_def Let_def split: option.splits if_splits bind_splits)

lemma parsed_long:
  assumes "parseClientHello b = Some ch" and "chErr ch = None"
  shows "5 \<le> length b"
  using assms unfolding parseClientHello_def
  by (auto simp: be16_at_def idx_def fail_with_def no_hello_def split: if_splits bind_splits)

text \<open>A call whose bytes have a fate.\<close>

lemma pc_call_fate:
  assumes "pc_call k m pc = Some (Inr k', pc')" and "sends m ws" and "pcLink pc = Some (c, ra)" and "sent c = []"
    and "hello_fate fake p md b (received (map (arrive reach) ws))" and "ok \<Longrightarrow> carries b (received (map (arrive reach) ws))"
  shows "k' = k \<and> (\<exists>c'. pcLink pc' = Some (c', ra) \<and> hello_fate fake p md b (received (map (arrive reach) (sent c'))) \<and>
    (ok \<longrightarrow> carries b (received (map (arrive reach) (sent c')))))"
  using pc_call_done [OF assms(1-3)] assms(4-6) by auto

lemma pc_plain_fate:
  assumes "pc_plain b pc t = Some (Inr k, pc', t')" and "pcLink pc = Some (c, ra)" and "sent c = []"
  shows "k = length b \<and> (\<exists>c'. pcLink pc' = Some (c', ra) \<and> hello_fate fake p md b (received (map (arrive reach) (sent c'))) \<and>
    (ok \<longrightarrow> carries b (received (map (arrive reach) (sent c')))))"
proof -
  have "pc_call (length b) (conn_write b) pc = Some (Inr k, pc')" using assms(1) by (auto simp: pc_plain_def split: bind_splits)
  show ?thesis
    by (rule pc_call_fate [OF \<open>pc_call (length b) (conn_write b) pc = Some (Inr k, pc')\<close> sends_conn_write assms(2,3)])
      (simp_all add: hello_fate_def)
qed

text \<open>
  C12. The first write on a new connection to a DoH server, of a ClientHello of at most 65540 bytes, reports
  success. Then the count is the number of its bytes, the connection is the same, and what the server has read
  is what the mode of the policy makes of the ClientHello: it whole or complete records that carry it; nothing
  when the mode is unset (or another that sends nothing) and a server name was found; with tls-rf the fragments;
  with ttl-d zeros in place of a part only when the fake packet arrives with the TTL that was chosen for it. It is the ClientHello whole
  or complete records that carry it under a policy of \<open>doh_mode_ok\<close>, a steady network and a right TTL cache.
\<close>

theorem policy_write_carries:
  assumes go: "policy_write ops calc b pc t = Some (Inr k, pc', t')" and new: "\<not> pcHandled pc"
    and l: "pcLink pc = Some (c, ra)" "sent c = []" and len: "length b \<le> 65540"
  shows "k = length b \<and> (\<exists>c'. pcLink pc' = Some (c', ra) \<and>
    hello_fate (fake_arrives ops calc t reach (pcPolicy pc) ra) (pcPolicy pc) (pMode (pcPolicy pc)) b (received (map (arrive (reach (unmap (fst ra)))) (sent c'))) \<and>
    (doh_mode_ok calc (pcPolicy pc) \<and> steady ops reach \<and> ttl_inv reach t \<longrightarrow>
       carries b (received (map (arrive (reach (unmap (fst ra)))) (sent c')))))"
proof -
  let ?pc = "pc\<lparr>pcHandled := True\<rparr>" and ?R = "reach (unmap (fst ra))" and ?p = "pcPolicy pc"
  have l': "pcLink ?pc = Some (c, ra)" using l(1) by simp
  obtain ch where ch: "parseClientHello b = Some ch" "chErr ch = None"
    and body: "pc_plain b ?pc t = Some (Inr k, pc', t') \<and> sniStart ch = - 1 \<or>
      pc_send ops calc ch b ?pc t = Some (Inr k, pc', t') \<and> sniStart ch \<noteq> - 1"
    by (rule first_write [OF go new])
  have sni: "sni_in b ch" using parse_safe [OF parsed_long [OF ch]] ch(1) by (auto simp: succeeds_def)
  show ?thesis
  proof (cases "sniStart ch = - 1 \<or> pMode ?p \<in> {ModeRaw, ModeDirect}")
    case True
    then have "pc_plain b ?pc t = Some (Inr k, pc', t')" using body by (auto simp: pc_send_def)
    then show ?thesis by (rule pc_plain_fate [OF _ l' l(2)])
  next
    case False
    then have snis: "58 \<le> nat (sniStart ch)" "nat (sniStart ch) + sniLen ch \<le> length b" using sni by (auto simp: sni_in_def)
    have send: "pc_send ops calc ch b ?pc t = Some (Inr k, pc', t')" using body False by simp
    consider (rf) "pMode ?p = ModeTLSRF" | (ttld) "pMode ?p = ModeTTLD" | (none) "pMode ?p \<in> {ModeUnset, ModeBlock, ModeTLSAlert}"
      using False by (cases "pMode ?p") simp_all
    then show ?thesis
    proof cases
      case rf
      let ?m = "sendRecords b (nat (sniStart ch)) (sniLen ch) (pNumRecords ?p) (pNumSegments ?p) (minor_of ?p) (opts_of ?p)"
      have w: "pc_call (length b) (labelled ''tls fragment'' ?m) ?pc = Some (Inr k, pc')"
        using send rf by (auto simp: pc_send_def Let_def split: bind_splits)
      have "\<exists>c'. ?m c = Some (Inr (), c')"
        using w l' by (auto simp: pc_call_def labelled_def split: bind_splits option.splits sum.splits)
      then have "\<not> doomed ?m" unfolding doomed_def by fastforce
      then obtain ws where ws: "sends ?m ws" "fragments_fate ?p b (received ws)"
        using sendRecords_fate [OF snis len, of ?p "minor_of ?p"] by blast
      obtain c' where c': "k = length b" "pcLink pc' = Some (c', ra)" "sent c' = ws" "labelled ''tls fragment'' ?m c = Some (Inr (), c')"
        using pc_call_done [OF w sends_labelled [OF ws(1)] l'] l(2) by auto
      have "received (map (arrive ?R) (sent c')) = received ws"
        using quiet_received [OF quiet_labelled [OF quiet_sendRecords] c'(4) l(2), of ?R] c'(3) by simp
      then show ?thesis using ws(2) fragments_ok_carries [OF ws(2)] rf c'(1,2) by (simp add: hello_fate_def doh_mode_ok_def)
    next
      case ttld
      obtain ttl t1 where t1: "getFakeTTL ops calc None ?p ra t = Some (Inr ttl, t1)"
        and w: "pc_call (length b) (labelled ''ttl desync'' (desyncSend b (nat (sniStart ch)) (sniLen ch) ttl)) ?pc = Some (Inr k, pc')"
        using send ttld l' by (auto simp: pc_send_def Let_def split: bind_splits sum.splits)
      obtain pos where pos: "sends (desyncSend b (nat (sniStart ch)) (sniLen ch) ttl) (desync_wire b (nat (sniStart ch)) pos ttl)"
        "nat (sniStart ch) \<le> pos" "pos \<le> nat (sniStart ch) + sniLen ch"
        using sends_desync [OF snis(2), of ttl] by blast
      have "pos \<le> length b" using pos(3) snis(2) by linarith
      let ?fake = "fake_arrives ops calc t reach ?p ra"
      have fake: "?fake ttl" if "?R ttl" unfolding fake_arrives_def using t1 that by blast
      note fate = desync_fate(1) [where reach = ?R and ttl = ttl and p = ?p and fake = ?fake, OF pos(2) \<open>pos \<le> length b\<close> fake]
        and clean = desync_fate(2) [where reach = ?R and ttl = ttl, OF pos(2) \<open>pos \<le> length b\<close>]
      have hidden: "\<not> ?R ttl" if ok: "doh_mode_ok calc ?p" "steady ops reach" "ttl_inv reach t"
      proof (rule fake_ttl_hidden [OF t1 _ ok(2,3)])
        show "wf_policy ?p \<and> 1 \<le> pAttempts ?p \<and> pFakeTTL ?p \<in> {0, unsetInt} \<and> genTTLCalcFunc [] = Inr calc"
          using ok(1) ttld by (simp add: doh_mode_ok_def)
      qed
      show ?thesis unfolding ttld
        by (rule pc_call_fate [OF w sends_labelled [OF pos(1)] l' l(2) fate]) (assumption, rule clean, rule hidden, simp_all)
    next
      case none
      then have "pc' = ?pc" "k = length b" using send by (auto simp: pc_send_def Let_def)
      then show ?thesis using l none by (auto simp: hello_fate_def doh_mode_ok_def)
    qed
  qed
qed

section \<open>Two ways to fail\<close>

text \<open>
  A DoH connection over an address pool panics when the address of its turn has no policy
  of its own: the nil policy is merged like any other. Only a domain policy that sets all
  fields, of which the mode is one, would prevent it.
\<close>

lemma doh_pool_nil_policy_panics:
  assumes "pools tag = Some pool" and "pool_get pool = Some (d, pool')" and "dst_single (Some d) = Some t"
    and "\<forall>ip. parse_addr t = Some ip \<longrightarrow> getIPPolicy rm ip = Some None"
    and "\<forall>q. domPol = Some q \<longrightarrow> pMode q = ModeUnset"
  shows "doh_destination rm (DohPoolRedirect tag port domPol) pools = None"
proof -
  have r: "ipRedirect None t rm (pools(tag \<mapsto> pool')) = Some (Inr (new_single_dst t, None), pools(tag \<mapsto> pool'))"
    using assms(4) by (auto simp: ipRedirect_def split: option.splits)
  have "mergePolicies_ptrs [None, Some q] = None" for q
    by (simp add: mergePolicies_ptrs_def merge_complete_def)
  moreover have "mergePolicies_ptrs [Some q', None, Some q] = None" if "pMode q' = ModeUnset" for q q'
    using that by (simp add: mergePolicies_ptrs_def merge_complete_def pick_def)
  ultimately show ?thesis
    using assms(1,2,3,5) r by (auto simp: doh_destination_def split: option.splits)
qed

text \<open>
  When neither the name of the DoH server nor the default policy has a mode, the connection
  is made with the default policy as it is, and its first write reports all bytes of the
  ClientHello as written, but sends none.
\<close>

lemma doh_unset_mode_sends_nothing:
  assumes "urlScheme u = ''https''" and "urlHost u \<noteq> []" and "parse_addr (urlHostname u) = None"
    and "getDomainPolicy rm (urlHostname u) = None" and "getHosts rm (urlHostname u) = None"
    and "dst_is_zero (Some (pHost (defaultPolicy rm)))" and "single (pHost (defaultPolicy rm)) = []"
    and "pMode (defaultPolicy rm) = ModeUnset"
    and "parseClientHello b = Some ch" and "chErr ch = None" and "sniStart ch \<noteq> - 1"
    and "is_true (pTLS13Only (defaultPolicy rm)) \<longrightarrow> isTLS13 ch"
    and "dial (Some (new_single_dst (urlHostname u))) port (pConnectTimeout (defaultPolicy rm)) (pDialDelay (defaultPolicy rm)) n = Some (Inr l, n')"
    and "port = (if pPort (defaultPolicy rm) \<noteq> 0 \<and> pPort (defaultPolicy rm) \<noteq> unsetInt then show_int (pPort (defaultPolicy rm))
       else if urlPort u = [] then ''443'' else urlPort u)"
  shows "\<exists>route pc. genDoHDialFunc u rm pools = Some (Inr route) \<and>
    doh_connect dial rm route pools n = Some (Inr pc, pools, n') \<and>
    policy_write ops calc b pc t = Some (Inr (length b), pc\<lparr>pcHandled := True\<rparr>, t)"
proof -
  let ?p = "defaultPolicy rm" and ?d = "new_single_dst (urlHostname u)"
  let ?pc = "\<lparr>pcLink = l, pcPolicy = ?p, pcHandled = False\<rparr>"
  have z: "\<not> is_multi (Some (pHost ?p))" "dst_single (Some (pHost ?p)) = Some []"
    using assms(6,7) by (auto simp: dst_is_zero_def is_multi_def dst_single_def)
  have "doh_host_dst rm (urlHostname u) (pHost ?p) = Some (Inr (?d, False, False))"
    using z assms(5) by (simp add: doh_host_dst_def stripNoRedirectPrefix_def has_prefix_def doh_single_def)
  then have g: "genDoHDialFunc u rm pools = Some (Inr (DohDirect ?d port ?p))"
    using assms(1,2,3,4,8,14) by (simp add: genDoHDialFunc_def doh_target_def)
  have c: "doh_connect dial rm (DohDirect ?d port ?p) pools n = Some (Inr ?pc, pools, n')"
    using assms(13) by (simp add: doh_connect_def doh_destination_def)
  have "policy_write ops calc b ?pc t = Some (Inr (length b), ?pc\<lparr>pcHandled := True\<rparr>, t)"
    using assms(8-12) by (auto simp: policy_write_def pc_send_def Let_def)
  then show ?thesis using g c by blast
qed

text \<open>The mark that keeps a destination from being redirected has no effect on an address here.\<close>

lemma doh_no_redirect_ignored:
  assumes "dst_single (Some d) = Some (CHR ''^'' # s)" and "\<not> is_multi (Some d)" and "\<not> dst_is_zero (Some d)"
    and "parse_addr s = Some ip" and "s \<noteq> []" and "hd s \<notin> {CHR ''?'', CHR ''$''}"
  shows "doh_host_dst rm host d = map_option (with_flag True) (doh_addr_dst rm s ip)"
proof -
  have "s \<noteq> ''self''" using assms(4) by (auto simp: parse_addr_def)
  then show ?thesis
    using assms by (cases s) (auto simp: doh_host_dst_def stripNoRedirectPrefix_def has_prefix_def doh_single_def with_flag_def)
qed

section \<open>Witnesses\<close>

definition plain_routes :: "policy \<Rightarrow> route_matcher" where
  "plain_routes p = \<lparr>defaultPolicy = p, domainPolicies = new_domain_matcher, ipv4Policies = new_bit_node,
     ipv6Policies = new_bit_node, hosts = new_domain_matcher\<rparr>"

lemma plain_routes_simps [simp]:
  "defaultPolicy (plain_routes p) = p" "getDomainPolicy (plain_routes p) name = None" "getHosts (plain_routes p) name = None"
  by (simp_all add: plain_routes_def getDomainPolicy_def getHosts_def dm.find_law first_some_None new_domain_matcher_def)

lemma plain_routes_ok: "policy_ok modes p \<Longrightarrow> route_ok modes (plain_routes p)"
  by (simp add: plain_routes_def route_ok_def new_domain_matcher_def)

theorem genDoHDialFunc_safe_witness:
  "\<exists>r. genDoHDialFunc \<lparr>urlScheme = ''https'', urlHost = ''d.e'', urlHostname = ''d.e'', urlPort = []\<rparr>
      (plain_routes (mergePolicies [])) Map.empty = Some r \<and> (\<forall>route. r = Inr route \<longrightarrow> doh_route_ok resolver_modes Map.empty route \<and>
    (doh_connect (srvDial demo_server) (plain_routes (mergePolicies [])) route Map.empty () = None \<longleftrightarrow>
       redirects_nil (plain_routes (mergePolicies [])) route Map.empty))"
proof -
  have ok: "policy_ok resolver_modes (mergePolicies [])"
    by (rule policy_ok_merge) (simp_all add: resolver_modes_def DNSModeDefault_def)
  have d: "dials (srvDial demo_server)" by (simp add: dials_def demo_server_def)
  have p: "pools_since Map.empty Map.empty" by (simp add: pools_since_def pools_ok_def)
  have m: "DNSModeDefault \<in> resolver_modes" by (simp add: resolver_modes_def DNSModeDefault_def)
  from genDoHDialFunc_safe [OF plain_routes_ok [OF ok] m d, of
      "\<lparr>urlScheme = ''https'', urlHost = ''d.e'', urlHostname = ''d.e'', urlPort = []\<rparr>" Map.empty]
  show ?thesis
  proof (elim exE conjE, intro exI conjI allI impI)
    fix r route
    assume all: "\<forall>route. r = Inr route \<longrightarrow> doh_route_ok resolver_modes Map.empty route \<and>
        (\<forall>pools' n. pools_since Map.empty pools' \<longrightarrow>
          (doh_connect (srvDial demo_server) (plain_routes (mergePolicies [])) route pools' n = None \<longleftrightarrow>
            redirects_nil (plain_routes (mergePolicies [])) route pools'))" and r: "r = Inr route"
    from all [rule_format, OF r, THEN conjunct1] show "doh_route_ok resolver_modes Map.empty route" .
    from all [rule_format, OF r, THEN conjunct2, rule_format, OF p]
    show "doh_connect (srvDial demo_server) (plain_routes (mergePolicies [])) route Map.empty () = None \<longleftrightarrow>
      redirects_nil (plain_routes (mergePolicies [])) route Map.empty" .
  qed
qed

theorem policy_write_carries_witness:
  "\<exists>pc' c'. policy_write five_hops (\<lambda>ttl. Inr (int64 (ttl - 1))) demo_hello
      \<lparr>pcLink = Some (\<lparr>sent = [], faults = []\<rparr>, (IP4 [1, 2, 3, 4], 443)), pcPolicy = demo_policy ModeDirect, pcHandled = False\<rparr>
      \<lparr>ttlCache = None, ttlNet = ()\<rparr> = Some (Inr 71, pc', \<lparr>ttlCache = None, ttlNet = ()\<rparr>) \<and>
    pcLink pc' = Some (c', (IP4 [1, 2, 3, 4], 443)) \<and> carries demo_hello (received (map (arrive (\<lambda>t. 5 \<le> t)) (sent c')))"
proof -
  let ?pc = "\<lparr>pcLink = Some (\<lparr>sent = [], faults = []\<rparr>, (IP4 [1, 2, 3, 4], 443)), pcPolicy = demo_policy ModeDirect, pcHandled = False\<rparr>"
  let ?calc = "\<lambda>ttl. Inr (int64 (ttl - 1)) :: error + int" and ?t = "\<lparr>ttlCache = None, ttlNet = ()\<rparr>"
  obtain pos where p: "parseClientHello demo_hello = Some (demo_ch pos)" "0 < pos" by (rule demo_parsed)
  have w: "\<exists>pc'. policy_write five_hops ?calc demo_hello ?pc ?t = Some (Inr 71, pc', ?t)"
    using p demo_hello_bytes(1)
    by (simp add: policy_write_def pc_send_def pc_plain_def pc_call_def Let_def demo_ch_def demo_policy_def conn_write_def net_call_def)
  then obtain pc' where pc: "policy_write five_hops ?calc demo_hello ?pc ?t = Some (Inr 71, pc', ?t)" by blast
  have st: "steady five_hops (\<lambda>_ t. 5 \<le> t)" "ttl_inv (\<lambda>_ t. 5 \<le> t) ?t"
    by (auto simp: steady_def five_hops_def ttl_inv_def)
  have m: "doh_mode_ok ?calc (demo_policy ModeDirect)" by (simp add: doh_mode_ok_def demo_policy_def)
  show ?thesis
    using policy_write_carries [OF pc, of "\<lparr>sent = [], faults = []\<rparr>" "(IP4 [1, 2, 3, 4], 443)" "\<lambda>_ t. 5 \<le> t"] st m pc demo_hello_bytes(1) by auto
qed

lemma doh_pool_nil_policy_panics_witness:
  "\<exists>route. genDoHDialFunc \<lparr>urlScheme = ''https'', urlHost = ''d.e'', urlHostname = ''d.e'', urlPort = []\<rparr>
      (plain_routes (demo_policy ModeDirect\<lparr>pHost := new_single_dst ''$p''\<rparr>)) [''p'' \<mapsto> small_pool] = Some (Inr route) \<and>
    doh_destination (plain_routes (demo_policy ModeDirect\<lparr>pHost := new_single_dst ''$p''\<rparr>)) route [''p'' \<mapsto> small_pool] = None"
proof -
  let ?rm = "plain_routes (demo_policy ModeDirect\<lparr>pHost := new_single_dst ''$p''\<rparr>)"
  have "parse_addr ''d.e'' = None" by code_simp
  moreover have "dst_single (Some (new_single_dst x)) = Some x" "\<not> is_multi (Some (new_single_dst x))" "\<not> dst_is_zero (Some (new_single_dst x))" for x
    by (simp_all add: dst_single_def new_single_dst_def is_multi_def dst_is_zero_def)
  ultimately have g: "genDoHDialFunc \<lparr>urlScheme = ''https'', urlHost = ''d.e'', urlHostname = ''d.e'', urlPort = []\<rparr> ?rm [''p'' \<mapsto> small_pool] =
      Some (Inr (DohPoolRedirect ''p'' ''443'' None))"
    by (simp add: genDoHDialFunc_def doh_target_def doh_host_dst_def doh_single_def stripNoRedirectPrefix_def has_prefix_def
        demo_policy_def slice_def small_pool_def unsetInt_def)
  have pool: "pool_ok small_pool" by (auto simp: pool_ok_def small_pool_def wf_addr_def)
  obtain d p' where d: "pool_get small_pool = Some (d, p')" "pool_answer small_pool d" using pool_get_ok [OF pool] by blast
  have "dst_ok d" using pool_answer_dst_ok [OF d(2)] by (simp add: small_pool_def)
  then obtain s where s: "dst_single (Some d) = Some s" using dst_ok_single by blast
  have none: "getIPPolicy ?rm ip = Some None" if "parse_addr s = Some ip" for ip
  proof -
    have wf: "wf_addr ip" using that by (rule parse_addr_wf)
    show ?thesis
      using wf by (cases "unmap ip")
        (simp_all add: getIPPolicy_def plain_routes_def is4_def ipv4_find_def ipv6_find_def as4_def find_result_match longest_match_def first_some_None)
  qed
  show ?thesis
    using g doh_pool_nil_policy_panics [of "[''p'' \<mapsto> small_pool]" "''p''" small_pool d p' s ?rm None "''443''"] d(1) s none by simp
qed

text \<open>The default policy of a configuration that has none.\<close>

lemma doh_unset_mode_sends_nothing_witness:
  "\<exists>route pc. genDoHDialFunc \<lparr>urlScheme = ''https'', urlHost = ''d.e'', urlHostname = ''d.e'', urlPort = []\<rparr>
      (plain_routes (policy_init zero_policy)) Map.empty = Some (Inr route) \<and>
    doh_connect (\<lambda>d port timeout delay n. Some (Inr (Some (\<lparr>sent = [], faults = []\<rparr>, (IP4 [1, 2, 3, 4], 443))), n))
      (plain_routes (policy_init zero_policy)) route Map.empty () = Some (Inr pc, Map.empty, ()) \<and>
    policy_write five_hops (\<lambda>ttl. Inr (int64 (ttl - 1))) demo_hello pc \<lparr>ttlCache = None, ttlNet = ()\<rparr> =
      Some (Inr 71, pc\<lparr>pcHandled := True\<rparr>, \<lparr>ttlCache = None, ttlNet = ()\<rparr>)"
proof -
  let ?u = "\<lparr>urlScheme = ''https'', urlHost = ''d.e'', urlHostname = ''d.e'', urlPort = []\<rparr>"
  let ?p = "policy_init zero_policy"
  let ?dial = "\<lambda>(d :: dst option) (port :: string) (timeout :: int) (delay :: int) (n :: unit).
      Some (Inr (Some (\<lparr>sent = [], faults = []\<rparr>, (IP4 [1, 2, 3, 4], 443))) :: error + link option, n)"
  obtain pos where p: "parseClientHello demo_hello = Some (demo_ch pos)" "0 < pos" by (rule demo_parsed)
  have n: "parse_addr ''d.e'' = None" by code_simp
  have z: "pMode ?p = ModeUnset" "pPort ?p = unsetInt" "dst_is_zero (Some (pHost ?p))" "single (pHost ?p) = []"
    "\<not> is_true (pTLS13Only ?p)"
    by (simp_all add: policy_init_def zero_policy_def dst_is_zero_def zero_dst_def is_true_def)
  have ch: "chErr (demo_ch pos) = None" "sniStart (demo_ch pos) \<noteq> - 1" using p(2) by (simp_all add: demo_ch_def)
  show ?thesis
    using doh_unset_mode_sends_nothing [of ?u "plain_routes ?p" demo_hello "demo_ch pos" ?dial "''443''" "()" _ _ Map.empty five_hops "\<lambda>ttl. Inr (int64 (ttl - 1))" "\<lparr>ttlCache = None, ttlNet = ()\<rparr>"]
      n z p(1) ch demo_hello_bytes(1) by simp
qed

end
