(* ===== verification/Local_Addr.thy ===== *)
theory Local_Addr
  imports Dst Go_Time
begin

text \<open>
  The local addresses of outgoing connections, from \<^verbatim>\<open>internal/dial\<close>: the options (\<^verbatim>\<open>option.go\<close>), the
  choice among the network interfaces (\<^verbatim>\<open>interface.go\<close>), \<^verbatim>\<open>NewDialer\<close> and its monitor (\<^verbatim>\<open>dial.go\<close>). The
  operating system is the argument \<open>host_ops\<close>. A \<^verbatim>\<open>net.IP\<close> is its bytes, the empty list the nil one.
  \<open>None\<close> is a panic or a loop that never ends.
\<close>

section \<open>Options\<close>

datatype bind_method = MethodOff | MethodSelectInterface | MethodDialDetect | MethodCustom

definition method_unmarshal :: "jval \<Rightarrow> error + bind_method" where
  "method_unmarshal j =
     (case unmarshal_string [] j of Inl e \<Rightarrow> Inl e
      | Inr s \<Rightarrow>
          if s = ''off'' then Inr MethodOff
          else if s = ''select_interface'' then Inr MethodSelectInterface
          else if s = ''dial_detect'' then Inr MethodDialDetect
          else if s = ''custom'' then Inr MethodCustom
          else Inl (NewError (''invalid method: '' @ s)))"

record binding =
  biMethod :: bind_method
  biManualSelect :: bool
  biZone :: string
  biPreferred :: "prefix option"
  biUpdateInterval :: int
  biDialTCP :: bool
  biDialIPv4Target :: string
  biDialIPv6Target :: string
  biDialTimeout :: int
  biCustomIPv4 :: bytes
  biCustomIPv6 :: bytes
  biCustomZone :: string

definition no_binding :: binding where
  "no_binding = \<lparr>biMethod = MethodOff, biManualSelect = False, biZone = [], biPreferred = None, biUpdateInterval = 0,
     biDialTCP = False, biDialIPv4Target = [], biDialIPv6Target = [], biDialTimeout = 0, biCustomIPv4 = [],
     biCustomIPv6 = [], biCustomZone = []\<rparr>"

text \<open>The fields as they are decoded, before they are read.\<close>

record raw_binding =
  rbEnableForAndroid :: bool
  rbMethod :: bind_method
  rbManualSelect :: bool
  rbZone :: string
  rbPreferredPrefix :: string
  rbUpdateInterval :: string
  rbDialTCP :: bool
  rbDialIPv4Target :: string
  rbDialIPv6Target :: string
  rbDialTimeout :: string
  rbCustomIPv4 :: string
  rbCustomIPv6 :: string
  rbCustomZone :: string

text \<open>\<^verbatim>\<open>net.ParseIP\<close>: an IPv4 address comes out in its form of 16 bytes.\<close>

definition net_ip :: "string \<Rightarrow> bytes" where
  "net_ip s =
     (case parse_addr s of
        None \<Rightarrow> []
      | Some (IP4 b) \<Rightarrow> v4_in_6_head @ b
      | Some (IP6 b z) \<Rightarrow> if z = [] then b else [])"

text \<open>A duration that is empty keeps the old value.\<close>

definition option_time :: "string \<Rightarrow> string \<Rightarrow> int \<Rightarrow> error + int" where
  "option_time name s old =
     (if s = [] then Inr old
      else case parse_duration s of
        Inl e \<Rightarrow> Inl (OpError (''parse '' @ name @ '' '' @ s) e)
      | Inr d \<Rightarrow> Inr d)"

definition read_binding :: "bool \<Rightarrow> raw_binding \<Rightarrow> binding \<Rightarrow> error + binding" where
  "read_binding android r b =
     (let b = (if \<not> android \<or> rbEnableForAndroid r then b\<lparr>biMethod := rbMethod r\<rparr> else b) in
      case biMethod b of
        MethodOff \<Rightarrow> Inr b
      | MethodSelectInterface \<Rightarrow>
          (case option_time ''update_interval'' (rbUpdateInterval r) (biUpdateInterval b) of
             Inl e \<Rightarrow> Inl e
           | Inr d \<Rightarrow>
               let b = b\<lparr>biUpdateInterval := d, biManualSelect := rbManualSelect r, biZone := rbZone r\<rparr> in
               if biZone b = [] \<and> \<not> biManualSelect b then
                 (case parse_prefix (rbPreferredPrefix r) of
                    None \<Rightarrow> Inl (OpError (''parse preferred_prefix '' @ rbPreferredPrefix r) (LibError ''netip.ParsePrefix''))
                  | Some p \<Rightarrow> Inr (b\<lparr>biPreferred := Some p\<rparr>))
               else Inr b)
      | MethodDialDetect \<Rightarrow>
          (case option_time ''update_interval'' (rbUpdateInterval r) (biUpdateInterval b) of
             Inl e \<Rightarrow> Inl e
           | Inr d \<Rightarrow>
               (case option_time ''dial_timeout'' (rbDialTimeout r) (biDialTimeout b) of
                  Inl e \<Rightarrow> Inl e
                | Inr t \<Rightarrow> Inr (b\<lparr>biUpdateInterval := d, biDialTimeout := t, biDialTCP := rbDialTCP r,
                    biDialIPv4Target := rbDialIPv4Target r, biDialIPv6Target := rbDialIPv6Target r\<rparr>)))
      | MethodCustom \<Rightarrow>
          let b = b\<lparr>biCustomIPv4 := net_ip (rbCustomIPv4 r), biCustomIPv6 := net_ip (rbCustomIPv6 r)\<rparr> in
          if biCustomIPv4 b = [] \<and> biCustomIPv6 b = []
          then Inl (NewError ''no custom IPv4 or IPv6 address specified'')
          else Inr (b\<lparr>biCustomZone := rbCustomZone r\<rparr>))"

text \<open>\<^verbatim>\<open>BindingOption.UnmarshalJSON\<close>; every error gets the name of the option.\<close>

definition binding_unmarshal :: "bool \<Rightarrow> error + raw_binding \<Rightarrow> binding \<Rightarrow> error + binding" where
  "binding_unmarshal android tmp b =
     map_sum (OpError ''outbound_binding'') id (case tmp of Inl e \<Rightarrow> Inl e | Inr r \<Rightarrow> read_binding android r b)"

section \<open>Interfaces\<close>

text \<open>
  An interface as the system lists it: \<^verbatim>\<open>Addrs\<close> fails or gives addresses, \<open>None\<close> for those that are no
  \<^verbatim>\<open>*net.IPNet\<close>.
\<close>

record sys_iface =
  sysIndex :: int
  sysName :: string
  sysUp :: bool
  sysLoopback :: bool
  sysAddrs :: "error + bytes option list"

record iface =
  ifIndex :: int
  ifName :: string
  ifIPv4 :: bytes
  ifIPv6 :: bytes

definition to4 :: "bytes \<Rightarrow> bytes option" where
  "to4 ip =
     (if length ip = 4 then Some ip
      else if length ip = 16 \<and> take 12 ip = v4_in_6_head then Some (drop 12 ip)
      else None)"

definition is_link_local :: "bytes \<Rightarrow> bool" where
  "is_link_local ip =
     (case to4 ip of
        Some b \<Rightarrow> b ! 0 = 169 \<and> b ! 1 = 254
      | None \<Rightarrow> length ip = 16 \<and> ip ! 0 = 0xfe \<and> and (ip ! 1) 0xc0 = 0x80)"

definition is_private :: "bytes \<Rightarrow> bool" where
  "is_private ip =
     (case to4 ip of
        Some b \<Rightarrow> b ! 0 = 10 \<or> b ! 0 = 172 \<and> and (b ! 1) 0xf0 = 16 \<or> b ! 0 = 192 \<and> b ! 1 = 168
      | None \<Rightarrow> length ip = 16 \<and> and (ip ! 0) 0xfe = 0xfc)"

text \<open>The loop over the addresses of an interface; the state is \<^verbatim>\<open>ipv4\<close> and \<^verbatim>\<open>ipv6\<close>.\<close>

fun pick_addrs :: "bytes option list \<Rightarrow> bytes \<times> bytes \<Rightarrow> bytes \<times> bytes" where
  "pick_addrs [] (ipv4, ipv6) = (ipv4, ipv6)"
| "pick_addrs (a # as) (ipv4, ipv6) =
     (if ipv4 \<noteq> [] \<and> ipv6 \<noteq> [] then (ipv4, ipv6)
      else case a of
        None \<Rightarrow> pick_addrs as (ipv4, ipv6)
      | Some ip \<Rightarrow>
          if is_link_local ip then pick_addrs as (ipv4, ipv6)
          else if ipv4 = [] \<and> to4 ip \<noteq> None then pick_addrs as (ip, ipv6)
          else if ipv6 = [] \<and> to4 ip = None \<and> length ip = 16 then pick_addrs as (ipv4, ip)
          else pick_addrs as (ipv4, ipv6))"

fun filter_ifaces :: "sys_iface list \<Rightarrow> iface list" where
  "filter_ifaces [] = []"
| "filter_ifaces (s # ss) =
     (if \<not> sysUp s \<or> sysLoopback s then filter_ifaces ss
      else case sysAddrs s of
        Inl e \<Rightarrow> filter_ifaces ss
      | Inr as \<Rightarrow>
          let (ipv4, ipv6) = pick_addrs as ([], []) in
          if ipv4 = [] \<and> ipv6 = [] then filter_ifaces ss
          else \<lparr>ifIndex = sysIndex s, ifName = sysName s, ifIPv4 = ipv4, ifIPv6 = ipv6\<rparr> # filter_ifaces ss)"

text \<open>
  The system: the list of interfaces; a connection whose local address is read, \<open>None\<close> when it is
  neither of TCP nor of UDP.
\<close>

record 'n host_ops =
  hostIfaces :: "'n \<Rightarrow> (error + sys_iface list) \<times> 'n"
  hostDial :: "string \<Rightarrow> string \<Rightarrow> int \<Rightarrow> 'n \<Rightarrow> (error + (bytes \<times> string) option) \<times> 'n"

definition getFilteredInterfaces :: "'n host_ops \<Rightarrow> 'n \<Rightarrow> (error + iface list) \<times> 'n" where
  "getFilteredInterfaces h n =
     (let (r, n) = hostIfaces h n in
      (case r of
         Inl e \<Rightarrow> Inl (OpError ''list network interfaces'' e)
       | Inr ss \<Rightarrow> if filter_ifaces ss = [] then Inl (NewError ''no interface detected'') else Inr (filter_ifaces ss), n))"

definition find_iface :: "string \<Rightarrow> iface list \<Rightarrow> iface option" where
  "find_iface name ifs = find (\<lambda>i. ifName i = name) ifs"

text \<open>The three passes of \<^verbatim>\<open>autoSelect\<close>.\<close>

definition preferred_addr :: "prefix \<Rightarrow> bytes \<Rightarrow> bool" where
  "preferred_addr p ip = (case addr_from_slice ip of None \<Rightarrow> False | Some a \<Rightarrow> contains p (unmap a))"

definition autoSelect :: "prefix option \<Rightarrow> iface list \<Rightarrow> iface option" where
  "autoSelect preferred ifs =
     (let pass1 = (case preferred of
                     None \<Rightarrow> None
                   | Some p \<Rightarrow> find (\<lambda>i. ifIPv4 i \<noteq> [] \<and> preferred_addr p (ifIPv4 i)) ifs) in
      if pass1 \<noteq> None then pass1
      else let pass2 = find (\<lambda>i. ifIPv4 i \<noteq> [] \<and> is_private (ifIPv4 i)) ifs in
           if pass2 \<noteq> None then pass2 else find (\<lambda>i. ifIPv4 i \<noteq> []) ifs)"

text \<open>
  \<^verbatim>\<open>manualSelect\<close>: the answers are what \<^verbatim>\<open>Scanln\<close> leaves in \<^verbatim>\<open>i\<close>, which is 0 when it reads no number; after
  the last line it reads none.
\<close>

fun manualSelect :: "iface list \<Rightarrow> int list \<Rightarrow> iface option" where
  "manualSelect ifs [] = idx ifs 0"
| "manualSelect ifs (i # is) =
     (if i < 0 \<or> int (length ifs) \<le> i then manualSelect ifs is else idx ifs (nat i))"

section \<open>The dialer\<close>

record dialer =
  localIPv4 :: "bytes option"
  localIPv6 :: "(bytes \<times> string) option"

text \<open>The state the monitor closes over: the method, and for the interfaces the name that was chosen.\<close>

datatype monitor = MonitorIfaces string "prefix option" | MonitorDials string string string int

definition detectByDial :: "'n host_ops \<Rightarrow> string \<Rightarrow> string \<Rightarrow> int \<Rightarrow> 'n \<Rightarrow> (error + bytes \<times> string) \<times> 'n" where
  "detectByDial h network target timeout n =
     (let (r, n) = hostDial h network target (if timeout \<le> 0 then 5 * second else timeout) n in
      (case r of
         Inl e \<Rightarrow> Inl (OpError ''dial detect'' e)
       | Inr (Some x) \<Rightarrow> Inr x
       | Inr None \<Rightarrow> Inl (NewError ''unexpected network''), n))"

definition detect_opt :: "'n host_ops \<Rightarrow> string \<Rightarrow> string \<Rightarrow> int \<Rightarrow> 'n \<Rightarrow> (error + bytes \<times> string) \<times> 'n" where
  "detect_opt h network target timeout n =
     (if target = [] then (Inr ([], []), n) else detectByDial h network target timeout n)"

definition store_addrs :: "bytes \<Rightarrow> bytes \<Rightarrow> string \<Rightarrow> dialer \<Rightarrow> dialer" where
  "store_addrs ipv4 ipv6 zone d =
     (let d = (if ipv4 \<noteq> [] then d\<lparr>localIPv4 := Some ipv4\<rparr> else d)
      in if ipv6 \<noteq> [] then d\<lparr>localIPv6 := Some (ipv6, zone)\<rparr> else d)"

text \<open>The interface and the name to keep for the monitor.\<close>

definition select_iface :: "binding \<Rightarrow> int list \<Rightarrow> iface list \<Rightarrow> (error + iface \<times> string) option" where
  "select_iface b answers ifs =
     (if biZone b \<noteq> [] then
        (case find_iface (biZone b) ifs of
           None \<Rightarrow> Some (Inl (NewError (''interface not found: '' @ biZone b)))
         | Some i \<Rightarrow> Some (Inr (i, biZone b)))
      else if biManualSelect b then map_option (\<lambda>i. Inr (i, ifName i)) (manualSelect ifs answers)
      else case autoSelect (biPreferred b) ifs of
        Some i \<Rightarrow> Some (Inr (i, []))
      | None \<Rightarrow> map_option (\<lambda>i. Inr (i, ifName i)) (manualSelect ifs answers))"

definition NewDialer :: "'n host_ops \<Rightarrow> binding \<Rightarrow> int list \<Rightarrow> 'n \<Rightarrow> ((error + dialer \<times> monitor option) \<times> 'n) option" where
  "NewDialer h b answers n =
     (let made = (\<lambda>ipv4 ipv6 zone m. Inr (store_addrs ipv4 ipv6 zone \<lparr>localIPv4 = None, localIPv6 = None\<rparr>, m)) in
      case biMethod b of
        MethodOff \<Rightarrow> Some (made [] [] [] None, n)
      | MethodSelectInterface \<Rightarrow>
          let (r, n) = getFilteredInterfaces h n in
          (case r of
             Inl e \<Rightarrow> Some (Inl e, n)
           | Inr ifs \<Rightarrow> do {
               s \<leftarrow> select_iface b answers ifs;
               (case s of
                  Inl e \<Rightarrow> Some (Inl e, n)
                | Inr (i, zone) \<Rightarrow> Some (made (ifIPv4 i) (ifIPv6 i) zone
                    (if 0 < biUpdateInterval b then Some (MonitorIfaces zone (biPreferred b)) else None), n))
             })
      | MethodDialDetect \<Rightarrow>
          let network = (if biDialTCP b then ''tcp'' else ''udp'');
              (r, n) = detect_opt h network (biDialIPv4Target b) (biDialTimeout b) n in
          (case r of
             Inl e \<Rightarrow> Some (Inl e, n)
           | Inr (ipv4, _) \<Rightarrow>
               let (r, n) = detect_opt h network (biDialIPv6Target b) (biDialTimeout b) n in
               (case r of
                  Inl e \<Rightarrow> Some (Inl e, n)
                | Inr (ipv6, zone) \<Rightarrow> Some (made ipv4 ipv6 zone
                    (if 0 < biUpdateInterval b
                     then Some (MonitorDials network (biDialIPv4Target b) (biDialIPv6Target b) (biDialTimeout b))
                     else None), n)))
      | MethodCustom \<Rightarrow> Some (made (biCustomIPv4 b) (biCustomIPv6 b) (biCustomZone b) None, n))"

text \<open>What the monitor finds at a tick: the addresses and the zone.\<close>

definition look_again :: "'n host_ops \<Rightarrow> monitor \<Rightarrow> 'n \<Rightarrow> (error + bytes \<times> bytes \<times> string) \<times> 'n" where
  "look_again h m n =
     (case m of
        MonitorIfaces zone preferred \<Rightarrow>
          let (r, n) = getFilteredInterfaces h n in
          (case r of
             Inl e \<Rightarrow> (Inl e, n)
           | Inr ifs \<Rightarrow>
               (case (if zone = [] then autoSelect preferred ifs else find_iface zone ifs) of
                  None \<Rightarrow> (Inl (NewError (if zone = [] then ''no suitable interface detected'' else ''interface not found: '' @ zone)), n)
                | Some i \<Rightarrow> (Inr (ifIPv4 i, ifIPv6 i, ifName i), n)))
      | MonitorDials network t4 t6 timeout \<Rightarrow>
          let (r4, n) = detect_opt h network t4 timeout n;
              (r6, n) = detect_opt h network t6 timeout n in
          (case join_errors [case r4 of Inl e \<Rightarrow> Some e | Inr _ \<Rightarrow> None, case r6 of Inl e \<Rightarrow> Some e | Inr _ \<Rightarrow> None] of
             Some e \<Rightarrow> (Inl e, n)
           | None \<Rightarrow> (Inr (fst (projr r4), fst (projr r6), snd (projr r6)), n)))"

text \<open>One tick of \<^verbatim>\<open>startMonitor\<close>: an error changes nothing, an address that is missing is kept.\<close>

definition monitor_tick :: "'n host_ops \<Rightarrow> monitor \<Rightarrow> dialer \<Rightarrow> 'n \<Rightarrow> dialer \<times> 'n" where
  "monitor_tick h m d n =
     (let (r, n) = look_again h m n in
      (case r of Inl _ \<Rightarrow> d | Inr (ipv4, ipv6, zone) \<Rightarrow> store_addrs ipv4 ipv6 zone d, n))"

fun monitor_ticks :: "'n host_ops \<Rightarrow> monitor \<Rightarrow> nat \<Rightarrow> dialer \<Rightarrow> 'n \<Rightarrow> dialer \<times> 'n" where
  "monitor_ticks h m 0 d n = (d, n)"
| "monitor_ticks h m (Suc k) d n = (let (d, n) = monitor_tick h m d n in monitor_ticks h m k d n)"

text \<open>\<^verbatim>\<open>GetLocalAddr\<close>; \<open>None\<close> is the zero \<^verbatim>\<open>AddrPort\<close> of a nil or unreadable address.\<close>

definition GetLocalAddr :: "bool \<Rightarrow> dialer \<Rightarrow> addr option" where
  "GetLocalAddr isIPv6 d =
     (if isIPv6
      then (case localIPv6 d of
              None \<Rightarrow> None
            | Some (ip, zone) \<Rightarrow>
                (case addr_from_slice ip of
                   Some (IP6 b _) \<Rightarrow> Some (IP6 b zone)
                 | a \<Rightarrow> a))
      else Option.bind (localIPv4 d) addr_from_slice)"

section \<open>What is chosen\<close>

text \<open>
  An address that the system reported, at some time, for an interface that was up and no loopback
  one, and that is not link-local.
\<close>

definition reported :: "'n host_ops \<Rightarrow> bytes \<Rightarrow> bool" where
  "reported h ip \<longleftrightarrow> \<not> is_link_local ip \<and>
     (\<exists>n ss s as. fst (hostIfaces h n) = Inr ss \<and> s \<in> set ss \<and> sysUp s \<and> \<not> sysLoopback s \<and>
        sysAddrs s = Inr as \<and> Some ip \<in> set as)"

lemma pick_addrs_cases:
  assumes "pick_addrs as (ipv4, ipv6) = (x, y)"
  shows "(x = ipv4 \<or> Some x \<in> set as \<and> \<not> is_link_local x \<and> to4 x \<noteq> None) \<and>
    (y = ipv6 \<or> Some y \<in> set as \<and> \<not> is_link_local y \<and> to4 y = None \<and> length y = 16)"
  using assms by (induction as "(ipv4, ipv6)" arbitrary: ipv4 ipv6 rule: pick_addrs.induct)
    (auto split: if_splits option.splits)

definition iface_ok :: "'n host_ops \<Rightarrow> iface \<Rightarrow> bool" where
  "iface_ok h i \<longleftrightarrow> (ifIPv4 i \<noteq> [] \<or> ifIPv6 i \<noteq> []) \<and>
     (ifIPv4 i \<noteq> [] \<longrightarrow> reported h (ifIPv4 i) \<and> to4 (ifIPv4 i) \<noteq> None) \<and>
     (ifIPv6 i \<noteq> [] \<longrightarrow> reported h (ifIPv6 i) \<and> to4 (ifIPv6 i) = None \<and> length (ifIPv6 i) = 16)"

lemma filter_ifaces_ok:
  assumes "fst (hostIfaces h n) = Inr all" and "set ss \<subseteq> set all"
  shows "\<forall>i \<in> set (filter_ifaces ss). iface_ok h i"
  using assms(2)
proof (induction ss)
  case (Cons s ss)
  have "iface_ok h i" if i: "i \<in> set (filter_ifaces (s # ss))" "i \<notin> set (filter_ifaces ss)" for i
  proof -
    obtain as where s: "sysUp s" "\<not> sysLoopback s" "sysAddrs s = Inr as"
      using i by (auto split: if_splits sum.splits)
    obtain x y where p: "pick_addrs as ([], []) = (x, y)" by (cases "pick_addrs as ([], [])")
    have xy: "x \<noteq> [] \<or> y \<noteq> []" "ifIPv4 i = x" "ifIPv6 i = y"
      using i s p by (auto split: if_splits)
    have "reported h ip" if "Some ip \<in> set as" "\<not> is_link_local ip" for ip
      using that s assms(1) Cons.prems unfolding reported_def by auto
    then show ?thesis using pick_addrs_cases [OF p] xy by (auto simp: iface_ok_def)
  qed
  then show ?case using Cons by auto
qed simp

lemma getFilteredInterfaces_ok:
  "getFilteredInterfaces h n = (Inr ifs, n') \<Longrightarrow> ifs \<noteq> [] \<and> (\<forall>i \<in> set ifs. iface_ok h i)"
  using filter_ifaces_ok [of h n] by (auto simp: getFilteredInterfaces_def Let_def split: prod.splits sum.splits if_splits)

lemma find_in: "find P xs = Some x \<Longrightarrow> x \<in> set xs \<and> P x"
  by (metis find_Some_iff nth_mem)

lemma autoSelect_in: "autoSelect p ifs = Some i \<Longrightarrow> i \<in> set ifs \<and> ifIPv4 i \<noteq> []"
  by (auto simp: autoSelect_def Let_def split: if_splits option.splits dest!: find_in)

lemma manualSelect_in: "ifs \<noteq> [] \<Longrightarrow> \<exists>i \<in> set ifs. manualSelect ifs answers = Some i"
proof (induction answers)
  case (Cons a answers)
  then show ?case by (cases "a < 0 \<or> int (length ifs) \<le> a") (auto simp: idx_def)
qed (auto simp: idx_def)

lemma select_iface_in:
  assumes "ifs \<noteq> []"
  shows "\<exists>r. select_iface b answers ifs = Some r \<and> (\<forall>i z. r = Inr (i, z) \<longrightarrow> i \<in> set ifs)"
  using manualSelect_in [OF assms, of answers]
  by (auto simp: select_iface_def find_iface_def split: option.splits dest: find_in autoSelect_in)

text \<open>What the addresses of a dialer satisfy when they come from interfaces.\<close>

definition dialer_ok :: "'n host_ops \<Rightarrow> dialer \<Rightarrow> bool" where
  "dialer_ok h d \<longleftrightarrow>
     (\<forall>ip. localIPv4 d = Some ip \<longrightarrow> reported h ip \<and> to4 ip \<noteq> None) \<and>
     (\<forall>ip z. localIPv6 d = Some (ip, z) \<longrightarrow> reported h ip \<and> to4 ip = None \<and> length ip = 16)"

lemma store_addrs_ok: "iface_ok h i \<Longrightarrow> dialer_ok h d \<Longrightarrow> dialer_ok h (store_addrs (ifIPv4 i) (ifIPv6 i) z d)"
  by (auto simp: store_addrs_def Let_def dialer_ok_def iface_ok_def)

lemma look_again_ok:
  assumes "fst (look_again h (MonitorIfaces zone p) n) = Inr (ipv4, ipv6, z)"
  shows "\<exists>i. iface_ok h i \<and> ipv4 = ifIPv4 i \<and> ipv6 = ifIPv6 i"
proof -
  obtain r n1 where r: "getFilteredInterfaces h n = (r, n1)" by (cases "getFilteredInterfaces h n")
  obtain ifs where ifs: "r = Inr ifs" using assms r by (cases r) (simp_all add: look_again_def)
  have ok: "\<forall>i \<in> set ifs. iface_ok h i" using getFilteredInterfaces_ok [OF r [unfolded ifs]] by simp
  obtain i where i: "(if zone = [] then autoSelect p ifs else find_iface zone ifs) = Some i" "ipv4 = ifIPv4 i" "ipv6 = ifIPv6 i"
    using assms r ifs
    by (cases "if zone = [] then autoSelect p ifs else find_iface zone ifs") (simp_all only: look_again_def monitor.case Let_def prod.case sum.case option.case fst_conv, auto)
  then have "i \<in> set ifs" by (auto simp: find_iface_def split: if_splits dest: find_in autoSelect_in)
  then show ?thesis using ok i(2,3) by blast
qed

lemma monitor_tick_ok:
  assumes "dialer_ok h d" and "monitor_tick h (MonitorIfaces zone p) d n = (d', n')"
  shows "dialer_ok h d'"
proof -
  obtain r n1 where r: "look_again h (MonitorIfaces zone p) n = (r, n1)"
    by (cases "look_again h (MonitorIfaces zone p) n")
  show ?thesis
  proof (cases r)
    case (Inr x)
    obtain ipv4 ipv6 z where x: "x = (ipv4, ipv6, z)" by (cases x)
    obtain i where "iface_ok h i" "ipv4 = ifIPv4 i" "ipv6 = ifIPv6 i"
      using look_again_ok [of h zone p n ipv4 ipv6 z] r Inr x by auto
    then show ?thesis using assms r Inr x store_addrs_ok by (auto simp: monitor_tick_def)
  qed (use assms r in \<open>simp add: monitor_tick_def\<close>)
qed

lemma monitor_ticks_ok:
  "dialer_ok h d \<Longrightarrow> dialer_ok h (fst (monitor_ticks h (MonitorIfaces zone p) k d n))"
proof (induction k arbitrary: d n)
  case (Suc k)
  obtain d' n' where t: "monitor_tick h (MonitorIfaces zone p) d n = (d', n')"
    by (cases "monitor_tick h (MonitorIfaces zone p) d n")
  then show ?case using Suc.IH [OF monitor_tick_ok [OF Suc.prems t]] by simp
qed simp

text \<open>
  C22. A dialer bound to an interface is made, or an error is returned, whatever is typed; then and
  after every later look at the interfaces, its IPv4 address is an IPv4 address and its IPv6
  address an IPv6 one, and both were reported for interfaces that were up, are not loopback and
  not link-local.
\<close>

theorem local_addrs_reported:
  assumes "biMethod b = MethodSelectInterface"
  shows "\<exists>r n'. NewDialer h b answers n = Some (r, n') \<and>
    (\<forall>d m. r = Inr (d, m) \<longrightarrow> dialer_ok h d \<and> (localIPv4 d \<noteq> None \<or> localIPv6 d \<noteq> None) \<and>
      (m = None \<longleftrightarrow> biUpdateInterval b \<le> 0) \<and>
      (\<forall>mon k n. m = Some mon \<longrightarrow> dialer_ok h (fst (monitor_ticks h mon k d n))))"
proof -
  let ?d0 = "\<lparr>localIPv4 = None, localIPv6 = None\<rparr>"
  obtain r n1 where r: "getFilteredInterfaces h n = (r, n1)" by (cases "getFilteredInterfaces h n")
  show ?thesis
  proof (cases r)
    case (Inr ifs)
    have ifs: "ifs \<noteq> []" "\<forall>i \<in> set ifs. iface_ok h i" using getFilteredInterfaces_ok [OF r [unfolded Inr]] by simp_all
    obtain s where s: "select_iface b answers ifs = Some s" "\<forall>i z. s = Inr (i, z) \<longrightarrow> i \<in> set ifs"
      using select_iface_in [OF ifs(1)] by blast
    show ?thesis
    proof (cases s)
      case (Inr iz)
      obtain i z where iz: "iz = (i, z)" by (cases iz)
      have i: "iface_ok h i" using s(2) Inr iz ifs(2) by blast
      have d: "dialer_ok h (store_addrs (ifIPv4 i) (ifIPv6 i) z ?d0)"
        using i by (intro store_addrs_ok) (simp_all add: dialer_ok_def)
      have "localIPv4 (store_addrs (ifIPv4 i) (ifIPv6 i) z ?d0) \<noteq> None \<or> localIPv6 (store_addrs (ifIPv4 i) (ifIPv6 i) z ?d0) \<noteq> None"
        using i by (auto simp: store_addrs_def iface_ok_def Let_def)
      then show ?thesis
        using assms r \<open>r = Inr ifs\<close> s(1) Inr iz d monitor_ticks_ok [OF d] by (auto simp: NewDialer_def)
    qed (use assms r Inr s(1) in \<open>simp add: NewDialer_def\<close>)
  qed (use assms r in \<open>simp add: NewDialer_def\<close>)
qed

definition demo_host :: "unit host_ops" where
  "demo_host = \<lparr>hostIfaces = (\<lambda>n. (Inr
       [\<lparr>sysIndex = 1, sysName = ''lo'', sysUp = True, sysLoopback = True, sysAddrs = Inr [Some [127, 0, 0, 1]]\<rparr>,
        \<lparr>sysIndex = 2, sysName = ''eth0'', sysUp = True, sysLoopback = False,
          sysAddrs = Inr [None, Some [169, 254, 1, 1], Some [192, 168, 1, 2]]\<rparr>], n)),
     hostDial = (\<lambda>network target timeout n. (Inr None, n))\<rparr>"

theorem local_addrs_reported_witness:
  "\<exists>d. NewDialer demo_host (no_binding\<lparr>biMethod := MethodSelectInterface, biUpdateInterval := second\<rparr>) [] () =
      Some (Inr (d, Some (MonitorIfaces [] None)), ()) \<and>
    localIPv4 d = Some [192, 168, 1, 2] \<and> dialer_ok demo_host d \<and>
    dialer_ok demo_host (fst (monitor_ticks demo_host (MonitorIfaces [] None) 3 d ()))"
proof -
  let ?b = "no_binding\<lparr>biMethod := MethodSelectInterface, biUpdateInterval := second\<rparr>"
  let ?d = "\<lparr>localIPv4 = Some [192, 168, 1, 2], localIPv6 = None\<rparr>"
  have g: "getFilteredInterfaces demo_host () = (Inr [\<lparr>ifIndex = 2, ifName = ''eth0'', ifIPv4 = [192, 168, 1, 2], ifIPv6 = []\<rparr>], ())"
    by (simp add: getFilteredInterfaces_def demo_host_def is_link_local_def to4_def)
  have n: "NewDialer demo_host ?b [] () = Some (Inr (?d, Some (MonitorIfaces [] None)), ())"
    by (simp add: NewDialer_def g select_iface_def no_binding_def autoSelect_def store_addrs_def Let_def second_def)
  then show ?thesis using local_addrs_reported [of ?b demo_host "[]" "()"] by auto
qed

text \<open>
  The automatic choice takes an interface with an IPv4 address whenever there is one: in the
  preferred network if some interface has an address there, otherwise a private address if some
  interface has one.
\<close>

theorem autoSelect_prefers:
  "case autoSelect preferred ifs of
     None \<Rightarrow> \<forall>i \<in> set ifs. ifIPv4 i = []
   | Some i \<Rightarrow> i \<in> set ifs \<and> ifIPv4 i \<noteq> [] \<and>
       (case map_option (\<lambda>p. find (\<lambda>j. ifIPv4 j \<noteq> [] \<and> preferred_addr p (ifIPv4 j)) ifs) preferred of
          Some (Some j) \<Rightarrow> i = j \<and> preferred_addr (the preferred) (ifIPv4 i)
        | _ \<Rightarrow> is_private (ifIPv4 i) \<or> \<not> (\<exists>j \<in> set ifs. ifIPv4 j \<noteq> [] \<and> is_private (ifIPv4 j)))"
  by (auto simp: autoSelect_def Let_def find_None_iff split: option.splits dest: find_in)

text \<open>An interface that lost an address keeps it as the local address of new connections.\<close>

lemma monitor_keeps_lost:
  "look_again h m n = (Inr ([], ipv6, zone), n') \<Longrightarrow> localIPv4 (fst (monitor_tick h m d n)) = localIPv4 d"
  by (simp add: monitor_tick_def store_addrs_def)

text \<open>An answer that is no number selects the first interface.\<close>

lemma manualSelect_unreadable: "ifs \<noteq> [] \<Longrightarrow> manualSelect ifs (0 # answers) = Some (hd ifs)"
  by (simp add: idx_def hd_conv_nth)

end
