(* ===== verification/Ordered_Map.thy ===== *)
theory Ordered_Map
  imports Errors_Format "HOL-Library.Monad_Syntax"
begin

text \<open>
  \<^verbatim>\<open>internal/jsonx/orderedmap.go\<close>: a JSON object read in the order of its members. The decoder of
  \<^verbatim>\<open>encoding/json\<close> is a parameter: it hands out a value of the type \<open>doc\<close>, and decodes a member
  by the function \<open>dec\<close>.
\<close>

section \<open>The map\<close>

record 'v omap =
  omKeys :: "string list"
  omValues :: "(string \<Rightarrow> 'v option) option"

text \<open>The zero value; the map of values is nil.\<close>

definition empty_omap :: "'v omap" where
  "empty_omap = \<lparr>omKeys = [], omValues = None\<rparr>"

definition om_get :: "'v omap option \<Rightarrow> string \<Rightarrow> 'v option" where
  "om_get m k = do { m \<leftarrow> m; vs \<leftarrow> omValues m; vs k }"

definition om_len :: "'v omap option \<Rightarrow> nat" where
  "om_len m = (case m of None \<Rightarrow> 0 | Some m \<Rightarrow> length (omKeys m))"

text \<open>\<^verbatim>\<open>All\<close>: the pairs that are yielded; \<open>zero\<close> is what a map answers to a key it does not have.\<close>

definition om_all :: "'v \<Rightarrow> 'v omap option \<Rightarrow> (string \<times> 'v) list" where
  "om_all zero m =
     (case m of None \<Rightarrow> []
      | Some m \<Rightarrow> map (\<lambda>k. (k, case Option.bind (omValues m) (\<lambda>vs. vs k) of None \<Rightarrow> zero | Some v \<Rightarrow> v)) (omKeys m))"

section \<open>From JSON\<close>

text \<open>
  What \<^verbatim>\<open>Token\<close> answers: a member of an object is a name with the value that follows it, or an error
  in place of the name, or a token that is no string. After the value comes the end of the input,
  another token, or an error.
\<close>

datatype 'j member = Member (mem_key: string) (mem_value: 'j) | KeyFails error | KeyOther string

datatype trail = AtEOF | MoreTokens | TrailFails error

datatype 'j doc =
    DocFails error
  | DocNull trail
  | DocObject "'j member list" "error option" trail
  | DocOther string

fun om_members :: "('j \<Rightarrow> error + 'v) \<Rightarrow> 'j member list \<Rightarrow> string list \<Rightarrow> (string \<Rightarrow> 'v option) \<Rightarrow> error + 'v omap" where
  "om_members dec [] ks vs = Inr \<lparr>omKeys = ks, omValues = Some vs\<rparr>"
| "om_members dec (KeyFails e # ms) ks vs = Inl e"
| "om_members dec (KeyOther t # ms) ks vs = Inl (NewError (''expected string key, got number '' @ t))"
| "om_members dec (Member k j # ms) ks vs =
     (case dec j of
        Inl e \<Rightarrow> Inl (OpError (''key '' @ k) e)
      | Inr v \<Rightarrow> om_members dec ms (ks @ [k]) (vs(k \<mapsto> v)))"

definition om_trail :: "string \<Rightarrow> trail \<Rightarrow> 'v omap \<Rightarrow> error + 'v omap" where
  "om_trail what t m =
     (case t of
        AtEOF \<Rightarrow> Inr m
      | MoreTokens \<Rightarrow> Inl (NewError (''redundant data after JSON '' @ what))
      | TrailFails e \<Rightarrow> Inl e)"

text \<open>The result is the new contents of the map; with an error the map is left as it was.\<close>

definition om_unmarshal :: "('j \<Rightarrow> error + 'v) \<Rightarrow> 'v omap option \<Rightarrow> 'j doc \<Rightarrow> error + 'v omap" where
  "om_unmarshal dec m d =
     (case m of
        None \<Rightarrow> Inl (NewError ''orderedmap: unmarshal nil OrderedMap'')
      | Some _ \<Rightarrow>
          (case d of
             DocFails e \<Rightarrow> Inl e
           | DocNull t \<Rightarrow> om_trail ''null'' t \<lparr>omKeys = [], omValues = Some (\<lambda>_. None)\<rparr>
           | DocOther t \<Rightarrow> Inl (NewError (''expected JSON object, got '' @ t))
           | DocObject ms close t \<Rightarrow>
               (case om_members dec ms [] (\<lambda>_. None) of
                  Inl e \<Rightarrow> Inl e
                | Inr m' \<Rightarrow> (case close of Some e \<Rightarrow> Inl e | None \<Rightarrow> om_trail ''object'' t m'))))"

section \<open>What is read\<close>

text \<open>The last member of a name gives its value, for each of its occurrences.\<close>

definition om_error :: "('j \<Rightarrow> error + 'v) \<Rightarrow> 'j member \<Rightarrow> error option" where
  "om_error dec m =
     (case m of
        KeyFails e \<Rightarrow> Some e
      | KeyOther t \<Rightarrow> Some (NewError (''expected string key, got number '' @ t))
      | Member k j \<Rightarrow> (case dec j of Inl e \<Rightarrow> Some (OpError (''key '' @ k) e) | Inr _ \<Rightarrow> None))"

definition om_pair :: "('j \<Rightarrow> error + 'v) \<Rightarrow> 'j member \<Rightarrow> string \<times> 'v" where
  "om_pair dec m = (mem_key m, projr (dec (mem_value m)))"

lemma om_members_spec:
  "om_members dec ms ks vs =
     (case first_some (om_error dec) ms of
        Some e \<Rightarrow> Inl e
      | None \<Rightarrow> Inr \<lparr>omKeys = ks @ map mem_key ms, omValues = Some (vs ++ map_of (rev (map (om_pair dec) ms)))\<rparr>)"
proof (induction ms arbitrary: ks vs)
  case (Cons m ms)
  show ?case
  proof (cases "\<exists>k j v. m = Member k j \<and> dec j = Inr v")
    case True
    then obtain k j v where m: "m = Member k j" and v: "dec j = Inr v" by blast
    have u: "vs(k \<mapsto> v) ++ map_of xs = vs ++ map_of (xs @ [(k, v)])" for xs
      by (simp add: map_add_def fun_eq_iff split: option.splits)
    have p: "om_pair dec (Member k j) = (k, v)" and e: "om_error dec (Member k j) = None"
      using v by (simp_all add: om_pair_def om_error_def)
    show ?thesis
      unfolding m om_members.simps v sum.case Cons.IH u
      by (simp add: p e del: map_of_append split: option.splits)
  next
    case False
    then show ?thesis by (cases m) (auto simp: om_error_def split: sum.splits)
  qed
qed simp

lemma om_all_unmarshal:
  assumes "distinct (map fst ms)" and "\<forall>m \<in> set ms. dec (snd m) = Inr (f (snd m))"
  shows "\<exists>m. om_unmarshal dec (Some old) (DocObject (map (\<lambda>(k, j). Member k j) ms) None AtEOF) = Inr m
     \<and> om_all zero (Some m) = map (\<lambda>m. (fst m, f (snd m))) ms"
proof -
  define os where "os = map (\<lambda>(k, j). Member k j) ms"
  have none: "first_some (om_error dec) os = None"
    using assms(2) by (auto simp: first_some_None om_error_def os_def)
  have keys: "map mem_key os = map fst ms" by (simp add: os_def case_prod_beta' comp_def)
  have fst: "map fst (map (om_pair dec) os) = map fst ms"
    by (simp add: om_pair_def os_def case_prod_beta' comp_def)
  have d: "distinct (map fst (rev (map (om_pair dec) os)))" using assms(1) fst by (metis distinct_rev rev_map)
  have val: "map_of (rev (map (om_pair dec) os)) (fst m) = Some (f (snd m))" if "m \<in> set ms" for m
  proof (rule map_of_is_SomeI [OF d])
    obtain k j where m: "m = (k, j)" by (cases m)
    then have "om_pair dec (Member k j) = (k, f j)" using that assms(2) by (auto simp: om_pair_def)
    moreover have "Member k j \<in> set os" using that m by (force simp: os_def)
    ultimately show "(fst m, f (snd m)) \<in> set (rev (map (om_pair dec) os))" unfolding m
      by (metis fst_conv image_eqI list.set_map set_rev snd_conv)
  qed
  define mo where "mo = \<lparr>omKeys = map fst ms, omValues = Some (map_of (rev (map (om_pair dec) os)))\<rparr>"
  have "om_unmarshal dec (Some old) (DocObject os None AtEOF) = Inr mo"
    by (simp add: om_unmarshal_def om_members_spec none mo_def om_trail_def keys)
  moreover have "om_all zero (Some mo) = map (\<lambda>m. (fst m, f (snd m))) ms"
    by (simp add: om_all_def mo_def val)
  ultimately show ?thesis unfolding os_def by blast
qed

end
