(* ===== verification/Builder.thy ===== *)
theory Builder
  imports Doh_Spec Local_Addr Ordered_Map
begin

text \<open>
  From configurations to a server: \<^verbatim>\<open>internal/core/core.go\<close>.
  \<open>Merge\<close> adds a configuration to the builder, \<open>Build\<close> makes the parts of the server from what has
  been collected. A Go map is a list of its entries in the order in which it is traversed.
  \<open>None\<close> is a panic.
\<close>

section \<open>State\<close>

record config =
  cfgLogLevel :: level
  cfgLogOutput :: "string option"
  cfgSocks5Addr :: "string option"
  cfgHttpAddr :: "string option"
  cfgSNIProxyAddr :: "string option"
  cfgBinding :: "binding option"
  cfgDNS :: "dns_config option"
  cfgTTL :: "ttl_config option"
  cfgIPPools :: "(string \<times> ip_pool_options) list"
  cfgHosts :: "dst omap"
  cfgDefaultPolicy :: "policy_options option"
  cfgDomainPolicies :: "policy_options omap"
  cfgIPPolicies :: "policy_options omap"

record builder =
  bdLogLevel :: level
  bdLogOutput :: string
  bdSocks5Addr :: string
  bdHttpAddr :: string
  bdSNIProxyAddr :: string
  bdBinding :: binding
  bdDNS :: dns_config
  bdTTL :: ttl_config
  bdIPPools :: "(string \<times> ip_pool_options) list"
  bdHosts :: "dst domain_matcher"
  bdDefaultPolicy :: policy
  bdDomainPolicies :: "policy domain_matcher"
  bdIPv4Policies :: "policy bit_node"
  bdIPv6Policies :: "policy bit_node"

definition NewBuilder :: builder where
  "NewBuilder = \<lparr>bdLogLevel = LevelInfo, bdLogOutput = [], bdSocks5Addr = [], bdHttpAddr = [], bdSNIProxyAddr = [],
     bdBinding = no_binding, bdDNS = empty_dns_config,
     bdTTL = \<lparr>fakeTTLRules = [], ttlSingleFlight = False, ttlDisableCache = False, ttlCacheCapacity = 0\<rparr>,
     bdIPPools = [], bdHosts = new_domain_matcher, bdDefaultPolicy = policy_init zero_policy,
     bdDomainPolicies = new_domain_matcher, bdIPv4Policies = new_bit_node, bdIPv6Policies = new_bit_node\<rparr>"

definition inboundIsEnabled :: "string \<Rightarrow> bool" where
  "inboundIsEnabled addr \<longleftrightarrow> addr \<noteq> [] \<and> addr \<noteq> ''none''"

section \<open>Merging\<close>

text \<open>A call that may fail or panic, and what follows it.\<close>

definition and_then :: "(error + 'a) option \<Rightarrow> ('a \<Rightarrow> (error + 'b) option) \<Rightarrow> (error + 'b) option" where
  "and_then m k = (case m of None \<Rightarrow> None | Some (Inl e) \<Rightarrow> Some (Inl e) | Some (Inr x) \<Rightarrow> k x)"

fun each_entry :: "(string \<Rightarrow> 'o \<Rightarrow> 'a \<Rightarrow> (error + 'a) option) \<Rightarrow> (string \<times> 'o) list \<Rightarrow> 'a \<Rightarrow> (error + 'a) option" where
  "each_entry f [] x = Some (Inr x)"
| "each_entry f ((s, v) # es) x = and_then (f s v x) (each_entry f es)"

definition merge_pool :: "string \<Rightarrow> ip_pool_options \<Rightarrow> (string \<times> ip_pool_options) list \<Rightarrow> (error + (string \<times> ip_pool_options) list) option" where
  "merge_pool tag options pools =
     Some (if map_of pools tag \<noteq> None then Inl (NewError (''duplicate ip pool tag '' @ tag)) else Inr (pools @ [(tag, options)]))"

definition merge_pools :: "(string \<times> ip_pool_options) list \<Rightarrow> (string \<times> ip_pool_options) list \<Rightarrow> (error + (string \<times> ip_pool_options) list) option" where
  "merge_pools new old =
     (if old \<noteq> [] then each_entry merge_pool new old else if new \<noteq> [] then Some (Inr new) else Some (Inr old))"

definition merge_default :: "policy_options option \<Rightarrow> policy \<Rightarrow> (error + policy) option" where
  "merge_default opts old =
     Some (case opts of
             None \<Rightarrow> Inr old
           | Some v \<Rightarrow> map_sum (OpError ''invalid default_policy'') id (newPolicy v))"

text \<open>All texts of a list of patterns; the result of \<^verbatim>\<open>Add\<close> is not looked at.\<close>

definition add_pattern :: "'v \<Rightarrow> string \<Rightarrow> 'v domain_matcher \<Rightarrow> 'v domain_matcher" where
  "add_pattern v s m = (case domain_add s v m of Inl _ \<Rightarrow> m | Inr m' \<Rightarrow> m')"

definition add_patterns :: "string \<Rightarrow> 'v \<Rightarrow> 'v domain_matcher \<Rightarrow> (error + 'v domain_matcher) option" where
  "add_patterns patterns v m = each_pattern (\<lambda>_ s m. Inr (add_pattern v s m)) (split_on CHR '';'' patterns) m"

definition with_policy :: "string \<Rightarrow> policy_options \<Rightarrow> (policy \<Rightarrow> (error + 'a) option) \<Rightarrow> (error + 'a) option" where
  "with_policy patterns options k =
     and_then (Some (map_sum (OpError (''invalid policy for '' @ patterns)) id (newPolicy options))) k"

definition merge_domain :: "string \<Rightarrow> policy_options \<Rightarrow> policy domain_matcher \<Rightarrow> (error + policy domain_matcher) option" where
  "merge_domain patterns options m = with_policy patterns options (\<lambda>p. add_patterns patterns p m)"

definition insert_ip :: "string \<Rightarrow> policy \<Rightarrow> string \<Rightarrow> policy bit_node \<times> policy bit_node \<Rightarrow> error + policy bit_node \<times> policy bit_node" where
  "insert_ip patterns p s tries =
     map_sum (OpError (''invalid ip/cidr '' @ s @ '' in '' @ patterns)) id
       (if CHR '':'' \<in> set s
        then map_sum id (\<lambda>t. (fst tries, t)) (ipv6_insert s p (snd tries))
        else map_sum id (\<lambda>t. (t, snd tries)) (ipv4_insert s p (fst tries)))"

definition merge_ip :: "string \<Rightarrow> policy_options \<Rightarrow> policy bit_node \<times> policy bit_node \<Rightarrow> (error + policy bit_node \<times> policy bit_node) option" where
  "merge_ip patterns options tries =
     with_policy patterns options (\<lambda>p. each_pattern (\<lambda>_. insert_ip patterns p) (split_on CHR '';'' patterns) tries)"

definition Merge :: "config \<Rightarrow> builder \<Rightarrow> (error + builder) option" where
  "Merge cfg b =
     and_then (merge_pools (cfgIPPools cfg) (bdIPPools b)) (\<lambda>pools.
     and_then (merge_default (cfgDefaultPolicy cfg) (bdDefaultPolicy b)) (\<lambda>def.
     and_then (each_entry merge_domain (om_all default_options (Some (cfgDomainPolicies cfg))) (bdDomainPolicies b)) (\<lambda>doms.
     and_then (each_entry merge_ip (om_all default_options (Some (cfgIPPolicies cfg))) (bdIPv4Policies b, bdIPv6Policies b)) (\<lambda>tries.
     and_then (each_entry add_patterns (om_all zero_dst (Some (cfgHosts cfg))) (bdHosts b)) (\<lambda>hs.
       Some (Inr (b\<lparr>
         bdIPPools := pools, bdDefaultPolicy := def, bdDomainPolicies := doms, bdIPv4Policies := fst tries,
         bdIPv6Policies := snd tries, bdHosts := hs,
         bdLogLevel := (if cfgLogLevel cfg \<noteq> LevelUnset then cfgLogLevel cfg else bdLogLevel b),
         bdLogOutput := (case cfgLogOutput cfg of Some s \<Rightarrow> s | None \<Rightarrow> bdLogOutput b),
         bdSocks5Addr := (case cfgSocks5Addr cfg of Some s \<Rightarrow> s | None \<Rightarrow> bdSocks5Addr b),
         bdHttpAddr := (case cfgHttpAddr cfg of Some s \<Rightarrow> s | None \<Rightarrow> bdHttpAddr b),
         bdSNIProxyAddr := (case cfgSNIProxyAddr cfg of Some s \<Rightarrow> s | None \<Rightarrow> bdSNIProxyAddr b),
         bdBinding := (case cfgBinding cfg of Some v \<Rightarrow> v | None \<Rightarrow> bdBinding b),
         bdDNS := (case cfgDNS cfg of Some v \<Rightarrow> v | None \<Rightarrow> bdDNS b),
         bdTTL := (case cfgTTL cfg of Some v \<Rightarrow> v | None \<Rightarrow> bdTTL b)\<rparr>)))))))"

section \<open>Building\<close>

text \<open>\<^verbatim>\<open>log.NewOutput\<close> and \<^verbatim>\<open>log.NewFactory\<close>; the file system is a parameter.\<close>

datatype log_out = Stdout | Stderr | LogFile string | Discard

record output_ops =
  ooExpandEnv :: "string \<Rightarrow> string"
  ooDir :: "string \<Rightarrow> string"
  ooMkdirAll :: "string \<Rightarrow> error option"
  ooOpen :: "string \<Rightarrow> error option"

definition NewOutput :: "output_ops \<Rightarrow> string \<Rightarrow> error + log_out" where
  "NewOutput fs out =
     (if out = [] \<or> out = ''stdout'' then Inr Stdout
      else if out = ''stderr'' then Inr Stderr
      else
        let out = ooExpandEnv fs out; dir = ooDir fs out in
        (case (if dir \<noteq> ''.'' \<and> dir \<noteq> [] then ooMkdirAll fs dir else None) of
           Some e \<Rightarrow> Inl (OpError ''create log directory'' e)
         | None \<Rightarrow> (case ooOpen fs out of Some e \<Rightarrow> Inl (OpError ''open log file'' e) | None \<Rightarrow> Inr (LogFile out))))"

definition NewFactory :: "log_out \<Rightarrow> level \<Rightarrow> log_out \<times> level" where
  "NewFactory out lvl = (if lvl = Disabled then Discard else out, lvl)"

text \<open>What the program takes from outside while it builds the server.\<close>

record 'n build_env =
  enHost :: "'n host_ops"
  enAnswers :: "int list"
  enOutput :: output_ops
  enProcs :: nat
  enAddrHash :: "addr \<Rightarrow> 32 word"
  enNameHash :: "string \<Rightarrow> 32 word"
  enStringToType :: "string \<Rightarrow> nat option"
  enParseURL :: "string \<Rightarrow> error + url"
  enLookupIP :: "string \<Rightarrow> error + bytes list"
  enScan :: "string \<Rightarrow> ip_pool \<Rightarrow> ip_result list"

record built =
  svLog :: "log_out \<times> level"
  svSocks5Addr :: string
  svHttpAddr :: string
  svSNIProxyAddr :: string
  svDialer :: dialer
  svMonitor :: "monitor option"
  svTTL :: "(int \<Rightarrow> error + int) \<times> (addr, int) sharded option \<times> bool"
  svDNS :: "doh_route dns_built"
  svRoute :: route_matcher
  svPools :: ip_pools

definition build_pool :: "(string \<Rightarrow> error + bytes list) \<Rightarrow> string \<Rightarrow> ip_pool_options \<Rightarrow> ip_pools \<Rightarrow> (error + ip_pools) option" where
  "build_pool lookupIP tag options pools =
     map_option (map_sum (OpError (''create ip pool '' @ tag)) (\<lambda>p. pools(tag \<mapsto> p))) (newIPPool lookupIP options)"

text \<open>\<^verbatim>\<open>start\<close>: pools that are to wait are scanned here, the others later, by themselves.\<close>

fun start_pools :: "(string \<Rightarrow> ip_pool \<Rightarrow> ip_result list) \<Rightarrow> string list \<Rightarrow> ip_pools \<Rightarrow> ip_pools option" where
  "start_pools scan [] pools = Some pools"
| "start_pools scan (tag # tags) pools =
     do {
       p \<leftarrow> pools tag;
       p \<leftarrow> (if poolWaitScan p then updateBest (scan tag p) p else Some p);
       start_pools scan tags (pools(tag \<mapsto> p))
     }"

definition route_of :: "builder \<Rightarrow> route_matcher" where
  "route_of b = \<lparr>defaultPolicy = bdDefaultPolicy b, domainPolicies = bdDomainPolicies b, ipv4Policies = bdIPv4Policies b,
     ipv6Policies = bdIPv6Policies b, hosts = bdHosts b\<rparr>"

definition Build :: "'n build_env \<Rightarrow> builder \<Rightarrow> 'n \<Rightarrow> ((error + built) \<times> 'n) option" where
  "Build en b n =
     (if \<not> inboundIsEnabled (bdSocks5Addr b) \<and> \<not> inboundIsEnabled (bdHttpAddr b) \<and> \<not> inboundIsEnabled (bdSNIProxyAddr b)
      then Some (Inl (NewError ''no inbound specified''), n)
      else case NewOutput (enOutput en) (bdLogOutput b) of
        Inl e \<Rightarrow> Some (Inl (OpError ''create log output'' e), n)
      | Inr out \<Rightarrow> do {
          (r, n) \<leftarrow> NewDialer (enHost en) (bdBinding b) (enAnswers en) n;
          r \<leftarrow> and_then (Some (map_sum (OpError ''create dialer'') id r)) (\<lambda>(d, mon).
            and_then (each_entry (build_pool (enLookupIP en)) (bdIPPools b) Map.empty) (\<lambda>pools.
            and_then (Some (map_sum (OpError ''create ttl probe manager'') id
                (newTTLDesyncManager (enProcs en) (enAddrHash en) (bdTTL b)))) (\<lambda>ttl.
            and_then (map_option (map_sum (OpError ''create dns resolver'') id)
                (newDNSResolver (enProcs en) (enNameHash en) (enStringToType en) (enParseURL en)
                  (\<lambda>u. genDoHDialFunc u (route_of b) pools) (bdDNS b))) (\<lambda>dns. do {
              pools \<leftarrow> start_pools (enScan en) (map fst (bdIPPools b)) pools;
              Some (Inr \<lparr>svLog = NewFactory out (bdLogLevel b), svSocks5Addr = bdSocks5Addr b, svHttpAddr = bdHttpAddr b,
                svSNIProxyAddr = bdSNIProxyAddr b, svDialer = d, svMonitor = mon, svTTL = ttl, svDNS = dns,
                svRoute = route_of b, svPools = pools\<rparr>)
            }))));
          Some (r, n)
        })"

section \<open>Running\<close>

text \<open>The listeners that \<^verbatim>\<open>Serve\<close> starts.\<close>

datatype inbound = SocksInbound string | HttpInbound string | SNIInbound string

definition Serve :: "built \<Rightarrow> inbound list" where
  "Serve s =
     (if inboundIsEnabled (svSocks5Addr s) then [SocksInbound (svSocks5Addr s)] else []) @
     (if inboundIsEnabled (svHttpAddr s) then [HttpInbound (svHttpAddr s)] else []) @
     (if inboundIsEnabled (svSNIProxyAddr s) then [SNIInbound (svSNIProxyAddr s)] else [])"

end
