(* ===== verification/Jsonc.thy ===== *)
theory Jsonc
  imports Prelude
begin

text \<open>
  \<^verbatim>\<open>internal/jsonx/jsonc.go\<close>: comments and trailing commas of a configuration file become blanks.
  \<^verbatim>\<open>ToJSON\<close> appends to a new slice, \<^verbatim>\<open>ToJSONInPlace\<close> to the beginning of the one it reads; the model
  has both, with the flag \<open>shared\<close> for the shared memory. \<open>None\<close> is a panic.
\<close>

section \<open>The loops\<close>

text \<open>\<^verbatim>\<open>src[j]\<close> when \<open>dst\<close> has been written.\<close>

definition cell :: "bool \<Rightarrow> bytes \<Rightarrow> bytes \<Rightarrow> nat \<Rightarrow> byte" where
  "cell shared src dst j = (if shared \<and> j < length dst then dst ! j else src ! j)"

function line_comment :: "bool \<Rightarrow> bytes \<Rightarrow> nat \<Rightarrow> bytes \<Rightarrow> nat \<times> bytes" where
  "line_comment shared src i dst =
     (if i < length src then
        (let c = cell shared src dst i in
         if c = 10 then (i, dst @ [10])
         else line_comment shared src (i + 1) (dst @ [if c = 9 \<or> c = 13 then c else 32]))
      else (i, dst))"
  by pat_completeness auto
termination by (relation "measure (\<lambda>(shared, src, i, dst). length src - i)") auto

function block_comment :: "bool \<Rightarrow> bytes \<Rightarrow> nat \<Rightarrow> bytes \<Rightarrow> nat \<times> bytes \<times> bool" where
  "block_comment shared src i dst =
     (if i < length src then
        (let c = cell shared src dst i in
         if i + 1 < length src \<and> c = 42 \<and> cell shared src dst (i + 1) = 47 then (i + 1, dst @ [32, 32], True)
         else block_comment shared src (i + 1) (dst @ [if c = 10 \<or> c = 9 \<or> c = 13 then c else 32]))
      else (i, dst, False))"
  by pat_completeness auto
termination by (relation "measure (\<lambda>(shared, src, i, dst). length src - i)") auto

text \<open>How many backslashes stand before index \<open>i\<close>.\<close>

fun slashes :: "(nat \<Rightarrow> byte) \<Rightarrow> nat \<Rightarrow> nat option" where
  "slashes f 0 = None"
| "slashes f (Suc j) = (if f j \<noteq> 92 then Some 0 else map_option Suc (slashes f j))"

function string_loop :: "bool \<Rightarrow> bytes \<Rightarrow> nat \<Rightarrow> bytes \<Rightarrow> (nat \<times> bytes) option" where
  "string_loop shared src i dst =
     (if i < length src then
        (let dst = dst @ [cell shared src dst i] in
         if cell shared src dst i = 34 then
           (case slashes (cell shared src dst) i of
              None \<Rightarrow> None
            | Some k \<Rightarrow> if even k then Some (i, dst) else string_loop shared src (i + 1) dst)
         else string_loop shared src (i + 1) dst)
      else Some (i, dst))"
  by pat_completeness auto
termination by (relation "measure (\<lambda>(shared, src, i, dst). length src - i)") auto

declare line_comment.simps [simp del] block_comment.simps [simp del] string_loop.simps [simp del]

text \<open>The comma before a closing bracket, sought downwards from index \<open>j - 1\<close>.\<close>

fun blank_comma :: "nat \<Rightarrow> bytes \<Rightarrow> bytes" where
  "blank_comma 0 dst = dst"
| "blank_comma (Suc j) dst =
     (if dst ! j \<le> 32 then blank_comma j dst else if dst ! j = 44 then dst[j := 32] else dst)"

lemma line_comment_mono: "i \<le> fst (line_comment shared src i dst)"
proof (induction shared src i dst rule: line_comment.induct)
  case (1 shared src i dst)
  then show ?case by (subst line_comment.simps) (auto simp: Let_def)
qed

lemma block_comment_mono: "i \<le> fst (block_comment shared src i dst)"
proof (induction shared src i dst rule: block_comment.induct)
  case (1 shared src i dst)
  then show ?case by (subst block_comment.simps) (auto simp: Let_def)
qed

lemma string_loop_mono: "string_loop shared src i dst = Some (k, d) \<Longrightarrow> i \<le> k"
proof (induction shared src i dst rule: string_loop.induct)
  case (1 shared src i dst)
  let ?d = "dst @ [cell shared src dst i]"
  show ?case
  proof (cases "i < length src \<and> \<not> (cell shared src ?d i = 34 \<and> (\<exists>n. slashes (cell shared src ?d) i = Some n \<and> even n))")
    case True
    then have "string_loop shared src (i + 1) ?d = Some (k, d)"
      using 1(3) by (subst (asm) string_loop.simps) (auto simp: Let_def split: if_splits option.splits)
    then have "i + 1 \<le> k"
      using True 1(1,2) 1(3) by (subst (asm) string_loop.simps) (auto simp: Let_def split: if_splits option.splits)
    then show ?thesis by simp
  next
    case False
    then show ?thesis using 1(3) by (subst (asm) string_loop.simps) (auto simp: Let_def split: if_splits option.splits)
  qed
qed

text \<open>The outer loop. An unclosed comment keeps its opening.\<close>

function json_loop :: "bool \<Rightarrow> bytes \<Rightarrow> nat \<Rightarrow> bytes \<Rightarrow> bytes option" where
  "json_loop shared src i dst =
     (if i < length src then
        if cell shared src dst i = 47 \<and> i + 1 < length src \<and> cell shared src dst (i + 1) = 47 then
          json_loop shared src (fst (line_comment shared src (i + 2) (dst @ [32, 32])) + 1)
            (snd (line_comment shared src (i + 2) (dst @ [32, 32])))
        else if cell shared src dst i = 47 \<and> i + 1 < length src \<and> cell shared src dst (i + 1) = 42 then
          (let (k, d, closed) = block_comment shared src (i + 2) (dst @ [32, 32]) in
           if closed then json_loop shared src (k + 1) d
           else if i + 1 < length d then json_loop shared src (k + 1) (d[i := 47, i + 1 := 42]) else None)
        else
          (let c = cell shared src dst i; dst = dst @ [c] in
           if c = 34 then
             (case string_loop shared src (i + 1) dst of
                None \<Rightarrow> None
              | Some (k, dst) \<Rightarrow> json_loop shared src (k + 1) dst)
           else if c = 125 \<or> c = 93 then json_loop shared src (i + 1) (blank_comma (length dst - 1) dst)
           else json_loop shared src (i + 1) dst)
      else Some dst)"
  by pat_completeness auto
termination
proof (relation "measure (\<lambda>(shared, src, i, dst). length src - i)", goal_cases)
  case (2 shared src i dst)
  then show ?case using line_comment_mono [of "i + 2" shared src "dst @ [32, 32]"] by simp linarith
next
  case (3 shared src i dst x k y d closed)
  then have "block_comment shared src (i + 2) (dst @ [32, 32]) = (k, d, closed)" by simp
  then show ?case using block_comment_mono [of "i + 2" shared src "dst @ [32, 32]"] 3(1) by simp
next
  case (4 shared src i dst x k y d closed)
  then have "block_comment shared src (i + 2) (dst @ [32, 32]) = (k, d, closed)" by simp
  then show ?case using block_comment_mono [of "i + 2" shared src "dst @ [32, 32]"] 4(1) by simp
next
  case (5 shared src i dst c d x k e)
  then show ?case using string_loop_mono [of shared src "i + 1" d k e] by simp
qed auto

declare json_loop.simps [simp del]

definition toJSON :: "bool \<Rightarrow> bytes \<Rightarrow> bytes option" where
  "toJSON shared src = json_loop shared src 0 []"

end
