(* ===== verification/Program.thy ===== *)
theory Program
  imports Builder Jsonc
begin

text \<open>
  \<^verbatim>\<open>main.go\<close>, with \<^verbatim>\<open>Unmarshal\<close> of \<^verbatim>\<open>internal/jsonx\<close>: the flags, the configurations they name, and the
  server. The package \<^verbatim>\<open>encoding/json\<close>, which works by reflection, is a parameter. \<open>None\<close> is a panic.
\<close>

section \<open>Reading a configuration\<close>

text \<open>
  What is called of \<^verbatim>\<open>encoding/json\<close>, with the flag to reject unknown members. The decoder of the first
  version reads one value and leaves what follows it; the function of the second takes the whole text.
\<close>

record json_ops =
  jsDecode :: "bool \<Rightarrow> bytes \<Rightarrow> error + config \<times> bytes"
  jsUnmarshal :: "bool \<Rightarrow> bytes \<Rightarrow> error + config"

definition unmarshal_v1 :: "json_ops \<Rightarrow> bool \<Rightarrow> bytes \<Rightarrow> error + config" where
  "unmarshal_v1 js reject b = map_sum id fst (jsDecode js reject b)"

definition unmarshal_v2 :: "json_ops \<Rightarrow> bool \<Rightarrow> bytes \<Rightarrow> error + config" where
  "unmarshal_v2 js reject b = jsUnmarshal js reject b"

text \<open>What the program takes from the system, and which of the two it has been built with.\<close>

record system =
  sysReadFile :: "string \<Rightarrow> error + bytes"
  sysStdin :: "error + bytes"
  sysConfigEnv :: string
  sysJSON :: json_ops
  sysJSONv2 :: bool

definition Unmarshal :: "system \<Rightarrow> bool \<Rightarrow> bytes \<Rightarrow> error + config" where
  "Unmarshal sys = (if sysJSONv2 sys then unmarshal_v2 else unmarshal_v1) (sysJSON sys)"

text \<open>The configuration and what is left on the standard input, which is read to its end.\<close>

definition configFromFile :: "system \<Rightarrow> bool \<Rightarrow> string \<Rightarrow> ((error + config) \<times> system) option" where
  "configFromFile sys reject path =
     (let (data, sys') = (if path = ''stdin'' then (sysStdin sys, sys\<lparr>sysStdin := Inr []\<rparr>) else (sysReadFile sys path, sys))
      in case data of
           Inl e \<Rightarrow> Some (Inl (OpError ''read config'' e), sys')
         | Inr b \<Rightarrow> do {
             b \<leftarrow> toJSON True b;
             Some (map_sum (OpError ''decode config'') id (Unmarshal sys reject b), sys')
           })"

section \<open>The flags\<close>

text \<open>
  What \<^verbatim>\<open>flag.Parse\<close> leaves behind; \<open>fgArgs\<close>: the arguments that are no flags. The flags for the number of
  processors and for the collection of garbage have no part in what follows.
\<close>

record flags =
  fgLogLevel :: level
  fgConfigs :: "string list"
  fgLogOutput :: string
  fgSocks5 :: string
  fgHttp :: string
  fgSNI :: string
  fgReject :: bool
  fgLicense :: bool
  fgVersion :: bool
  fgArgs :: "string list"

text \<open>\<^verbatim>\<open>Set\<close> of the flag for the configurations, which may be given more than once.\<close>

definition string_array_set :: "string \<Rightarrow> string list \<Rightarrow> error + string list" where
  "string_array_set value s = (if value = [] then Inl (NewError ''empty string'') else Inr (s @ [value]))"

definition config_paths :: "string list \<Rightarrow> string \<Rightarrow> string list" where
  "config_paths paths env = (if paths = [] then (if env = [] then [''config.json''] else [env]) else paths)"

definition ptrOrNil :: "string \<Rightarrow> string option" where
  "ptrOrNil s = (if s = [] then None else Some s)"

definition empty_config :: config where
  "empty_config = \<lparr>cfgLogLevel = LevelUnset, cfgLogOutput = None, cfgSocks5Addr = None, cfgHttpAddr = None,
     cfgSNIProxyAddr = None, cfgBinding = None, cfgDNS = None, cfgTTL = None, cfgIPPools = [], cfgHosts = empty_omap,
     cfgDefaultPolicy = None, cfgDomainPolicies = empty_omap, cfgIPPolicies = empty_omap\<rparr>"

definition flag_config :: "flags \<Rightarrow> config" where
  "flag_config fl =
     empty_config\<lparr>cfgLogLevel := fgLogLevel fl, cfgLogOutput := ptrOrNil (fgLogOutput fl),
       cfgSocks5Addr := ptrOrNil (fgSocks5 fl), cfgHttpAddr := ptrOrNil (fgHttp fl), cfgSNIProxyAddr := ptrOrNil (fgSNI fl)\<rparr>"

section \<open>The program\<close>

text \<open>
  How the program ends before it serves, with the arguments of what it prints: the usage, when there
  are arguments that are no flags; the version; the licence; or what failed, with the status 1.
\<close>

datatype failure =
    Usage
  | ShowVersion
  | ShowLicense
  | LoadFailed string error
  | MergeFailed string error
  | BuildFailed error

fun load_configs :: "system \<Rightarrow> bool \<Rightarrow> string list \<Rightarrow> builder \<Rightarrow> (failure + builder) option" where
  "load_configs sys reject [] b = Some (Inr b)"
| "load_configs sys reject (path # paths) b =
     do {
       (r, sys) \<leftarrow> configFromFile sys reject path;
       (case r of
          Inl e \<Rightarrow> Some (Inl (LoadFailed path e))
        | Inr cfg \<Rightarrow> do {
            m \<leftarrow> Merge cfg b;
            (case m of Inl e \<Rightarrow> Some (Inl (MergeFailed path e)) | Inr b \<Rightarrow> load_configs sys reject paths b)
          })
     }"

definition start_server :: "system \<Rightarrow> flags \<Rightarrow> 'n build_env \<Rightarrow> 'n \<Rightarrow> ((failure + built) \<times> 'n) option" where
  "start_server sys fl en n =
     do {
       r \<leftarrow> load_configs sys (fgReject fl) (config_paths (fgConfigs fl) (sysConfigEnv sys)) NewBuilder;
       (case r of
          Inl e \<Rightarrow> Some (Inl e, n)
        | Inr b \<Rightarrow> do {
            m \<leftarrow> Merge (flag_config fl) b;
            (case m of
               Inl e \<Rightarrow> None
             | Inr b \<Rightarrow> do { (r, n) \<leftarrow> Build en b n; Some (map_sum BuildFailed id r, n) })
          })
     }"

definition main_program :: "system \<Rightarrow> flags \<Rightarrow> 'n build_env \<Rightarrow> 'n \<Rightarrow> ((failure + built) \<times> 'n) option" where
  "main_program sys fl en n =
     (if fgArgs fl \<noteq> [] then Some (Inl Usage, n)
      else if fgVersion fl then Some (Inl ShowVersion, n)
      else if fgLicense fl then Some (Inl ShowLicense, n)
      else start_server sys fl en n)"

end
