(* ===== verification/Jsonc_Spec.thy ===== *)
theory Jsonc_Spec
  imports Jsonc
begin

text \<open>
  What the stripping of comments promises: both variants give the same text, which has the
  length and the line breaks of the source and differs from it only in blanks; strings are kept
  as they are, comments go, and so does the comma before a closing bracket.
\<close>

section \<open>Only blanks are put in\<close>

definition blank_ok :: "byte \<Rightarrow> byte \<Rightarrow> bool" where
  "blank_ok d s \<longleftrightarrow> d = s \<or> d = 32 \<and> s \<noteq> 10"

definition blanked :: "bytes \<Rightarrow> bytes \<Rightarrow> bool" where
  "blanked src dst \<longleftrightarrow> length dst \<le> length src \<and> (\<forall>j < length dst. blank_ok (dst ! j) (src ! j))"

lemma cell_new [simp]: "length dst \<le> j \<Longrightarrow> cell shared src dst j = src ! j"
  by (simp add: cell_def)

lemma cell_same: "dst ! j = src ! j \<Longrightarrow> cell shared src dst j = src ! j"
  by (simp add: cell_def)

lemma blank_ok_refl [simp]: "blank_ok c c"
  by (simp add: blank_ok_def)

lemma blanked_snoc:
  "blanked src dst \<Longrightarrow> length dst < length src \<Longrightarrow> blank_ok c (src ! length dst) \<Longrightarrow> blanked src (dst @ [c])"
  by (auto simp: blanked_def nth_append less_Suc_eq)

lemma blanked_snoc2:
  "blanked src dst \<Longrightarrow> length dst + 1 < length src \<Longrightarrow> blank_ok c (src ! length dst) \<Longrightarrow> blank_ok d (src ! (length dst + 1)) \<Longrightarrow>
   blanked src (dst @ [c, d])"
  using blanked_snoc [of src "dst @ [c]" d] blanked_snoc [of src dst c] by simp

lemma blanked_update:
  "blanked src dst \<Longrightarrow> (j < length dst \<Longrightarrow> blank_ok c (src ! j)) \<Longrightarrow> blanked src (dst[j := c])"
  unfolding blanked_def by (metis length_list_update nth_list_update_eq nth_list_update_neq)

section \<open>The inner loops\<close>

lemma line_comment_ok:
  assumes "blanked src dst" and "length dst = i"
  shows "line_comment shared src i dst = line_comment False src i dst \<and> blanked src (snd (line_comment shared src i dst)) \<and>
    length (snd (line_comment shared src i dst)) = min (fst (line_comment shared src i dst) + 1) (length src)"
  using assms
proof (induction shared src i dst rule: line_comment.induct)
  case (1 shared src i dst)
  show ?case
  proof (cases "i < length src \<and> src ! i \<noteq> 10")
    case True
    define c where "c = (if src ! i = 9 \<or> src ! i = 13 then src ! i else 32)"
    have e: "line_comment b src i dst = line_comment b src (i + 1) (dst @ [c])" for b
      using True 1(3) by (subst line_comment.simps) (simp add: Let_def c_def)
    have "blanked src (dst @ [c])" using True 1(2,3) by (intro blanked_snoc) (auto simp: blank_ok_def c_def)
    then show ?thesis using 1(1) [of "src ! i"] True 1(3) unfolding e c_def [symmetric] by auto
  next
    case False
    then have e: "line_comment b src i dst = (if i < length src then (i, dst @ [10]) else (i, dst))" for b
      using 1(3) by (subst line_comment.simps) (auto simp: Let_def)
    have "blanked src (dst @ [10])" if "i < length src" using False 1(2,3) that by (intro blanked_snoc) auto
    moreover have "length dst \<le> length src" using 1(2) by (simp add: blanked_def)
    ultimately show ?thesis using False 1(2,3) unfolding e by auto
  qed
qed

lemma block_comment_ok:
  assumes "blanked src dst" and "length dst = i" and "block_comment shared src i dst = (k, d, closed)"
  shows "block_comment False src i dst = (k, d, closed) \<and> blanked src d \<and> length d = min (k + 1) (length src) \<and> i \<le> length d"
  using assms
proof (induction shared src i dst rule: block_comment.induct)
  case (1 shared src i dst)
  let ?stop = "i + 1 < length src \<and> src ! i = 42 \<and> src ! (i + 1) = 47"
  let ?c = "if src ! i = 10 \<or> src ! i = 9 \<or> src ! i = 13 then src ! i else 32"
  have e: "block_comment b src i dst = (if i < length src then if ?stop then (i + 1, dst @ [32, 32], True)
      else block_comment b src (i + 1) (dst @ [?c]) else (i, dst, False))" for b
    using 1(3) by (subst block_comment.simps) (auto simp: Let_def)
  show ?case
  proof (cases "i < length src \<and> \<not> ?stop")
    case True
    have "blanked src (dst @ [?c])" using True 1(2,3) by (intro blanked_snoc) (auto simp: blank_ok_def)
    moreover have "block_comment shared src (i + 1) (dst @ [?c]) = (k, d, closed)" using True 1(4) unfolding e by (auto split: if_splits)
    ultimately have "block_comment False src (i + 1) (dst @ [?c]) = (k, d, closed) \<and> blanked src d \<and>
        length d = min (k + 1) (length src) \<and> i + 1 \<le> length d"
      using 1(1) [of "src ! i"] True 1(3) by auto
    then show ?thesis using True unfolding e by auto
  next
    case False
    have "blanked src (dst @ [32, 32])" if "?stop" using 1(2,3) that by (intro blanked_snoc2) (auto simp: blank_ok_def)
    moreover have "length dst \<le> length src" using 1(2) by (simp add: blanked_def)
    ultimately show ?thesis using False 1(2-4) unfolding e by (auto split: if_splits)
  qed
qed

lemma slashes_cong:
  assumes "q < i" and "f q \<noteq> 92" and "\<And>j. q \<le> j \<Longrightarrow> j < i \<Longrightarrow> f j = g j"
  shows "slashes f i = slashes g i \<and> (\<exists>n. slashes g i = Some n)"
  using assms
proof (induction i)
  case (Suc i)
  then show ?case by (cases "q = i") auto
qed simp

text \<open>In a string what was written is what was read, from the opening quote on.\<close>

definition verbatim_from :: "nat \<Rightarrow> bytes \<Rightarrow> bytes \<Rightarrow> bool" where
  "verbatim_from q src dst \<longleftrightarrow> q < length dst \<and> src ! q = 34 \<and> (\<forall>j. q \<le> j \<and> j < length dst \<longrightarrow> dst ! j = src ! j)"

lemma verbatim_slashes:
  assumes "verbatim_from q src dst" and "i < length dst" and "q < i"
  shows "slashes (cell shared src dst) i = slashes ((!) src) i" and "\<exists>n. slashes ((!) src) i = Some n"
  using slashes_cong [of q i "cell shared src dst" "(!) src"] assms by (auto simp: verbatim_from_def cell_same)

lemma string_loop_ok:
  assumes "blanked src dst" and "length dst = i" and "verbatim_from q src dst"
  shows "\<exists>k d. string_loop shared src i dst = Some (k, d) \<and> string_loop False src i dst = Some (k, d) \<and> blanked src d \<and>
    length d = min (k + 1) (length src)"
  using assms
proof (induction shared src i dst rule: string_loop.induct)
  case (1 shared src i dst)
  show ?case
  proof (cases "i < length src")
    case True
    define dd where "dd = dst @ [src ! i]"
    have v: "verbatim_from q src dd" using 1(5) 1(4) by (auto simp: dd_def verbatim_from_def nth_append less_Suc_eq)
    have b: "blanked src dd" using 1(3,4) True unfolding dd_def by (intro blanked_snoc) auto
    have q: "q < i" using 1(4,5) by (simp add: verbatim_from_def)
    have c: "cell s src dd i = src ! i" for s using 1(4) by (intro cell_same) (simp add: nth_append dd_def)
    have sl: "slashes (cell s src dd) i = slashes ((!) src) i" for s using verbatim_slashes(1) [OF v _ q] 1(4) by (simp add: dd_def)
    obtain n where n: "slashes ((!) src) i = Some n" using verbatim_slashes(2) [OF v _ q] 1(4) by (auto simp: dd_def)
    have e: "string_loop s src i dst = (if src ! i = 34 \<and> even n then Some (i, dd) else string_loop s src (i + 1) dd)" for s
      using True 1(4) c n sl by (subst string_loop.simps) (simp add: Let_def dd_def [symmetric])
    show ?thesis
    proof (cases "src ! i = 34 \<and> even n")
      case True
      then show ?thesis using b 1(4) \<open>i < length src\<close> unfolding e by (auto simp: dd_def)
    next
      case False
      have ci: "cell shared src dst i = src ! i" using 1(4) by simp
      have "\<exists>k d. string_loop shared src (i + 1) dd = Some (k, d) \<and> string_loop False src (i + 1) dd = Some (k, d) \<and> blanked src d \<and>
          length d = min (k + 1) (length src)"
      proof (cases "src ! i = 34")
        case True
        then show ?thesis using 1(1) [OF \<open>i < length src\<close> refl, unfolded ci dd_def [symmetric] c sl, OF True n] False b v 1(4) by (simp add: dd_def)
      next
        case ni: False
        then show ?thesis using 1(2) [OF \<open>i < length src\<close> refl, unfolded ci dd_def [symmetric] c, OF ni] b v 1(4) by (simp add: dd_def)
      qed
      then show ?thesis using False unfolding e by auto
    qed
  next
    case False
    then have "string_loop s src i dst = Some (i, dst)" for s by (subst string_loop.simps) simp
    then show ?thesis using 1(3,4) False by (auto simp: blanked_def)
  qed
qed

lemma blank_comma_ok:
  assumes "blanked src dst" and "j \<le> length dst"
  shows "blanked src (blank_comma j dst) \<and> length (blank_comma j dst) = length dst"
  using assms
proof (induction j)
  case (Suc j)
  have "blank_ok (dst ! j) (src ! j)" using Suc.prems by (simp add: blanked_def)
  then have "dst ! j = 44 \<Longrightarrow> blank_ok 32 (src ! j)" by (auto simp: blank_ok_def)
  then show ?case using Suc by (auto intro: blanked_update)
qed simp

section \<open>The whole\<close>

lemma json_loop_ok:
  assumes "blanked src dst" and "length dst = min i (length src)"
  shows "\<exists>out. json_loop shared src i dst = Some out \<and> json_loop False src i dst = Some out \<and> blanked src out \<and> length out = length src"
  using assms
proof (induction shared src i dst rule: json_loop.induct)
  case (1 shared src i dst)
  show ?case
  proof (cases "i < length src")
    case False
    then have "json_loop s src i dst = Some dst" for s by (subst json_loop.simps) simp
    then show ?thesis using False 1(7,8) by (auto simp: min_def split: if_splits)
  next
    case i: True
    then have len: "length dst = i" using 1(8) by simp
    have c: "cell s src dst i = src ! i" "cell s src dst (i + 1) = src ! (i + 1)" for s using len by simp_all
    have b1: "blanked src (dst @ [src ! i])" using 1(7) len i by (intro blanked_snoc) auto
    have b2: "blanked src (dst @ [32, 32])" if "src ! i = 47" "i + 1 < length src" "src ! (i + 1) \<noteq> 10"
      using 1(7) len that by (intro blanked_snoc2) (auto simp: blank_ok_def)
    consider (line) "src ! i = 47 \<and> i + 1 < length src \<and> src ! (i + 1) = 47"
      | (block) "src ! i = 47 \<and> i + 1 < length src \<and> src ! (i + 1) = 42"
      | (quote) "src ! i = 34" | (bracket) "src ! i = 125 \<or> src ! i = 93"
      | (other) "\<not> (src ! i = 47 \<and> i + 1 < length src \<and> (src ! (i + 1) = 47 \<or> src ! (i + 1) = 42))" "src ! i \<notin> {34, 125, 93}"
      by auto
    then show ?thesis
    proof cases
      case line
      obtain k d where kd: "line_comment shared src (i + 2) (dst @ [32, 32]) = (k, d)" by fastforce
      then have l: "line_comment False src (i + 2) (dst @ [32, 32]) = (k, d)" "blanked src d" "length d = min (k + 1) (length src)"
        using line_comment_ok [OF b2, of "i + 2" shared] line len by auto
      have e: "json_loop s src i dst = json_loop s src (k + 1) d" if "line_comment s src (i + 2) (dst @ [32, 32]) = (k, d)" for s
        using i line c that by (subst json_loop.simps) simp
      show ?thesis using 1(1) [OF i] line c l kd unfolding e [OF kd] e [OF l(1)] by simp
    next
      case block
      then have nl: "\<not> (src ! i = 47 \<and> i + 1 < length src \<and> src ! (i + 1) = 47)" by simp
      obtain k d closed where kd: "block_comment shared src (i + 2) (dst @ [32, 32]) = (k, d, closed)" by (metis prod_cases3)
      then have l: "block_comment False src (i + 2) (dst @ [32, 32]) = (k, d, closed)" "blanked src d" "length d = min (k + 1) (length src)"
          "i + 2 \<le> length d"
        using block_comment_ok [OF b2 _ kd] block len by auto
      let ?d = "if closed then d else d[i := 47, i + 1 := 42]"
      have bd: "blanked src ?d" using l(2) block by (auto intro!: blanked_update)
      have e: "json_loop s src i dst = json_loop s src (k + 1) ?d" if "block_comment s src (i + 2) (dst @ [32, 32]) = (k, d, closed)" for s
        using i block c that l(4) by (subst json_loop.simps) simp
      have "\<exists>out. json_loop shared src (k + 1) ?d = Some out \<and> json_loop False src (k + 1) ?d = Some out \<and> blanked src out \<and> length out = length src"
        using 1(2) [OF i _ _ kd [symmetric] refl] 1(3) [OF i _ _ kd [symmetric] refl] nl block c bd l(3,4) by (cases closed) simp_all
      then show ?thesis unfolding e [OF kd] e [OF l(1)] .
    next
      case quote
      have v: "verbatim_from i src (dst @ [src ! i])" using len quote by (auto simp: verbatim_from_def nth_append less_Suc_eq)
      obtain k d where kd: "string_loop shared src (i + 1) (dst @ [src ! i]) = Some (k, d)"
          "string_loop False src (i + 1) (dst @ [src ! i]) = Some (k, d)" "blanked src d" "length d = min (k + 1) (length src)"
        using string_loop_ok [OF b1 _ v, of "i + 1" shared] len by auto
      have e: "json_loop s src i dst = json_loop s src (k + 1) d" if "string_loop s src (i + 1) (dst @ [src ! i]) = Some (k, d)" for s
        using i quote c that by (subst json_loop.simps) simp
      show ?thesis using 1(4) [OF i _ _ refl refl, of "(k, d)" k d] quote c kd unfolding e [OF kd(1)] e [OF kd(2)] by simp
    next
      case bracket
      let ?d = "blank_comma i (dst @ [src ! i])"
      have bd: "blanked src ?d" "length ?d = i + 1" using blank_comma_ok [OF b1, of i] len by simp_all
      have e: "json_loop s src i dst = json_loop s src (i + 1) ?d" for s
        using i bracket c len by (subst json_loop.simps) auto
      show ?thesis using 1(5) [OF i _ _ refl refl] bracket c len bd i unfolding e by auto
    next
      case other
      let ?d = "dst @ [src ! i]"
      have e: "json_loop s src i dst = json_loop s src (i + 1) ?d" for s
        using i other c by (subst json_loop.simps) auto
      show ?thesis using 1(6) [OF i _ _ refl refl] other c len b1 i unfolding e by auto
    qed
  qed
qed

lemma toJSON_ok:
  "\<exists>out. toJSON True src = Some out \<and> toJSON False src = Some out \<and> blanked src out \<and> length out = length src"
  unfolding toJSON_def using json_loop_ok [of src "[]" 0 True] by (simp add: blanked_def)

text \<open>
  C21. Both variants return the same text for every source, terminated or not: it has the length
  of the source, each byte is that of the source or a blank, and the line breaks are where they
  were, so that positions in error messages stay right.
\<close>

theorem jsonc_only_blanks:
  "\<exists>out. toJSON True src = Some out \<and> toJSON False src = Some out \<and> length out = length src \<and>
     (\<forall>j < length src. (out ! j = src ! j \<or> out ! j = 32) \<and> (out ! j = 10 \<longleftrightarrow> src ! j = 10))"
  using toJSON_ok [of src] by (fastforce simp: blanked_def blank_ok_def)

section \<open>Pieces of a source\<close>

text \<open>
  A source in pieces: strings, comments, brackets, and other bytes, with what each becomes after
  the text \<open>dst\<close>.
\<close>

datatype piece = Raw byte | Bracket byte | Str bytes | Line_Comment bytes | Block_Comment bytes

fun string_body :: "bytes \<Rightarrow> bool" where
  "string_body [] = True"
| "string_body [c] = (c \<noteq> 34 \<and> c \<noteq> 92)"
| "string_body (c # d # cs) = (if c = 92 then string_body cs else c \<noteq> 34 \<and> string_body (d # cs))"

fun piece_ok :: "piece \<Rightarrow> bool" where
  "piece_ok (Raw c) = (c \<notin> {34, 47, 125, 93})"
| "piece_ok (Bracket c) = (c \<in> {125, 93})"
| "piece_ok (Str b) = string_body b"
| "piece_ok (Line_Comment b) = (10 \<notin> set b)"
| "piece_ok (Block_Comment b) = (\<forall>k < length b. \<not> ((b @ [42, 47]) ! k = 42 \<and> (b @ [42, 47]) ! (k + 1) = 47))"

fun piece_text :: "piece \<Rightarrow> bytes" where
  "piece_text (Raw c) = [c]"
| "piece_text (Bracket c) = [c]"
| "piece_text (Str b) = [34] @ b @ [34]"
| "piece_text (Line_Comment b) = [47, 47] @ b @ [10]"
| "piece_text (Block_Comment b) = [47, 42] @ b @ [42, 47]"

definition drop_comma :: "bytes \<Rightarrow> bytes" where
  "drop_comma dst = (case dropWhile (\<lambda>c. c \<le> 32) (rev dst) of
     x # r \<Rightarrow> (if x = 44 then rev r @ [32] @ rev (takeWhile (\<lambda>c. c \<le> 32) (rev dst)) else dst)
   | [] \<Rightarrow> dst)"

fun piece_emit :: "bytes \<Rightarrow> piece \<Rightarrow> bytes" where
  "piece_emit dst (Raw c) = dst @ [c]"
| "piece_emit dst (Bracket c) = drop_comma dst @ [c]"
| "piece_emit dst (Str b) = dst @ [34] @ b @ [34]"
| "piece_emit dst (Line_Comment b) = dst @ [32, 32] @ map (\<lambda>c. if c = 9 \<or> c = 13 then c else 32) b @ [10]"
| "piece_emit dst (Block_Comment b) = dst @ [32, 32] @ map (\<lambda>c. if c = 10 \<or> c = 9 \<or> c = 13 then c else 32) b @ [32, 32]"

lemma drop_comma_snoc:
  "drop_comma (ys @ [w]) = (if w \<le> 32 then drop_comma ys @ [w] else if w = 44 then ys @ [32] else ys @ [w])"
  by (cases "dropWhile (\<lambda>c. c \<le> 32) (rev ys)") (simp_all add: drop_comma_def del: dropWhile_eq_Nil_conv)

lemma blank_comma_take: "j \<le> length xs \<Longrightarrow> blank_comma j xs = drop_comma (take j xs) @ drop j xs"
proof (induction j)
  case 0
  then show ?case by (simp add: drop_comma_def)
next
  case (Suc j)
  then have t: "take (Suc j) xs = take j xs @ [xs ! j]" "drop j xs = xs ! j # drop (Suc j) xs"
    by (simp_all add: take_Suc_conv_app_nth Cons_nth_drop_Suc)
  have u: "xs[j := 32] = take j xs @ [32] @ drop (Suc j) xs" "xs = take j xs @ [xs ! j] @ drop (Suc j) xs"
    using Suc.prems t by (simp_all add: upd_conv_take_nth_drop id_take_nth_drop)
  show ?case
    using Suc t u by (auto simp: drop_comma_snoc)
qed

lemma cell_False [simp]: "cell False src dst = (!) src"
  by (simp add: cell_def fun_eq_iff)

lemma line_comment_text:
  "src = pre @ b @ 10 # rest \<Longrightarrow> 10 \<notin> set b \<Longrightarrow> line_comment False src (length pre) dst =
     (length pre + length b, dst @ map (\<lambda>c. if c = 9 \<or> c = 13 then c else 32) b @ [10])"
proof (induction b arbitrary: pre dst)
  case Nil
  then show ?case by (subst line_comment.simps) (simp add: nth_append)
next
  case (Cons c b)
  then show ?case using Cons.IH [of "pre @ [c]"]
    by (subst line_comment.simps) (simp add: nth_append Let_def)
qed

lemma block_comment_text:
  "src = pre @ b @ 42 # 47 # rest \<Longrightarrow> piece_ok (Block_Comment b) \<Longrightarrow> block_comment False src (length pre) dst =
     (length pre + length b + 1, dst @ map (\<lambda>c. if c = 10 \<or> c = 9 \<or> c = 13 then c else 32) b @ [32, 32], True)"
proof (induction b arbitrary: pre dst)
  case Nil
  then show ?case by (subst block_comment.simps) (simp add: nth_append)
next
  case (Cons c b)
  have ok: "piece_ok (Block_Comment b)" using Cons.prems(2) by (auto dest!: spec [of _ "Suc _"])
  have "\<not> (c = 42 \<and> (b @ [42, 47]) ! 0 = 47)" using Cons.prems(2) by (auto dest!: spec [of _ "0 :: nat"])
  then have "\<not> (src ! length pre = 42 \<and> src ! (length pre + 1) = 47)"
    using Cons.prems(1) by (cases b) (auto simp: nth_append)
  then show ?case using Cons.IH [of "pre @ [c]"] Cons.prems(1) ok
    by (subst block_comment.simps) (auto simp: nth_append Let_def)
qed

lemma slashes_Suc: "slashes f j = Some n \<Longrightarrow> slashes f (Suc j) = Some (if f j = 92 then Suc n else 0)"
  by simp

lemma string_loop_more:
  assumes "i < length src" and "src ! i \<noteq> 34 \<or> (\<exists>n. slashes ((!) src) i = Some n \<and> odd n)"
  shows "string_loop False src i dst = string_loop False src (i + 1) (dst @ [src ! i])"
  using assms by (subst string_loop.simps) (auto simp: Let_def)

lemma string_loop_end:
  "i < length src \<Longrightarrow> src ! i = 34 \<Longrightarrow> slashes ((!) src) i = Some n \<Longrightarrow> even n \<Longrightarrow>
   string_loop False src i dst = Some (i, dst @ [34])"
  by (subst string_loop.simps) (simp add: Let_def)

lemma string_loop_text:
  "src = pre @ b @ 34 # rest \<Longrightarrow> string_body b \<Longrightarrow> slashes ((!) src) (length pre) = Some n \<Longrightarrow> even n \<Longrightarrow>
   string_loop False src (length pre) dst = Some (length pre + length b, dst @ b @ [34])"
proof (induction b arbitrary: pre dst n rule: string_body.induct)
  case 1
  then have "length pre < length src" "src ! length pre = 34" by (simp_all add: nth_append)
  with 1 show ?case using string_loop_end [of "length pre" src n dst] by simp
next
  case (2 c)
  have "string_loop False src (length pre) dst = string_loop False src (length (pre @ [c])) (dst @ [c])"
    using 2 string_loop_more [of "length pre" src dst] by (simp add: nth_append)
  moreover have "slashes ((!) src) (length (pre @ [c])) = Some 0" using 2 by (simp add: nth_append)
  moreover have "string_loop False src (length (pre @ [c])) (dst @ [c]) = Some (length (pre @ [c]), (dst @ [c]) @ [34])"
    using 2(1) calculation(2) string_loop_end [of "length (pre @ [c])" src 0 "dst @ [c]"] by (simp add: nth_append)
  ultimately show ?case by simp
next
  case (3 c d cs)
  show ?case
  proof (cases "c = 92")
    case True
    let ?p = "pre @ [c, d]"
    have s1: "slashes ((!) src) (length pre + 1) = Some (Suc n)" 
    proof -
      have "src ! length pre = 92" using 3(3) True by simp
      then show ?thesis using slashes_Suc [OF 3(5)] by simp
    qed
    have s2: "\<exists>m. slashes ((!) src) (length ?p) = Some m \<and> even m"
      using slashes_Suc [OF s1] 3(6) by (auto simp del: slashes.simps split: if_splits)
    have "string_loop False src (length pre) dst = string_loop False src (length pre + 1) (dst @ [c])"
      using 3(3) True string_loop_more [of "length pre" src dst] by (simp add: nth_append)
    also have "\<dots> = string_loop False src (length ?p) (dst @ [c, d])"
      using 3(3,6) s1 string_loop_more [of "length pre + 1" src "dst @ [c]"] by (simp add: nth_append)
    finally show ?thesis using 3(1) [of ?p _ "dst @ [c, d]"] 3(3,4) s2 True by auto
  next
    case False
    let ?p = "pre @ [c]"
    have s1: "slashes ((!) src) (length ?p) = Some 0"
    proof -
      have "src ! length pre = c" using 3(3) by simp
      then show ?thesis using slashes_Suc [OF 3(5)] False by simp
    qed
    have "string_loop False src (length pre) dst = string_loop False src (length ?p) (dst @ [c])"
      using 3(3,4) False string_loop_more [of "length pre" src dst] by (simp add: nth_append)
    then show ?thesis using 3(2) [of ?p 0 "dst @ [c]"] 3(3,4) s1 False by auto
  qed
qed

text \<open>One round of the outer loop per piece.\<close>

lemma json_loop_piece:
  assumes "src = pre @ piece_text p @ rest" and "piece_ok p" and "length dst = length pre"
  shows "json_loop False src (length pre) dst = json_loop False src (length pre + length (piece_text p)) (piece_emit dst p)"
proof (cases p)
  case (Raw c)
  then show ?thesis using assms by (subst json_loop.simps) (auto simp: nth_append Let_def)
next
  case (Bracket c)
  have "blank_comma (length dst) (dst @ [c]) = drop_comma dst @ [c]" using blank_comma_take [of "length dst" "dst @ [c]"] by simp
  then show ?thesis using Bracket assms by (subst json_loop.simps) (auto simp: nth_append Let_def)
next
  case (Str b)
  have "slashes ((!) src) (length (pre @ [34])) = Some 0" using Str assms(1) by (simp add: nth_append)
  then have "string_loop False src (length (pre @ [34])) (dst @ [34]) = Some (length (pre @ [34]) + length b, (dst @ [34]) @ b @ [34])"
    using Str assms by (intro string_loop_text [of _ _ _ rest]) auto
  then show ?thesis using Str assms by (subst json_loop.simps) (simp add: nth_append Let_def)
next
  case (Line_Comment b)
  have "line_comment False src (length (pre @ [47, 47])) (dst @ [32, 32]) =
      (length (pre @ [47, 47]) + length b, (dst @ [32, 32]) @ map (\<lambda>c. if c = 9 \<or> c = 13 then c else 32) b @ [10])"
    using Line_Comment assms by (intro line_comment_text [of _ _ _ rest]) auto
  then show ?thesis using Line_Comment assms by (subst json_loop.simps) (simp add: nth_append Let_def)
next
  case (Block_Comment b)
  have "block_comment False src (length (pre @ [47, 42])) (dst @ [32, 32]) =
      (length (pre @ [47, 42]) + length b + 1,
       (dst @ [32, 32]) @ map (\<lambda>c. if c = 10 \<or> c = 9 \<or> c = 13 then c else 32) b @ [32, 32], True)"
    using Block_Comment assms by (intro block_comment_text [of _ _ _ rest]) auto
  then show ?thesis using Block_Comment assms by (subst json_loop.simps) (simp add: nth_append Let_def)
qed

lemma drop_comma_length [simp]: "length (drop_comma dst) = length dst"
proof (cases "dropWhile (\<lambda>c. c \<le> 32) (rev dst)")
  case (Cons x r)
  have "length (takeWhile (\<lambda>c. c \<le> 32) (rev dst)) + length (x # r) = length dst"
    using arg_cong [OF takeWhile_dropWhile_id [of "\<lambda>c. c \<le> 32" "rev dst"], of length] Cons by simp
  then show ?thesis using Cons by (simp add: drop_comma_def)
qed (simp add: drop_comma_def del: dropWhile_eq_Nil_conv)

lemma piece_emit_length: "length (piece_emit dst p) = length dst + length (piece_text p)"
  by (cases p) auto

lemma json_loop_pieces:
  "src = pre @ concat (map piece_text ps) \<Longrightarrow> list_all piece_ok ps \<Longrightarrow> length dst = length pre \<Longrightarrow>
   json_loop False src (length pre) dst = Some (foldl piece_emit dst ps)"
proof (induction ps arbitrary: pre dst)
  case Nil
  then show ?case by (subst json_loop.simps) simp
next
  case (Cons p ps)
  have "json_loop False src (length pre) dst = json_loop False src (length (pre @ piece_text p)) (piece_emit dst p)"
    using json_loop_piece [of src pre p "concat (map piece_text ps)" dst] Cons.prems by simp
  then show ?case using Cons.IH [of "pre @ piece_text p" "piece_emit dst p"] Cons.prems by (simp add: piece_emit_length)
qed

text \<open>
  C20. A source that is read as strings, comments, brackets and other bytes becomes: its strings
  unchanged, whatever looks like a comment or a comma in them; its comments blank but for line
  breaks; a bracket with the last comma before it blank, if only blanks stand between; and the
  other bytes unchanged.
\<close>

theorem jsonc_pieces:
  assumes "list_all piece_ok ps"
  shows "toJSON shared (concat (map piece_text ps)) = Some (foldl piece_emit [] ps)"
  using json_loop_pieces [of "concat (map piece_text ps)" "[]" ps "[]"] assms toJSON_ok [of "concat (map piece_text ps)"]
  by (cases shared) (auto simp: toJSON_def)

text \<open>\<^verbatim>\<open>["//",]\<close> and a comment after it.\<close>

theorem jsonc_pieces_witness:
  "toJSON True [91, 34, 47, 47, 34, 44, 93, 47, 47, 120, 10] = Some [91, 34, 47, 47, 34, 32, 93, 32, 32, 32, 10]"
  using jsonc_pieces [of "[Raw 91, Str [47, 47], Raw 44, Bracket 93, Line_Comment [120]]" True]
  by (simp add: drop_comma_def)

theorem jsonc_only_blanks_witness:
  "\<exists>out. toJSON True [47, 42, 10] = Some out \<and> toJSON False [47, 42, 10] = Some out \<and> length out = 3 \<and> out ! 2 = 10"
  using jsonc_only_blanks [of "[47, 42, 10]"] by (auto simp: numeral_3_eq_3 numeral_2_eq_2 less_Suc_eq)

end
