(* ===== verification/Builder_Spec.thy ===== *)
theory Builder_Spec
  imports Program Jsonc_Spec
begin

text \<open>
  What the configuration gives: the tables hold the last matching entry, what is stored is in
  order, and a server that has been built routes every request without a panic.
\<close>

section \<open>Loops that may fail\<close>

lemma and_then_Inr: "and_then m k = Some (Inr y) \<longleftrightarrow> (\<exists>x. m = Some (Inr x) \<and> k x = Some (Inr y))"
  by (auto simp: and_then_def split: option.splits sum.splits)

lemma each_entry_keeps:
  assumes "\<And>s v x y. (s, v) \<in> set es \<Longrightarrow> f s v x = Some (Inr y) \<Longrightarrow> P x \<Longrightarrow> P y"
  shows "each_entry f es x = Some (Inr y) \<Longrightarrow> P x \<Longrightarrow> P y"
  using assms
proof (induction es arbitrary: x)
  case (Cons e es)
  obtain s v where e: "e = (s, v)" by (cases e)
  obtain z where z: "f s v x = Some (Inr z)" "each_entry f es z = Some (Inr y)"
    using Cons.prems(1) by (auto simp: e and_then_Inr)
  show ?case
  proof (rule Cons.IH [OF z(2)])
    show "P z" using Cons.prems(3) [OF _ z(1) Cons.prems(2)] e by simp
    show "\<And>s v x y. (s, v) \<in> set es \<Longrightarrow> f s v x = Some (Inr y) \<Longrightarrow> P x \<Longrightarrow> P y"
      using Cons.prems(3) by (meson list.set_intros(2))
  qed
qed simp

section \<open>Policies of the configuration\<close>

definition options_ok :: "policy_options \<Rightarrow> bool" where
  "options_ok v \<longleftrightarrow> dst_ok (oHost v) \<and> dst_ok (oMapTo v) \<and> oDNSMode v \<in> resolver_modes"

lemma newPolicy_ok:
  assumes "newPolicy v = Inr p" and "options_ok v"
  shows "policy_ok resolver_modes p"
proof -
  have "accepts (newPolicy v) (policy_ok resolver_modes)"
    unfolding newPolicy_def Let_def
    by (intro accepts_check)
      (use assms(2) in \<open>auto simp: accepts_def policy_ok_def wf_policy_def unsetInt_def policy_init_def zero_policy_def
        options_ok_def dst_ok_def\<close>)
  then show ?thesis using assms(1) by (simp add: accepts_def)
qed

lemma with_policy_Inr:
  "with_policy patterns v k = Some (Inr y) \<longleftrightarrow> (\<exists>p. newPolicy v = Inr p \<and> k p = Some (Inr y))"
  by (auto simp: with_policy_def and_then_Inr map_sum_Inr_iff)

section \<open>Tables of names\<close>

definition table_ok :: "('v \<Rightarrow> bool) \<Rightarrow> 'v domain_matcher \<Rightarrow> bool" where
  "table_ok P m \<longleftrightarrow> (\<forall>ls v. exact_at m ls = Some v \<or> wildcard_at m ls = Some v \<longrightarrow> P v)"

lemma table_ok_new [simp]: "table_ok P new_domain_matcher"
  by (simp add: table_ok_def new_domain_matcher_def)

lemma add_pattern_at:
  "exact_at (add_pattern v s m) ls = (case pattern_entry s of Some (k, w, True) \<Rightarrow> if ls = k then Some v else exact_at m ls | _ \<Rightarrow> exact_at m ls)"
  "wildcard_at (add_pattern v s m) ls = (case pattern_entry s of Some (k, True, e) \<Rightarrow> if ls = k then Some v else wildcard_at m ls | _ \<Rightarrow> wildcard_at m ls)"
proof -
  consider "pattern_entry s = None" | k w e where "pattern_entry s = Some (k, w, e)" by (cases "pattern_entry s") auto
  then show "exact_at (add_pattern v s m) ls = (case pattern_entry s of Some (k, w, True) \<Rightarrow> if ls = k then Some v else exact_at m ls | _ \<Rightarrow> exact_at m ls)"
    "wildcard_at (add_pattern v s m) ls = (case pattern_entry s of Some (k, True, e) \<Rightarrow> if ls = k then Some v else wildcard_at m ls | _ \<Rightarrow> wildcard_at m ls)"
    by (cases; force simp: add_pattern_def split: bool.split dest: dm.add_invalid [where v = v and m = m] dm.add_entry [where v = v and m = m])+
qed

lemma add_pattern_ok: "table_ok P m \<Longrightarrow> P v \<Longrightarrow> table_ok P (add_pattern v s m)"
  by (auto simp: table_ok_def add_pattern_at split: option.splits prod.splits bool.splits if_splits)

lemma add_patterns_ok: "add_patterns ps v m = Some (Inr m') \<Longrightarrow> table_ok P m \<Longrightarrow> P v \<Longrightarrow> table_ok P m'"
  unfolding add_patterns_def by (erule each_pattern_keeps [rotated]) (auto intro: add_pattern_ok)

lemma merge_domain_ok:
  assumes "merge_domain ps v m = Some (Inr m')" and "options_ok v" and "table_ok (policy_ok resolver_modes) m"
  shows "table_ok (policy_ok resolver_modes) m'"
proof -
  obtain p where "newPolicy v = Inr p" "add_patterns ps p m = Some (Inr m')"
    using assms(1) by (auto simp: merge_domain_def with_policy_Inr)
  then show ?thesis using add_patterns_ok [OF _ assms(3)] newPolicy_ok [OF _ assms(2)] by blast
qed

section \<open>Tables of addresses\<close>

definition tries_ok :: "policy bit_node \<times> policy bit_node \<Rightarrow> bool" where
  "tries_ok t \<longleftrightarrow> (\<forall>k p. trie_at (fst t) k = Some p \<or> trie_at (snd t) k = Some p \<longrightarrow> policy_ok resolver_modes p)"

lemma insert_ip_ok:
  assumes "insert_ip patterns p s t = Inr t'" and "tries_ok t" and "policy_ok resolver_modes p"
  shows "tries_ok t'"
proof (cases "CHR '':'' \<in> set s")
  case True
  then obtain m where m: "ipv6_insert s p (snd t) = Inr m" "t' = (fst t, m)"
    using assms(1) by (auto simp: insert_ip_def map_sum_Inr_iff)
  obtain k where "\<forall>l. trie_at m l = (if l = k then Some p else trie_at (snd t) l)" by (rule v6.insertD [OF m(1)])
  then show ?thesis using assms(2,3) m(2) by (auto simp: tries_ok_def)
next
  case False
  then obtain m where m: "ipv4_insert s p (fst t) = Inr m" "t' = (m, snd t)"
    using assms(1) by (auto simp: insert_ip_def map_sum_Inr_iff)
  obtain k where "\<forall>l. trie_at m l = (if l = k then Some p else trie_at (fst t) l)" by (rule v4.insertD [OF m(1)])
  then show ?thesis using assms(2,3) m(2) by (auto simp: tries_ok_def)
qed

text \<open>The pattern for all addresses goes to the table of IPv4 alone.\<close>

lemma insert_ip_star: "insert_ip patterns p ''*'' t = Inr (set_node_value p (fst t), snd t)"
  by (simp add: insert_ip_def ipv4_insert_def)

section \<open>The builder\<close>

definition config_ok :: "config \<Rightarrow> bool" where
  "config_ok cfg \<longleftrightarrow>
     (\<forall>v. cfgDefaultPolicy cfg = Some v \<longrightarrow> options_ok v) \<and>
     (\<forall>(s, v) \<in> set (om_all default_options (Some (cfgDomainPolicies cfg))). options_ok v) \<and>
     (\<forall>(s, v) \<in> set (om_all default_options (Some (cfgIPPolicies cfg))). options_ok v) \<and>
     (\<forall>(s, d) \<in> set (om_all zero_dst (Some (cfgHosts cfg))). dst_ok d) \<and>
     (\<forall>(s, v) \<in> set (cfgIPPools cfg). dst_ok (optFallback v)) \<and>
     (\<forall>c. cfgDNS cfg = Some c \<longrightarrow> dcCacheCapacity c \<le> 2 ^ 31) \<and>
     (\<forall>c. cfgTTL cfg = Some c \<longrightarrow> ttlCacheCapacity c \<le> 2 ^ 31)"

definition builder_ok :: "builder \<Rightarrow> bool" where
  "builder_ok b \<longleftrightarrow> policy_ok resolver_modes (bdDefaultPolicy b) \<and> table_ok (policy_ok resolver_modes) (bdDomainPolicies b) \<and>
     tries_ok (bdIPv4Policies b, bdIPv6Policies b) \<and> table_ok dst_ok (bdHosts b) \<and>
     (\<forall>(s, v) \<in> set (bdIPPools b). dst_ok (optFallback v)) \<and> dcCacheCapacity (bdDNS b) \<le> 2 ^ 31 \<and> ttlCacheCapacity (bdTTL b) \<le> 2 ^ 31"

lemma builder_ok_route: "builder_ok b \<Longrightarrow> route_ok resolver_modes (route_of b)"
  by (auto simp: builder_ok_def route_ok_def route_of_def table_ok_def tries_ok_def)

lemma NewBuilder_ok: "builder_ok NewBuilder"
proof -
  have "policy_ok resolver_modes (policy_init zero_policy)"
    by (simp add: policy_ok_def wf_policy_def policy_init_def zero_policy_def unsetInt_def resolver_modes_def)
  then show ?thesis by (simp add: builder_ok_def NewBuilder_def tries_ok_def empty_dns_config_def)
qed

lemma merge_pools_ok:
  assumes "merge_pools new old = Some (Inr pools)" and "\<forall>(s, v) \<in> set new. P v" and "\<forall>(s, v) \<in> set old. P v"
  shows "\<forall>(s, v) \<in> set pools. P v"
proof (cases "old = []")
  case True
  then show ?thesis using assms by (auto simp: merge_pools_def split: if_splits)
next
  case False
  then have "each_entry merge_pool new old = Some (Inr pools)" using assms(1) by (simp add: merge_pools_def)
  then show ?thesis
    by (rule each_entry_keeps [where P = "\<lambda>ps. \<forall>(s, v) \<in> set ps. P v", rotated])
      (use assms(2,3) in \<open>auto simp: merge_pool_def split: if_splits\<close>)
qed

lemma Merge_parts:
  assumes "Merge cfg b = Some (Inr b')"
  obtains pools doms tries hs where
    "merge_pools (cfgIPPools cfg) (bdIPPools b) = Some (Inr pools)" "bdIPPools b' = pools"
    "merge_default (cfgDefaultPolicy cfg) (bdDefaultPolicy b) = Some (Inr (bdDefaultPolicy b'))"
    "each_entry merge_domain (om_all default_options (Some (cfgDomainPolicies cfg))) (bdDomainPolicies b) = Some (Inr doms)"
    "bdDomainPolicies b' = doms"
    "each_entry merge_ip (om_all default_options (Some (cfgIPPolicies cfg))) (bdIPv4Policies b, bdIPv6Policies b) = Some (Inr tries)"
    "(bdIPv4Policies b', bdIPv6Policies b') = tries"
    "each_entry add_patterns (om_all zero_dst (Some (cfgHosts cfg))) (bdHosts b) = Some (Inr hs)" "bdHosts b' = hs"
    "bdDNS b' = (case cfgDNS cfg of Some v \<Rightarrow> v | None \<Rightarrow> bdDNS b)" "bdTTL b' = (case cfgTTL cfg of Some v \<Rightarrow> v | None \<Rightarrow> bdTTL b)"
  using assms unfolding Merge_def and_then_Inr by (elim exE conjE) (simp only: option.inject sum.inject, fastforce)

lemma Merge_ok:
  assumes b: "builder_ok b" and cfg: "config_ok cfg" and m: "Merge cfg b = Some (Inr b')"
  shows "builder_ok b'"
proof -
  obtain pools doms tries hs where
    p: "merge_pools (cfgIPPools cfg) (bdIPPools b) = Some (Inr pools)" "bdIPPools b' = pools" and
    d: "merge_default (cfgDefaultPolicy cfg) (bdDefaultPolicy b) = Some (Inr (bdDefaultPolicy b'))" and
    n: "each_entry merge_domain (om_all default_options (Some (cfgDomainPolicies cfg))) (bdDomainPolicies b) = Some (Inr doms)"
      "bdDomainPolicies b' = doms" and
    i: "each_entry merge_ip (om_all default_options (Some (cfgIPPolicies cfg))) (bdIPv4Policies b, bdIPv6Policies b) = Some (Inr tries)"
      "(bdIPv4Policies b', bdIPv6Policies b') = tries" and
    h: "each_entry add_patterns (om_all zero_dst (Some (cfgHosts cfg))) (bdHosts b) = Some (Inr hs)" "bdHosts b' = hs" and
    c: "bdDNS b' = (case cfgDNS cfg of Some v \<Rightarrow> v | None \<Rightarrow> bdDNS b)" "bdTTL b' = (case cfgTTL cfg of Some v \<Rightarrow> v | None \<Rightarrow> bdTTL b)"
    by (rule Merge_parts [OF m])
  have "\<forall>(s, v) \<in> set (bdIPPools b'). dst_ok (optFallback v)"
    unfolding p(2) by (rule merge_pools_ok [OF p(1)]) (use b cfg in \<open>simp_all add: builder_ok_def config_ok_def\<close>)
  moreover have "policy_ok resolver_modes (bdDefaultPolicy b')"
    using d b cfg by (auto simp: merge_default_def map_sum_Inr_iff builder_ok_def config_ok_def split: option.splits intro: newPolicy_ok)
  moreover have "table_ok (policy_ok resolver_modes) (bdDomainPolicies b')"
    unfolding n(2)
    by (rule each_entry_keeps [OF _ n(1)])
      (use b cfg in \<open>auto simp: builder_ok_def config_ok_def intro: merge_domain_ok\<close>)
  moreover have "tries_ok (bdIPv4Policies b', bdIPv6Policies b')"
    unfolding i(2)
  proof (rule each_entry_keeps [OF _ i(1)])
    show "tries_ok (bdIPv4Policies b, bdIPv6Policies b)" using b by (simp add: builder_ok_def)
    fix s v x y
    assume s: "(s, v) \<in> set (om_all default_options (Some (cfgIPPolicies cfg)))" "merge_ip s v x = Some (Inr y)" "tries_ok x"
    obtain q where q: "newPolicy v = Inr q" "each_pattern (\<lambda>_. insert_ip s q) (split_on CHR '';'' s) x = Some (Inr y)"
      using s(2) by (auto simp: merge_ip_def with_policy_Inr)
    have "policy_ok resolver_modes q" using newPolicy_ok [OF q(1)] cfg s(1) by (auto simp: config_ok_def)
    then show "tries_ok y"
      using each_pattern_keeps [of "\<lambda>_. insert_ip s q" tries_ok, OF _ q(2) s(3)] insert_ip_ok by blast
  qed
  moreover have "table_ok dst_ok (bdHosts b')"
    unfolding h(2)
    by (rule each_entry_keeps [OF _ h(1)])
      (use b cfg in \<open>auto simp: builder_ok_def config_ok_def intro: add_patterns_ok\<close>)
  moreover have "dcCacheCapacity (bdDNS b') \<le> 2 ^ 31" "ttlCacheCapacity (bdTTL b') \<le> 2 ^ 31"
    using c b cfg by (auto simp: builder_ok_def config_ok_def split: option.splits)
  ultimately show ?thesis unfolding builder_ok_def by blast
qed

text \<open>Reading a configuration never panics, as \<^verbatim>\<open>ToJSONInPlace\<close> does not, and decodes a text of the same length.\<close>

lemma configFromFile_returns: "configFromFile sys reject path \<noteq> None"
proof -
  obtain f where "toJSON True = (\<lambda>b. Some (f b))" using toJSON_ok by metis
  then show ?thesis by (simp add: configFromFile_def split: sum.split)
qed

lemma configFromFile_Inr:
  assumes "configFromFile sys reject path = Some (Inr cfg, sys')"
  obtains b where "Unmarshal sys reject b = Inr cfg" "Unmarshal sys' = Unmarshal sys"
proof -
  have "sys' = sys \<or> sys' = sys\<lparr>sysStdin := Inr []\<rparr>"
    using assms by (auto simp: configFromFile_def Let_def split: sum.splits if_splits bind_splits)
  then have u: "Unmarshal sys' = Unmarshal sys" by (auto simp: Unmarshal_def)
  obtain b where "Unmarshal sys reject b = Inr cfg"
    using assms by (auto simp: configFromFile_def Let_def map_sum_Inr_iff split: sum.splits if_splits bind_splits)
  then show thesis using u that by blast
qed

lemma load_configs_ok:
  shows "load_configs sys reject paths b = Some (Inr b') \<Longrightarrow> (\<And>d cfg. Unmarshal sys reject d = Inr cfg \<Longrightarrow> config_ok cfg) \<Longrightarrow>
    builder_ok b \<Longrightarrow> builder_ok b'"
proof (induction paths arbitrary: b sys)
  case (Cons path paths)
  obtain cfg sys' b1 where c: "configFromFile sys reject path = Some (Inr cfg, sys')" "Merge cfg b = Some (Inr b1)"
    "load_configs sys' reject paths b1 = Some (Inr b')"
    using Cons.prems(1) by (auto split: bind_splits sum.splits)
  obtain d where d: "Unmarshal sys reject d = Inr cfg" "Unmarshal sys' = Unmarshal sys" by (rule configFromFile_Inr [OF c(1)])
  have "builder_ok b1" using Merge_ok [OF Cons.prems(3) _ c(2)] Cons.prems(2) [OF d(1)] by blast
  then show ?case using Cons.IH [OF c(3)] Cons.prems(2) d(2) by simp
qed simp

text \<open>The configuration of the flags is in order, and merging it does not fail: \<^verbatim>\<open>main\<close> never reaches its own panic.\<close>

lemma flag_config_ok: "config_ok (flag_config fl)"
  by (simp add: config_ok_def flag_config_def empty_config_def om_all_def empty_omap_def)

lemma flags_merge: "\<exists>b'. Merge (flag_config fl) b = Some (Inr b')"
  by (simp add: Merge_def merge_pools_def merge_default_def and_then_def flag_config_def empty_config_def om_all_def empty_omap_def)

section \<open>The server\<close>

lemma build_pools_ok:
  assumes "each_entry (build_pool lookupIP) es pools = Some (Inr pools')" and "pools_ok pools"
    and "\<forall>(s, v) \<in> set es. dst_ok (optFallback v)"
  shows "pools_ok pools'"
proof (rule each_entry_keeps [where P = pools_ok, OF _ assms(1,2)])
  fix s v x y
  assume s: "(s, v) \<in> set es" "build_pool lookupIP s v x = Some (Inr y)" "pools_ok x"
  obtain p where p: "newIPPool lookupIP v = Some (Inr p)" "y = x(s \<mapsto> p)"
    using s(2) by (auto simp: build_pool_def map_sum_Inr_iff)
  have "fallbackIP p = optFallback v"
    using p(1) unfolding newIPPool_def Let_def by (auto split: if_splits sum.splits option.splits bind_splits)
  then show "pools_ok y" using newIPPool_ok [OF p(1)] s(1,3) p(2) assms(3) by (auto simp: pools_ok_def)
qed

text \<open>What a scan reports is about addresses of the pool.\<close>

definition scans_ok :: "(string \<Rightarrow> ip_pool \<Rightarrow> ip_result list) \<Rightarrow> bool" where
  "scans_ok scan \<longleftrightarrow> (\<forall>tag p. \<forall>r \<in> set (scan tag p). ipIndex r < length (poolIps p))"

lemma start_pools_ok:
  assumes "start_pools scan tags pools = Some pools'" and "pools_ok pools" and "scans_ok scan"
  shows "pools_ok pools'"
  using assms(1,2)
proof (induction tags arbitrary: pools)
  case (Cons tag tags)
  obtain p q where p: "pools tag = Some p" "(if poolWaitScan p then updateBest (scan tag p) p else Some p) = Some q"
    "start_pools scan tags (pools(tag \<mapsto> q)) = Some pools'"
    using Cons.prems(1) by (auto split: bind_splits)
  have ok: "pool_ok p" "dst_ok (fallbackIP p)" "\<forall>r \<in> set (scan tag p). ipIndex r < length (poolIps p)"
    using Cons.prems(2) assms(3) p(1) by (auto simp: pools_ok_def scans_ok_def)
  have "pool_ok q \<and> fallbackIP q = fallbackIP p"
    using updateBest_pool_ok [OF ok(1,3)] updateBest_keeps [of "scan tag p" p q] p(2) ok(1) by (auto split: if_splits)
  then show ?case by (intro Cons.IH [OF p(3)]) (use ok(2) Cons.prems(2) in \<open>auto simp: pools_ok_def\<close>)
qed simp

lemma Build_parts:
  assumes "Build en b n = Some (Inr sv, n')"
  obtains pools dns where
    "each_entry (build_pool (enLookupIP en)) (bdIPPools b) Map.empty = Some (Inr pools)"
    "newDNSResolver (enProcs en) (enNameHash en) (enStringToType en) (enParseURL en)
       (\<lambda>u. genDoHDialFunc u (route_of b) pools) (bdDNS b) = Some (Inr dns)"
    "start_pools (enScan en) (map fst (bdIPPools b)) pools = Some (svPools sv)"
    "svRoute sv = route_of b" "svDNS sv = dns" "newTTLDesyncManager (enProcs en) (enAddrHash en) (bdTTL b) = Inr (svTTL sv)"
    "inboundIsEnabled (bdSocks5Addr b) \<or> inboundIsEnabled (bdHttpAddr b) \<or> inboundIsEnabled (bdSNIProxyAddr b)"
    "svSocks5Addr sv = bdSocks5Addr b" "svHttpAddr sv = bdHttpAddr b" "svSNIProxyAddr sv = bdSNIProxyAddr b"
  using assms unfolding Build_def
  by (auto simp: and_then_Inr map_sum_Inr_iff split: if_splits sum.splits bind_splits prod.splits)

lemma ttl_cache_ok:
  assumes "newTTLDesyncManager procs hash conf = Inr (calc, Some c, sf)" and "ttlCacheCapacity conf \<le> 2 ^ 31"
  shows "sharded_holds c Map.empty"
proof -
  let ?cap = "if ttlCacheCapacity conf = 0 then 1024 else ttlCacheCapacity conf"
  have "0 < ?cap" "?cap \<le> 2 ^ 31" "?cap \<le> ?cap * 5 div 4" "procs * 16 mod 2 ^ 32 < 2 ^ 32" using assms(2) by simp_all
  then obtain s :: "(addr, int) sharded"
    where "new_sharded (IP4 []) 0 procs ?cap hash = Inr s" "sharded_holds s Map.empty"
    unfolding new_sharded_def by (rule new_sharded_holds)
  then show ?thesis using assms(1) by (auto simp: newTTLDesyncManager_def split: if_splits sum.splits)
qed

lemma Build_ok:
  assumes b: "builder_ok b" and s: "scans_ok (enScan en)" and sv: "Build en b n = Some (Inr sv, n')"
  shows "route_ok resolver_modes (svRoute sv) \<and> pools_ok (svPools sv) \<and> exchanger_ok (bExchanger (svDNS sv)) \<and>
    dns_inv \<lparr>dnsCache = bCache (svDNS sv), dnsNet = net\<rparr> \<and> (\<forall>c. fst (snd (svTTL sv)) = Some c \<longrightarrow> sharded_holds c Map.empty) \<and> Serve sv \<noteq> []"
proof -
  obtain pools dns where
    p: "each_entry (build_pool (enLookupIP en)) (bdIPPools b) Map.empty = Some (Inr pools)" and
    d: "newDNSResolver (enProcs en) (enNameHash en) (enStringToType en) (enParseURL en)
       (\<lambda>u. genDoHDialFunc u (route_of b) pools) (bdDNS b) = Some (Inr dns)" and
    st: "start_pools (enScan en) (map fst (bdIPPools b)) pools = Some (svPools sv)" and
    e: "svRoute sv = route_of b" "svDNS sv = dns" and
    t: "newTTLDesyncManager (enProcs en) (enAddrHash en) (bdTTL b) = Inr (svTTL sv)" and
    i: "inboundIsEnabled (bdSocks5Addr b) \<or> inboundIsEnabled (bdHttpAddr b) \<or> inboundIsEnabled (bdSNIProxyAddr b)"
      "svSocks5Addr sv = bdSocks5Addr b" "svHttpAddr sv = bdHttpAddr b" "svSNIProxyAddr sv = bdSNIProxyAddr b"
    by (rule Build_parts [OF sv])
  have "pools_ok pools" by (rule build_pools_ok [OF p]) (use b in \<open>auto simp: pools_ok_def builder_ok_def\<close>)
  then have "pools_ok (svPools sv)" using start_pools_ok [OF st _ s] by simp
  moreover have "exchanger_ok (bExchanger dns) \<and> dns_inv \<lparr>dnsCache = bCache dns, dnsNet = net\<rparr>"
    using newDNSResolver_ok [OF d] b by (simp add: builder_ok_def)
  moreover have "\<forall>c. fst (snd (svTTL sv)) = Some c \<longrightarrow> sharded_holds c Map.empty"
    using ttl_cache_ok [of "enProcs en" "enAddrHash en" "bdTTL b" "fst (svTTL sv)" _ "snd (snd (svTTL sv))"] t b
    by (metis builder_ok_def prod.collapse)
  ultimately show ?thesis using builder_ok_route [OF b] e i by (auto simp: Serve_def)
qed

lemma start_server_built:
  assumes "\<And>d cfg. Unmarshal sys (fgReject fl) d = Inr cfg \<Longrightarrow> config_ok cfg"
    and "main_program sys fl en n = Some (Inr sv, n')"
  obtains b where "builder_ok b" "Build en b n = Some (Inr sv, n')"
proof -
  have s: "start_server sys fl en n = Some (Inr sv, n')" using assms(2) by (auto simp: main_program_def split: if_splits)
  then obtain b0 b where b0: "load_configs sys (fgReject fl) (config_paths (fgConfigs fl) (sysConfigEnv sys)) NewBuilder = Some (Inr b0)"
    and b: "Merge (flag_config fl) b0 = Some (Inr b)" "Build en b n = Some (Inr sv, n')"
    by (auto simp: start_server_def map_sum_Inr_iff split: bind_splits sum.splits)
  have "builder_ok b0" by (rule load_configs_ok [OF b0 assms(1) NewBuilder_ok])
  then have "builder_ok b" using Merge_ok flag_config_ok b(1) by blast
  then show thesis using b(2) that by blast
qed

section \<open>The last entry wins\<close>

text \<open>The texts of an entry with the policy it stands for, in the order in which they are added.\<close>

definition entry_texts :: "string \<times> policy_options \<Rightarrow> (string \<times> policy) list" where
  "entry_texts e = map (\<lambda>s. (s, projr (newPolicy (snd e)))) (concat (map (\<lambda>t. the (expandPattern t)) (split_on CHR '';'' (fst e))))"

lemma each_text_fold: "each_text (\<lambda>s m. Inr (f s m)) ss m = Inr (fold f ss m)"
  by (induction ss arbitrary: m) auto

lemma add_patterns_fold:
  assumes "add_patterns ps v m = Some (Inr m')"
  shows "m' = fold (add_pattern v) (concat (map (\<lambda>t. the (expandPattern t)) (split_on CHR '';'' ps))) m"
proof -
  have "each_pattern (\<lambda>_ s m. Inr (add_pattern v s m)) ts m = Some (Inr m') \<Longrightarrow>
      m' = fold (add_pattern v) (concat (map (\<lambda>t. the (expandPattern t)) ts)) m" for ts
    by (induction ts arbitrary: m) (auto simp: each_text_fold split: bind_splits)
  then show ?thesis using assms by (simp add: add_patterns_def)
qed

lemma merge_domain_fold:
  assumes "merge_domain ps v m = Some (Inr m')"
  shows "m' = fold (\<lambda>(s, p). add_pattern p s) (entry_texts (ps, v)) m"
proof -
  obtain p where p: "newPolicy v = Inr p" "add_patterns ps p m = Some (Inr m')"
    using assms by (auto simp: merge_domain_def with_policy_Inr)
  have "fold (\<lambda>(s, p). add_pattern p s) (map (\<lambda>s. (s, p)) ss) m = fold (add_pattern p) ss m" for ss and m :: "policy domain_matcher"
    by (induction ss arbitrary: m) auto
  then show ?thesis using add_patterns_fold [OF p(2)] p(1) by (simp add: entry_texts_def)
qed

lemma merge_domains_fold:
  "each_entry merge_domain es m = Some (Inr m') \<Longrightarrow> m' = fold (\<lambda>(s, p). add_pattern p s) (concat (map entry_texts es)) m"
proof (induction es arbitrary: m)
  case (Cons e es)
  obtain ps v where e: "e = (ps, v)" by (cases e)
  then obtain z where "merge_domain ps v m = Some (Inr z)" "each_entry merge_domain es z = Some (Inr m')"
    using Cons.prems by (auto simp: and_then_Inr)
  then show ?case using Cons.IH merge_domain_fold e by fastforce
qed simp

text \<open>The value a text gives to a key, as an exact name or as a wildcard.\<close>

definition exact_for :: "string list \<Rightarrow> string \<times> 'v \<Rightarrow> 'v option" where
  "exact_for ls sv = (case pattern_entry (fst sv) of Some (k, w, e) \<Rightarrow> if e \<and> k = ls then Some (snd sv) else None | None \<Rightarrow> None)"

definition wildcard_for :: "string list \<Rightarrow> string \<times> 'v \<Rightarrow> 'v option" where
  "wildcard_for ls sv = (case pattern_entry (fst sv) of Some (k, w, e) \<Rightarrow> if w \<and> k = ls then Some (snd sv) else None | None \<Rightarrow> None)"

lemma fold_add_pattern_at:
  "exact_at (fold (\<lambda>(s, p). add_pattern p s) es m) ls =
     (case first_some (exact_for ls) (rev es) of Some p \<Rightarrow> Some p | None \<Rightarrow> exact_at m ls)"
  "wildcard_at (fold (\<lambda>(s, p). add_pattern p s) es m) ls =
     (case first_some (wildcard_for ls) (rev es) of Some p \<Rightarrow> Some p | None \<Rightarrow> wildcard_at m ls)"
  by (induction es arbitrary: m)
    (auto simp: first_some_append add_pattern_at exact_for_def wildcard_for_def split: option.splits prod.splits bool.splits)

text \<open>
  C19. After a configuration has been merged, a name has the policy of the last text of its domain
  policies that stands for the name, as an exact name and as a wildcard, and what it had before
  when none does: later entries and later configurations replace earlier ones. A text without a
  dot stands for nothing.
\<close>

theorem merged_domain_policies:
  assumes "Merge cfg b = Some (Inr b')"
  defines "es \<equiv> concat (map entry_texts (om_all default_options (Some (cfgDomainPolicies cfg))))"
  shows "exact_at (bdDomainPolicies b') ls =
      (case first_some (exact_for ls) (rev es) of Some p \<Rightarrow> Some p | None \<Rightarrow> exact_at (bdDomainPolicies b) ls) \<and>
    wildcard_at (bdDomainPolicies b') ls =
      (case first_some (wildcard_for ls) (rev es) of Some p \<Rightarrow> Some p | None \<Rightarrow> wildcard_at (bdDomainPolicies b) ls)"
proof -
  have "each_entry merge_domain (om_all default_options (Some (cfgDomainPolicies cfg))) (bdDomainPolicies b) = Some (Inr (bdDomainPolicies b'))"
    by (rule Merge_parts [OF assms(1)]) simp
  note eq = merge_domains_fold [OF this]
  show ?thesis unfolding es_def eq by (simp only: fold_add_pattern_at simp_thms)
qed

section \<open>Witnesses\<close>

definition demo_config :: config where
  "demo_config = empty_config\<lparr>cfgSocks5Addr := Some ''127.0.0.1:1080'',
     cfgDNS := Some (empty_dns_config\<lparr>dcAddr := ''1.1.1.1:53'', dcDisableCache := True\<rparr>),
     cfgTTL := Some \<lparr>fakeTTLRules = [], ttlSingleFlight = False, ttlDisableCache = True, ttlCacheCapacity = 0\<rparr>,
     cfgDomainPolicies := \<lparr>omKeys = [''a.b;*.c.d''], omValues = Some [''a.b;*.c.d'' \<mapsto> default_options]\<rparr>\<rparr>"

definition demo_env :: "unit build_env" where
  "demo_env = \<lparr>enHost = \<lparr>hostIfaces = (\<lambda>n. (Inr [], n)), hostDial = (\<lambda>net target timeout n. (Inr None, n))\<rparr>, enAnswers = [],
     enOutput = \<lparr>ooExpandEnv = id, ooDir = (\<lambda>_. []), ooMkdirAll = (\<lambda>_. None), ooOpen = (\<lambda>_. None)\<rparr>, enProcs = 1,
     enAddrHash = (\<lambda>_. 0), enNameHash = (\<lambda>_. 0), enStringToType = (\<lambda>_. None), enParseURL = (\<lambda>s. Inl (LibError s)),
     enLookupIP = (\<lambda>s. Inl (LibError s)), enScan = (\<lambda>_ _. [])\<rparr>"

lemma demo_om_all [simp]:
  "om_all default_options (Some (cfgDomainPolicies demo_config)) = [(''a.b;*.c.d'', default_options)]"
  "om_all z (Some empty_omap) = []"
  by (simp_all add: om_all_def demo_config_def empty_omap_def)

lemma default_options_policy: "newPolicy default_options = Inr (policy_init zero_policy)"
  by (simp add: newPolicy_def Let_def check_def default_options_def policy_init_def zero_policy_def)

lemma demo_expand: "expandPattern ''a.b'' = Some [''a.b'']" "expandPattern ''*.c.d'' = Some [''*.c.d'']"
  by code_simp+

text \<open>Nothing is set for any name or address.\<close>

definition plain_tables :: "route_matcher \<Rightarrow> bool" where
  "plain_tables rm \<longleftrightarrow> table_ok (\<lambda>q. q = policy_init zero_policy) (domainPolicies rm) \<and>
     defaultPolicy rm = policy_init zero_policy \<and> ipv4Policies rm = new_bit_node \<and> ipv6Policies rm = new_bit_node"

lemma demo_merge:
  "\<exists>b. Merge demo_config NewBuilder = Some (Inr b) \<and> bdSocks5Addr b = ''127.0.0.1:1080'' \<and> bdLogOutput b = [] \<and>
     bdIPPools b = [] \<and> bdBinding b = no_binding \<and> cfgDNS demo_config = Some (bdDNS b) \<and> cfgTTL demo_config = Some (bdTTL b) \<and>
     plain_tables (route_of b)"
proof -
  have s: "split_on CHR '';'' ''a.b;*.c.d'' = [''a.b'', ''*.c.d'']" by simp
  have d: "\<exists>m. merge_domain ''a.b;*.c.d'' default_options t = Some (Inr m)" for t
    by (simp add: merge_domain_def with_policy_def default_options_policy and_then_def add_patterns_def s demo_expand)
  then obtain m where m: "merge_domain ''a.b;*.c.d'' default_options (bdDomainPolicies NewBuilder) = Some (Inr m)" by blast
  have "table_ok (\<lambda>q. q = policy_init zero_policy) m"
    using m by (auto simp: merge_domain_def with_policy_Inr default_options_policy NewBuilder_def intro: add_patterns_ok)
  moreover from m have "each_entry merge_domain [(''a.b;*.c.d'', default_options)] (bdDomainPolicies NewBuilder) = Some (Inr m)"
    by (simp add: and_then_def)
  moreover have "cfgIPPools demo_config = []" "cfgDefaultPolicy demo_config = None" "cfgIPPolicies demo_config = empty_omap"
    "cfgHosts demo_config = empty_omap" "bdIPPools NewBuilder = []"
    by (simp_all add: demo_config_def empty_config_def NewBuilder_def)
  ultimately show ?thesis
    by (simp add: Merge_def merge_pools_def merge_default_def and_then_def plain_tables_def route_of_def)
      (simp add: demo_config_def empty_config_def NewBuilder_def)
qed

theorem merged_domain_policies_witness:
  "\<exists>b. Merge demo_config NewBuilder = Some (Inr b) \<and>
     exact_at (bdDomainPolicies b) [''b'', ''a''] = Some (policy_init zero_policy) \<and>
     wildcard_at (bdDomainPolicies b) [''d'', ''c''] = Some (policy_init zero_policy) \<and>
     exact_at (bdDomainPolicies b) [''d'', ''c''] = None"
proof -
  obtain b where b: "Merge demo_config NewBuilder = Some (Inr b)" using demo_merge by blast
  have es: "concat (map entry_texts (om_all default_options (Some (cfgDomainPolicies demo_config)))) =
      [(''a.b'', policy_init zero_policy), (''*.c.d'', policy_init zero_policy)]"
    by (simp add: entry_texts_def demo_expand default_options_policy)
  have k: "pattern_entry ''a.b'' = Some ([''b'', ''a''], False, True)" "pattern_entry ''*.c.d'' = Some ([''d'', ''c''], True, False)"
    by code_simp+
  have new: "exact_at (bdDomainPolicies NewBuilder) ls = None" "wildcard_at (bdDomainPolicies NewBuilder) ls = None" for ls
    by (simp_all add: NewBuilder_def new_domain_matcher_def)
  show ?thesis
    using merged_domain_policies [OF b, of "[''b'', ''a'']"] merged_domain_policies [OF b, of "[''d'', ''c'']"] b
    unfolding es by (simp add: exact_for_def wildcard_for_def k new del: at_simps)
qed

text \<open>A file of a comment and an empty object, decoded to this configuration.\<close>

definition demo_system :: system where
  "demo_system = \<lparr>sysReadFile = (\<lambda>_. Inr [47, 47, 10, 123, 125]), sysStdin = Inr [], sysConfigEnv = [],
     sysJSON = \<lparr>jsDecode = (\<lambda>_ b. if b = [32, 32, 10, 123, 125] then Inr (demo_config, []) else Inl (LibError ''EOF'')),
       jsUnmarshal = (\<lambda>_ b. Inl (LibError ''EOF''))\<rparr>, sysJSONv2 = False\<rparr>"

definition demo_flags :: flags where
  "demo_flags = \<lparr>fgLogLevel = LevelUnset, fgConfigs = [''c.json''], fgLogOutput = [], fgSocks5 = [], fgHttp = [], fgSNI = [],
     fgReject = True, fgLicense = False, fgVersion = False, fgArgs = []\<rparr>"

lemma demo_unmarshal: "Unmarshal demo_system reject d = (if d = [32, 32, 10, 123, 125] then Inr demo_config else Inl (LibError ''EOF''))"
  by (simp add: Unmarshal_def unmarshal_v1_def demo_system_def)

lemma demo_loaded: "configFromFile demo_system reject ''c.json'' = Some (Inr demo_config, demo_system)"
proof -
  have "toJSON True [47, 47, 10, 123, 125] = Some [32, 32, 10, 123, 125]" by code_simp
  moreover have "sysReadFile demo_system p = Inr [47, 47, 10, 123, 125]" for p by (simp add: demo_system_def)
  ultimately show ?thesis by (simp add: configFromFile_def demo_unmarshal)
qed

lemma demo_started: "\<exists>sv. main_program demo_system demo_flags demo_env () = Some (Inr sv, ()) \<and> plain_tables (svRoute sv)"
proof -
  obtain b where b: "Merge demo_config NewBuilder = Some (Inr b)" "bdSocks5Addr b = ''127.0.0.1:1080''" "bdLogOutput b = []"
    "bdIPPools b = []" "bdBinding b = no_binding" "cfgDNS demo_config = Some (bdDNS b)" "cfgTTL demo_config = Some (bdTTL b)"
    "plain_tables (route_of b)"
    using demo_merge by blast
  obtain b2 where b2: "Merge (flag_config demo_flags) b = Some (Inr b2)" "bdSocks5Addr b2 = ''127.0.0.1:1080''" "bdLogOutput b2 = []"
    "bdIPPools b2 = []" "bdBinding b2 = no_binding" "bdDNS b2 = bdDNS b" "bdTTL b2 = bdTTL b"
    "route_of b2 = route_of b"
    using b by (simp add: route_of_def Merge_def merge_pools_def merge_default_def and_then_def flag_config_def demo_flags_def empty_config_def ptrOrNil_def)
  have "parse_addr ''1.1.1.1'' = Some (IP4 [1, 1, 1, 1])" by code_simp
  moreover have "last_index_byte CHR '':'' ''1.1.1.1:53'' = Some 7" by simp
  moreover have "parse_port ''53'' = Some 53" by (simp add: parse_port_def is_digit_def read_digits_def digit_val_def)
  ultimately have port: "parse_addr_port ''1.1.1.1:53'' \<noteq> None" by (simp add: parse_addr_port_def is4_def)
  have "cfgDNS demo_config = Some (empty_dns_config\<lparr>dcAddr := ''1.1.1.1:53'', dcDisableCache := True\<rparr>)"
    "cfgTTL demo_config = Some \<lparr>fakeTTLRules = [], ttlSingleFlight = False, ttlDisableCache = True, ttlCacheCapacity = 0\<rparr>"
    by (simp_all add: demo_config_def)
  with b(6,7) have dns: "bdDNS b = empty_dns_config\<lparr>dcAddr := ''1.1.1.1:53'', dcDisableCache := True\<rparr>"
    and "bdTTL b = \<lparr>fakeTTLRules = [], ttlSingleFlight = False, ttlDisableCache = True, ttlCacheCapacity = 0\<rparr>"
    by (metis option.inject)+
  then have ttl: "ttlDisableCache (bdTTL b)" "fakeTTLRules (bdTTL b) = []" by simp_all
  have "\<exists>d. newDNSResolver p h t u g (bdDNS b) = Some (Inr d)" for p h t u and g :: "url \<Rightarrow> (error + doh_route) option"
    using port by (auto simp: newDNSResolver_def dns_client_def udp_client_def check_addr_def given_time_def dns_cache_def edns0_subnet_def
        dns empty_dns_config_def)
  moreover have "\<exists>x. newTTLDesyncManager p h (bdTTL b) = Inr x" for p h
    using ttl by (simp add: newTTLDesyncManager_def genTTLCalcFunc_def)
  ultimately obtain d x where "newDNSResolver (enProcs demo_env) (enNameHash demo_env) (enStringToType demo_env) (enParseURL demo_env)
        (\<lambda>u. genDoHDialFunc u (route_of b2) Map.empty) (bdDNS b) = Some (Inr d)"
      "newTTLDesyncManager (enProcs demo_env) (enAddrHash demo_env) (bdTTL b) = Inr x" by blast
  then have "\<exists>sv. Build demo_env b2 () = Some (Inr sv, ()) \<and> svRoute sv = route_of b"
    using b2 by (simp add: Build_def inboundIsEnabled_def NewOutput_def NewDialer_def no_binding_def and_then_def)
  then show ?thesis
    using b(1,8) b2(1) demo_loaded by (auto simp: main_program_def start_server_def demo_flags_def config_paths_def)
qed

lemma demo_configs_ok: "\<forall>d cfg. Unmarshal demo_system (fgReject demo_flags) d = Inr cfg \<longrightarrow> config_ok cfg"
proof -
  have o': "options_ok default_options" by (simp add: options_ok_def default_options_def resolver_modes_def)
  have c: "config_ok demo_config"
    unfolding config_ok_def demo_om_all using o'
    by (simp add: demo_config_def empty_config_def empty_dns_config_def om_all_def empty_omap_def)
  then show ?thesis by (simp add: demo_unmarshal)
qed

lemma demo_scans: "scans_ok (enScan demo_env)"
  by (simp add: scans_ok_def demo_env_def)

end
