(* ===== verification/Tunnel_Returns.thy ===== *)
theory Tunnel_Returns
  imports Tunnel_Spec Route_Spec
begin

text \<open>
  No panic and no search without an end in the tunnel: what its steps need of the policy, of the
  router and of the cache, as a locale, and that every step returns and keeps it.
\<close>

lemma succeeds_case_prod [succ]: "succeeds (case a of (x, y) \<Rightarrow> f x y) P = (case a of (x, y) \<Rightarrow> succeeds (f x y) P)"
  by (cases a) simp

section \<open>The search for a TTL\<close>

text \<open>The cache is in order.\<close>

definition ttl_ok :: "'n ttl_state \<Rightarrow> bool" where
  "ttl_ok st \<longleftrightarrow> (\<forall>c. ttlCache st = Some c \<longrightarrow> (\<exists>M. sharded_holds c M))"

lemma ttl_ok_simps [simp]:
  "ttl_ok \<lparr>ttlCache = None, ttlNet = n\<rparr>" "ttl_ok \<lparr>ttlCache = Some c, ttlNet = n\<rparr> = (\<exists>M. sharded_holds c M)"
  "ttl_ok (st\<lparr>ttlNet := n\<rparr>) = ttl_ok st"
  by (simp_all add: ttl_ok_def)

lemma get_returns: "sharded_holds c M \<Longrightarrow> succeeds (Sharded_Get now k c) (\<lambda>(v, c'). \<exists>M. sharded_holds c' M)"
  using sharded.get_law [of c M now k] by (auto simp: succeeds_def)

lemma add_returns: "sharded_holds c M \<Longrightarrow> succeeds (Sharded_AddWithLifetime now k v life c) (\<lambda>(_, c'). \<exists>M. sharded_holds c' M)"
  using sharded.add_law [of c M now k v life] by (auto simp: succeeds_def)

lemma probe_returns:
  assumes "ttl_ok st" and "1 \<le> attempts"
  shows "succeeds (probeMinimumReachableTTL ops ap maxTTL attempts timeout life st) (\<lambda>(_, st'). ttl_ok st')"
proof -
  obtain found n where p: "probe_loop (ttlDial ops timeout ap) attempts (1, maxTTL, - 1) (ttlNet st) = Some (found, n)"
    using probe_loop_ends [OF assms(2), of 1 "ttlDial ops timeout ap" maxTTL "- 1" "ttlNet st"] by auto
  show ?thesis
  proof (cases "ttlCache st")
    case None
    then show ?thesis using p assms(1) by (simp add: probeMinimumReachableTTL_def succ)
  next
    case (Some c)
    then obtain M where "sharded_holds c M" using assms(1) by (auto simp: ttl_ok_def)
    note add = succeeds_mono [OF add_returns [OF this]]
    show ?thesis using p Some assms(1)
      by (auto simp: probeMinimumReachableTTL_def succ Let_def split_def intro!: add)
  qed
qed

lemma minimum_returns:
  assumes "ttl_ok st" and "1 \<le> attempts"
  shows "succeeds (getMinimumReachableTTL ops ap maxTTL attempts timeout life st) (\<lambda>(_, st'). ttl_ok st')"
proof -
  have probe: "succeeds (do { (ttl, st) \<leftarrow> probeMinimumReachableTTL ops ap maxTTL attempts timeout life st; Some ((ttl, False), st) })
      (\<lambda>(_, st'). ttl_ok st')" if "ttl_ok st" for st
    using probe_returns [OF that assms(2)] by (simp add: succ split_def)
  show ?thesis
  proof (cases "ttlCache st")
    case None
    then show ?thesis using probe assms(1) by (simp add: getMinimumReachableTTL_def)
  next
    case (Some c)
    obtain M where M: "sharded_holds c M" using assms(1) Some by (auto simp: ttl_ok_def)
    obtain now n where now: "ttlNow ops (ttlNet st) = (now, n)" by (cases "ttlNow ops (ttlNet st)")
    obtain v c' where g: "Sharded_Get now (unmap (fst ap)) c = Some (v, c')" "\<exists>M. sharded_holds c' M"
      using get_returns [OF M, of now "unmap (fst ap)"] by (auto simp: succeeds_def)
    show ?thesis
      using Some now g probe [of "\<lparr>ttlCache = Some c', ttlNet = n\<rparr>"]
      by (cases v) (simp_all add: getMinimumReachableTTL_def succ)
  qed
qed

text \<open>A policy whose mode searches for a TTL sets the number of attempts.\<close>

definition finds_ttl :: "policy \<Rightarrow> bool" where
  "finds_ttl p \<longleftrightarrow> pFakeTTL p \<notin> {0, unsetInt} \<or> 1 \<le> pAttempts p"

lemma fake_ttl_returns:
  assumes "ttl_ok st" and "finds_ttl p"
  shows "succeeds (getFakeTTL ops calc (Some lg) p ap st) (\<lambda>(_, st'). ttl_ok st')"
proof (cases "pFakeTTL p \<noteq> 0 \<and> pFakeTTL p \<noteq> unsetInt")
  case True
  then show ?thesis using assms(1) by (simp add: getFakeTTL_def succ)
next
  case False
  then have "1 \<le> pAttempts p" using assms(2) by (auto simp: finds_ttl_def)
  from minimum_returns [OF assms(1) this, of ops ap "pMaxTTL p" "pSingleTimeout p" "pTTLCacheTTL p"] obtain ttl cached st' where
    g: "getMinimumReachableTTL ops ap (pMaxTTL p) (pAttempts p) (pSingleTimeout p) (pTTLCacheTTL p) st = Some ((ttl, cached), st')" "ttl_ok st'"
    by (auto simp: succeeds_def)
  have "log_info (Some lg) [Some a, Some b, Some c, Some d] = Some ()" for a b c d
    using log_text_ok(1) [of lg "[a, b, c, d]"] by simp
  then show ?thesis using False g by (auto simp: getFakeTTL_def succ split: sum.split)
qed

text \<open>When it returns, however it has been called, the cache stays in order.\<close>

lemma fake_ttl_keeps:
  assumes "getFakeTTL ops calc lg p ap st = Some (x, st')" and "ttl_ok st"
  shows "ttl_ok st'"
proof -
  have probe: "ttl_ok s'" if p: "probeMinimumReachableTTL ops ap maxTTL attempts timeout life s = Some (found, s')" and s: "ttl_ok s"
    for maxTTL attempts timeout life s found s'
  proof (cases "ttlCache s")
    case None
    then show ?thesis using p s by (auto simp: probeMinimumReachableTTL_def split: bind_splits)
  next
    case (Some c)
    then obtain M where M: "sharded_holds c M" using s by (auto simp: ttl_ok_def)
    have add: "\<exists>M. sharded_holds c' M" if "Sharded_AddWithLifetime now k v l c = Some (ev, c')" for now k v l ev c'
      using add_returns [OF M, of now k v l] that by (simp add: succeeds_def)
    then show ?thesis using p s Some
      by (auto simp: probeMinimumReachableTTL_def Let_def split: bind_splits if_splits prod.splits)
  qed
  have "ttl_ok s'" if g: "getMinimumReachableTTL ops ap maxTTL attempts timeout life s = Some (r, s')" and s: "ttl_ok s"
    for maxTTL attempts timeout life s r s'
  proof (cases "ttlCache s")
    case None
    then show ?thesis using g s probe by (auto simp: getMinimumReachableTTL_def split: bind_splits)
  next
    case (Some c)
    then obtain M where M: "sharded_holds c M" using s by (auto simp: ttl_ok_def)
    have get: "ttl_ok \<lparr>ttlCache = Some c', ttlNet = n\<rparr>" if "Sharded_Get now k c = Some (v, c')" for now k v c' n
      using get_returns [OF M, of now k] that by (simp add: succeeds_def)
    show ?thesis using g Some
      by (auto simp: getMinimumReachableTTL_def split: bind_splits option.splits prod.splits dest: probe get)
  qed
  then show ?thesis using assms by (auto simp: getFakeTTL_def split: if_splits bind_splits sum.splits)
qed

section \<open>Sending\<close>

lemma sends_returns: "sends m ws \<Longrightarrow> \<exists>r c'. m c = Some (r, c')"
  by (blast elim: sendsE)

lemma fragments_return:
  assumes "2 \<le> records \<or> 0 \<le> records \<and> 0 \<le> segments" and "58 \<le> off" and "off + len \<le> length b"
  shows "\<exists>r c'. sendRecords b off len records segments v o' c = Some (r, c')"
proof -
  have l: "3 \<le> length b" "off + len \<le> length (with_minor v b)" "35 \<le> off" using assms(2,3) by simp_all
  note minor = sendRecords_minor [OF l(1), of off len records segments v o']
  show ?thesis
  proof (cases "2 \<le> records")
    case True
    show ?thesis using sendRecords_many_ok [OF True l(2,3)] sends_returns unfolding minor by metis
  next
    case False
    then have r: "records = 0 \<or> records = 1" "0 \<le> segments" using assms(1) by auto
    show ?thesis using sendRecords_one_ok [OF r l(2,3)] sends_returns unfolding minor by metis
  qed
qed

text \<open>
  The ClientHello can be sent as the mode of the policy says: the numbers of records and segments of a
  fragmenting policy are not negative, or there are several records; a search for a TTL has an attempt.
\<close>

definition sendable :: "policy \<Rightarrow> bool" where
  "sendable p \<longleftrightarrow> (pMode p = ModeTLSRF \<longrightarrow> 2 \<le> pNumRecords p \<or> 0 \<le> pNumRecords p \<and> 0 \<le> pNumSegments p) \<and>
     (pMode p = ModeTTLD \<longrightarrow> finds_ttl p)"

section \<open>The tunnel\<close>

text \<open>What every handler needs of the router and the dialer; \<open>good\<close> is what is promised of a policy.\<close>

locale front_door =
  fixes srv :: "('r, 'n, 'd) server"
    and inv :: "'r routing \<Rightarrow> bool"
    and good :: "policy \<Rightarrow> bool"
  assumes route_law: "inv st \<Longrightarrow> \<exists>v st'. genPolicy (Some (srvLogger srv)) (srvRoute srv) (srvResolve srv) host isIP stop st = Some (v, st') \<and>
      inv st' \<and> (v \<in> {failed_verdict, blocked_verdict} \<or> stop \<and> v = not_found_verdict \<or> (\<exists>h p. v = routed h p \<and> dst_ok h \<and> good p))"
    and dial_law: "inv st \<Longrightarrow> dst_ok h \<Longrightarrow> \<exists>r n'. srvDial srv (Some h) port timeout delay n = Some (r, n') \<and> r \<noteq> Inr None"

text \<open>
  What the tunnel needs besides: a good policy under one of a server name is good, and a good policy
  can be sent and does not ask for a reply before there is a connection.
\<close>

locale tunnel_router = front_door srv inv good
  for srv :: "('r, 'n, 'd) server" and inv :: "'r routing \<Rightarrow> bool" and good :: "policy \<Rightarrow> bool" +
  assumes merge_law: "getDomainPolicy (srvRoute srv) name = Some sp \<Longrightarrow> good p \<Longrightarrow> good (mergePolicies [sp, p])"
    and good_law: "good p \<Longrightarrow> sendable p \<and> \<not> is_true (pReplyFirst p)"
begin

definition world_ok :: "('r, 'n, 'd) world \<Rightarrow> bool" where
  "world_ok w \<longleftrightarrow> inv (wRoute w) \<and> ttl_ok (wTTL w)"

lemma world_ok_simps [simp]:
  "world_ok (w\<lparr>wNet := n\<rparr>) = world_ok w" "world_ok (w\<lparr>wRoute := r\<rparr>) = (inv r \<and> ttl_ok (wTTL w))"
  "world_ok (w\<lparr>wTTL := t\<rparr>) = (inv (wRoute w) \<and> ttl_ok t)"
  by (simp_all add: world_ok_def)

text \<open>A session that is to be sent: its policy is good, and it has a connection to a server.\<close>

definition linked :: "session \<Rightarrow> bool" where
  "linked ts \<longleftrightarrow> good (tsPolicy ts) \<and> tsDst ts \<noteq> None"

text \<open>The steps return; when they say to go on, the session is linked.\<close>

abbreviation going :: "bool \<times> session \<times> ('r, 'n, 'd) world \<Rightarrow> bool" where
  "going \<equiv> \<lambda>(ok, ts, w). world_ok w \<and> (ok \<longrightarrow> linked ts)"

lemma write_returns: "succeeds (conn_write b c) (\<lambda>_. True)"
  using sends_returns [OF sends_conn_write, of b c] by (auto simp: succeeds_def)

lemma write_dst_returns:
  assumes "linked ts" and "\<And>c. \<exists>r c'. m c = Some (r, c')"
  shows "succeeds (write_dst m ts) (\<lambda>(_, ts'). linked ts')"
proof -
  obtain c ra where "tsDst ts = Some (c, ra)" using assms(1) by (auto simp: linked_def)
  moreover obtain r c' where "m c = Some (r, c')" using assms(2) by blast
  ultimately show ?thesis using assms(1) by (simp add: write_dst_def linked_def succeeds_def)
qed

lemma write_dst_conn: "linked ts \<Longrightarrow> succeeds (write_dst (conn_write b) ts) (\<lambda>(_, ts'). linked ts')"
  by (rule write_dst_returns) (use sends_returns [OF sends_conn_write] in blast)+

lemma alert_returns:
  assumes "length ver = 2"
  shows "succeeds (sendTLSAlert ver desc level ts) (\<lambda>ts'. \<exists>c. ts' = ts\<lparr>tsCli := c\<rparr>)"
  using assms sendTLSAlert_ok by (fastforce simp: length_Suc_conv numeral_2_eq_2 succeeds_def)

lemma check_returns:
  assumes "length ver = 2"
  shows "succeeds (checkTLS13Only tls13 p ver ts) (\<lambda>(ok, ts'). ok \<longrightarrow> ts' = ts)"
  using alert_returns [OF assms, of tlsAlertProtocolVersion tlsAlertLevelFatal ts]
  by (auto simp: checkTLS13Only_def succ elim!: succeeds_mono)

lemma route_only_returns:
  assumes "length (prtVer ch) = 2" and "linked ts"
  shows "succeeds (route_only srv ch sni ts) (\<lambda>(ok, ts'). ok \<longrightarrow> linked ts')"
proof (cases "getDomainPolicy (srvRoute srv) sni")
  case None
  then show ?thesis using assms(2) by (simp add: route_only_def succ)
next
  case (Some sp)
  have g: "good (mergePolicies [sp, tsPolicy ts])" using merge_law [OF Some] assms(2) by (simp add: linked_def)
  show ?thesis
    using Some g assms(2) alert_returns [OF assms(1), of tlsAlertAccessDenied tlsAlertLevelFatal ts]
      check_returns [OF assms(1), of "isTLS13 ch" sp ts]
    by (auto simp: route_only_def succ linked_def elim!: succeeds_mono)
qed

lemma switch_returns:
  assumes "world_ok w" and "dst_ok h" and "good sp" and "\<not> tsFromSNI ts \<longrightarrow> linked ts"
  shows "succeeds (switch_dst srv (Some h) sp ts w) going"
proof -
  let ?port = "if pPort sp \<noteq> 0 \<and> pPort sp \<noteq> unsetInt then show_int (pPort sp) else tsOriginPort ts"
  obtain r n where d: "srvDial srv (Some h) ?port (pConnectTimeout sp) (pDialDelay sp) (wNet w) = Some (r, n)" "r \<noteq> Inr None"
    using dial_law [of "wRoute w" h ?port "pConnectTimeout sp" "pDialDelay sp" "wNet w"] assms(1,2) by (auto simp: world_ok_def)
  show ?thesis
  proof (cases r)
    case (Inr l)
    then obtain x where "l = Some x" using d(2) by (cases l) simp_all
    then show ?thesis using assms Inr by (cases x) (simp add: switch_dst_def Let_def d(1) succ linked_def)
  qed (use assms in \<open>auto simp: switch_dst_def Let_def d(1) succ linked_def\<close>)
qed

lemma override_returns:
  assumes "world_ok w" and "length (prtVer ch) = 2" and "\<not> tsFromSNI ts \<longrightarrow> linked ts"
  shows "succeeds (override_dst srv ch sni ts w) going"
proof -
  let ?stop = "\<not> tsFromSNI ts \<and> pSniffOverrideMode (tsPolicy ts) = SniffOverridePolicyExists"
  obtain v st where v: "genPolicy (Some (srvLogger srv)) (srvRoute srv) (srvResolve srv) sni False ?stop (wRoute w) = Some (v, st)"
    "inv st" "v \<in> {failed_verdict, blocked_verdict} \<or> ?stop \<and> v = not_found_verdict \<or> (\<exists>h p. v = routed h p \<and> dst_ok h \<and> good p)"
    using route_law [of "wRoute w" sni False ?stop] assms(1) unfolding world_ok_def by blast
  let ?w = "w\<lparr>wRoute := st\<rparr>"
  have w: "world_ok ?w" using v(2) assms(1) by (simp add: world_ok_def)
  consider "v = failed_verdict" | "v = blocked_verdict" | "v = not_found_verdict" "\<not> tsFromSNI ts"
    | h p where "v = routed h p" "dst_ok h" "good p" using v(3) by blast
  then show ?thesis
  proof cases
    case (4 h p)
    have sw: "succeeds (switch_dst srv (Some h) p ts ?w) going" by (rule switch_returns [OF w 4(2,3) assms(3)])
    show ?thesis
      using v(1) w 4(1) sw alert_returns [OF assms(2), of tlsAlertAccessDenied tlsAlertLevelFatal ts]
        check_returns [OF assms(2), of "isTLS13 ch" p ts]
      by (auto simp: override_dst_def succ routed_def Let_def elim!: succeeds_mono)
  qed (use v w assms(3) in \<open>auto simp: override_dst_def succ Let_def failed_verdict_def blocked_verdict_def not_found_verdict_def\<close>)
qed

lemma sni_returns:
  assumes "world_ok w" and "length (prtVer ch) = 2"
    and "if tsFromSNI ts then pSniffOverrideMode (tsPolicy ts) = SniffOverrideAlways else linked ts"
  shows "succeeds (sniff_sni srv ch sni ts w) going"
proof -
  have only: "succeeds (do { (ok, ts) \<leftarrow> route_only srv ch sni ts; Some (ok, ts, w) }) going" if "linked ts"
    using route_only_returns [OF assms(2) that, of sni] assms(1) by (auto simp: succ elim!: succeeds_mono)
  show ?thesis
    using assms only override_returns [OF assms(1,2), of "ts\<lparr>tsOriginHost := sni\<rparr>" sni] override_returns [OF assms(1,2), of ts sni]
    by (auto simp: sniff_sni_def Let_def succ split: sniff_override_mode.split if_splits)
qed

text \<open>What is known of a ClientHello that was parsed without an error.\<close>

definition parsed :: "bytes \<Rightarrow> client_hello \<Rightarrow> bool" where
  "parsed rec ch \<longleftrightarrow> sni_in rec ch \<and> length (prtVer ch) = 2"

lemma sniff_returns:
  assumes "world_ok w" and "parsed rec ch"
    and "if tsFromSNI ts then pSniffOverrideMode (tsPolicy ts) = SniffOverrideAlways else linked ts"
  shows "succeeds (sniff srv ch rec ts w) (\<lambda>((ok, mode), ts, w). going (ok, ts, w) \<and> mode \<in> {ModeUnset, ModeDirect} \<and>
    (sniStart ch \<le> 0 \<longrightarrow> mode = ModeDirect))"
proof (cases "sniStart ch \<le> 0")
  case True
  then show ?thesis using assms by (simp add: sniff_def succ)
next
  case False
  then have "nat (sniStart ch) + sniLen ch \<le> length rec" using assms(2) by (auto simp: parsed_def sni_in_def)
  moreover have "succeeds (sniff_sni srv ch sni ts w) going" for sni
    by (rule sni_returns) (use assms in \<open>auto simp: parsed_def\<close>)
  ultimately show ?thesis using False assms by (auto simp: sniff_def succ elim!: succeeds_mono)
qed

lemma ensure_returns: "linked ts \<Longrightarrow> ensure_dst srv ts w = Some (True, ts, w)"
  by (auto simp: ensure_dst_def linked_def)

lemma send_returns:
  assumes "world_ok w" and "linked ts" and "parsed rec ch" and "mode = ModeDirect \<or> mode = pMode (tsPolicy ts) \<and> 0 < sniStart ch"
  shows "succeeds (send_hello srv mode ch rec ts w) going"
proof -
  have good: "sendable (tsPolicy ts)" using good_law assms(2) by (simp add: linked_def)
  have sni: "58 \<le> nat (sniStart ch)" "nat (sniStart ch) + sniLen ch \<le> length rec" if "mode \<noteq> ModeDirect"
    using assms(3,4) that by (auto simp: parsed_def sni_in_def)
  have plain: "succeeds (do { (r, ts) \<leftarrow> write_dst (conn_write rec) ts; Some (\<not> isl r, ts, w) }) going"
    using write_dst_conn [OF assms(2), of rec] assms(1) by (auto simp: succ elim!: succeeds_mono)
  show ?thesis
  proof (cases mode)
    case ModeTLSRF
    then have counts: "2 \<le> pNumRecords (tsPolicy ts) \<or> 0 \<le> pNumRecords (tsPolicy ts) \<and> 0 \<le> pNumSegments (tsPolicy ts)"
      using assms(4) good by (auto simp: sendable_def)
    have "succeeds (write_dst (sendRecords rec (nat (sniStart ch)) (sniLen ch) (pNumRecords (tsPolicy ts)) (pNumSegments (tsPolicy ts))
        (minor_of (tsPolicy ts)) (opts_of (tsPolicy ts))) ts) (\<lambda>(_, ts'). linked ts')"
      by (rule write_dst_returns [OF assms(2) fragments_return [OF counts sni]]) (simp_all add: ModeTLSRF)
    then show ?thesis
      using ModeTLSRF assms(1) by (auto simp: send_hello_def Let_def succ elim!: succeeds_mono)
  next
    case ModeTTLD
    then have f: "finds_ttl (tsPolicy ts)" using assms(4) good by (auto simp: sendable_def)
    obtain c ra where d: "tsDst ts = Some (c, ra)" using assms(2) by (auto simp: linked_def)
    obtain x t where x: "getFakeTTL (srvTTL srv) (srvCalc srv) (Some (srvLogger srv)) (tsPolicy ts) ra (wTTL w) = Some (x, t)" "ttl_ok t"
      using fake_ttl_returns [OF _ f, of "wTTL w" "srvTTL srv" "srvCalc srv" "srvLogger srv" ra] assms(1)
      by (auto simp: world_ok_def succeeds_def)
    have "\<exists>r c'. desyncSend rec (nat (sniStart ch)) (sniLen ch) ttl c = Some (r, c')" for ttl c
      using sends_desync [OF sni(2)] sends_returns ModeTTLD by (metis mode.distinct)
    then have "succeeds (write_dst (desyncSend rec (nat (sniStart ch)) (sniLen ch) ttl) ts) (\<lambda>(_, ts'). linked ts')" for ttl
      by (rule write_dst_returns [OF assms(2)])
    from succeeds_mono [OF this] show ?thesis using ModeTTLD d x assms(1,2)
      by (cases x) (auto simp: send_hello_def Let_def succ world_ok_def)
  qed (use plain assms(1,2) in \<open>simp_all add: send_hello_def Let_def succ\<close>)
qed

lemma finish_returns:
  assumes "world_ok w" and "parsed rec ch"
    and "if tsFromSNI ts then pSniffOverrideMode (tsPolicy ts) = SniffOverrideAlways else linked ts"
  shows "succeeds (finish_tls srv ch rec ts w) going"
proof -
  obtain ok mode ts1 w1 where s: "sniff srv ch rec ts w = Some ((ok, mode), ts1, w1)" "world_ok w1" "ok \<longrightarrow> linked ts1"
    "mode \<in> {ModeUnset, ModeDirect}" "sniStart ch \<le> 0 \<longrightarrow> mode = ModeDirect"
    using sniff_returns [OF assms] by (auto simp: succeeds_def)
  show ?thesis
  proof (cases ok)
    case False
    then show ?thesis using s by (simp add: finish_tls_def succ)
  next
    case True
    then have l: "linked ts1" using s(3) by simp
    have "succeeds (send_hello srv (if mode = ModeUnset then pMode (tsPolicy ts1) else mode) ch rec ts1 w1) going"
      by (rule send_returns [OF s(2) l assms(2)]) (use s(4,5) in auto)
    then show ?thesis using True s(1) ensure_returns [OF l] by (simp add: finish_tls_def)
  qed
qed

lemma tls_returns:
  assumes "world_ok w" and "5 \<le> n"
    and "if tsFromSNI ts then pSniffOverrideMode (tsPolicy ts) = SniffOverrideAlways else linked ts"
  shows "succeeds (handleTLS srv n ts w) going"
proof (cases "length (take n (tsInput ts)) < n")
  case True
  then show ?thesis using assms(1) by (auto simp: handleTLS_def Let_def succ)
next
  case False
  let ?rec = "take n (tsInput ts)" and ?ts = "ts\<lparr>tsInput := drop n (tsInput ts)\<rparr>"
  obtain ch where ch: "parseClientHello ?rec = Some ch" "sni_in ?rec ch" "chErr ch = None \<longrightarrow> length (prtVer ch) = 2"
    using parse_safe [of ?rec] order_trans [OF assms(2) False [unfolded not_less]] by (auto simp: succeeds_def)
  show ?thesis
  proof (cases "chErr ch")
    case (Some e)
    then show ?thesis using False ch(1) assms(1) by (simp add: handleTLS_def Let_def succ)
  next
    case None
    then have p: "parsed ?rec ch" "length (prtVer ch) = 2" using ch by (simp_all add: parsed_def)
    have "succeeds (finish_tls srv ch ?rec ?ts w) going"
      by (rule finish_returns [OF assms(1) p(1)]) (use assms(3) in \<open>auto simp: linked_def split: if_splits\<close>)
    moreover have "handleTLS srv n ts w =
        (if pMode (tsPolicy ts) = ModeTLSAlert then do {
           ts \<leftarrow> sendTLSAlert (prtVer ch) tlsAlertAccessDenied tlsAlertLevelFatal ?ts;
           Some (False, ts, w)
         }
         else do {
           (ok, ts) \<leftarrow> checkTLS13Only (isTLS13 ch) (tsPolicy ts) (prtVer ch) ?ts;
           (if ok then finish_tls srv ch ?rec ts w else Some (False, ts, w))
         })"
      using None False ch(1) by (simp add: handleTLS_def)
    ultimately show ?thesis
      using assms(1) alert_returns [OF p(2), of tlsAlertAccessDenied tlsAlertLevelFatal ?ts]
        check_returns [OF p(2), of "isTLS13 ch" "tsPolicy ts" ?ts]
      by (auto simp: succ elim!: succeeds_mono)
  qed
qed

text \<open>The end of a tunnel is a state of the world that is in order.\<close>

abbreviation ended :: "'a \<times> session \<times> ('r, 'n, 'd) world \<Rightarrow> bool" where
  "ended \<equiv> \<lambda>(_, _, w). world_ok w"

lemma end_returns:
  assumes "world_ok w" and "linked ts"
  shows "succeeds (end_tunnel n ts w) ended"
proof -
  have f: "linked ts' \<Longrightarrow> succeeds (forwardTCP ts') (\<lambda>_. True)" for ts'
    by (auto simp: forwardTCP_def linked_def succeeds_def)
  have "succeeds (drainBuffered n ts) (\<lambda>(_, ts'). linked ts')"
    using write_dst_conn [OF assms(2), of "take n (tsInput ts)"] assms(2)
    by (auto simp: drainBuffered_def succ linked_def elim!: succeeds_mono)
  then show ?thesis using f assms(1) by (auto simp: end_tunnel_def succ elim!: succeeds_mono)
qed

lemma http_returns:
  assumes "world_ok w" and "linked ts"
  shows "succeeds (handleHTTP h srv req ts w) going"
  using assms write_returns write_dst_conn [OF assms(2), of "httpWrite h req"]
  by (auto simp: handleHTTP_def Let_def ensure_returns succ split_def elim!: succeeds_mono)

lemma ending:
  assumes "succeeds m going"
  shows "succeeds (do { (ok, ts, w) \<leftarrow> m; (if ok then end_tunnel n ts w else Some (Closed, ts, w)) }) ended"
proof -
  obtain ok ts w where "m = Some (ok, ts, w)" "world_ok w" "ok \<longrightarrow> linked ts" using assms by (auto simp: succeeds_def)
  then show ?thesis using end_returns [of w ts n] by (simp add: succ)
qed

lemma tunnel_returns:
  assumes "world_ok w" and "linked ts" and "\<not> tsFromSNI ts"
  shows "succeeds (handleTunnel h srv n ts w) ended"
proof -
  have rest: "linked (ts\<lparr>tsInput := rest\<rparr>)" for rest using assms(2) by (simp add: linked_def)
  have "succeeds (handleTLS srv (5 + k) ts w) going" for k by (rule tls_returns) (use assms in simp_all)
  note tls = ending [OF this]
  note http = ending [OF http_returns [OF assms(1) rest]]
  have fwd: "forwardTCP ts = Some ts" using assms(2) by (auto simp: forwardTCP_def linked_def)
  show ?thesis
    using assms
    by (simp add: handleTunnel_def Let_def ensure_returns tls http fwd rest end_returns succeeds_Some split: prod.split sum.split)
qed

lemma sni_tunnel_returns:
  assumes "world_ok w" and "tsFromSNI ts" and "pSniffOverrideMode (tsPolicy ts) = SniffOverrideAlways"
  shows "succeeds (do { (ok, ts, w) \<leftarrow> handleTLS srv (5 + k) ts w; (if ok then end_tunnel n ts w else Some (Closed, ts, w)) }) ended"
  by (rule ending, rule tls_returns) (use assms in simp_all)

end

end
