(* ===== verification/Listeners.thy ===== *)
theory Listeners
  imports Socks5_Spec Http_Proxy
begin

text \<open>
  The listeners of \<^verbatim>\<open>core/socks5.go\<close> and \<^verbatim>\<open>core/sniproxy.go\<close>, from the address to the connections that are
  handled. The listener of the HTTP proxy is \<^verbatim>\<open>net/http\<close>.
\<close>

text \<open>
  \<^verbatim>\<open>listenTCP\<close> of \<^verbatim>\<open>core/net.go\<close>: the text of the address listened at, when resolving and listening, which
  are calls of the system, succeed.
\<close>

definition listenTCP :: "(string \<Rightarrow> error + 'a) \<Rightarrow> ('a \<Rightarrow> error + string) \<Rightarrow> string \<Rightarrow> error + string" where
  "listenTCP resolve listen addrStr = (case resolve addrStr of Inl e \<Rightarrow> Inl e | Inr addr \<Rightarrow> listen addr)"

text \<open>What a listener does with the results of \<^verbatim>\<open>Accept\<close>; nothing, when it could not listen.\<close>

definition serveSOCKS5 :: "error + string \<Rightarrow> accept_result list \<Rightarrow> serve_event list" where
  "serveSOCKS5 lst as = (case lst of Inl e \<Rightarrow> [] | Inr addr \<Rightarrow> serve_loop as 0 0)"

text \<open>
  The SNI proxy also takes the port from the text of the address, which all its sessions have as their
  port; a text that cannot be split is its panic, with the text \<^verbatim>\<open>impossible\<close>.
\<close>

definition serveSNIProxy :: "error + string \<Rightarrow> accept_result list \<Rightarrow> (string \<times> serve_event list) option" where
  "serveSNIProxy lst as =
     (case lst of
        Inl e \<Rightarrow> Some ([], [])
      | Inr addr \<Rightarrow> do { (_, port) \<leftarrow> split_host_port addr; Some (port, serve_loop as 0 0) })"

text \<open>It is impossible for the texts that \<^verbatim>\<open>net.TCPAddr\<close> has, a host without brackets joined with a port.\<close>

lemma sni_proxy_port:
  assumes "{CHR ''['', CHR '']''} \<inter> set host = {}"
  shows "serveSNIProxy (Inr (join_host_port host (show_nat port))) as = Some (show_nat port, serve_loop as 0 0)"
proof -
  have "{CHR '':'', CHR ''['', CHR '']''} \<inter> set (show_nat port) = {}"
    using show_nat_digits [of "CHR '':''" port] show_nat_digits [of "CHR ''[''" port] show_nat_digits [of "CHR '']''" port]
    by (auto simp: is_digit_def)
  from split_join_host_port [OF assms this] show ?thesis by (simp add: serveSNIProxy_def)
qed

text \<open>
  C40. The connections of a listener, of the SOCKS5 or of the SNI proxy, are numbered from 1, never 0,
  which marks the listener's own log lines, and fewer than 0xfffff connections apart their log
  prefixes differ, however often accepting fails in between.
\<close>

theorem connections_distinct_prefix:
  assumes "serveSOCKS5 lst as = evs \<or> serveSNIProxy lst as = Some (port, evs)" and "ids = served evs"
    and "i < j" and "j < length ids" and "j < i + 0xfffff"
  shows "ids ! i \<noteq> 0 \<and> unat (ids ! i) \<le> 0xfffff \<and> conn_id_to_hex5 pre (ids ! i) \<noteq> conn_id_to_hex5 pre 0 \<and>
    conn_id_to_hex5 pre (ids ! i) \<noteq> conn_id_to_hex5 pre (ids ! j)"
proof -
  have "evs = [] \<or> evs = serve_loop as 0 0"
    using assms(1) by (auto simp: serveSOCKS5_def serveSNIProxy_def split: sum.splits bind_splits)
  then have "evs = serve_loop as 0 0" using assms(2,4) by (auto simp: served_def)
  then have u: "unat (ids ! k) = k mod maxConnID + 1" if "k < length ids" for k
    using served_ids [of 0 0 k as 0] that assms(2) by simp
  show ?thesis using cycle_prefix [OF u u assms(3,5)] assms(3,4) by simp
qed

theorem connections_distinct_prefix_witness:
  "let ids = served (serveSOCKS5 (Inr ''127.0.0.1:1080'') [Accepted, TemporaryFailure, Accepted])
   in ids = [1, 2] \<and> conn_id_to_hex5 ''S'' (ids ! 0) \<noteq> conn_id_to_hex5 ''S'' (ids ! 1)"
proof -
  let ?as = "[Accepted, TemporaryFailure, Accepted]"
  have ids: "served (serveSOCKS5 (Inr ''127.0.0.1:1080'') ?as) = [1, 2]"
    by (simp add: serveSOCKS5_def served_def next_conn_id_def maxConnID_def)
  show ?thesis
    using connections_distinct_prefix [OF disjI1 [OF refl] ids [symmetric], of 0 1 "''S''"] ids by simp
qed

end
