(* ===== verification/Handlers.thy ===== *)
theory Handlers
  imports Tunnel_Returns Listeners
begin

text \<open>
  The handlers of the SOCKS5, HTTP and SNI proxies return, from the first byte of a client to the end
  of the tunnel, over a router and a dialer that do.
\<close>

section \<open>Up to the tunnel\<close>

definition opened_session :: "socks5_end \<Rightarrow> session option" where
  "opened_session e = (case e of Opened ts \<Rightarrow> Some ts | Refused _ _ \<Rightarrow> None)"

definition tunnelled_session :: "http_end \<Rightarrow> session option" where
  "tunnelled_session e = (case e of Tunnelled ts \<Rightarrow> Some ts | _ \<Rightarrow> None)"

context front_door
begin

text \<open>A session that has just been opened.\<close>

definition fresh :: "session \<Rightarrow> bool" where
  "fresh ts \<longleftrightarrow> good (tsPolicy ts) \<and> \<not> tsFromSNI ts \<and> (tsDst ts = None \<longrightarrow> is_true (pReplyFirst (tsPolicy ts)))"

definition answers :: "('e \<Rightarrow> session option) \<Rightarrow> 'n ttl_state \<Rightarrow> ('e \<times> ('r, 'n, 'd) world) option \<Rightarrow> bool" where
  "answers sess t m \<longleftrightarrow> succeeds m (\<lambda>(e, w). inv (wRoute w) \<and> wTTL w = t \<and> (\<forall>ts. sess e = Some ts \<longrightarrow> fresh ts))"

lemma answers_Some [simp]:
  "answers sess t (Some (e, w)) \<longleftrightarrow> inv (wRoute w) \<and> wTTL w = t \<and> (\<forall>ts. sess e = Some ts \<longrightarrow> fresh ts)"
  by (simp add: answers_def succeeds_def)

lemma session_simps [simp]:
  "opened_session (Opened ts) = Some ts" "opened_session (Refused c ls) = None"
  "tunnelled_session (Tunnelled ts) = Some ts" "tunnelled_session (Answered k s) = None" "tunnelled_session Unanswered = None"
  "tunnelled_session (Dropped c ls) = None" "tunnelled_session Lost = None"
  by (simp_all add: opened_session_def tunnelled_session_def)

lemma write_answers: "(\<And>r c. answers sess t (k (r, c))) \<Longrightarrow> answers sess t (conn_write b c \<bind> k)"
  by (simp add: conn_write_def net_call_def split: list.split option.split)

lemma reply_answers: "(\<And>ok c. answers sess t (k (ok, c))) \<Longrightarrow> answers sess t (sendReply b c \<bind> k)"
  by (auto simp: sendReply_def intro!: write_answers)

lemma refuse_answers: "inv (wRoute w) \<Longrightarrow> wTTL w = t \<Longrightarrow> answers opened_session t (refuse reply c w)"
  by (auto simp: refuse_def intro!: reply_answers split: option.split)

lemma dial_answers:
  assumes "inv st" and "dst_ok h" and "\<And>e n. answers sess t (k (Inl e, n))" and "\<And>l n. answers sess t (k (Inr (Some l), n))"
  shows "answers sess t (srvDial srv (Some h) port timeout delay n \<bind> k)"
proof -
  obtain r n' where d: "srvDial srv (Some h) port timeout delay n = Some (r, n')" "r \<noteq> Inr None"
    using dial_law [OF assms(1,2)] by blast
  show ?thesis
  proof (cases r)
    case (Inr l)
    then obtain x where "l = Some x" using d(2) by (cases l) simp_all
    then show ?thesis using Inr d(1) assms(4) by simp
  qed (use d(1) assms(3) in simp)
qed

lemma connect_answers:
  "inv (wRoute w) \<Longrightarrow> dst_ok h \<Longrightarrow> good p \<Longrightarrow> answers opened_session (wTTL w) (socks5_connect srv host (Some h) p inp c w)"
  by (auto simp: socks5_connect_def Let_def refuse_answers fresh_def simp del: One_nat_def
      split: option.split intro!: reply_answers dial_answers)

lemma routed_cases:
  assumes "inv st"
  obtains v st' where "genPolicy (Some (srvLogger srv)) (srvRoute srv) (srvResolve srv) host isIP False st = Some (v, st')" "inv st'"
    "v = failed_verdict \<or> v = blocked_verdict \<or> (\<exists>h p. v = routed h p \<and> dst_ok h \<and> good p)"
  using route_law [OF assms, of host isIP False] by blast

lemmas verdict_defs = failed_verdict_def blocked_verdict_def routed_def

lemma route_answers:
  assumes i: "inv (wRoute w)"
  shows "answers opened_session (wTTL w) (socks5_route srv host isIP inp c w)"
proof -
  obtain v st where v: "genPolicy (Some (srvLogger srv)) (srvRoute srv) (srvResolve srv) host isIP False (wRoute w) = Some (v, st)"
    "inv st" "v = failed_verdict \<or> v = blocked_verdict \<or> (\<exists>h p. v = routed h p \<and> dst_ok h \<and> good p)"
    by (rule routed_cases [OF i])
  show ?thesis
    using v refuse_answers [of "w\<lparr>wRoute := st\<rparr>"] connect_answers [of "w\<lparr>wRoute := st\<rparr>"]
    by (auto simp: socks5_route_def verdict_defs Let_def)
qed

lemma socks5_answers:
  assumes i: "inv (wRoute w)"
  shows "answers opened_session (wTTL w) (socks5_open srv inp c w)"
proof -
  have "answers opened_session (wTTL w) (socks5_request srv inp c w)" for inp c
    using refuse_answers [OF i refl] route_answers [OF i]
    by (auto simp: socks5_request_def split: option.split socks5_address.split)
  then show ?thesis
    using refuse_answers [OF i refl] by (auto simp: socks5_open_def split: option.split intro!: reply_answers)
qed

lemma http_open_answers:
  "inv (wRoute w) \<Longrightarrow> dst_ok h \<Longrightarrow> good p \<Longrightarrow> answers tunnelled_session (wTTL w) (http_open srv hj host port (Some h) p w)"
  by (auto simp: http_open_def Let_def fresh_def split: hijack.split intro!: write_answers dial_answers)

lemma http_connect_answers:
  assumes i: "inv (wRoute w)"
  shows "answers tunnelled_session (wTTL w) (handleHTTPConnect srv hj req w)"
proof (cases "split_host_port (prHost req)")
  case None
  then show ?thesis using i by (simp add: handleHTTPConnect_def)
next
  case (Some hp)
  obtain host port where hp: "hp = (host, port)" by (cases hp)
  obtain v st where v: "genPolicy (Some (srvLogger srv)) (srvRoute srv) (srvResolve srv) host False False (wRoute w) = Some (v, st)"
    "inv st" "v = failed_verdict \<or> v = blocked_verdict \<or> (\<exists>h p. v = routed h p \<and> dst_ok h \<and> good p)"
    by (rule routed_cases [OF i])
  show ?thesis
    using v i Some hp http_open_answers [of "w\<lparr>wRoute := st\<rparr>"]
    by (auto simp: handleHTTPConnect_def verdict_defs Let_def)
qed

end

section \<open>Through the tunnel\<close>

context tunnel_router
begin

lemma fresh_linked: "fresh ts \<Longrightarrow> linked ts \<and> \<not> tsFromSNI ts"
  using good_law [of "tsPolicy ts"] by (auto simp: fresh_def linked_def)

lemma socks5_returns:
  assumes "world_ok w"
  shows "succeeds (socks5Handler h srv n inp c w) (\<lambda>(_, _, w). world_ok w)"
proof -
  have "answers opened_session (wTTL w) (socks5_open srv inp c w)" by (rule socks5_answers) (use assms in \<open>simp add: world_ok_def\<close>)
  then obtain e w1 where e: "socks5_open srv inp c w = Some (e, w1)" "world_ok w1" "\<And>ts. e = Opened ts \<Longrightarrow> fresh ts"
    using assms by (auto simp: answers_def succeeds_def world_ok_def)
  show ?thesis
  proof (cases e)
    case (Opened ts)
    from tunnel_returns [OF e(2), of ts h n] show ?thesis
      using e(1,3) Opened fresh_linked by (auto simp: socks5Handler_def succ elim!: succeeds_mono)
  qed (use e in \<open>simp add: socks5Handler_def succ\<close>)
qed

lemma connect_returns:
  assumes "world_ok w" and "prMethod req = ''CONNECT''"
  shows "succeeds (httpHandler h srv trip ws hj n req w) (\<lambda>(_, _, w). world_ok w)"
proof -
  have "answers tunnelled_session (wTTL w) (handleHTTPConnect srv hj req w)"
    by (rule http_connect_answers) (use assms in \<open>simp add: world_ok_def\<close>)
  then obtain e w1 where e: "handleHTTPConnect srv hj req w = Some (e, w1)" "world_ok w1" "\<And>ts. e = Tunnelled ts \<Longrightarrow> fresh ts"
    using assms by (auto simp: answers_def succeeds_def world_ok_def)
  show ?thesis
  proof (cases e)
    case (Tunnelled ts)
    from tunnel_returns [OF e(2), of ts h n] show ?thesis
      using e(1,3) Tunnelled fresh_linked assms(2) by (auto simp: httpHandler_def succ elim!: succeeds_mono)
  qed (use e assms(2) in \<open>simp_all add: httpHandler_def succ\<close>)
qed

lemma sni_returns_always:
  assumes "world_ok w"
  shows "succeeds (handleTunnelSNI srv n port inp c w) ended"
proof -
  have s: "tsFromSNI (sni_session port inp c)" "pSniffOverrideMode (tsPolicy (sni_session port inp c)) = SniffOverrideAlways"
    by (simp_all add: sni_session_def)
  show ?thesis using sni_tunnel_returns [OF assms s] assms by (simp add: handleTunnelSNI_def Let_def succ)
qed

end

end
