(* ===== verification/Serve_Spec.thy ===== *)
theory Serve_Spec
  imports Builder_Spec Handlers Http_Spec
begin

text \<open>
  From the program to its clients: what has been built is what the handlers work with, and in a
  server that has started no request can make them panic, in whatever order requests, scans of
  the pools and answers of the network come.
\<close>

section \<open>The policies routing can give\<close>

definition stored :: "route_matcher \<Rightarrow> policy \<Rightarrow> bool" where
  "stored rm q \<longleftrightarrow> (\<exists>host. getDomainPolicy rm host = Some q) \<or> (\<exists>a. wf_addr a \<and> getIPPolicy rm a = Some (Some q))"

inductive given :: "route_matcher \<Rightarrow> policy \<Rightarrow> bool" for rm :: route_matcher where
  default: "given rm (defaultPolicy rm)"
| over_default: "\<forall>q \<in> set qs. stored rm q \<Longrightarrow> given rm (mergePolicies (qs @ [defaultPolicy rm]))"
| over: "stored rm q \<Longrightarrow> given rm p \<Longrightarrow> given rm (mergePolicies [q, p])"

text \<open>A name is unknown only when asked, and the policy is one of these.\<close>

definition gives :: "route_matcher \<Rightarrow> bool \<Rightarrow> (verdict \<times> 'r routing) option \<Rightarrow> bool" where
  "gives rm stop m \<longleftrightarrow> (\<forall>v st. m = Some (v, st) \<longrightarrow> (vNotFound v \<longrightarrow> stop) \<and> (\<forall>p. vPolicy v = Some p \<longrightarrow> given rm p))"

lemma gives_simps [simp]:
  "gives rm stop None" "gives rm stop (Some (v, st)) \<longleftrightarrow> (vNotFound v \<longrightarrow> stop) \<and> (\<forall>p. vPolicy v = Some p \<longrightarrow> given rm p)"
  by (simp_all add: gives_def)

lemma gives_bind [intro!]: "(\<And>x. m = Some x \<Longrightarrow> gives rm stop (k x)) \<Longrightarrow> gives rm stop (m \<bind> k)"
  by (cases m) simp_all

lemma verdict_gives [simp]:
  "\<not> vNotFound failed_verdict" "\<not> vNotFound blocked_verdict" "\<not> vNotFound (routed h p)"
  "vPolicy failed_verdict = None" "vPolicy blocked_verdict = None" "vPolicy not_found_verdict = None" "vPolicy (routed h p) = Some p"
  by (simp_all add: failed_verdict_def blocked_verdict_def not_found_verdict_def routed_def)









section \<open>The server that has been built\<close>














section \<open>Whole connections\<close>







end
