(* ===== verification/Pool_Scan.thy ===== *)
theory Pool_Scan
  imports IP_Pool "HOL-Library.Multiset"
begin

text \<open>
  \<^verbatim>\<open>scan\<close> of \<^verbatim>\<open>internal/core/ippool.go\<close> with its goroutines: one for each address, of which a
  semaphore lets a bounded number test at a time, and which send their results to a channel with
  room for all. The mutex of the scan keeps two scans apart. What the network does to the
  attempts on an address is an argument.
\<close>

section \<open>State and steps\<close>

text \<open>A test that is \<open>Running\<close> or has \<open>Reported\<close> holds a place of the semaphore.\<close>

datatype ip_test = Queued | Running | Reported | Over

record scan_state =
  tests :: "ip_test list"
  arrived :: "(nat \<times> int option list) list"

definition scan_init :: "nat \<Rightarrow> scan_state" where
  "scan_init n = \<lparr>tests = replicate n Queued, arrived = []\<rparr>"

fun places_of :: "ip_test \<Rightarrow> nat" where
  "places_of Running = 1"
| "places_of Reported = 1"
| "places_of _ = 0"

definition places_taken :: "scan_state \<Rightarrow> nat" where
  "places_taken s = sum_list (map places_of (tests s))"

inductive scan_step :: "nat \<Rightarrow> (nat \<Rightarrow> int option list) \<Rightarrow> scan_state \<Rightarrow> scan_state \<Rightarrow> bool" for places outcomes where
  acquire: "i < length (tests s) \<Longrightarrow> tests s ! i = Queued \<Longrightarrow> places_taken s < places \<Longrightarrow>
    scan_step places outcomes s (s\<lparr>tests := (tests s)[i := Running]\<rparr>)"
| report: "i < length (tests s) \<Longrightarrow> tests s ! i = Running \<Longrightarrow> length (arrived s) < length (tests s) \<Longrightarrow>
    scan_step places outcomes s \<lparr>tests = (tests s)[i := Reported], arrived = arrived s @ [(i, outcomes i)]\<rparr>"
| release: "i < length (tests s) \<Longrightarrow> tests s ! i = Reported \<Longrightarrow>
    scan_step places outcomes s (s\<lparr>tests := (tests s)[i := Over]\<rparr>)"

inductive scan_reach :: "nat \<Rightarrow> (nat \<Rightarrow> int option list) \<Rightarrow> nat \<Rightarrow> scan_state \<Rightarrow> bool" for places outcomes n where
  init: "scan_reach places outcomes n (scan_init n)"
| step: "scan_reach places outcomes n s \<Longrightarrow> scan_step places outcomes s t \<Longrightarrow> scan_reach places outcomes n t"

inductive_cases scan_stepE: "scan_step places outcomes s t"

text \<open>\<^verbatim>\<open>wg.Wait\<close> returns.\<close>

definition scan_over :: "scan_state \<Rightarrow> bool" where
  "scan_over s \<longleftrightarrow> (\<forall>x \<in> set (tests s). x = Over)"

section \<open>The tests end\<close>

fun steps_of :: "ip_test \<Rightarrow> nat" where
  "steps_of Queued = 3"
| "steps_of Running = 2"
| "steps_of Reported = 1"
| "steps_of Over = 0"

lemma scan_step_decreases:
  assumes "scan_step places outcomes s t"
  shows "sum_list (map steps_of (tests t)) < sum_list (map steps_of (tests s))"
  using assms
proof cases
  case (acquire i)
  then show ?thesis using sum_list_map_update [of i "tests s" steps_of Running] by simp
next
  case (report i)
  then show ?thesis using sum_list_map_update [of i "tests s" steps_of Reported] by simp
next
  case (release i)
  then show ?thesis using sum_list_map_update [of i "tests s" steps_of Over] by simp
qed

section \<open>Invariant\<close>

text \<open>
  Each test that has got as far has sent its result, once; no more places are taken than there are.
\<close>

fun has_sent :: "ip_test \<Rightarrow> bool" where
  "has_sent Reported = True"
| "has_sent Over = True"
| "has_sent _ = False"

definition scan_inv :: "nat \<Rightarrow> (nat \<Rightarrow> int option list) \<Rightarrow> nat \<Rightarrow> scan_state \<Rightarrow> bool" where
  "scan_inv places outcomes n s \<longleftrightarrow> length (tests s) = n \<and> places_taken s \<le> places \<and>
     (\<exists>is. arrived s = map (\<lambda>i. (i, outcomes i)) is \<and> distinct is \<and> set is = {i. i < n \<and> has_sent (tests s ! i)})"

lemma scan_invE:
  assumes "scan_inv places outcomes n s"
  obtains "is" where "length (tests s) = n" "places_taken s \<le> places" "arrived s = map (\<lambda>i. (i, outcomes i)) is"
    "distinct is" "set is = {i. i < n \<and> has_sent (tests s ! i)}"
  using assms unfolding scan_inv_def by blast

lemma scan_invI:
  "length (tests s) = n \<Longrightarrow> places_taken s \<le> places \<Longrightarrow> arrived s = map (\<lambda>i. (i, outcomes i)) is \<Longrightarrow> distinct is \<Longrightarrow>
   set is = {i. i < n \<and> has_sent (tests s ! i)} \<Longrightarrow> scan_inv places outcomes n s"
  unfolding scan_inv_def by blast

lemma sent_update: "i < n \<Longrightarrow> length xs = n \<Longrightarrow>
    {j. j < n \<and> has_sent (xs[i := x] ! j)} =
    (if has_sent x then insert i {j. j < n \<and> has_sent (xs ! j)} else {j. j < n \<and> has_sent (xs ! j)} - {i})"
  by (auto simp: nth_list_update)

lemma scan_inv_step:
  assumes "scan_inv places outcomes n s" and "scan_step places outcomes s t"
  shows "scan_inv places outcomes n t"
proof -
  obtain "is" where inv: "length (tests s) = n" "places_taken s \<le> places" "arrived s = map (\<lambda>i. (i, outcomes i)) is"
    "distinct is" "set is = {i. i < n \<and> has_sent (tests s ! i)}" by (rule scan_invE [OF assms(1)])
  note sent = sent_update [of _ n "tests s", OF _ inv(1)]
  from assms(2) show ?thesis
  proof cases
    case (acquire i)
    have i: "i < n" and f: "\<not> has_sent (tests s ! i)" using acquire(2,3) inv(1) by simp_all
    show ?thesis
    proof (rule scan_invI [of _ _ _ _ "is"])
      show "places_taken t \<le> places"
        using acquire sum_list_map_update [of i "tests s" places_of Running] by (simp add: places_taken_def)
      show "set is = {j. j < n \<and> has_sent (tests t ! j)}" using f unfolding acquire(1) inv(5) by (auto simp: sent [OF i])
    qed (use acquire(1) inv in simp_all)
  next
    case (report i)
    have i: "i < n" and f: "\<not> has_sent (tests s ! i)" using report(2,3) inv(1) by simp_all
    show ?thesis
    proof (rule scan_invI [of _ _ _ _ "is @ [i]"])
      show "places_taken t \<le> places"
        using report inv(2) sum_list_map_update [of i "tests s" places_of Reported] by (simp add: places_taken_def)
      show "distinct (is @ [i])" using inv(4,5) f by simp
      show "set (is @ [i]) = {j. j < n \<and> has_sent (tests t ! j)}" unfolding report(1) by (simp add: sent [OF i] inv(5))
    qed (use report(1) inv in simp_all)
  next
    case (release i)
    have i: "i < n" and f: "has_sent (tests s ! i)" using release(2,3) inv(1) by simp_all
    show ?thesis
    proof (rule scan_invI [of _ _ _ _ "is"])
      show "places_taken t \<le> places"
        using release inv(2) sum_list_map_update [of i "tests s" places_of Over] by (simp add: places_taken_def)
      show "set is = {j. j < n \<and> has_sent (tests t ! j)}" using f i unfolding release(1) inv(5) by (auto simp: sent [OF i])
    qed (use release(1) inv in simp_all)
  qed
qed

lemma scan_reach_inv: "scan_reach places outcomes n s \<Longrightarrow> scan_inv places outcomes n s"
proof (induction rule: scan_reach.induct)
  case init
  have "places_taken (scan_init n) = 0" by (simp add: places_taken_def scan_init_def sum_list_replicate)
  then show ?case by (simp add: scan_inv_def scan_init_def)
qed (rule scan_inv_step)

text \<open>A test that is not over can go on, or waits for a place that another one holds: sending never blocks.\<close>

lemma scan_stuck:
  assumes "scan_inv places outcomes n s" and "0 < places" and "\<nexists>t. scan_step places outcomes s t"
  shows "scan_over s"
proof -
  obtain "is" where inv: "length (tests s) = n" "arrived s = map (\<lambda>i. (i, outcomes i)) is"
    "distinct is" "set is = {i. i < n \<and> has_sent (tests s ! i)}" by (rule scan_invE [OF assms(1)])
  have running: "tests s ! i \<noteq> Running" "tests s ! i \<noteq> Reported" if "i < n" for i
  proof -
    show "tests s ! i \<noteq> Reported" using assms(3) scan_step.release that inv(1) by blast
    show "tests s ! i \<noteq> Running"
    proof
      assume r: "tests s ! i = Running"
      then have "i \<notin> set is" unfolding inv(4) by simp
      moreover have "set is \<subseteq> {..<n}" unfolding inv(4) by blast
      ultimately have "set is \<subset> {..<n}" using that by blast
      then have "length is < n" using psubset_card_mono [of "{..<n}" "set is"] distinct_card [OF inv(3)] by simp
      then show False using assms(3) scan_step.report [of i s places outcomes] r that inv(1,2) by auto
    qed
  qed
  then have "\<forall>x \<in> set (tests s). places_of x = 0" using inv(1) by (auto simp: in_set_conv_nth) (metis places_of.elims)
  then have "places_taken s = 0" by (auto simp: places_taken_def)
  then have "tests s ! i \<noteq> Queued" if "i < n" for i
    using assms(2,3) scan_step.acquire [of i s places outcomes] that inv(1) by auto
  then have "tests s ! i = Over" if "i < n" for i using running [OF that] that by (cases "tests s ! i") auto
  then show ?thesis using inv(1) by (auto simp: scan_over_def in_set_conv_nth)
qed

section \<open>What a scan chooses\<close>

text \<open>The order of the results: first by loss, then by latency; the rest of \<^verbatim>\<open>scan\<close> keeps those below 1.\<close>

definition ip_key :: "int option list \<Rightarrow> rat \<times> int" where
  "ip_key x = (snd (testIP x), fst (testIP x))"

definition answered :: "(nat \<Rightarrow> int option list) \<Rightarrow> nat \<Rightarrow> bool" where
  "answered outcomes i \<longleftrightarrow> fst (ip_key (outcomes i)) < 1"

lemma scan_results_key:
  assumes "r \<in> set (scan_results (map (\<lambda>i. (i, outcomes i)) is))"
  shows "(loss r, latency r) = ip_key (outcomes (ipIndex r))"
  using assms by (auto simp: scan_results_def ip_key_def)

lemma scan_results_indexes:
  "map ipIndex (scan_results (map (\<lambda>i. (i, outcomes i)) is)) = filter (answered outcomes) is"
  by (induction "is") (auto simp: scan_results_def answered_def ip_key_def)

lemma best_of_results:
  fixes outcomes :: "nat \<Rightarrow> int option list" and "is" :: "nat list" and n :: nat
  defines "rs \<equiv> scan_results (map (\<lambda>i. (i, outcomes i)) is)"
  defines "best \<equiv> map ipIndex (take n (sort_key (\<lambda>r. (loss r, latency r)) rs))"
  assumes "distinct is"
  shows "distinct best" and "set best \<subseteq> {i \<in> set is. answered outcomes i}"
    and "length best = min n (card {i \<in> set is. answered outcomes i})"
    and "i \<in> set best \<Longrightarrow> j \<in> set is \<Longrightarrow> answered outcomes j \<Longrightarrow> j \<notin> set best \<Longrightarrow> ip_key (outcomes i) \<le> ip_key (outcomes j)"
proof -
  let ?k = "\<lambda>r. (loss r, latency r)"
  let ?ss = "sort_key ?k rs"
  have idxs: "map ipIndex rs = filter (answered outcomes) is" unfolding rs_def by (rule scan_results_indexes)
  have ms: "mset (map ipIndex ?ss) = mset (filter (answered outcomes) is)" unfolding idxs [symmetric] by simp
  have best: "best = take n (map ipIndex ?ss)" by (simp add: best_def take_map)
  have "distinct (map ipIndex ?ss)" using mset_eq_imp_distinct_iff [OF ms] assms(3) by simp
  then show "distinct best" unfolding best by (rule distinct_take)
  have all: "set (map ipIndex ?ss) = {i \<in> set is. answered outcomes i}" using mset_eq_setD [OF ms] by simp
  then show "set best \<subseteq> {i \<in> set is. answered outcomes i}" unfolding best using set_take_subset by metis
  have "length (map ipIndex ?ss) = card {i \<in> set is. answered outcomes i}"
    using distinct_card [OF \<open>distinct (map ipIndex ?ss)\<close>] all by simp
  then show "length best = min n (card {i \<in> set is. answered outcomes i})" unfolding best by simp
  assume i: "i \<in> set best" and j: "j \<in> set is" "answered outcomes j" "j \<notin> set best"
  obtain r where r: "r \<in> set (take n ?ss)" "ipIndex r = i" using i by (auto simp: best_def)
  obtain r' where r': "r' \<in> set ?ss" "ipIndex r' = j" using j all by (metis (mono_tags, lifting) imageE list.set_map mem_Collect_eq)
  have "r' \<notin> set (take n ?ss)" using j(3) r'(2) by (auto simp: best_def)
  then have "r' \<in> set (drop n ?ss)" using r'(1) by (metis UnE append_take_drop_id set_append)
  moreover have "sorted (map ?k (take n ?ss @ drop n ?ss))" unfolding append_take_drop_id by (rule sorted_sort_key)
  ultimately have "?k r \<le> ?k r'" using r(1) unfolding map_append sorted_append by force
  moreover have "r \<in> set rs" "r' \<in> set rs" using r'(1) in_set_takeD [OF r(1)] by auto
  ultimately show "ip_key (outcomes i) \<le> ip_key (outcomes j)"
    using scan_results_key [of _ outcomes "is"] r(2) r'(2) unfolding rs_def by metis
qed

definition best_indexes :: "ip_pool \<Rightarrow> nat list" where
  "best_indexes p = take (curValidIPs p) (bestIndexes p)"

definition best_chosen :: "nat \<Rightarrow> (nat \<Rightarrow> int option list) \<Rightarrow> nat set \<Rightarrow> nat list \<Rightarrow> bool" where
  "best_chosen wanted outcomes answer best \<longleftrightarrow>
     distinct best \<and> set best \<subseteq> answer \<and> length best = min wanted (card answer) \<and>
     (\<forall>i \<in> set best. \<forall>j \<in> answer - set best. ip_key (outcomes i) \<le> ip_key (outcomes j))"

lemma scan_over_arrived:
  assumes "scan_inv places outcomes n s" and "scan_over s"
  obtains "is" where "arrived s = map (\<lambda>i. (i, outcomes i)) is" "distinct is" "set is = {..<n}"
proof -
  obtain "is" where i: "length (tests s) = n" "arrived s = map (\<lambda>i. (i, outcomes i)) is" "distinct is"
    "set is = {i. i < n \<and> has_sent (tests s ! i)}" by (rule scan_invE [OF assms(1)])
  have "tests s ! j = Over" if "j < n" for j using assms(2) i(1) that by (simp add: scan_over_def)
  then have "set is = {..<n}" unfolding i(4) by auto
  with that i(2,3) show thesis by blast
qed

lemma scan_updates:
  assumes "pool_ok p" and "scan_inv places outcomes (length (poolIps p)) s" and "scan_over s"
  defines "answer \<equiv> {i. i < length (poolIps p) \<and> answered outcomes i}"
  shows "\<exists>p'. updateBest (scan_results (arrived s)) p = Some p' \<and> pool_ok p' \<and>
    (if answer = {} then p' = p else best_chosen (topIPCount p) outcomes answer (best_indexes p'))"
proof -
  let ?rs = "scan_results (arrived s)"
  obtain "is" where i: "arrived s = map (\<lambda>i. (i, outcomes i)) is" "distinct is" "set is = {..<length (poolIps p)}"
    by (rule scan_over_arrived [OF assms(2,3)])
  have answer: "{i \<in> set is. answered outcomes i} = answer" unfolding i(3) answer_def by auto
  have idxs: "map ipIndex ?rs = filter (answered outcomes) is" unfolding i(1) by (rule scan_results_indexes)
  have "ipIndex ` set ?rs \<subseteq> set is" using arg_cong [OF idxs, of set] by auto
  then have "\<forall>r \<in> set ?rs. ipIndex r < length (poolIps p)" unfolding i(3) by auto
  then obtain p' where p': "updateBest ?rs p = Some p'" "pool_ok p'"
    "?rs \<noteq> [] \<longrightarrow> best_indexes p' = map ipIndex (take (topIPCount p) (sort_key (\<lambda>r. (loss r, latency r)) ?rs))"
    using updateBest_pool_ok [OF assms(1)] unfolding best_indexes_def by blast
  have empty: "?rs = [] \<longleftrightarrow> answer = {}"
    using arg_cong [OF idxs, of "\<lambda>xs. xs = []"] answer by (auto simp: filter_empty_conv)
  note best = best_of_results [OF i(2), where outcomes = outcomes and n = "topIPCount p", folded i(1), unfolded answer]
  show ?thesis
  proof (cases "answer = {}")
    case True
    then show ?thesis using p'(1,2) empty by (auto simp: updateBest_def)
  next
    case False
    then have "best_chosen (topIPCount p) outcomes answer (best_indexes p')"
      unfolding best_chosen_def using p'(3) empty best(1-3) best(4) i(3) unfolding answer_def by auto
    then show ?thesis using p'(1,2) False by auto
  qed
qed

text \<open>
  C16. A scan of a pool in order ends whatever the network does and in whatever order its tests
  run: there is no infinite run, sending a result never blocks, and no more tests run at a time
  than allowed. Then the pool is still in order, and its best addresses are, once each, addresses
  that answered, as many as wanted and possible, none of them behind one left out in loss
  and latency; if none answered, the pool keeps what it had.
\<close>

theorem pool_scan_best:
  assumes "pool_ok p" and "0 < poolConcurrency p"
    and "scan_reach (poolConcurrency p) outcomes (length (poolIps p)) s"
  shows "wf {(t, u). scan_step (poolConcurrency p) outcomes u t} \<and> places_taken s \<le> poolConcurrency p \<and>
    ((\<nexists>t. scan_step (poolConcurrency p) outcomes s t) \<longrightarrow> scan_over s) \<and>
    (scan_over s \<longrightarrow> (\<exists>p'. updateBest (scan_results (arrived s)) p = Some p' \<and> pool_ok p' \<and>
       (let answer = {i. i < length (poolIps p) \<and> answered outcomes i}
        in if answer = {} then p' = p
           else distinct (best_indexes p') \<and> set (best_indexes p') \<subseteq> answer \<and>
             length (best_indexes p') = min (topIPCount p) (card answer) \<and>
             (\<forall>i \<in> set (best_indexes p'). \<forall>j \<in> answer - set (best_indexes p'). ip_key (outcomes i) \<le> ip_key (outcomes j)))))"
proof (intro conjI impI)
  note inv = scan_reach_inv [OF assms(3)]
  show "wf {(t, u). scan_step (poolConcurrency p) outcomes u t}"
    by (rule wf_subset [OF wf_measure [of "\<lambda>s. sum_list (map steps_of (tests s))"]]) (auto dest: scan_step_decreases)
  show "places_taken s \<le> poolConcurrency p" using inv by (rule scan_invE)
  show "scan_over s" if "\<nexists>t. scan_step (poolConcurrency p) outcomes s t" by (rule scan_stuck [OF inv assms(2) that])
qed (unfold Let_def best_chosen_def [symmetric], rule scan_updates [OF assms(1) scan_reach_inv [OF assms(3)]])

text \<open>Two addresses, one test at a time; the second does not answer the first of two attempts.\<close>

definition demo_tests :: "nat \<Rightarrow> int option list" where
  "demo_tests i = (if i = 0 then [Some 5, Some 7] else [None, Some 2])"

lemma demo_scan: "\<exists>s. scan_reach 1 demo_tests 2 s \<and> scan_over s"
proof -
  let ?s = "\<lambda>ts rs. \<lparr>tests = ts, arrived = rs\<rparr>"
  let ?a = "[(1, demo_tests 1)]" and ?b = "[(1, demo_tests 1), (0, demo_tests 0)]"
  note n = places_taken_def
  have "scan_reach 1 demo_tests 2 (?s [Queued, Queued] [])"
    using scan_reach.init [of 1 demo_tests 2] by (simp add: scan_init_def numeral_2_eq_2)
  then have "scan_reach 1 demo_tests 2 (?s [Queued, Running] [])"
    by (rule scan_reach.step) (use scan_step.acquire [of 1 "?s [Queued, Queued] []" 1 demo_tests] n in simp)
  then have "scan_reach 1 demo_tests 2 (?s [Queued, Reported] ?a)"
    by (rule scan_reach.step) (use scan_step.report [of 1 "?s [Queued, Running] []" 1 demo_tests] in simp)
  then have "scan_reach 1 demo_tests 2 (?s [Queued, Over] ?a)"
    by (rule scan_reach.step) (use scan_step.release [of 1 "?s [Queued, Reported] ?a" 1 demo_tests] in simp)
  then have "scan_reach 1 demo_tests 2 (?s [Running, Over] ?a)"
    by (rule scan_reach.step) (use scan_step.acquire [of 0 "?s [Queued, Over] ?a" 1 demo_tests] n in simp)
  then have "scan_reach 1 demo_tests 2 (?s [Reported, Over] ?b)"
    by (rule scan_reach.step) (use scan_step.report [of 0 "?s [Running, Over] ?a" 1 demo_tests] in simp)
  then have "scan_reach 1 demo_tests 2 (?s [Over, Over] ?b)"
    by (rule scan_reach.step) (use scan_step.release [of 0 "?s [Reported, Over] ?b" 1 demo_tests] in simp)
  then show ?thesis by (intro exI conjI, assumption) (simp add: scan_over_def)
qed

theorem pool_scan_best_witness:
  "\<exists>s p'. scan_reach 1 demo_tests 2 s \<and> scan_over s \<and>
     updateBest (scan_results (arrived s)) (small_pool\<lparr>poolConcurrency := 1\<rparr>) = Some p' \<and> set (best_indexes p') = {0, 1}"
proof -
  let ?p = "small_pool\<lparr>poolConcurrency := 1\<rparr>"
  obtain s where s: "scan_reach 1 demo_tests 2 s" "scan_over s" using demo_scan by blast
  have p: "pool_ok ?p" "0 < poolConcurrency ?p" "length (poolIps ?p) = 2" "poolConcurrency ?p = 1" "topIPCount ?p = 2"
    by (auto simp: pool_ok_def small_pool_def wf_addr_def)
  have "answered demo_tests 0" "answered demo_tests 1"
    by (simp_all add: answered_def ip_key_def testIP_def demo_tests_def)
  then have a: "{i. i < length (poolIps ?p) \<and> answered demo_tests i} = {0, 1}" unfolding p(3) by (auto simp: less_Suc_eq numeral_2_eq_2)
  have "scan_reach (poolConcurrency ?p) demo_tests (length (poolIps ?p)) s" unfolding p(3,4) by (rule s(1))
  from pool_scan_best [OF p(1,2) this] s(2)
  obtain p' where p': "updateBest (scan_results (arrived s)) ?p = Some p'" "distinct (best_indexes p')"
    "set (best_indexes p') \<subseteq> {0, 1}" "length (best_indexes p') = 2"
    unfolding a p(5) Let_def by auto
  then have "set (best_indexes p') = {0, 1}" using distinct_card [OF p'(2)] by (intro card_subset_eq) auto
  then show ?thesis using s p'(1) by blast
qed

end
