(* ===== verification/Other_Systems.thy ===== *)
theory Other_Systems
  imports Desync
begin

text \<open>
  The files of other systems: \<^verbatim>\<open>sendWithNoise\<close> of \<^verbatim>\<open>desync_windows.go\<close> and \<^verbatim>\<open>sendWithOOB\<close> of
  \<^verbatim>\<open>oob_windows.go\<close> in \<^verbatim>\<open>internal/core\<close>, the stubs there, and the resolver of
  \<^verbatim>\<open>internal/platform/godns.go\<close>. On Windows the fake packet is read from a file, which holds the
  real bytes when it is read again. The sleep is taken to be long enough for the first
  transmission; the semaphore that lets two transmissions run at a time only delays.
\<close>

section \<open>Fake packets on Windows\<close>

text \<open>What the wait for the transmission and its result give, when these calls do not fail.\<close>

record win_result =
  winEvent :: "32 word"
  winLastError :: "error option"
  winCount :: nat

definition WAIT_OBJECT_0 :: "32 word" where "WAIT_OBJECT_0 = 0"
definition WAIT_ABANDONED :: "32 word" where "WAIT_ABANDONED = 0x80"
definition WAIT_TIMEOUT :: "32 word" where "WAIT_TIMEOUT = 258"
definition WAIT_FAILED :: "32 word" where "WAIT_FAILED = 0xffffffff"

lemmas wait_events = WAIT_OBJECT_0_def WAIT_ABANDONED_def WAIT_TIMEOUT_def WAIT_FAILED_def

definition put_wire :: "wire list \<Rightarrow> unit io" where
  "put_wire ws c = Some (Inr (), c\<lparr>sent := sent c @ ws\<rparr>)"

text \<open>The switch on the event, then the number of bytes transmitted.\<close>

definition win_event :: "win_result \<Rightarrow> nat \<Rightarrow> unit io" where
  "win_event e realDataLen =
     (let result =
        seq (labelled ''get TransmitFile result'' (net_call [])) (\<lambda>_.
        if winCount e < realDataLen
        then throw (new_any [AString ''sent only '', AUint (winCount e), AString '' of '', AInt (int realDataLen), AString '' bytes''])
        else ret ()) in
      if winEvent e = WAIT_OBJECT_0 then result
      else if winEvent e = WAIT_TIMEOUT then throw (NewError ''wait for TransmitFile: timeout (5s)'')
      else if winEvent e = WAIT_ABANDONED then throw (NewError ''wait for TransmitFile: WAIT_ABANDONED'')
      else if winEvent e = WAIT_FAILED then
        (case with_str ''wait for TransmitFile: WAIT_FAILED'' (winLastError e) of None \<Rightarrow> ret () | Some x \<Rightarrow> throw x)
      else throw (new_any [AString ''wait for TransmitFile: unexpected event: '', AUint (unat (winEvent e))]))"

text \<open>
  From the end of the first transmission on: the file gets the real bytes, and what is
  retransmitted are those; when they cannot be written it is the fake bytes.
\<close>

definition win_replace :: "bytes \<Rightarrow> bytes \<Rightarrow> int \<Rightarrow> unit io" where
  "win_replace fakeData realData fakeTTL =
     attempt (seq (labelled ''seek start'' (net_call [])) (\<lambda>_.
        labelled ''write real data'' (net_call [Noise fakeData realData fakeTTL])))
       (\<lambda>r. case r of
          Inl e \<Rightarrow> seq (put_wire [Noise fakeData fakeData fakeTTL]) (\<lambda>_. throw e)
        | Inr _ \<Rightarrow> ret ())"

definition send_with_noise_windows :: "win_result \<Rightarrow> bytes \<Rightarrow> bytes \<Rightarrow> int \<Rightarrow> unit io" where
  "send_with_noise_windows e fakeData realData fakeTTL =
     (if length fakeData \<noteq> length realData
      then throw (new_any [AString ''invalid data length (fake='', AInt (int (length fakeData)),
        AString '',real='', AInt (int (length realData)), AString '')''])
      else
        seq (labelled ''get fd'' (net_call [])) (\<lambda>_.
        seq (labelled ''create temp file'' (net_call [])) (\<lambda>_.
        seq (labelled ''seek start'' (net_call [])) (\<lambda>_.
        seq (labelled ''write fake data'' (net_call [])) (\<lambda>_.
        seq (labelled ''sync fake data'' (net_call [])) (\<lambda>_.
        seq (labelled ''set fake ttl'' (net_call [])) (\<lambda>_.
        seq (labelled ''seek start'' (net_call [])) (\<lambda>_.
        seq (labelled ''create event'' (net_call [])) (\<lambda>_.
        seq get_raw_conn (\<lambda>_.
        seq (labelled ''raw control'' (net_call [])) (\<lambda>_.
        seq (labelled ''call TransmitFile'' (net_call [])) (\<lambda>_.
        seq (win_replace fakeData realData fakeTTL) (\<lambda>_.
        seq (labelled ''sync real data'' (net_call [])) (\<lambda>_.
        seq (labelled ''seek start'' (net_call [])) (\<lambda>_.
        seq (labelled ''set default ttl'' (net_call [])) (\<lambda>_.
        seq (labelled ''wait for TransmitFile'' (net_call [])) (\<lambda>_.
        win_event e (length realData))))))))))))))))))"

definition desyncSend_windows :: "win_result \<Rightarrow> bytes \<Rightarrow> nat \<Rightarrow> nat \<Rightarrow> int \<Rightarrow> unit io" where
  "desyncSend_windows e = desync_with (send_with_noise_windows e)"

lemma delivers_win_replace [io_delivers]: "delivers (win_replace f r ttl) [Noise f r ttl]"
proof -
  have m: "delivers (seq (labelled ''seek start'' (net_call [])) (\<lambda>_. labelled ''write real data'' (net_call [Noise f r ttl]))) ([] @ [Noise f r ttl])"
    by (intro io_delivers)
  show ?thesis unfolding delivers_def win_replace_def
  proof (intro allI impI)
    fix c c'
    assume "attempt (seq (labelled ''seek start'' (net_call [])) (\<lambda>_. labelled ''write real data'' (net_call [Noise f r ttl])))
       (\<lambda>r. case r of Inl e \<Rightarrow> seq (put_wire [Noise f f ttl]) (\<lambda>_. throw e) | Inr _ \<Rightarrow> ret ()) c = Some (Inr (), c')"
    then have "seq (labelled ''seek start'' (net_call [])) (\<lambda>_. labelled ''write real data'' (net_call [Noise f r ttl])) c = Some (Inr (), c')"
      by (auto simp: attempt_def seq_def [of "put_wire _"] put_wire_def throw_def ret_def split: option.splits sum.splits)
    then show "sent c' = sent c @ [Noise f r ttl]" using m unfolding delivers_def by fastforce
  qed
qed

lemma delivers_throw [io_delivers]: "delivers (throw e) ws"
  by (simp add: delivers_def throw_def)

lemma delivers_ret [io_delivers]: "delivers (ret ()) []"
  by (simp add: sends_delivers io_sends)

lemma delivers_if [io_delivers]: "(b \<Longrightarrow> delivers m ws) \<Longrightarrow> (\<not> b \<Longrightarrow> delivers n ws) \<Longrightarrow> delivers (if b then m else n) ws"
  by simp

lemma delivers_win_event [io_delivers]: "delivers (win_event e n) []"
proof -
  have "delivers (seq (labelled ''get TransmitFile result'' (net_call [])) (\<lambda>_.
      if winCount e < n then throw x else ret ())) ([] @ [])" for x
    by (intro io_delivers)
  then show ?thesis unfolding win_event_def Let_def
    by (intro delivers_if) (auto intro: io_delivers split: option.split)
qed

lemma delivers_win_noise [io_delivers]: "delivers (send_with_noise_windows e f r ttl) [Noise f r ttl]"
proof -
  have "delivers (send_with_noise_windows e f r ttl)
    ([] @ [] @ [] @ [] @ [] @ [] @ [] @ [] @ [] @ [] @ [] @ [Noise f r ttl] @ [] @ [] @ [] @ [] @ [])"
    unfolding send_with_noise_windows_def get_raw_conn_def by (intro io_delivers)
  then show ?thesis by simp
qed

text \<open>
  C18. Where the fake packet of Windows succeeds it does what that of Linux does: the same
  packets are on the wire in the same order as after the calls of Linux when none of them
  fails, from a connection with the same history. So the server reads the same bytes, and an
  observer the same zeros in the place of the name.
\<close>

theorem windows_as_linux:
  assumes "start + len \<le> length b" and "desyncSend_windows e b start len ttl c = Some (Inr (), c')"
    and "sent d = sent c" and "faults d = []"
  shows "\<exists>d'. desyncSend b start len ttl d = Some (Inr (), d') \<and> sent d' = sent c'"
proof -
  obtain pos where p: "findLastDotOrMidPos b start len = Some pos"
    "\<And>noise ttl. desync_with noise b start len ttl = desync_calls noise b start pos ttl"
    by (rule desync_cut [OF assms(1)]) blast
  have "delivers (desyncSend_windows e b start len ttl)
      ([] @ [] @ [] @ [Noise (take start b @ replicate (pos - start) 0) (take pos b) ttl] @ [Data (drop pos b)])"
    unfolding desyncSend_windows_def p(2) desync_calls_def get_raw_conn_def by (intro io_delivers)
  then have w: "sent c' = sent c @ desync_wire b start pos ttl" using assms(2) by (simp add: delivers_def desync_wire_def)
  obtain pos' where l: "findLastDotOrMidPos b start len = Some pos'" "sends (desyncSend b start len ttl) (desync_wire b start pos' ttl)"
    by (rule sends_desync [OF assms(1)])
  obtain r d' ws where "desyncSend b start len ttl d = Some (r, d')" "sent d' = sent d @ ws"
    "r = Inr () \<longrightarrow> ws = desync_wire b start pos' ttl" "faults d = [] \<longrightarrow> r = Inr () \<and> faults d' = []"
    by (rule sendsE [OF l(2)])
  then show ?thesis using w assms(3,4) p(1) l(1) by auto
qed

lemma demo_windows:
  "\<exists>c'. desyncSend_windows \<lparr>winEvent = 0, winLastError = None, winCount = 4\<rparr> [1, 2, 3, 97, 46, 98, 4] 3 3 2 \<lparr>sent = [], faults = []\<rparr> =
     Some (Inr (), c')"
proof -
  have "map_option fst (desyncSend_windows \<lparr>winEvent = 0, winLastError = None, winCount = 4\<rparr> [1, 2, 3, 97, 46, 98, 4] 3 3 2
     \<lparr>sent = [], faults = []\<rparr>) = Some (Inr ())" by code_simp
  then show ?thesis by auto
qed

theorem windows_as_linux_witness:
  "\<exists>c' d'. desyncSend_windows \<lparr>winEvent = 0, winLastError = None, winCount = 4\<rparr> [1, 2, 3, 97, 46, 98, 4] 3 3 2 \<lparr>sent = [], faults = []\<rparr> =
     Some (Inr (), c') \<and> desyncSend [1, 2, 3, 97, 46, 98, 4] 3 3 2 \<lparr>sent = [], faults = []\<rparr> = Some (Inr (), d') \<and> sent d' = sent c'"
proof -
  obtain c' where c: "desyncSend_windows \<lparr>winEvent = 0, winLastError = None, winCount = 4\<rparr> [1, 2, 3, 97, 46, 98, 4] 3 3 2
      \<lparr>sent = [], faults = []\<rparr> = Some (Inr (), c')" using demo_windows by blast
  show ?thesis using windows_as_linux [OF _ c, of "\<lparr>sent = [], faults = []\<rparr>"] c by auto
qed

section \<open>Urgent data on Windows\<close>

text \<open>
  \<open>n\<close> is what \<^verbatim>\<open>WSASend\<close> says it has sent when it does not fail; a part of it is taken to go
  out as ordinary bytes.
\<close>

definition send_with_oob_windows :: "nat \<Rightarrow> bytes \<Rightarrow> byte \<Rightarrow> unit io" where
  "send_with_oob_windows n dat oob =
     (let len = length dat + 1 in
      seq get_raw_conn (\<lambda>_.
      seq (labelled ''raw write'' (net_call [])) (\<lambda>_.
      seq (labelled ''wsasend (MSG_OOB)'' (net_call (if n < len then [Data (take n (dat @ [oob]))] else [Urgent dat oob]))) (\<lambda>_.
      if n < len
      then throw (new_any [AString ''sent only '', AUint n, AString '' of '', AUint len, AString '' bytes''])
      else ret ()))))"

text \<open>A call that succeeds has sent what the one of Unix sends, so the fragments read the same.\<close>

lemma delivers_oob_windows: "delivers (send_with_oob_windows n dat oob) [Urgent dat oob]"
proof (cases "n < length dat + 1")
  case True
  then show ?thesis
    by (auto simp: delivers_def send_with_oob_windows_def Let_def seq_def throw_def split: option.splits sum.splits)
next
  case False
  have "delivers (seq get_raw_conn (\<lambda>_. seq (labelled ''raw write'' (net_call [])) (\<lambda>_.
      seq (labelled ''wsasend (MSG_OOB)'' (net_call [Urgent dat oob])) (\<lambda>_. ret ())))) ([] @ [] @ [Urgent dat oob] @ [])"
    unfolding get_raw_conn_def by (intro io_delivers)
  then show ?thesis using False by (simp add: send_with_oob_windows_def Let_def)
qed

section \<open>Systems without fake packets\<close>

definition errTTLDNotSupported :: error where
  "errTTLDNotSupported = NewError ''`ttl-d` is not supported on current system''"

definition desyncSend_stub :: "bytes \<Rightarrow> nat \<Rightarrow> nat \<Rightarrow> int \<Rightarrow> unit io" where
  "desyncSend_stub record sniStart sniLen fakeTTL = throw errTTLDNotSupported"

definition getFakeTTL_stub :: "error + int" where
  "getFakeTTL_stub = Inl errTTLDNotSupported"

text \<open>\<^verbatim>\<open>waitForAck\<close> of all systems but Linux only sleeps.\<close>

definition wait_for_ack_stub :: "bool \<Rightarrow> unit io" where
  "wait_for_ack_stub enabled = put_wire [AckWait]"

lemma wait_for_ack_stub: "wait_for_ack_stub enabled = wait_for_ack False"
  by (rule ext) (simp add: wait_for_ack_stub_def put_wire_def wait_for_ack_def)

section \<open>The resolver of systems without one\<close>

text \<open>
  \<open>dns_dial\<close> is the dialer: an error, or a connection. The first server is dialled; the test of
  its error is the wrong way round.
\<close>

definition dns1 :: string where "dns1 = ''8.8.8.8:53''"
definition dns2 :: string where "dns2 = ''1.1.1.1:53''"

definition go_dns_dial :: "(string \<Rightarrow> error + 'c) \<Rightarrow> error + 'c option" where
  "go_dns_dial dns_dial =
     (case dns_dial dns1 of
        Inl _ \<Rightarrow> Inr None
      | Inr _ \<Rightarrow> (case dns_dial dns2 of Inl e \<Rightarrow> Inl e | Inr c \<Rightarrow> Inr (Some c)))"

text \<open>
  The second server is of no use: when the first cannot be reached there is neither a
  connection nor an error, and when it can, its connection is dropped for one to the second.
\<close>

lemma go_dns_dial_fallback:
  "dns_dial dns1 = Inl e \<Longrightarrow> go_dns_dial dns_dial = Inr None"
  "dns_dial dns1 = Inr c \<Longrightarrow> dns_dial dns2 = Inl e \<Longrightarrow> go_dns_dial dns_dial = Inl e"
  by (simp_all add: go_dns_dial_def)

end
