(* ===== verification/Splice.thy ===== *)
theory Splice
  imports Errors_Format
begin

text \<open>
  The loop around \<^verbatim>\<open>splice\<close> in \<^verbatim>\<open>sendWithNoise\<close> of \<^verbatim>\<open>internal/core/desync_linux.go\<close>, which
  moves the fake packet from a pipe to the socket. The outcomes of the calls are an argument. A
  call that fails returns the count -1; \<^verbatim>\<open>rawConn.Write\<close> waits for the socket and calls the
  function again as long as it returns false.
\<close>

datatype splice_result = Moved nat | Interrupted | WouldBlock | SpliceFails error

text \<open>
  \<^verbatim>\<open>remaining\<close> and \<^verbatim>\<open>spliceErr\<close> are the state; \<open>None\<close> when the loop still runs after the last
  of the given calls.
\<close>

definition EINTR :: error where "EINTR = LibError ''interrupted system call''"
definition EAGAIN :: error where "EAGAIN = LibError ''resource temporarily unavailable''"

fun splice_loop :: "int \<Rightarrow> error option \<Rightarrow> splice_result list \<Rightarrow> (int \<times> error option) option" where
  "splice_loop remaining spliceErr rs =
     (if remaining \<le> 0 then Some (remaining, spliceErr)
      else case rs of
             [] \<Rightarrow> None
           | Moved n # rs' \<Rightarrow> splice_loop (remaining - int n) None rs'
           | Interrupted # rs' \<Rightarrow> splice_loop remaining (Some EINTR) rs'
           | WouldBlock # rs' \<Rightarrow> splice_loop (remaining - - 1) (Some EAGAIN) rs'
           | SpliceFails e # rs' \<Rightarrow> Some (remaining - - 1, Some e))"

declare splice_loop.simps [simp del]

text \<open>
  What the kernel can answer while \<open>n\<close> bytes are in the pipe, whose writing end stays open: at
  most these are moved, at least one; an empty pipe would block.
\<close>

fun pipe_ok :: "nat \<Rightarrow> splice_result list \<Rightarrow> bool" where
  "pipe_ok n [] = True"
| "pipe_ok n (Moved k # rs) = (0 < k \<and> k \<le> n \<and> pipe_ok (n - k) rs)"
| "pipe_ok n (_ # rs) = pipe_ok n rs"

fun moved :: "splice_result list \<Rightarrow> nat" where
  "moved [] = 0"
| "moved (Moved k # rs) = k + moved rs"
| "moved (_ # rs) = moved rs"

lemma splice_step: "k < n \<Longrightarrow> splice_loop (int n) err (Moved k # rs) = splice_loop (int (n - k)) None rs"
  by (simp add: splice_loop.simps [of "int n"])

text \<open>As long as the socket never blocks the loop ends without an error when all bytes have been moved.\<close>

lemma splice_moves_all:
  assumes "pipe_ok n rs" and "WouldBlock \<notin> set rs" and "\<forall>e. SpliceFails e \<notin> set rs" and "0 < n"
  shows "moved rs = n \<Longrightarrow> splice_loop (int n) err rs = Some (0, None)"
    and "moved rs < n \<Longrightarrow> splice_loop (int n) err rs = None"
  using assms
proof (induction rs arbitrary: n err)
  case (Cons r rs)
  {
    case 1
    show ?case
    proof (cases r)
      case (Moved k)
      show ?thesis
      proof (cases "k = n")
        case True
        then show ?thesis using 1 Moved by (simp add: splice_loop.simps [of "int n"] splice_loop.simps [of 0])
      next
        case False
        then have k: "k < n" "moved rs = n - k" "pipe_ok (n - k) rs" using 1 Moved by auto
        then show ?thesis unfolding Moved splice_step [OF k(1)] using 1 by (intro Cons.IH(1)) auto
      qed
    next
      case Interrupted
      then show ?thesis using 1 Cons.IH(1) [of n] by (simp add: splice_loop.simps [of "int n" err])
    qed (use 1 in auto)
  next
    case 2
    show ?case
    proof (cases r)
      case (Moved k)
      then have k: "k < n" "moved rs < n - k" "pipe_ok (n - k) rs" using 2 by auto
      then show ?thesis unfolding Moved splice_step [OF k(1)] using 2 by (intro Cons.IH(2)) auto
    next
      case Interrupted
      then show ?thesis using 2 Cons.IH(2) [of n] by (simp add: splice_loop.simps [of "int n" err])
    qed (use 2 in auto)
  }
qed (simp_all add: splice_loop.simps [of _ _ "[]"])

text \<open>
  When the socket blocks once the loop never ends: each -1 counts one byte too much, and the pipe
  is empty before the count is zero.
\<close>

lemma splice_never_ends:
  assumes "pipe_ok n rs" and "\<forall>e. SpliceFails e \<notin> set rs" and "int n < remaining"
  shows "splice_loop remaining err rs = None"
  using assms
proof (induction rs arbitrary: n remaining err)
  case (Cons r rs)
  show ?case
  proof (cases r)
    case (Moved k)
    then show ?thesis using Cons.prems Cons.IH [of "n - k" "remaining - int k"] by (simp add: splice_loop.simps [of remaining])
  next
    case Interrupted
    then show ?thesis using Cons.prems Cons.IH [of n remaining] by (simp add: splice_loop.simps [of remaining err])
  next
    case WouldBlock
    then show ?thesis using Cons.prems Cons.IH [of n "remaining + 1"] by (simp add: splice_loop.simps [of remaining err])
  qed (use Cons.prems in auto)
qed (simp add: splice_loop.simps [of _ _ "[]"])

lemma splice_blocked_once:
  assumes "pipe_ok n rs" and "\<forall>e. SpliceFails e \<notin> set rs" and "0 < n"
  shows "splice_loop (int n) None (WouldBlock # rs) = None"
  using splice_never_ends [OF assms(1,2), of "int n + 1" "Some EAGAIN"] assms(3)
  by (simp add: splice_loop.simps [of "int n"])

end
