(* ===== verification/Log_Buffer.thy ===== *)
theory Log_Buffer
  imports Log_Level
begin

text \<open>
  The buffers in which \<^verbatim>\<open>internal/log/console.go\<close> composes its lines. Every goroutine that logs takes one
  from a pool they all share, fills it, hands it to the output in one \<^verbatim>\<open>Write\<close> and puts it back. A buffer
  is an address; the pool of \<^verbatim>\<open>sync\<close> gives any buffer it has, or a new one, and may forget any.
\<close>

section \<open>Buffers and the pool\<close>

record log_buffer =
  content :: string
  room :: nat

definition initialBufferSize :: nat where
  "initialBufferSize = 300"

definition new_buffer :: log_buffer where
  "new_buffer = \<lparr>content = [], room = initialBufferSize\<rparr>"

record buffer_pool =
  store :: "nat \<Rightarrow> log_buffer option"
  pooled :: "nat set"

text \<open>\<^verbatim>\<open>append\<close> keeps the capacity when there is room, and else takes one that suffices, here any.\<close>

definition append_room :: "log_buffer \<Rightarrow> string \<Rightarrow> nat \<Rightarrow> nat" where
  "append_room b t grown = (if length (content b) + length t \<le> room b then room b else max grown (length (content b) + length t))"

text \<open>A buffer that has grown too large is emptied and left to the garbage collector.\<close>

definition putBuffer :: "nat \<Rightarrow> buffer_pool \<Rightarrow> buffer_pool" where
  "putBuffer a p =
     (case store p a of
        None \<Rightarrow> p
      | Some b \<Rightarrow>
          if room b > 64 * 2 ^ 10 then p\<lparr>store := (store p)(a \<mapsto> \<lparr>content = [], room = 0\<rparr>)\<rparr>
          else p\<lparr>store := (store p)(a \<mapsto> b\<lparr>content := []\<rparr>), pooled := insert a (pooled p)\<rparr>)"

section \<open>The pieces of a line\<close>

text \<open>What \<^verbatim>\<open>output\<close> appends, one after the other; \<open>None\<close> is a panic on the way.\<close>

definition log_pieces :: "string \<Rightarrow> logger \<Rightarrow> level \<Rightarrow> string option list \<Rightarrow> string option list" where
  "log_pieces clock lg lvl args =
     (if logPrefix lg \<noteq> [] then [Some (logPrefix lg), Some '' ''] else []) @
     [Some clock, Some '' '', append_level [] lvl, Some '' ''] @ args @ [Some [char_of (10 :: nat)]]"

lemma args_text_append: "args_text (as @ bs) = do { s \<leftarrow> args_text as; t \<leftarrow> args_text bs; Some (s @ t) }"
  by (induction as) (auto split: bind_splits)

lemma append_level_prefix: "append_level b lvl = map_option ((@) b) (append_level [] lvl)"
  by (cases lvl) (simp_all add: append_level_def)

text \<open>They make the line.\<close>

lemma log_pieces_line:
  assumes "logLevel lg \<le> lvl"
  shows "log_output clock lg lvl args = map_option Some (args_text (log_pieces clock lg lvl args))"
  using assms append_level_prefix [of "logPrefix lg @ '' '' @ clock @ '' ''" lvl] append_level_prefix [of "clock @ '' ''" lvl]
  by (cases "append_level [] lvl"; cases "args_text args") (simp_all add: log_output_def log_pieces_def args_text_append not_less [symmetric])

section \<open>Steps\<close>

text \<open>
  Each call of \<^verbatim>\<open>output\<close> that writes is a number; after a panic the deferred \<^verbatim>\<open>putBuffer\<close> runs as well.
\<close>

datatype log_call = Waiting | Filling nat "string option list" | Leaving nat | Returned

fun holding :: "log_call \<Rightarrow> nat option" where
  "holding (Filling a ps) = Some a"
| "holding (Leaving a) = Some a"
| "holding _ = None"

fun has_written :: "log_call \<Rightarrow> bool" where
  "has_written (Leaving a) = True"
| "has_written Returned = True"
| "has_written _ = False"

record log_state =
  bufs :: buffer_pool
  calls :: "nat \<Rightarrow> log_call"
  writes :: "(nat \<times> string) list"

definition log_init :: log_state where
  "log_init = \<lparr>bufs = \<lparr>store = Map.empty, pooled = {}\<rparr>, calls = (\<lambda>_. Waiting), writes = []\<rparr>"

inductive log_step :: "(nat \<Rightarrow> string option list) \<Rightarrow> log_state \<Rightarrow> log_state \<Rightarrow> bool" for line where
  take_pooled: "calls s i = Waiting \<Longrightarrow> a \<in> pooled (bufs s) \<Longrightarrow>
    log_step line s (s\<lparr>bufs := (bufs s)\<lparr>pooled := pooled (bufs s) - {a}\<rparr>, calls := (calls s)(i := Filling a (line i))\<rparr>)"
| take_new: "calls s i = Waiting \<Longrightarrow> store (bufs s) a = None \<Longrightarrow>
    log_step line s (s\<lparr>bufs := (bufs s)\<lparr>store := (store (bufs s))(a \<mapsto> new_buffer)\<rparr>, calls := (calls s)(i := Filling a (line i))\<rparr>)"
| fill: "calls s i = Filling a (Some t # ps) \<Longrightarrow> store (bufs s) a = Some b \<Longrightarrow>
    log_step line s (s\<lparr>bufs := (bufs s)\<lparr>store := (store (bufs s))(a \<mapsto> \<lparr>content = content b @ t, room = append_room b t grown\<rparr>)\<rparr>,
      calls := (calls s)(i := Filling a ps)\<rparr>)"
| fault: "calls s i = Filling a (None # ps) \<Longrightarrow> log_step line s (s\<lparr>calls := (calls s)(i := Leaving a)\<rparr>)"
| hand_over: "calls s i = Filling a [] \<Longrightarrow> store (bufs s) a = Some b \<Longrightarrow>
    log_step line s (s\<lparr>calls := (calls s)(i := Leaving a), writes := writes s @ [(i, content b)]\<rparr>)"
| put_back: "calls s i = Leaving a \<Longrightarrow>
    log_step line s (s\<lparr>bufs := putBuffer a (bufs s), calls := (calls s)(i := Returned)\<rparr>)"
| forget: "log_step line s (s\<lparr>bufs := (bufs s)\<lparr>pooled := pooled (bufs s) - {a}\<rparr>\<rparr>)"

inductive log_reach :: "(nat \<Rightarrow> string option list) \<Rightarrow> log_state \<Rightarrow> bool" for line where
  init: "log_reach line log_init"
| step: "log_reach line s \<Longrightarrow> log_step line s t \<Longrightarrow> log_reach line t"

section \<open>Invariant\<close>

definition pool_ok :: "buffer_pool \<Rightarrow> bool" where
  "pool_ok p \<longleftrightarrow> (\<forall>a \<in> pooled p. \<exists>c \<le> 64 * 2 ^ 10. store p a = Some \<lparr>content = [], room = c\<rparr>)"

fun call_ok :: "string option list \<Rightarrow> buffer_pool \<Rightarrow> log_call \<Rightarrow> bool" where
  "call_ok l p (Filling a ps) \<longleftrightarrow> a \<notin> pooled p \<and>
     (\<exists>ts b. l = map Some ts @ ps \<and> store p a = Some b \<and> content b = concat ts \<and> length (content b) \<le> room b)"
| "call_ok l p (Leaving a) \<longleftrightarrow> a \<notin> pooled p \<and> store p a \<noteq> None"
| "call_ok l p _ \<longleftrightarrow> True"

definition calls_ok :: "(nat \<Rightarrow> string option list) \<Rightarrow> buffer_pool \<Rightarrow> (nat \<Rightarrow> log_call) \<Rightarrow> bool" where
  "calls_ok line p cs \<longleftrightarrow> (\<forall>i. call_ok (line i) p (cs i)) \<and> (\<forall>i j a. holding (cs i) = Some a \<longrightarrow> holding (cs j) = Some a \<longrightarrow> i = j)"

definition writes_ok :: "(nat \<Rightarrow> string option list) \<Rightarrow> log_state \<Rightarrow> bool" where
  "writes_ok line s \<longleftrightarrow> distinct (map fst (writes s)) \<and>
     (\<forall>(i, t) \<in> set (writes s). has_written (calls s i) \<and> args_text (line i) = Some t)"

lemma call_ok_held: "call_ok l p c \<Longrightarrow> holding c = Some a \<Longrightarrow> a \<notin> pooled p \<and> store p a \<noteq> None"
  by (cases c) auto

text \<open>What a call does leaves the others alone that hold other buffers.\<close>

lemma call_ok_frame:
  assumes "call_ok l p c" and "\<And>a. holding c = Some a \<Longrightarrow> a \<notin> pooled q \<and> store q a = store p a"
  shows "call_ok l q c"
  using assms by (cases c) auto

lemma calls_ok_update:
  assumes "calls_ok line p cs" and "call_ok (line i) q c"
    and "\<And>j a. j \<noteq> i \<Longrightarrow> holding (cs j) = Some a \<Longrightarrow> a \<notin> pooled q \<and> store q a = store p a \<and> holding c \<noteq> Some a"
  shows "calls_ok line q (cs(i := c))"
proof -
  have "call_ok (line j) q (cs j)" if "j \<noteq> i" for j
    using assms(1) assms(3) [OF that] call_ok_frame [of "line j" p "cs j" q] by (simp add: calls_ok_def)
  then show ?thesis using assms(1,2) assms(3) unfolding calls_ok_def by (metis fun_upd_apply)
qed

lemma putBuffer_ok:
  assumes "pool_ok p" and "store p a \<noteq> None" and "a \<notin> pooled p"
  shows "pool_ok (putBuffer a p)" "pooled (putBuffer a p) \<subseteq> insert a (pooled p)" "store (putBuffer a p) c = None \<longleftrightarrow> store p c = None"
    "c \<noteq> a \<Longrightarrow> store (putBuffer a p) c = store p c"
proof -
  obtain b where b: "store p a = Some b" using assms(2) by blast
  show "pool_ok (putBuffer a p)" using assms(1,3) b by (cases b) (auto simp: putBuffer_def pool_ok_def)
  show "pooled (putBuffer a p) \<subseteq> insert a (pooled p)" using b by (auto simp: putBuffer_def)
  show "store (putBuffer a p) c = None \<longleftrightarrow> store p c = None" using b by (simp add: putBuffer_def)
  show "c \<noteq> a \<Longrightarrow> store (putBuffer a p) c = store p c" using b by (simp add: putBuffer_def)
qed

lemma log_step_ok:
  assumes "log_step line s t" and "pool_ok (bufs s)" and "calls_ok line (bufs s) (calls s)"
  shows "pool_ok (bufs t) \<and> calls_ok line (bufs t) (calls t)"
proof -
  note update = calls_ok_update [OF assms(3)]
  have own: "call_ok (line i) (bufs s) (calls s i)" for i using assms(3) by (simp add: calls_ok_def)
  have held: "a \<notin> pooled (bufs s) \<and> store (bufs s) a \<noteq> None" if "holding (calls s i) = Some a" for i a
    using call_ok_held [OF own that] .
  have other: "holding (calls s j) \<noteq> Some a" if "holding (calls s i) = Some a" "j \<noteq> i" for i j a
    using assms(3) that unfolding calls_ok_def by blast
  show ?thesis
    using assms(1)
  proof cases
    case (take_pooled i a)
    obtain c where c: "store (bufs s) a = Some \<lparr>content = [], room = c\<rparr>" using assms(2) take_pooled(3) by (auto simp: pool_ok_def)
    have "calls_ok line (bufs t) (calls t)"
      unfolding take_pooled(1) using c held take_pooled(3) by simp (rule update, auto)
    then show ?thesis using assms(2) take_pooled(1) by (auto simp: pool_ok_def)
  next
    case (take_new i a)
    have a: "a \<notin> pooled (bufs s)" using assms(2) take_new(3) by (auto simp: pool_ok_def)
    have "calls_ok line (bufs t) (calls t)"
      unfolding take_new(1) using a held take_new(3) by simp (rule update, auto simp: new_buffer_def, fastforce)
    then show ?thesis using assms(2) take_new(1) a by (auto simp: pool_ok_def)
  next
    case (fill i a u ps b grown)
    have h: "holding (calls s i) = Some a" using fill(2) by simp
    obtain ts where ts: "line i = map Some ts @ Some u # ps" "content b = concat ts" "length (content b) \<le> room b"
      using own [of i] fill(2,3) by auto
    have "length (content b @ u) \<le> append_room b u grown" by (simp add: append_room_def)
    then have "call_ok (line i) (bufs t) (Filling a ps)"
      unfolding fill(1) using held [OF h] ts by (auto intro!: exI [of _ "ts @ [u]"])
    then have "calls_ok line (bufs t) (calls t)"
      unfolding fill(1) using held other [OF h] by simp (rule update, auto)
    then show ?thesis using assms(2) held [OF h] fill(1) by (auto simp: pool_ok_def)
  next
    case (fault i a ps)
    have h: "holding (calls s i) = Some a" using fault(2) by simp
    have "calls_ok line (bufs t) (calls t)" unfolding fault(1) using held other [OF h] held [OF h] by simp (rule update, auto)
    then show ?thesis using assms(2) fault(1) by simp
  next
    case (hand_over i a b)
    have h: "holding (calls s i) = Some a" using hand_over(2) by simp
    have "calls_ok line (bufs t) (calls t)" unfolding hand_over(1) using held other [OF h] held [OF h] by simp (rule update, auto)
    then show ?thesis using assms(2) hand_over(1) by simp
  next
    case (put_back i a)
    have h: "holding (calls s i) = Some a" using put_back(2) by simp
    have a: "store (bufs s) a \<noteq> None" "a \<notin> pooled (bufs s)" using held [OF h] by simp_all
    note p = putBuffer_ok [OF assms(2) a]
    have "c \<notin> pooled (putBuffer a (bufs s)) \<and> store (putBuffer a (bufs s)) c = store (bufs s) c"
      if "j \<noteq> i" "holding (calls s j) = Some c" for j c
    proof -
      have "c \<noteq> a" using other [OF h that(1)] that(2) by blast
      then show ?thesis using p(2) p(4) [of c] held [OF that(2)] by blast
    qed
    then have "calls_ok line (bufs t) (calls t)"
      unfolding put_back(1) by simp (rule update, auto)
    then show ?thesis using p(1) put_back(1) by simp
  next
    case (forget a)
    have "call_ok (line i) (bufs t) (calls s i)" for i
      by (rule call_ok_frame [OF own]) (use forget held in auto)
    then show ?thesis using assms(2,3) forget by (auto simp: pool_ok_def calls_ok_def)
  qed
qed

lemma log_step_writes:
  assumes "log_step line s t" and "calls_ok line (bufs s) (calls s)" and "writes_ok line s"
  shows "writes_ok line t"
  using assms(1)
proof cases
  case (hand_over i a b)
  then have "call_ok (line i) (bufs s) (Filling a [])" using assms(2) unfolding calls_ok_def by metis
  then obtain ts where "line i = map Some ts" "content b = concat ts" using hand_over(3) by auto
  moreover have "i \<notin> fst ` set (writes s)" using assms(3) hand_over(2) by (force simp: writes_ok_def)
  ultimately show ?thesis using assms(3) hand_over(1) by (auto simp: writes_ok_def args_texts)
qed (use assms(3) in \<open>force simp: writes_ok_def\<close>)+

text \<open>
  Whatever goroutines log at once, what reaches the output are whole lines, each the line of one call and
  none twice, and no buffer of the pool holds text of an earlier line or more than 64 KiB of memory.
\<close>

theorem log_lines_whole:
  assumes "log_reach (\<lambda>i. log_pieces (clock i) (lg i) (lvl i) (args i)) s" and "\<forall>i. logLevel (lg i) \<le> lvl i"
  shows "distinct (map fst (writes s)) \<and> (\<forall>(i, t) \<in> set (writes s). log_output (clock i) (lg i) (lvl i) (args i) = Some (Some t)) \<and>
    (\<forall>a \<in> pooled (bufs s). \<exists>c \<le> 65536. store (bufs s) a = Some \<lparr>content = [], room = c\<rparr>)"
proof -
  have "pool_ok (bufs s) \<and> calls_ok (\<lambda>i. log_pieces (clock i) (lg i) (lvl i) (args i)) (bufs s) (calls s) \<and>
      writes_ok (\<lambda>i. log_pieces (clock i) (lg i) (lvl i) (args i)) s"
    using assms(1)
  proof induction
    case init
    show ?case by (simp add: log_init_def pool_ok_def calls_ok_def writes_ok_def)
  next
    case (step s t)
    then show ?case using log_step_ok log_step_writes by blast
  qed
  then show ?thesis using assms(2) by (auto simp: pool_ok_def writes_ok_def log_pieces_line)
qed

end
